(* ===== verification/Prelude.thy ===== *)
theory Prelude
  imports Main "HOL-Library.Word"
begin

text \<open>
  What every component of the SSH development shares: the names of the machine types, the
  ways a C function of this program can fail to return, the error monad that threads them,
  memory accesses that are checked against the bounds of an array, and the generic lemmas
  on lists and words that the component theories use as simplification rules.
\<close>

unbundle bit_operations_syntax

section \<open>Machine types\<close>

type_synonym byte = "8 word"
type_synonym u16 = "16 word"
type_synonym u32 = "32 word"

text \<open>
  The collections of the development: \<open>getput\<close> holds the facts on fixed-width encodings,
  \<open>buffer_rules\<close> the behaviour of the FIFO buffers on well-formed arguments,
  \<open>cipher_rules\<close> the inversion laws of the ciphers.
\<close>

named_theorems getput
named_theorems buffer_rules
named_theorems cipher_rules

section \<open>How a call can fail\<close>

text \<open>
  \<open>Fatal\<close> is \<^verbatim>\<open>fatal()\<close> (log and exit), \<open>Disconnect\<close> is \<^verbatim>\<open>packet_disconnect()\<close> (send a
  disconnect message and exit), \<open>Assertion\<close> is a failed \<^verbatim>\<open>assert()\<close>, \<open>Undefined\<close> is an
  access outside an array, which C leaves undefined, and \<open>Diverges\<close> is a call that never
  returns. The string names the message or the place.
\<close>

datatype failure =
    Fatal string
  | Disconnect string
  | Assertion string
  | Undefined string
  | Diverges string

type_synonym 'a res = "failure + 'a"

definition rbind :: "'a res \<Rightarrow> ('a \<Rightarrow> 'b res) \<Rightarrow> 'b res" where
  "rbind m f = (case m of Inl e \<Rightarrow> Inl e | Inr x \<Rightarrow> f x)"

lemma rbind_simps [simp]:
  "rbind (Inl e) f = Inl e"
  "rbind (Inr x) f = f x"
  by (simp_all add: rbind_def)

lemma rbind_eq_Inr: "rbind m f = Inr y \<longleftrightarrow> (\<exists>x. m = Inr x \<and> f x = Inr y)"
  by (cases m) auto

lemma rbind_eq_Inl: "rbind m f = Inl e \<longleftrightarrow> m = Inl e \<or> (\<exists>x. m = Inr x \<and> f x = Inl e)"
  by (cases m) auto

lemma rbind_assoc: "rbind (rbind m f) g = rbind m (\<lambda>x. rbind (f x) g)"
  by (cases m) simp_all

lemma rbind_Inr [simp]: "rbind m Inr = m"
  by (cases m) simp_all

lemma rbind_cong [fundef_cong]:
  "m = m' \<Longrightarrow> (\<And>x. m' = Inr x \<Longrightarrow> f x = g x) \<Longrightarrow> rbind m f = rbind m' g"
  by (cases m') simp_all

text \<open>\<open>ensure c e\<close> is a C guard \<^verbatim>\<open>if (!c) fail(e);\<close>.\<close>

definition ensure :: "bool \<Rightarrow> failure \<Rightarrow> unit res" where
  "ensure c e = (if c then Inr () else Inl e)"

lemma ensure_simps [simp]:
  "ensure True e = Inr ()"
  "ensure False e = Inl e"
  "c \<Longrightarrow> ensure c e = Inr ()"
  "ensure c e = Inr u \<longleftrightarrow> c"
  "ensure c e = Inl e' \<longleftrightarrow> \<not> c \<and> e' = e"
  by (auto simp: ensure_def)

section \<open>Arrays in memory\<close>

text \<open>
  An array is the list of its elements. \<open>mem_read\<close> and \<open>mem_write\<close> are \<^verbatim>\<open>memcpy\<close> out of and
  into an array at a position, undefined outside its bounds. Freshly allocated memory has
  no specified contents; \<open>fresh\<close> takes zeros, and no theorem reads a byte that was not
  written before.
\<close>

definition fresh :: "nat \<Rightarrow> byte list" where
  "fresh n = replicate n 0"

definition mem_read :: "'a list \<Rightarrow> nat \<Rightarrow> nat \<Rightarrow> 'a list res" where
  "mem_read m p n =
     (if p + n \<le> length m then Inr (take n (drop p m)) else Inl (Undefined ''read''))"

definition mem_write :: "'a list \<Rightarrow> nat \<Rightarrow> 'a list \<Rightarrow> 'a list res" where
  "mem_write m p xs =
     (if p + length xs \<le> length m
      then Inr (take p m @ xs @ drop (p + length xs) m)
      else Inl (Undefined ''write''))"

lemma length_fresh [simp]: "length (fresh n) = n"
  by (simp add: fresh_def)

lemma mem_write_length: "mem_write m p xs = Inr m' \<Longrightarrow> length m' = length m"
  by (auto simp: mem_write_def split: if_splits)

lemma mem_write_eq_Inr:
  "mem_write m p xs = Inr m' \<longleftrightarrow>
     p + length xs \<le> length m \<and> m' = take p m @ xs @ drop (p + length xs) m"
  by (auto simp: mem_write_def)

lemma mem_read_eq_Inr:
  "mem_read m p n = Inr xs \<longleftrightarrow> p + n \<le> length m \<and> xs = take n (drop p m)"
  by (auto simp: mem_read_def)

lemma mem_read_write:
  assumes "mem_write m p xs = Inr m'" shows "mem_read m' p (length xs) = Inr xs"
proof -
  from assms have p: "p + length xs \<le> length m" and m': "m' = take p m @ xs @ drop (p + length xs) m"
    by (simp_all add: mem_write_eq_Inr)
  from p have "length (take p m) = p" by simp
  then show ?thesis using p by (simp add: mem_read_eq_Inr m')
qed

text \<open>\<open>splice\<close> is a write known to lie inside the array.\<close>

definition splice :: "'a list \<Rightarrow> nat \<Rightarrow> 'a list \<Rightarrow> 'a list" where
  "splice m p xs = take p m @ xs @ drop (p + length xs) m"

lemma length_splice [simp]: "p + length xs \<le> length m \<Longrightarrow> length (splice m p xs) = length m"
  by (simp add: splice_def)

lemma splice_append: "length a = p \<Longrightarrow> splice (a @ m) p xs = a @ xs @ drop (length xs) m"
  by (simp add: splice_def)

lemma take_splice: "p + length xs \<le> length m \<Longrightarrow> take (p + length xs) (splice m p xs) = take p m @ xs"
  by (simp add: splice_def)

section \<open>Lists\<close>

lemma take_drop_split:
  "a \<le> b \<Longrightarrow> take b xs = take a xs @ take (b - a) (drop a xs)"
  by (metis le_add_diff_inverse take_add)

lemma drop_take_append:
  "a \<le> b \<Longrightarrow> b \<le> length xs \<Longrightarrow> drop a (take b xs @ ys) = take (b - a) (drop a xs) @ ys"
  by (simp add: drop_take min_absorb2)

lemma length_4_conv: "length xs = 4 \<longleftrightarrow> (\<exists>a b c d. xs = [a, b, c, d])"
  by (auto simp: numeral_eq_Suc length_Suc_conv)

lemma length_2_conv: "length xs = 2 \<longleftrightarrow> (\<exists>a b. xs = [a, b])"
  by (auto simp: numeral_eq_Suc length_Suc_conv)

text \<open>The 8 byte blocks of an array, in order; the last one may be shorter.\<close>

fun blocks :: "'a list \<Rightarrow> 'a list list" where
  "blocks [] = []"
| "blocks (x # xs) = take 8 (x # xs) # blocks (drop 8 (x # xs))"

declare blocks.simps(2) [simp del]

lemma blocks_step: "xs \<noteq> [] \<Longrightarrow> blocks xs = take 8 xs # blocks (drop 8 xs)"
  by (cases xs) (simp_all add: blocks.simps(2))

lemma concat_blocks [simp]: "concat (blocks xs) = xs"
  by (induction xs rule: blocks.induct) (simp_all add: blocks.simps(2))

lemma dvd_8_Suc: "8 dvd Suc n \<Longrightarrow> 8 dvd n - 7 \<and> 7 \<le> n"
  by presburger

lemma blocks_append: "8 dvd length xs \<Longrightarrow> blocks (xs @ ys) = blocks xs @ blocks ys"
proof (induction xs rule: blocks.induct)
  case 1
  then show ?case by simp
next
  case (2 x xs)
  then show ?case using dvd_8_Suc [of "length xs"] by (simp add: blocks_step)
qed

lemma blocks_length: "8 dvd length xs \<Longrightarrow> b \<in> set (blocks xs) \<Longrightarrow> length b = 8"
proof (induction xs rule: blocks.induct)
  case (2 x xs)
  then have "8 dvd length xs - 7 \<and> 7 \<le> length xs" by (intro dvd_8_Suc) simp
  with 2 show ?case by (auto simp: blocks.simps(2))
qed simp

lemma length_blocks: "8 dvd length xs \<Longrightarrow> length (blocks xs) = length xs div 8"
proof (induction xs rule: blocks.induct)
  case (2 x xs)
  then have le: "8 dvd length xs - 7 \<and> 7 \<le> length xs" by (intro dvd_8_Suc) simp
  then have "length (blocks (drop 8 (x # xs))) = length (drop 8 (x # xs)) div 8" by (intro 2) simp
  then have "length (blocks (x # xs)) = Suc ((length xs - 7) div 8)" by (simp add: blocks.simps(2))
  moreover from le obtain k where "length xs = 8 * k + 7" by (metis dvdE le_add_diff_inverse2)
  ultimately show ?case by simp
qed simp

section \<open>Words\<close>

lemma unat_lt2p: "unat (w :: 'a::len word) < 2 ^ LENGTH('a)"
  by (rule unsigned_less)

lemma unat_plus_no_wrap:
  fixes a b :: "'a::len word"
  shows "unat a + unat b < 2 ^ LENGTH('a) \<Longrightarrow> unat (a + b) = unat a + unat b"
  by (simp add: unat_word_ariths)

lemma unat_minus_no_wrap:
  fixes a b :: "'a::len word"
  shows "b \<le> a \<Longrightarrow> unat (a - b) = unat a - unat b"
  by (simp add: unat_sub)

lemma unat_of_nat_small: "n < 2 ^ LENGTH('a::len) \<Longrightarrow> unat (of_nat n :: 'a word) = n"
  by (metis mod_less unat_of_nat)

lemma unat_eqI: "unat a = unat b \<Longrightarrow> a = b" for a b :: "'a::len word"
  by (rule unsigned_word_eqI)

lemma sint_of_nat_small: "n < 2 ^ 31 \<Longrightarrow> sint (of_nat n :: u32) = int n"
  by (simp only: signed_of_nat) (simp add: signed_take_bit_int_eq_self)

lemma bit_byte_beyond [simp]: "8 \<le> n \<Longrightarrow> \<not> bit (a :: byte) n"
  by (auto dest: bit_imp_le_length)

lemma byte_eqI: "(\<And>n. n < 8 \<Longrightarrow> bit a n = bit b n) \<Longrightarrow> a = b" for a b :: byte
  by (rule bit_word_eqI) simp

lemma word_xor_cancel [simp]:
  fixes x y z :: "'a::len word"
  shows "x XOR z = y XOR z \<longleftrightarrow> x = y" and "z XOR x = z XOR y \<longleftrightarrow> x = y" and "x XOR y = 0 \<longleftrightarrow> x = y"
    and "(x XOR y) XOR y = x" and "y XOR (y XOR x) = x" and "y XOR (x XOR y) = x"
proof -
  have *: "(a XOR b) XOR b = a" for a b :: "'a word" by (simp add: xor.assoc)
  then show "(x XOR y) XOR y = x" .
  show "x XOR z = y XOR z \<longleftrightarrow> x = y" by (metis *)
  show "z XOR x = z XOR y \<longleftrightarrow> x = y" by (metis * xor.commute)
  show "x XOR y = 0 \<longleftrightarrow> x = y" by (metis * xor_self_eq)
  show "y XOR (y XOR x) = x" "y XOR (x XOR y) = x" by (metis * xor.commute)+
qed

lemma ucast_ucast_byte [simp]: "ucast (ucast b :: u32) = b" for b :: byte
  by (rule byte_eqI) (simp add: bit_ucast_iff)

text \<open>Two 32 bit words agree when their four bytes do.\<close>

lemma u32_bytewise_eqI:
  fixes a b :: u32
  assumes "\<And>n. n < 8 \<Longrightarrow> bit a n = bit b n"
    and "\<And>n. 8 \<le> n \<Longrightarrow> n < 16 \<Longrightarrow> bit a n = bit b n"
    and "\<And>n. 16 \<le> n \<Longrightarrow> n < 24 \<Longrightarrow> bit a n = bit b n"
    and "\<And>n. 24 \<le> n \<Longrightarrow> n < 32 \<Longrightarrow> bit a n = bit b n"
  shows "a = b"
proof (rule bit_word_eqI)
  fix n assume "n < LENGTH(32)"
  then have "n < 32" by simp
  then consider "n < 8" | "8 \<le> n \<and> n < 16" | "16 \<le> n \<and> n < 24" | "24 \<le> n \<and> n < 32"
    by linarith
  then show "bit a n = bit b n" using assms by cases auto
qed

lemmas word_bit_simps = bit_or_iff bit_and_iff bit_xor_iff bit_push_bit_iff bit_ucast_iff
  bit_drop_bit_eq bit_take_bit_iff less_diff_conv2

end
