(* ===== verification/GetPut.thy ===== *)
theory GetPut
  imports Prelude
begin

text \<open>
  \<^verbatim>\<open>getput.h\<close>: the macros that store and extract 32 and 16 bit integers, most significant
  byte first and least significant byte first. A \<^verbatim>\<open>PUT\<close> macro is the list of the bytes it
  stores, a \<^verbatim>\<open>GET\<close> macro reads the first bytes of the list it is given.
\<close>

section \<open>The macros\<close>

definition GET_32BIT :: "byte list \<Rightarrow> u32" where
  "GET_32BIT cp = push_bit 24 (ucast (cp ! 0)) OR push_bit 16 (ucast (cp ! 1)) OR
                  push_bit 8 (ucast (cp ! 2)) OR ucast (cp ! 3)"

definition GET_16BIT :: "byte list \<Rightarrow> u32" where
  "GET_16BIT cp = push_bit 8 (ucast (cp ! 0)) OR ucast (cp ! 1)"

definition PUT_32BIT :: "u32 \<Rightarrow> byte list" where
  "PUT_32BIT v = [ucast (drop_bit 24 v), ucast (drop_bit 16 v), ucast (drop_bit 8 v), ucast v]"

definition PUT_16BIT :: "u32 \<Rightarrow> byte list" where
  "PUT_16BIT v = [ucast (drop_bit 8 v), ucast v]"

definition GET_32BIT_LSB_FIRST :: "byte list \<Rightarrow> u32" where
  "GET_32BIT_LSB_FIRST cp = ucast (cp ! 0) OR push_bit 8 (ucast (cp ! 1)) OR
                  push_bit 16 (ucast (cp ! 2)) OR push_bit 24 (ucast (cp ! 3))"

definition GET_16BIT_LSB_FIRST :: "byte list \<Rightarrow> u32" where
  "GET_16BIT_LSB_FIRST cp = ucast (cp ! 0) OR push_bit 8 (ucast (cp ! 1))"

definition PUT_32BIT_LSB_FIRST :: "u32 \<Rightarrow> byte list" where
  "PUT_32BIT_LSB_FIRST v =
     [ucast v, ucast (drop_bit 8 v), ucast (drop_bit 16 v), ucast (drop_bit 24 v)]"

definition PUT_16BIT_LSB_FIRST :: "u32 \<Rightarrow> byte list" where
  "PUT_16BIT_LSB_FIRST v = [ucast v, ucast (drop_bit 8 v)]"

section \<open>Lengths, prefixes and round trips\<close>

lemma length_PUT [simp]:
  "length (PUT_32BIT v) = 4"
  "length (PUT_16BIT v) = 2"
  "length (PUT_32BIT_LSB_FIRST v) = 4"
  "length (PUT_16BIT_LSB_FIRST v) = 2"
  by (simp_all add: PUT_32BIT_def PUT_16BIT_def PUT_32BIT_LSB_FIRST_def PUT_16BIT_LSB_FIRST_def)

lemma GET_32BIT_append [getput]:
  assumes "4 \<le> length xs" shows "GET_32BIT (xs @ ys) = GET_32BIT xs"
proof -
  have "\<forall>i < 4. (xs @ ys) ! i = xs ! i" using assms by (auto simp: nth_append)
  then show ?thesis by (simp add: GET_32BIT_def)
qed

lemma GET_32BIT_take [getput]: "4 \<le> n \<Longrightarrow> GET_32BIT (take n xs) = GET_32BIT xs"
  by (simp add: GET_32BIT_def)

lemma GET_32BIT_LSB_FIRST_append [getput]:
  assumes "4 \<le> length xs" shows "GET_32BIT_LSB_FIRST (xs @ ys) = GET_32BIT_LSB_FIRST xs"
proof -
  have "\<forall>i < 4. (xs @ ys) ! i = xs ! i" using assms by (auto simp: nth_append)
  then show ?thesis by (simp add: GET_32BIT_LSB_FIRST_def)
qed

lemma GET_32BIT_LSB_FIRST_take [getput]:
  "4 \<le> n \<Longrightarrow> GET_32BIT_LSB_FIRST (take n xs) = GET_32BIT_LSB_FIRST xs"
  by (simp add: GET_32BIT_LSB_FIRST_def)

lemma GET_PUT_32BIT [simp, getput]: "GET_32BIT (PUT_32BIT v) = v"
  by (rule u32_bytewise_eqI) (simp_all add: GET_32BIT_def PUT_32BIT_def word_bit_simps)

lemma GET_PUT_32BIT_append [simp, getput]: "GET_32BIT (PUT_32BIT v @ xs) = v"
  by (simp add: GET_32BIT_append)

lemma GET_PUT_32BIT_LSB_FIRST [simp, getput]: "GET_32BIT_LSB_FIRST (PUT_32BIT_LSB_FIRST v) = v"
  by (rule u32_bytewise_eqI)
    (simp_all add: GET_32BIT_LSB_FIRST_def PUT_32BIT_LSB_FIRST_def word_bit_simps)

lemma GET_PUT_32BIT_LSB_FIRST_append [simp, getput]:
  "GET_32BIT_LSB_FIRST (PUT_32BIT_LSB_FIRST v @ xs) = v"
  by (simp add: GET_32BIT_LSB_FIRST_append)

lemma GET_PUT_16BIT [getput]: "GET_16BIT (PUT_16BIT v @ xs) = take_bit 16 v"
  by (rule u32_bytewise_eqI) (simp_all add: GET_16BIT_def PUT_16BIT_def word_bit_simps)

lemma PUT_GET_32BIT [simp, getput]: "length xs = 4 \<Longrightarrow> PUT_32BIT (GET_32BIT xs) = xs"
  by (auto simp: length_4_conv GET_32BIT_def PUT_32BIT_def word_bit_simps intro!: byte_eqI)

lemma PUT_GET_32BIT_LSB_FIRST [simp, getput]:
  "length xs = 4 \<Longrightarrow> PUT_32BIT_LSB_FIRST (GET_32BIT_LSB_FIRST xs) = xs"
  by (auto simp: length_4_conv GET_32BIT_LSB_FIRST_def PUT_32BIT_LSB_FIRST_def word_bit_simps
      intro!: byte_eqI)

text \<open>Storing commutes with exclusive or.\<close>

lemma ucast_xor_byte: "ucast (x XOR y) = (ucast x XOR ucast y :: byte)" for x y :: u32
  by (rule byte_eqI) (simp add: bit_ucast_iff bit_xor_iff)

lemma PUT_32BIT_xor: "PUT_32BIT (x XOR y) = map2 (XOR) (PUT_32BIT x) (PUT_32BIT y)"
  by (simp add: PUT_32BIT_def ucast_xor_byte drop_bit_xor)

lemma PUT_32BIT_LSB_FIRST_xor:
  "PUT_32BIT_LSB_FIRST (x XOR y) = map2 (XOR) (PUT_32BIT_LSB_FIRST x) (PUT_32BIT_LSB_FIRST y)"
  by (simp add: PUT_32BIT_LSB_FIRST_def ucast_xor_byte drop_bit_xor)

end
