(* ===== verification/Buffer.thy ===== *)
theory Buffer
  imports GetPut
begin

text \<open>
  \<^verbatim>\<open>buffer.c\<close> and \<^verbatim>\<open>buffer.h\<close>: the growing FIFO buffers every other component is built on.
  The first sections hold the \<^verbatim>\<open>Buffer\<close> struct with its 32 bit fields and one definition per
  C function; then the representation invariant, the byte string a buffer stands for, the
  laws of each operation on it, the interface \<open>fifo\<close> that clients rely on, and the
  simulation of a whole run by a plain byte queue.
\<close>

section \<open>The struct and its operations\<close>

record Buffer =
  b_buf :: "byte list"
  b_alloc :: u32
  b_offset :: u32
  b_end :: u32

definition buffer_init :: Buffer where
  "buffer_init = \<lparr>b_buf = fresh 4096, b_alloc = 4096, b_offset = 0, b_end = 0\<rparr>"

text \<open>What \<^verbatim>\<open>buffer_free\<close> hands back to the allocator: the array, overwritten with zeros.\<close>

definition buffer_free :: "Buffer \<Rightarrow> byte list" where
  "buffer_free b = replicate (unat (b_alloc b)) 0 @ drop (unat (b_alloc b)) (b_buf b)"

definition buffer_clear :: "Buffer \<Rightarrow> Buffer" where
  "buffer_clear b = b\<lparr>b_offset := 0, b_end := 0\<rparr>"

text \<open>The \<^verbatim>\<open>memmove\<close> of \<^verbatim>\<open>buffer_append_space\<close>: the data moves to the front of the array.\<close>

definition buffer_compact :: "Buffer \<Rightarrow> Buffer" where
  "buffer_compact b =
     (let n = unat (b_end b - b_offset b);
          moved = take n (drop (unat (b_offset b)) (b_buf b))
      in b\<lparr>b_buf := moved @ drop (length moved) (b_buf b),
           b_end := b_end b - b_offset b, b_offset := 0\<rparr>)"

text \<open>The \<^verbatim>\<open>xrealloc\<close> of \<^verbatim>\<open>buffer_append_space\<close>, with the new size computed in 32 bits.\<close>

definition buffer_grow :: "u32 \<Rightarrow> Buffer \<Rightarrow> Buffer" where
  "buffer_grow len b =
     (let a = b_alloc b + len + 4096
      in b\<lparr>b_alloc := a,
           b_buf := take (unat a) (b_buf b) @ fresh (unat a - length (b_buf b))\<rparr>)"

text \<open>
  The code after the label \<^verbatim>\<open>restart\<close>. Nothing bounds the number of retries when the 32 bit
  additions wrap, so the loop is a partial function: \<open>None\<close> is a call that never returns.
  The result is the position of the new space and the buffer.
\<close>

partial_function (option) append_space_restart :: "u32 \<Rightarrow> Buffer \<Rightarrow> (u32 \<times> Buffer) option" where
  "append_space_restart len b =
     (if b_end b + len < b_alloc b
      then Some (b_end b, b\<lparr>b_end := b_end b + len\<rparr>)
      else if b_alloc b div 2 < b_offset b
      then append_space_restart len (buffer_compact b)
      else append_space_restart len (buffer_grow len b))"

definition buffer_append_space :: "Buffer \<Rightarrow> u32 \<Rightarrow> (u32 \<times> Buffer) res" where
  "buffer_append_space b len =
     (let b0 = (if b_offset b = b_end b then b\<lparr>b_offset := 0, b_end := 0\<rparr> else b)
      in case append_space_restart len b0 of
           None \<Rightarrow> Inl (Diverges ''buffer_append_space'')
         | Some r \<Rightarrow> Inr r)"

definition buffer_append :: "Buffer \<Rightarrow> byte list \<Rightarrow> u32 \<Rightarrow> Buffer res" where
  "buffer_append b data len =
     rbind (buffer_append_space b len) (\<lambda>(cp, b').
     rbind (mem_read data 0 (unat len)) (\<lambda>bytes.
     rbind (mem_write (b_buf b') (unat cp) bytes) (\<lambda>m.
     Inr (b'\<lparr>b_buf := m\<rparr>))))"

definition buffer_len :: "Buffer \<Rightarrow> u32" where
  "buffer_len b = b_end b - b_offset b"

definition buffer_get :: "Buffer \<Rightarrow> u32 \<Rightarrow> (byte list \<times> Buffer) res" where
  "buffer_get b len =
     (if len > b_end b - b_offset b
      then Inl (Fatal ''buffer_get trying to get more bytes than in buffer'')
      else rbind (mem_read (b_buf b) (unat (b_offset b)) (unat len)) (\<lambda>bytes.
           Inr (bytes, b\<lparr>b_offset := b_offset b + len\<rparr>)))"

definition buffer_consume :: "Buffer \<Rightarrow> u32 \<Rightarrow> Buffer res" where
  "buffer_consume b bytes =
     (if bytes > b_end b - b_offset b
      then Inl (Fatal ''buffer_get trying to get more bytes than in buffer'')
      else Inr (b\<lparr>b_offset := b_offset b + bytes\<rparr>))"

definition buffer_consume_end :: "Buffer \<Rightarrow> u32 \<Rightarrow> Buffer res" where
  "buffer_consume_end b bytes =
     (if bytes > b_end b - b_offset b
      then Inl (Fatal ''buffer_get trying to get more bytes than in buffer'')
      else Inr (b\<lparr>b_end := b_end b - bytes\<rparr>))"

text \<open>\<^verbatim>\<open>buffer_ptr\<close>: what the returned pointer points to, up to the end of the array.\<close>

definition buffer_ptr :: "Buffer \<Rightarrow> byte list" where
  "buffer_ptr b = drop (unat (b_offset b)) (b_buf b)"

section \<open>The invariant and the abstraction\<close>

definition buffer_wf :: "Buffer \<Rightarrow> bool" where
  "buffer_wf b \<longleftrightarrow> length (b_buf b) = unat (b_alloc b) \<and>
                   unat (b_offset b) \<le> unat (b_end b) \<and> unat (b_end b) < unat (b_alloc b)"

definition contents :: "Buffer \<Rightarrow> byte list" where
  "contents b = take (unat (b_end b) - unat (b_offset b)) (drop (unat (b_offset b)) (b_buf b))"

text \<open>\<open>has_room b n\<close>: appending \<open>n\<close> bytes cannot make the 32 bit size computations wrap.\<close>

definition has_room :: "Buffer \<Rightarrow> nat \<Rightarrow> bool" where
  "has_room b n \<longleftrightarrow> unat (b_alloc b) + n + 4096 < 2 ^ 32"

lemma buffer_wfD:
  assumes "buffer_wf b"
  shows "length (b_buf b) = unat (b_alloc b)"
    and "unat (b_end b - b_offset b) = unat (b_end b) - unat (b_offset b)"
    and "length (contents b) = unat (b_end b) - unat (b_offset b)"
    and "unat (b_offset b) \<le> unat (b_end b)" and "unat (b_end b) < unat (b_alloc b)"
  using assms by (auto simp: buffer_wf_def contents_def unat_sub word_le_nat_alt)

lemma buffer_init_wf [simp]: "buffer_wf buffer_init" and contents_init [simp]: "contents buffer_init = []"
  by (simp_all add: buffer_wf_def contents_def buffer_init_def)

lemma buffer_clear_wf: "buffer_wf b \<Longrightarrow> buffer_wf (buffer_clear b)"
  and contents_clear [simp]: "contents (buffer_clear b) = []"
  by (auto simp: buffer_wf_def contents_def buffer_clear_def)

lemma buffer_clear_alloc [simp]: "b_alloc (buffer_clear b) = b_alloc b"
  by (simp add: buffer_clear_def)

lemma buffer_len_contents: "buffer_wf b \<Longrightarrow> unat (buffer_len b) = length (contents b)"
  by (simp add: buffer_len_def buffer_wfD)

lemma buffer_ptr_contents: "buffer_wf b \<Longrightarrow> take (unat (buffer_len b)) (buffer_ptr b) = contents b"
  by (simp add: buffer_len_def buffer_ptr_def contents_def buffer_wfD)

lemma compact_wf: "buffer_wf b \<Longrightarrow> buffer_wf (buffer_compact b)"
  by (auto simp: buffer_wf_def buffer_compact_def Let_def unat_sub word_le_nat_alt)

lemma compact_contents: "buffer_wf b \<Longrightarrow> contents (buffer_compact b) = contents b"
  by (auto simp: buffer_wf_def contents_def buffer_compact_def Let_def unat_sub word_le_nat_alt
      min_def)

lemma unat_grown:
  "has_room b (unat len) \<Longrightarrow> unat (b_alloc b + len + 4096) = unat (b_alloc b) + unat len + 4096"
  by (simp add: has_room_def unat_word_ariths)

lemma grow_wf: "buffer_wf b \<Longrightarrow> has_room b (unat len) \<Longrightarrow> buffer_wf (buffer_grow len b)"
  by (auto simp: buffer_wf_def buffer_grow_def Let_def unat_grown)

lemma grow_contents:
  "buffer_wf b \<Longrightarrow> has_room b (unat len) \<Longrightarrow> contents (buffer_grow len b) = contents b"
  by (auto simp: buffer_wf_def buffer_grow_def contents_def Let_def unat_grown)

section \<open>The laws of each operation\<close>

lemma append_space_fits:
  assumes "unat (b_end b) + unat len < unat (b_alloc b)"
  shows "append_space_restart len b = Some (b_end b, b\<lparr>b_end := b_end b + len\<rparr>)"
proof -
  have "unat (b_end b + len) = unat (b_end b) + unat len"
    using assms unat_lt2p [of "b_alloc b"] by (intro unat_plus_no_wrap) simp
  with assms have "b_end b + len < b_alloc b" by (simp add: word_less_nat_alt)
  then show ?thesis by (simp add: append_space_restart.simps)
qed

lemma append_space_full:
  assumes "\<not> unat (b_end b) + unat len < unat (b_alloc b)" and "has_room b (unat len)" and "buffer_wf b"
  shows "append_space_restart len b =
    append_space_restart len
      (if b_alloc b div 2 < b_offset b then buffer_compact b else buffer_grow len b)"
proof -
  have "unat (b_end b + len) = unat (b_end b) + unat len"
    using assms by (intro unat_plus_no_wrap) (simp add: has_room_def buffer_wf_def)
  with assms have "\<not> b_end b + len < b_alloc b" by (simp add: word_less_nat_alt)
  then show ?thesis by (subst append_space_restart.simps) simp
qed

text \<open>What \<^verbatim>\<open>append_space\<close> delivers: space behind the old contents, which it keeps.\<close>

definition space_ok :: "Buffer \<Rightarrow> u32 \<Rightarrow> u32 \<times> Buffer \<Rightarrow> bool" where
  "space_ok b len r \<longleftrightarrow> (case r of (p, b') \<Rightarrow>
     buffer_wf b' \<and> unat (b_end b') = unat p + unat len \<and> unat (b_offset b') \<le> unat p \<and>
     unat (b_alloc b') \<le> unat (b_alloc b) + unat len + 4096 \<and>
     unat (b_alloc b') \<le> max (unat (b_alloc b)) (3 * (length (contents b) + unat len) + 4096) \<and>
     take (unat p - unat (b_offset b')) (drop (unat (b_offset b')) (b_buf b')) = contents b)"

lemma append_space_fits_ok:
  assumes "buffer_wf b" and "unat (b_end b) + unat len < unat (b_alloc b)"
  shows "\<exists>r. append_space_restart len b = Some r \<and> space_ok b len r"
proof -
  have "unat (b_end b + len) = unat (b_end b) + unat len"
    using assms unat_lt2p [of "b_alloc b"] by (intro unat_plus_no_wrap) simp
  with assms show ?thesis
    by (auto simp: append_space_fits space_ok_def buffer_wf_def contents_def)
qed

lemma append_space_grow_ok:
  assumes "buffer_wf b" and "has_room b (unat len)" and "unat (b_alloc b) \<le> 2 * (length (contents b) + unat len)"
  shows "\<exists>r. append_space_restart len (buffer_grow len b) = Some r \<and> space_ok b len r"
proof -
  have wf: "buffer_wf (buffer_grow len b)" by (rule grow_wf [OF assms(1,2)])
  have ends: "b_end (buffer_grow len b) = b_end b" "b_offset (buffer_grow len b) = b_offset b"
    and alloc: "unat (b_alloc (buffer_grow len b)) = unat (b_alloc b) + unat len + 4096"
    using unat_grown [OF assms(2)] by (simp_all add: buffer_grow_def Let_def)
  have fits: "unat (b_end (buffer_grow len b)) + unat len < unat (b_alloc (buffer_grow len b))"
    using buffer_wfD(5) [OF assms(1)] by (simp add: ends alloc)
  have sum: "unat (b_end b + len) = unat (b_end b) + unat len"
    using assms by (intro unat_plus_no_wrap) (simp add: has_room_def buffer_wf_def)
  show ?thesis
    using wf fits sum grow_contents [OF assms(1,2)] assms(3)
    by (auto simp: append_space_fits space_ok_def buffer_wf_def contents_def ends alloc)
qed

lemma append_space_ok:
  assumes wf: "buffer_wf b" and room: "has_room b (unat len)"
  shows "\<exists>r. append_space_restart len b = Some r \<and> space_ok b len r"
proof (cases "unat (b_end b) + unat len < unat (b_alloc b)")
  case True
  with wf show ?thesis by (rule append_space_fits_ok)
next
  case full: False
  let ?c = "buffer_compact b"
  have c: "buffer_wf ?c" "contents ?c = contents b" "b_alloc ?c = b_alloc b"
    "\<not> b_alloc ?c div 2 < b_offset ?c"
    using compact_wf [OF wf] compact_contents [OF wf] by (simp_all add: buffer_compact_def Let_def)
  then have c_room: "has_room ?c (unat len)" and same: "space_ok ?c len = space_ok b len"
    using room by (simp_all add: has_room_def space_ok_def fun_eq_iff)
  have half: "unat (b_alloc x) \<le> 2 * (length (contents x) + unat len)"
    if "buffer_wf x" "\<not> unat (b_end x) + unat len < unat (b_alloc x)" "\<not> b_alloc x div 2 < b_offset x" for x
  proof -
    have "unat (b_offset x) \<le> unat (b_alloc x) div 2"
      using that(3) by (simp add: not_less word_le_nat_alt unat_div)
    then have "2 * unat (b_offset x) \<le> unat (b_alloc x)" by simp
    with that(2) buffer_wfD(3,4) [OF that(1)] show ?thesis by simp
  qed
  show ?thesis
  proof (cases "b_alloc b div 2 < b_offset b")
    case False
    then show ?thesis
      using append_space_full [OF full room wf] append_space_grow_ok [OF wf room half [OF wf full False]] by simp
  next
    case compacted: True
    have "append_space_restart len b = append_space_restart len ?c"
      using append_space_full [OF full room wf] compacted by simp
    moreover have "\<exists>r. append_space_restart len ?c = Some r \<and> space_ok ?c len r"
      using append_space_fits_ok [OF c(1)] append_space_full [OF _ c_room c(1)]
        append_space_grow_ok [OF c(1) c_room half [OF c(1) _ c(4)]] c(4)
      by (cases "unat (b_end ?c) + unat len < unat (b_alloc ?c)") auto
    ultimately show ?thesis by (simp add: same)
  qed
qed

lemma rewind_wf:
  assumes "buffer_wf b"
  defines "b0 \<equiv> if b_offset b = b_end b then b\<lparr>b_offset := 0, b_end := 0\<rparr> else b"
  shows "buffer_wf b0 \<and> contents b0 = contents b \<and> b_alloc b0 = b_alloc b"
  using assms by (auto simp: buffer_wf_def contents_def)

lemma buffer_append_space_ok:
  assumes "buffer_wf b" and "has_room b (unat len)"
  shows "\<exists>r. buffer_append_space b len = Inr r \<and> space_ok b len r"
proof -
  define b0 where "b0 = (if b_offset b = b_end b then b\<lparr>b_offset := 0, b_end := 0\<rparr> else b)"
  have b0: "buffer_wf b0" "contents b0 = contents b" "b_alloc b0 = b_alloc b"
    using rewind_wf [OF assms(1)] by (simp_all add: b0_def)
  have "has_room b0 (unat len)" using assms(2) by (simp add: has_room_def b0)
  from append_space_ok [OF b0(1) this] obtain r
    where "append_space_restart len b0 = Some r" "space_ok b0 len r" by blast
  then show ?thesis
    by (auto simp: buffer_append_space_def Let_def b0_def [symmetric] space_ok_def b0 split: prod.splits)
qed

lemma buffer_append_ok [buffer_rules]:
  assumes "buffer_wf b" and "has_room b (unat len)" and "unat len \<le> length data"
  shows "\<exists>b'. buffer_append b data len = Inr b' \<and> buffer_wf b' \<and>
              contents b' = contents b @ take (unat len) data \<and>
              unat (b_alloc b') \<le> unat (b_alloc b) + unat len + 4096 \<and>
              unat (b_alloc b') \<le> max (unat (b_alloc b)) (3 * (length (contents b) + unat len) + 4096)"
proof -
  obtain p b1 where sp: "buffer_append_space b len = Inr (p, b1)" and ok: "space_ok b len (p, b1)"
    using buffer_append_space_ok [OF assms(1,2)] by auto
  define d where "d = take (unat len) data"
  have d: "length d = unat len" using assms(3) by (simp add: d_def)
  have wf1: "buffer_wf b1" and e1: "unat (b_end b1) = unat p + unat len"
    and o1: "unat (b_offset b1) \<le> unat p" and a1: "unat (b_alloc b1) \<le> unat (b_alloc b) + unat len + 4096"
    and a2: "unat (b_alloc b1) \<le> max (unat (b_alloc b)) (3 * (length (contents b) + unat len) + 4096)"
    and c1: "take (unat p - unat (b_offset b1)) (drop (unat (b_offset b1)) (b_buf b1)) = contents b"
    using ok by (simp_all add: space_ok_def)
  let ?m = "take (unat p) (b_buf b1) @ d @ drop (unat p + length d) (b_buf b1)"
  have fits: "unat p + length d \<le> length (b_buf b1)" using wf1 e1 d by (simp add: buffer_wf_def)
  then have "buffer_append b data len = Inr (b1\<lparr>b_buf := ?m\<rparr>)"
    using assms(3) by (simp add: buffer_append_def sp mem_read_def mem_write_def d_def min_absorb2)
  moreover have "buffer_wf (b1\<lparr>b_buf := ?m\<rparr>)"
    using wf1 fits by (simp add: buffer_wf_def)
  moreover have "contents (b1\<lparr>b_buf := ?m\<rparr>) = contents b @ d"
    unfolding c1 [symmetric] using o1 fits d e1 by (simp add: contents_def drop_take min_absorb2)
  ultimately show ?thesis using a1 a2 by (auto simp: d_def)
qed

text \<open>The claimed room does not creep: it stays below three times the contents and a constant.\<close>

lemma buffer_put_within:
  assumes "buffer_wf b" and "unat (b_alloc b) \<le> N" and "3 * (length (contents b) + length d) + 4096 \<le> N"
    and "N + length d + 4096 < 2 ^ 32"
  shows "\<exists>b'. buffer_append b d (of_nat (length d)) = Inr b' \<and> buffer_wf b' \<and> contents b' = contents b @ d \<and>
    unat (b_alloc b') \<le> N"
proof -
  have l: "unat (of_nat (length d) :: u32) = length d" using assms(4) by (intro unat_of_nat_small) simp
  have "has_room b (unat (of_nat (length d) :: u32))" unfolding l has_room_def using assms by simp
  from buffer_append_ok [OF assms(1) this, of d] assms(2,3) show ?thesis by (auto simp: l)
qed

lemma buffer_get_ok [buffer_rules]:
  assumes "buffer_wf b" and "unat len \<le> length (contents b)"
  shows "\<exists>b'. buffer_get b len = Inr (take (unat len) (contents b), b') \<and> buffer_wf b' \<and>
              contents b' = drop (unat len) (contents b) \<and> b_alloc b' = b_alloc b"
proof -
  note wf = buffer_wfD [OF assms(1)]
  have le: "unat (b_offset b) + unat len \<le> unat (b_end b)" using assms(2) wf by simp
  have off: "unat (b_offset b + len) = unat (b_offset b) + unat len"
    using le unat_lt2p [of "b_end b"] by (intro unat_plus_no_wrap) simp
  have "\<not> len > b_end b - b_offset b" using assms(2) wf by (simp add: word_less_nat_alt)
  then have "buffer_get b len = Inr (take (unat len) (contents b), b\<lparr>b_offset := b_offset b + len\<rparr>)"
    using assms(2) le wf by (simp add: buffer_get_def mem_read_def contents_def min_absorb2)
  then show ?thesis
    using assms le off wf by (auto simp: buffer_wf_def contents_def drop_take add.commute)
qed

lemma buffer_get_short [buffer_rules]:
  "buffer_wf b \<Longrightarrow> length (contents b) < unat len \<Longrightarrow>
    buffer_get b len = Inl (Fatal ''buffer_get trying to get more bytes than in buffer'')"
  by (simp add: buffer_get_def word_less_nat_alt buffer_wfD)

lemma buffer_consume_get:
  "buffer_wf b \<Longrightarrow> buffer_consume b n = rbind (buffer_get b n) (\<lambda>(_, b'). Inr b')"
  using buffer_get_ok [of b n] buffer_get_short [of b n]
  by (cases "unat n \<le> length (contents b)")
    (auto simp: buffer_consume_def buffer_get_def mem_read_def split: if_splits)

lemma buffer_consume_ok [buffer_rules]:
  assumes "buffer_wf b" and "unat n \<le> length (contents b)"
  shows "\<exists>b'. buffer_consume b n = Inr b' \<and> buffer_wf b' \<and> contents b' = drop (unat n) (contents b) \<and>
              b_alloc b' = b_alloc b"
  using buffer_get_ok [OF assms] by (auto simp: buffer_consume_get assms(1))

lemma buffer_consume_short [buffer_rules]:
  "buffer_wf b \<Longrightarrow> length (contents b) < unat n \<Longrightarrow>
    buffer_consume b n = Inl (Fatal ''buffer_get trying to get more bytes than in buffer'')"
  by (simp add: buffer_consume_get buffer_get_short)

lemma buffer_consume_end_ok [buffer_rules]:
  assumes "buffer_wf b" and "unat n \<le> length (contents b)"
  shows "\<exists>b'. buffer_consume_end b n = Inr b' \<and> buffer_wf b' \<and>
              contents b' = take (length (contents b) - unat n) (contents b) \<and> b_alloc b' = b_alloc b"
proof -
  note wf = buffer_wfD [OF assms(1)]
  have n: "unat (b_end b - n) = unat (b_end b) - unat n"
    using assms(2) wf by (intro unat_minus_no_wrap) (simp add: word_le_nat_alt)
  have "\<not> n > b_end b - b_offset b" using assms(2) wf by (simp add: word_less_nat_alt)
  then show ?thesis
    using assms wf n by (auto simp: buffer_consume_end_def buffer_wf_def contents_def min_absorb1 add.commute)
qed

lemma buffer_consume_end_short [buffer_rules]:
  "buffer_wf b \<Longrightarrow> length (contents b) < unat n \<Longrightarrow>
    buffer_consume_end b n = Inl (Fatal ''buffer_get trying to get more bytes than in buffer'')"
  by (simp add: buffer_consume_end_def word_less_nat_alt buffer_wfD)

section \<open>The interface clients rely on\<close>

text \<open>
  A client sees a buffer as a queue of bytes: \<open>put\<close> appends, \<open>get\<close> and \<open>skip\<close> take from the
  front, \<open>chop\<close> takes from the back, and a request for more bytes than there are is fatal.
  \<open>used\<close> is the room the representation has claimed, which bounds how much more it can take.
\<close>

definition buffer_underflow :: failure where
  "buffer_underflow = Fatal ''buffer_get trying to get more bytes than in buffer''"

datatype buffer_op = Append "byte list" | Get u32 | Consume u32 | Consume_End u32 | Clear

fun fifo_step :: "('b \<Rightarrow> byte list \<Rightarrow> 'b res) \<Rightarrow> ('b \<Rightarrow> u32 \<Rightarrow> (byte list \<times> 'b) res) \<Rightarrow> ('b \<Rightarrow> u32 \<Rightarrow> 'b res) \<Rightarrow>
    ('b \<Rightarrow> u32 \<Rightarrow> 'b res) \<Rightarrow> ('b \<Rightarrow> 'b) \<Rightarrow> 'b \<Rightarrow> buffer_op \<Rightarrow> (byte list \<times> 'b) res" where
  "fifo_step put get skip chop reset b (Append d) = rbind (put b d) (\<lambda>b'. Inr ([], b'))"
| "fifo_step put get skip chop reset b (Get n) = get b n"
| "fifo_step put get skip chop reset b (Consume n) = rbind (skip b n) (\<lambda>b'. Inr ([], b'))"
| "fifo_step put get skip chop reset b (Consume_End n) = rbind (chop b n) (\<lambda>b'. Inr ([], b'))"
| "fifo_step put get skip chop reset b Clear = Inr ([], reset b)"

fun queue_step :: "byte list \<Rightarrow> buffer_op \<Rightarrow> (byte list \<times> byte list) res" where
  "queue_step q (Append d) = Inr ([], q @ d)"
| "queue_step q (Get n) =
     (if unat n \<le> length q then Inr (take (unat n) q, drop (unat n) q) else Inl buffer_underflow)"
| "queue_step q (Consume n) =
     (if unat n \<le> length q then Inr ([], drop (unat n) q) else Inl buffer_underflow)"
| "queue_step q (Consume_End n) =
     (if unat n \<le> length q then Inr ([], take (length q - unat n) q) else Inl buffer_underflow)"
| "queue_step q Clear = Inr ([], [])"

fun run_ops :: "('b \<Rightarrow> buffer_op \<Rightarrow> (byte list \<times> 'b) res) \<Rightarrow> 'b \<Rightarrow> buffer_op list \<Rightarrow> (byte list list \<times> 'b) res" where
  "run_ops step b [] = Inr ([], b)"
| "run_ops step b (x # xs) =
     rbind (step b x) (\<lambda>(out, b'). rbind (run_ops step b' xs) (\<lambda>(outs, b''). Inr (out # outs, b'')))"

fun op_cost :: "buffer_op \<Rightarrow> nat" where
  "op_cost (Append d) = length d + 4096"
| "op_cost _ = 0"

locale fifo =
  fixes wf :: "'b \<Rightarrow> bool" and used :: "'b \<Rightarrow> nat" and data :: "'b \<Rightarrow> byte list"
    and put :: "'b \<Rightarrow> byte list \<Rightarrow> 'b res"
    and get :: "'b \<Rightarrow> u32 \<Rightarrow> (byte list \<times> 'b) res"
    and skip :: "'b \<Rightarrow> u32 \<Rightarrow> 'b res" and chop :: "'b \<Rightarrow> u32 \<Rightarrow> 'b res" and reset :: "'b \<Rightarrow> 'b"
  assumes put_law: "wf b \<Longrightarrow> used b + length d + 4096 < 2 ^ 32 \<Longrightarrow>
      \<exists>b'. put b d = Inr b' \<and> wf b' \<and> data b' = data b @ d \<and> used b' \<le> used b + length d + 4096"
    and get_law: "wf b \<Longrightarrow> unat n \<le> length (data b) \<Longrightarrow>
      \<exists>b'. get b n = Inr (take (unat n) (data b), b') \<and> wf b' \<and> data b' = drop (unat n) (data b) \<and> used b' = used b"
    and skip_law: "wf b \<Longrightarrow> unat n \<le> length (data b) \<Longrightarrow>
      \<exists>b'. skip b n = Inr b' \<and> wf b' \<and> data b' = drop (unat n) (data b) \<and> used b' = used b"
    and chop_law: "wf b \<Longrightarrow> unat n \<le> length (data b) \<Longrightarrow>
      \<exists>b'. chop b n = Inr b' \<and> wf b' \<and> data b' = take (length (data b) - unat n) (data b) \<and> used b' = used b"
    and short_law: "wf b \<Longrightarrow> length (data b) < unat n \<Longrightarrow>
      get b n = Inl buffer_underflow \<and> skip b n = Inl buffer_underflow \<and> chop b n = Inl buffer_underflow"
    and reset_law: "wf b \<Longrightarrow> wf (reset b) \<and> data (reset b) = [] \<and> used (reset b) = used b"
begin

abbreviation step where "step \<equiv> fifo_step put get skip chop reset"

lemma step_simulates:
  assumes "wf b" and "used b + op_cost x < 2 ^ 32"
  shows "(\<exists>out b'. step b x = Inr (out, b') \<and> queue_step (data b) x = Inr (out, data b') \<and>
            wf b' \<and> used b' \<le> used b + op_cost x) \<or>
         (step b x = Inl buffer_underflow \<and> queue_step (data b) x = Inl buffer_underflow)"
proof (cases x)
  case (Append d)
  with put_law [of b d] assms show ?thesis by auto
next
  case (Get n)
  with get_law [of b n] short_law [of b n] assms show ?thesis by (cases "unat n \<le> length (data b)") auto
next
  case (Consume n)
  with skip_law [of b n] short_law [of b n] assms show ?thesis by (cases "unat n \<le> length (data b)") auto
next
  case (Consume_End n)
  with chop_law [of b n] short_law [of b n] assms show ?thesis by (cases "unat n \<le> length (data b)") auto
next
  case Clear
  with reset_law [of b] assms show ?thesis by auto
qed

lemma run_simulates:
  "wf b \<Longrightarrow> used b + sum_list (map op_cost xs) < 2 ^ 32 \<Longrightarrow>
    map_sum id (apsnd data) (run_ops step b xs) = run_ops queue_step (data b) xs"
proof (induction xs arbitrary: b)
  case Nil
  then show ?case by simp
next
  case (Cons x xs)
  from step_simulates [of b x] Cons.prems consider
      (ok) out b' where "step b x = Inr (out, b')" "queue_step (data b) x = Inr (out, data b')"
        "wf b'" "used b' \<le> used b + op_cost x"
    | (short) "step b x = Inl buffer_underflow" "queue_step (data b) x = Inl buffer_underflow"
    by fastforce
  then show ?case
  proof cases
    case ok
    then have "map_sum id (apsnd data) (run_ops step b' xs) = run_ops queue_step (data b') xs"
      using Cons.prems by (intro Cons.IH) auto
    with ok show ?thesis by (cases "run_ops step b' xs") (auto simp flip: \<open>_ = run_ops queue_step _ xs\<close>)
  next
    case short
    then show ?thesis by simp
  qed
qed

text \<open>Bytes come back in the order they were put, behind what was there before.\<close>

lemma put_get_fifo:
  assumes "wf b" and "data b = []" and "used b + length d + 4096 < 2 ^ 32" and "unat n = length d"
  shows "\<exists>b'. rbind (put b d) (\<lambda>b1. get b1 n) = Inr (d, b') \<and> wf b' \<and> data b' = []"
proof -
  obtain b1 where b1: "put b d = Inr b1" "wf b1" "data b1 = d"
    using put_law [OF assms(1,3)] assms(2) by auto
  with get_law [of b1 n] assms(4) show ?thesis by auto
qed

end

text \<open>The buffers of \<^verbatim>\<open>buffer.c\<close> keep the contract; the claimed room is the allocated size.\<close>

definition buffer_step :: "Buffer \<Rightarrow> buffer_op \<Rightarrow> (byte list \<times> Buffer) res" where
  "buffer_step = fifo_step (\<lambda>b d. buffer_append b d (of_nat (length d))) buffer_get buffer_consume
                   buffer_consume_end buffer_clear"

interpretation bf: fifo buffer_wf "\<lambda>b. unat (b_alloc b)" contents
  "\<lambda>b d. buffer_append b d (of_nat (length d))" buffer_get buffer_consume buffer_consume_end buffer_clear
proof
  fix b :: Buffer and d :: "byte list"
  assume wf: "buffer_wf b" and "unat (b_alloc b) + length d + 4096 < 2 ^ 32"
  then have "unat (of_nat (length d) :: u32) = length d" "has_room b (length d)"
    by (simp_all add: unat_of_nat_small has_room_def)
  with buffer_append_ok [OF wf, of "of_nat (length d)" d]
  show "\<exists>b'. buffer_append b d (of_nat (length d)) = Inr b' \<and> buffer_wf b' \<and>
      contents b' = contents b @ d \<and> unat (b_alloc b') \<le> unat (b_alloc b) + length d + 4096"
    by auto
qed (auto simp: buffer_underflow_def buffer_rules buffer_clear_wf
    dest: buffer_get_ok buffer_consume_ok buffer_consume_end_ok)



section \<open>The 32 bit size computations can wrap\<close>

lemma restart_loops:
  assumes "append_space_restart len b = Some r"
    and "b_alloc b = 4096" and "b_offset b = 0" and "b_end b = 0" and "len = - 4096"
  shows False
proof -
  let ?P = "\<lambda>len b (r :: u32 \<times> Buffer). \<not> (b_alloc b = 4096 \<and> b_offset b = 0 \<and> b_end b = 0 \<and> len = - 4096)"
  have "?P len b r"
  proof (rule append_space_restart.raw_induct [where P = ?P, OF _ assms(1)])
    fix f len b r
    assume IH: "\<And>len b r. f len b = Some r \<Longrightarrow> ?P len b r"
      and eq: "(if b_end b + len < b_alloc b then Some (b_end b, b\<lparr>b_end := b_end b + len\<rparr>)
        else if b_alloc b div 2 < b_offset b then f len (buffer_compact b)
        else f len (buffer_grow len b)) = Some r"
    from IH [of len "buffer_grow len b" r] eq show "?P len b r"
      by (auto simp: buffer_grow_def Let_def)
  qed
  with assms show False by simp
qed

text \<open>C35: The size computation of \<^verbatim>\<open>buffer_append_space\<close> wraps: for a length of 2^32 - 4096 a
  fresh buffer "grows" to the size it already has, and the call never returns.\<close>

theorem buffer_append_space_wraps_forever:
  "buffer_append_space buffer_init (- 4096) = Inl (Diverges ''buffer_append_space'')"
proof (cases "append_space_restart (- 4096) buffer_init")
  case None
  then show ?thesis by (simp add: buffer_append_space_def buffer_init_def)
next
  case (Some r)
  from restart_loops [OF this] show ?thesis by (simp add: buffer_init_def)
qed

end
