(* ===== verification/Bufaux.thy ===== *)
theory Bufaux
  imports Buffer
begin

text \<open>
  \<^verbatim>\<open>bufaux.c\<close>: integers, strings and multiple-precision integers in a buffer. Every routine
  is a client of the buffer interface and is written once over its \<open>put\<close> and \<open>get\<close>
  operations (the \<open>_via\<close> definitions); the C functions are its instances on the buffers of
  \<^verbatim>\<open>buffer.c\<close>, and the higher components use the instances on plain byte queues, which the
  simulation of theory \<open>Buffer\<close> justifies.
\<close>

section \<open>Plain byte queues\<close>

definition bytes_put :: "byte list \<Rightarrow> byte list \<Rightarrow> byte list res" where
  "bytes_put q d = Inr (q @ d)"

definition bytes_get :: "byte list \<Rightarrow> u32 \<Rightarrow> (byte list \<times> byte list) res" where
  "bytes_get q n = (if unat n \<le> length q then Inr (take (unat n) q, drop (unat n) q)
                    else Inl buffer_underflow)"

definition bytes_consume :: "byte list \<Rightarrow> u32 \<Rightarrow> byte list res" where
  "bytes_consume q n = (if unat n \<le> length q then Inr (drop (unat n) q) else Inl buffer_underflow)"

definition bytes_consume_end :: "byte list \<Rightarrow> u32 \<Rightarrow> byte list res" where
  "bytes_consume_end q n =
     (if unat n \<le> length q then Inr (take (length q - unat n) q) else Inl buffer_underflow)"

interpretation bq: fifo "\<lambda>_. True" "\<lambda>_. 0" "\<lambda>q. q" bytes_put bytes_get bytes_consume
  bytes_consume_end "\<lambda>_. []"
  by unfold_locales
    (auto simp: bytes_put_def bytes_get_def bytes_consume_def bytes_consume_end_def)

section \<open>Multiple-precision integers as digit strings\<close>

text \<open>
  The gmp calls the code relies on: \<^verbatim>\<open>mpz_sizeinbase(v, 2)\<close>, \<^verbatim>\<open>mpz_get_str(v, 16)\<close> and
  \<^verbatim>\<open>mpz_set_str(s, 16)\<close> on non-negative numbers, and the \<^verbatim>\<open>%1x\<close>, \<^verbatim>\<open>%2x\<close> and \<^verbatim>\<open>%02x\<close>
  conversions of \<^verbatim>\<open>sscanf\<close> and \<^verbatim>\<open>sprintf\<close>. A digit is its value.
\<close>

fun bit_length :: "nat \<Rightarrow> nat" where
  "bit_length n = (if n < 2 then 1 else Suc (bit_length (n div 2)))"

fun hex_digits :: "nat \<Rightarrow> nat list" where
  "hex_digits n = (if n < 16 then [n] else hex_digits (n div 16) @ [n mod 16])"

declare bit_length.simps [simp del] hex_digits.simps [simp del]

definition hex_value :: "nat list \<Rightarrow> nat" where
  "hex_value ds = foldl (\<lambda>a d. 16 * a + d) 0 ds"

fun hex_pairs :: "nat list \<Rightarrow> byte list" where
  "hex_pairs (d # e # ds) = of_nat (16 * d + e) # hex_pairs ds"
| "hex_pairs [d] = [of_nat d]"
| "hex_pairs [] = []"

definition byte_hex :: "byte \<Rightarrow> nat list" where
  "byte_hex b = [unat b div 16, unat b mod 16]"

section \<open>The routines over the buffer interface\<close>

definition get_int_via :: "('b \<Rightarrow> u32 \<Rightarrow> (byte list \<times> 'b) res) \<Rightarrow> 'b \<Rightarrow> (u32 \<times> 'b) res" where
  "get_int_via get b = rbind (get b 4) (\<lambda>(buf, b). Inr (GET_32BIT buf, b))"

definition put_int_via :: "('b \<Rightarrow> byte list \<Rightarrow> 'b res) \<Rightarrow> 'b \<Rightarrow> u32 \<Rightarrow> 'b res" where
  "put_int_via put b v = put b (PUT_32BIT v)"

definition get_string_via :: "('b \<Rightarrow> u32 \<Rightarrow> (byte list \<times> 'b) res) \<Rightarrow> 'b \<Rightarrow> (byte list \<times> 'b) res" where
  "get_string_via get b =
     rbind (get_int_via get b) (\<lambda>(len, b).
     if len > 256 * 1024 then Inl (Fatal ''Received packet with bad string length'')
     else get b len)"

definition put_string_via :: "('b \<Rightarrow> byte list \<Rightarrow> 'b res) \<Rightarrow> 'b \<Rightarrow> byte list \<Rightarrow> 'b res" where
  "put_string_via put b s =
     rbind (put_int_via put b (of_nat (length s))) (\<lambda>b. put b s)"

definition get_char_via :: "('b \<Rightarrow> u32 \<Rightarrow> (byte list \<times> 'b) res) \<Rightarrow> 'b \<Rightarrow> (byte \<times> 'b) res" where
  "get_char_via get b = rbind (get b 1) (\<lambda>(buf, b). Inr (buf ! 0, b))"

definition put_char_via :: "('b \<Rightarrow> byte list \<Rightarrow> 'b res) \<Rightarrow> 'b \<Rightarrow> u32 \<Rightarrow> 'b res" where
  "put_char_via put b v = put b [ucast v]"

text \<open>
  The number is converted through its hexadecimal string; an odd leading digit is a byte of
  its own. Writing into the string's own array never overtakes the reading position, so the
  conversion is a function of the string.
\<close>

definition hex_to_bytes :: "nat list \<Rightarrow> byte list" where
  "hex_to_bytes hex =
     (if odd (length hex) then of_nat (hd hex) # hex_pairs (tl hex) else hex_pairs hex)"

definition put_mp_int_via :: "('b \<Rightarrow> byte list \<Rightarrow> 'b res) \<Rightarrow> 'b \<Rightarrow> nat \<Rightarrow> 'b res" where
  "put_mp_int_via put b v =
     (let bits = bit_length v; buf = hex_to_bytes (hex_digits v)
      in rbind (ensure (length buf = (bits + 7) div 8) (Assertion ''oi == ((bits + 7) / 8)'')) (\<lambda>_.
         rbind (put b (PUT_16BIT (of_nat bits))) (\<lambda>b.
         put b buf)))"

fun get_hex_via :: "('b \<Rightarrow> u32 \<Rightarrow> (byte list \<times> 'b) res) \<Rightarrow> nat \<Rightarrow> 'b \<Rightarrow> (nat list \<times> 'b) res" where
  "get_hex_via get 0 b = Inr ([], b)"
| "get_hex_via get (Suc n) b =
     rbind (get b 1) (\<lambda>(buf, b).
     rbind (get_hex_via get n b) (\<lambda>(hex, b). Inr (byte_hex (buf ! 0) @ hex, b)))"

text \<open>
  With a bit count of zero the loop writes nothing, and \<^verbatim>\<open>mpz_set_str\<close> reads a string that
  was allocated but never initialised.
\<close>

definition get_mp_int_via :: "('b \<Rightarrow> u32 \<Rightarrow> (byte list \<times> 'b) res) \<Rightarrow> 'b \<Rightarrow> (nat \<times> 'b) res" where
  "get_mp_int_via get b =
     rbind (get b 2) (\<lambda>(buf, b).
     let bits = unat (GET_16BIT buf); bytes = (bits + 7) div 8
     in rbind (get_hex_via get bytes b) (\<lambda>(hex, b).
        if hex = [] then Inl (Undefined ''mpz_set_str of uninitialised memory'')
        else Inr (hex_value hex, b)))"

section \<open>The functions of bufaux.c\<close>

abbreviation buffer_put :: "Buffer \<Rightarrow> byte list \<Rightarrow> Buffer res" where
  "buffer_put \<equiv> \<lambda>b d. buffer_append b d (of_nat (length d))"

definition buffer_put_mp_int :: "Buffer \<Rightarrow> nat \<Rightarrow> Buffer res" where
  "buffer_put_mp_int = put_mp_int_via buffer_put"

definition buffer_get_mp_int :: "Buffer \<Rightarrow> (nat \<times> Buffer) res" where
  "buffer_get_mp_int = get_mp_int_via buffer_get"

definition buffer_get_int :: "Buffer \<Rightarrow> (u32 \<times> Buffer) res" where
  "buffer_get_int = get_int_via buffer_get"

definition buffer_put_int :: "Buffer \<Rightarrow> u32 \<Rightarrow> Buffer res" where
  "buffer_put_int = put_int_via buffer_put"

definition buffer_get_string :: "Buffer \<Rightarrow> (byte list \<times> Buffer) res" where
  "buffer_get_string = get_string_via buffer_get"

definition buffer_put_string :: "Buffer \<Rightarrow> byte list \<Rightarrow> Buffer res" where
  "buffer_put_string = put_string_via buffer_put"

definition buffer_get_char :: "Buffer \<Rightarrow> (byte \<times> Buffer) res" where
  "buffer_get_char = get_char_via buffer_get"

definition buffer_put_char :: "Buffer \<Rightarrow> u32 \<Rightarrow> Buffer res" where
  "buffer_put_char = put_char_via buffer_put"

text \<open>The same functions on plain byte queues.\<close>

definition bytes_put_int :: "byte list \<Rightarrow> u32 \<Rightarrow> byte list" where
  "bytes_put_int q v = q @ PUT_32BIT v"

definition bytes_put_string :: "byte list \<Rightarrow> byte list \<Rightarrow> byte list" where
  "bytes_put_string q s = q @ PUT_32BIT (of_nat (length s)) @ s"

definition bytes_get_int :: "byte list \<Rightarrow> (u32 \<times> byte list) res" where
  "bytes_get_int = get_int_via bytes_get"

definition bytes_get_string :: "byte list \<Rightarrow> (byte list \<times> byte list) res" where
  "bytes_get_string = get_string_via bytes_get"

definition bytes_get_char :: "byte list \<Rightarrow> (byte \<times> byte list) res" where
  "bytes_get_char = get_char_via bytes_get"

definition bytes_get_mp_int :: "byte list \<Rightarrow> (nat \<times> byte list) res" where
  "bytes_get_mp_int = get_mp_int_via bytes_get"

lemma bytes_put_int_via: "put_int_via bytes_put q v = Inr (bytes_put_int q v)"
  by (simp add: put_int_via_def bytes_put_def bytes_put_int_def)

lemma bytes_put_string_via: "put_string_via bytes_put q s = Inr (bytes_put_string q s)"
  by (simp add: put_string_via_def put_int_via_def bytes_put_def bytes_put_string_def)

section \<open>Digit strings and byte strings\<close>

definition be_value :: "byte list \<Rightarrow> nat" where
  "be_value bs = foldl (\<lambda>a b. 256 * a + unat b) 0 bs"

lemma foldl_base: "foldl (\<lambda>a d. k * a + f d) a xs = a * k ^ length xs + foldl (\<lambda>a d. k * a + f d) 0 xs"
  for k a :: nat
proof (induction xs arbitrary: a)
  case Nil
  then show ?case by simp
next
  case (Cons x xs)
  show ?case
    using Cons.IH [of "k * a + f x"] Cons.IH [of "f x"] by (simp add: algebra_simps)
qed

lemma be_value_simps [simp]:
  "be_value [] = 0"
  "be_value (b # bs) = unat b * 256 ^ length bs + be_value bs"
  using foldl_base [of 256 unat "unat b" bs] by (simp_all add: be_value_def)

lemma be_value_append: "be_value (xs @ ys) = be_value xs * 256 ^ length ys + be_value ys"
  by (induction xs) (simp_all add: algebra_simps power_add)

lemma be_value_bound: "be_value bs < 256 ^ length bs"
proof (induction bs)
  case Nil
  then show ?case by simp
next
  case (Cons b bs)
  have "unat b \<le> 255" using unat_lt2p [of b] by simp
  then have "unat b * 256 ^ length bs \<le> 255 * 256 ^ length bs" by (intro mult_right_mono) auto
  with Cons.IH show ?case unfolding be_value_simps length_Cons power_Suc by linarith
qed

lemma hex_value_simps [simp]:
  "hex_value [] = 0"
  "hex_value (d # ds) = d * 16 ^ length ds + hex_value ds"
  using foldl_base [of 16 "\<lambda>d. d" d ds] by (simp_all add: hex_value_def)

lemma hex_value_append: "hex_value (xs @ ys) = hex_value xs * 16 ^ length ys + hex_value ys"
  by (induction xs) (simp_all add: algebra_simps power_add)

lemma hex_digits_small: "d \<in> set (hex_digits n) \<Longrightarrow> d < 16"
  by (induction n rule: hex_digits.induct) (subst (asm) (2) hex_digits.simps, auto split: if_splits)

lemma hex_digits_value: "hex_value (hex_digits n) = n"
  by (induction n rule: hex_digits.induct) (subst hex_digits.simps, auto simp: hex_value_append)

lemma hex_pairs_value:
  "even (length ds) \<Longrightarrow> \<forall>d \<in> set ds. d < 16 \<Longrightarrow>
    be_value (hex_pairs ds) = hex_value ds \<and> 2 * length (hex_pairs ds) = length ds"
proof (induction ds rule: hex_pairs.induct)
  case (1 d e ds)
  have "unat (of_nat (16 * d + e) :: byte) = 16 * d + e"
    using "1.prems" by (intro unat_of_nat_small) auto
  moreover have ds: "be_value (hex_pairs ds) = hex_value ds" "2 * length (hex_pairs ds) = length ds"
    using 1 by auto
  moreover have "256 ^ length (hex_pairs ds) = (16 :: nat) ^ length ds"
    by (simp add: ds(2) [symmetric] power_mult)
  ultimately show ?case by (simp add: algebra_simps)
qed auto

lemma hex_to_bytes_value:
  assumes "hex \<noteq> []" and "\<forall>d \<in> set hex. d < 16"
  shows "be_value (hex_to_bytes hex) = hex_value hex \<and>
         length (hex_to_bytes hex) = (length hex + 1) div 2"
proof (cases "odd (length hex)")
  case True
  then obtain d ds where hex: "hex = d # ds" "even (length ds)" using assms by (cases hex) auto
  have ds: "be_value (hex_pairs ds) = hex_value ds" "2 * length (hex_pairs ds) = length ds"
    using hex_pairs_value [of ds] hex assms by auto
  have "unat (of_nat d :: byte) = d" using assms hex by (intro unat_of_nat_small) auto
  moreover have "256 ^ length (hex_pairs ds) = (16 :: nat) ^ length ds"
    by (simp add: ds(2) [symmetric] power_mult)
  ultimately show ?thesis using hex ds by (simp add: hex_to_bytes_def)
next
  case False
  then show ?thesis using hex_pairs_value [of hex] assms by (auto simp: hex_to_bytes_def)
qed

lemma bit_length_step: "2 \<le> n \<Longrightarrow> bit_length n = Suc (bit_length (n div 2))"
  by (simp add: bit_length.simps [of n])

lemma hex_digits_length: "length (hex_digits n) = (bit_length n + 3) div 4"
proof (induction n rule: hex_digits.induct)
  case (1 n)
  show ?case
  proof (cases "n < 16")
    case True
    then have "n \<in> {15, 14, 13, 12, 11, 10, 9, 8} \<or> n \<in> {7, 6, 5, 4, 3, 2, 1, 0}" by (simp; arith)
    then have "(bit_length n + 3) div 4 = 1" by (elim disjE insertE emptyE) (simp_all add: bit_length.simps)
    with True show ?thesis by (simp add: hex_digits.simps [of n])
  next
    case False
    have "bit_length n = 4 + bit_length (n div 16)"
      using False bit_length_step [of n] bit_length_step [of "n div 2"] bit_length_step [of "n div 4"]
        bit_length_step [of "n div 8"] by (simp add: div_mult2_eq [symmetric])
    with False 1 show ?thesis by (simp add: hex_digits.simps [of n])
  qed
qed

lemma mp_bytes:
  "be_value (hex_to_bytes (hex_digits n)) = n"
  "length (hex_to_bytes (hex_digits n)) = (bit_length n + 7) div 8"
proof -
  have "hex_digits n \<noteq> []" by (subst hex_digits.simps) simp
  with hex_to_bytes_value [of "hex_digits n"] hex_digits_small hex_digits_value hex_digits_length
  show "be_value (hex_to_bytes (hex_digits n)) = n"
    and "length (hex_to_bytes (hex_digits n)) = (bit_length n + 7) div 8" by auto
qed

lemma bit_length_pos: "0 < bit_length n"
  by (subst bit_length.simps) simp

lemma byte_hex_value: "unat b div 16 * 16 * k + unat b mod 16 * k = unat b * k" for b :: byte
  by (metis add_mult_distrib div_mult_mod_eq)

lemma bytes_hex_value:
  "hex_value (concat (map byte_hex bs)) = be_value bs \<and> length (concat (map byte_hex bs)) = 2 * length bs"
proof (induction bs)
  case Nil
  then show ?case by simp
next
  case (Cons b bs)
  have "(16 :: nat) ^ (2 * length bs) = 256 ^ length bs" by (simp add: power_mult)
  with Cons byte_hex_value [of b "256 ^ length bs"] show ?case by (simp add: byte_hex_def)
qed

section \<open>Clients of the buffer interface\<close>

context fifo begin

lemma get_int_law:
  assumes "wf b" and "4 \<le> length (data b)"
  shows "\<exists>b'. get_int_via get b = Inr (GET_32BIT (data b), b') \<and> wf b' \<and> data b' = drop 4 (data b) \<and>
              used b' = used b"
  using get_law [of b 4] assms by (auto simp: get_int_via_def getput)

lemma get_string_law:
  assumes "wf b" and "data b = PUT_32BIT (of_nat (length s)) @ s @ rest" and "length s \<le> 256 * 1024"
  shows "\<exists>b'. get_string_via get b = Inr (s, b') \<and> wf b' \<and> data b' = rest \<and> used b' = used b"
proof -
  have len: "unat (of_nat (length s) :: u32) = length s"
    using assms(3) by (intro unat_of_nat_small) simp
  obtain b1 where b1: "get_int_via get b = Inr (of_nat (length s), b1)" "wf b1" "data b1 = s @ rest"
    "used b1 = used b"
    using get_int_law [OF assms(1)] by (auto simp: assms(2))
  have "\<not> (of_nat (length s) :: u32) > 256 * 1024"
    using assms(3) len by (simp add: word_less_nat_alt)
  with b1 get_law [OF b1(2), of "of_nat (length s)"] len show ?thesis
    by (auto simp: get_string_via_def)
qed

lemma get_string_too_long:
  assumes "wf b" and "4 \<le> length (data b)" and "GET_32BIT (data b) > 256 * 1024"
  shows "get_string_via get b = Inl (Fatal ''Received packet with bad string length'')"
  using get_int_law [OF assms(1,2)] assms(3) by (auto simp: get_string_via_def)

lemma get_hex_law:
  "wf b \<Longrightarrow> data b = bs @ rest \<Longrightarrow>
    \<exists>b'. get_hex_via get (length bs) b = Inr (concat (map byte_hex bs), b') \<and> wf b' \<and> data b' = rest \<and> used b' = used b"
proof (induction bs arbitrary: b)
  case Nil
  then show ?case by simp
next
  case (Cons x bs)
  then obtain b1 where b1: "get b 1 = Inr ([x], b1)" "wf b1" "data b1 = bs @ rest" "used b1 = used b"
    using get_law [of b 1] by auto
  with Cons.IH [of b1] show ?case by auto
qed

lemma get_mp_int_law:
  assumes "wf b" and "data b = PUT_16BIT (of_nat bits) @ bs @ rest"
    and "bits < 2 ^ 16" and "0 < bits" and "length bs = (bits + 7) div 8"
  shows "\<exists>b'. get_mp_int_via get b = Inr (be_value bs, b') \<and> wf b' \<and> data b' = rest \<and> used b' = used b"
proof -
  obtain b1 where b1: "get b 2 = Inr (PUT_16BIT (of_nat bits), b1)" "wf b1" "data b1 = bs @ rest" "used b1 = used b"
    using get_law [of b 2] assms by auto
  have "GET_16BIT (PUT_16BIT (of_nat bits)) = take_bit 16 (of_nat bits)"
    using GET_PUT_16BIT [of "of_nat bits" "[]"] by simp
  also have "unat \<dots> = bits"
    using assms(3) by (simp add: unsigned_take_bit_eq unat_of_nat_small take_bit_nat_eq_self)
  finally have bits: "unat (GET_16BIT (PUT_16BIT (of_nat bits))) = bits" .
  have hex: "hex_value (concat (map byte_hex bs)) = be_value bs"
      "length (concat (map byte_hex bs)) = 2 * length bs"
    by (simp_all add: bytes_hex_value)
  have "concat (map byte_hex bs) \<noteq> []"
    using assms(4,5) by (cases bs) (auto simp: byte_hex_def)
  with b1 get_hex_law [OF b1(2,3)] assms(5) bits hex show ?thesis
    by (auto simp: get_mp_int_via_def Let_def)
qed

text \<open>A number that is put into an empty buffer comes back, up to 65535 bits.\<close>

lemma mp_int_roundtrip:
  assumes "wf b" and "data b = []" and "bit_length v < 2 ^ 16" and "used b + 2 ^ 16 < 2 ^ 32"
  shows "\<exists>b'. rbind (put_mp_int_via put b v) (get_mp_int_via get) = Inr (v, b') \<and> wf b' \<and> data b' = []"
proof -
  let ?bs = "hex_to_bytes (hex_digits v)"
  have len: "length ?bs = (bit_length v + 7) div 8" by (rule mp_bytes)
  obtain b1 where b1: "put b (PUT_16BIT (of_nat (bit_length v))) = Inr b1" "wf b1"
    "data b1 = PUT_16BIT (of_nat (bit_length v))" "used b1 \<le> used b + 2 + 4096"
    using put_law [OF assms(1), of "PUT_16BIT (of_nat (bit_length v))"] assms(2,4) by auto
  obtain b2 where b2: "put b1 ?bs = Inr b2" "wf b2" "data b2 = data b1 @ ?bs"
    using put_law [OF b1(2), of ?bs] b1(4) assms(3,4) len
      div_le_mono [of "bit_length v + 7" 65542 8] by auto
  from get_mp_int_law [OF b2(2), of "bit_length v" ?bs "[]"] b1 b2 len assms(3) bit_length_pos
  show ?thesis by (auto simp: put_mp_int_via_def mp_bytes)
qed

end

text \<open>A multiple-precision integer of at most 65535 bits that \<^verbatim>\<open>buffer_put_mp_int\<close> stores in an
  empty well-formed buffer is what \<^verbatim>\<open>buffer_get_mp_int\<close> reads back, through the hexadecimal string
  on both sides, and the buffer is empty again.\<close>

theorem buffer_mp_int_roundtrip:
  assumes "buffer_wf b" and "contents b = []" and "bit_length v < 2 ^ 16"
    and "unat (b_alloc b) + 2 ^ 16 < 2 ^ 32"
  shows "\<exists>b'. rbind (buffer_put_mp_int b v) buffer_get_mp_int = Inr (v, b') \<and> buffer_wf b' \<and> contents b' = []"
  using bf.mp_int_roundtrip [OF assms] by (simp add: buffer_put_mp_int_def buffer_get_mp_int_def)

theorem buffer_mp_int_roundtrip_witness:
  "\<exists>b'. rbind (buffer_put_mp_int buffer_init 70000) buffer_get_mp_int = Inr (70000, b') \<and>
        buffer_wf b' \<and> contents b' = []"
proof (rule buffer_mp_int_roundtrip)
  show "bit_length 70000 < 2 ^ 16" by (simp add: bit_length.simps)
  show "unat (b_alloc buffer_init) + 2 ^ 16 < 2 ^ 32" by (simp add: buffer_init_def)
qed simp_all

text \<open>A string of at most 256 kilobytes that \<^verbatim>\<open>buffer_put_string\<close> appends to an empty buffer is
  read back by \<^verbatim>\<open>buffer_get_string\<close>; a longer one is written but refused by the reader.\<close>

theorem buffer_string_roundtrip:
  assumes "buffer_wf b" and "contents b = []" and "length s < 2 ^ 30" and "unat (b_alloc b) < 2 ^ 30"
  shows "\<exists>b1. buffer_put_string b s = Inr b1 \<and>
    (if length s \<le> 256 * 1024
     then \<exists>b'. buffer_get_string b1 = Inr (s, b') \<and> buffer_wf b' \<and> contents b' = []
     else buffer_get_string b1 = Inl (Fatal ''Received packet with bad string length''))"
proof -
  have len: "unat (of_nat (length s) :: u32) = length s" using assms(3) by (intro unat_of_nat_small) simp
  obtain b0 where b0: "buffer_put b (PUT_32BIT (of_nat (length s))) = Inr b0" "buffer_wf b0"
      "contents b0 = PUT_32BIT (of_nat (length s))" "unat (b_alloc b0) \<le> unat (b_alloc b) + 4 + 4096"
    using bf.put_law [OF assms(1), of "PUT_32BIT (of_nat (length s))"] assms(2,4) by auto
  obtain b1 where b1: "buffer_put b0 s = Inr b1" "buffer_wf b1" "contents b1 = PUT_32BIT (of_nat (length s)) @ s"
    using bf.put_law [OF b0(2), of s] b0(3,4) assms(3,4) by auto
  have put: "buffer_put_string b s = Inr b1"
    using b0(1) b1(1) by (simp add: buffer_put_string_def put_string_via_def put_int_via_def)
  show ?thesis
  proof (cases "length s \<le> 256 * 1024")
    case True
    then show ?thesis using put b1 bf.get_string_law [OF b1(2), of s "[]"] by (auto simp: buffer_get_string_def)
  next
    case False
    then have "GET_32BIT (contents b1) > 256 * 1024" using len by (simp add: b1(3) word_less_nat_alt)
    with False put bf.get_string_too_long [OF b1(2)] show ?thesis by (simp add: buffer_get_string_def b1(3))
  qed
qed

theorem buffer_string_roundtrip_witness:
  "\<exists>b1. buffer_put_string buffer_init [1, 2, 3] = Inr b1 \<and>
        (\<exists>b'. buffer_get_string b1 = Inr ([1, 2, 3], b') \<and> buffer_wf b' \<and> contents b' = [])"
  using buffer_string_roundtrip [of buffer_init "[1, 2, 3]"] by (simp add: buffer_init_def [THEN arg_cong [where f = b_alloc]])

end
