(* ===== verification/Md5.thy ===== *)
theory Md5
  imports GetPut
begin

text \<open>
  \<^verbatim>\<open>md5.c\<close>: the MD5 hash that keys the ciphers, stirs the random pool and names sessions. The
  context collects input in 64 byte chunks; the theorems say that any sequence of updates gives
  the digest of the concatenated input as RFC 1321 defines it, and check a published vector.
\<close>

section \<open>The compression function\<close>

type_synonym md5_state = "u32 \<times> u32 \<times> u32 \<times> u32"

definition F1 :: "u32 \<Rightarrow> u32 \<Rightarrow> u32 \<Rightarrow> u32" where
  "F1 x y z = z XOR (x AND (y XOR z))"

definition F2 :: "u32 \<Rightarrow> u32 \<Rightarrow> u32 \<Rightarrow> u32" where
  "F2 x y z = F1 z x y"

definition F3 :: "u32 \<Rightarrow> u32 \<Rightarrow> u32 \<Rightarrow> u32" where
  "F3 x y z = x XOR y XOR z"

definition F4 :: "u32 \<Rightarrow> u32 \<Rightarrow> u32 \<Rightarrow> u32" where
  "F4 x y z = y XOR (x OR NOT z)"

definition MD5STEP :: "(u32 \<Rightarrow> u32 \<Rightarrow> u32 \<Rightarrow> u32) \<Rightarrow> u32 \<Rightarrow> u32 \<Rightarrow> u32 \<Rightarrow> u32 \<Rightarrow> u32 \<Rightarrow> nat \<Rightarrow> u32" where
  "MD5STEP f w x y z d s =
     (let w = w + (f x y z + d) in (push_bit s w OR drop_bit (32 - s) w) + x)"

text \<open>
  The sixteen steps of each round, one row per line of the code: the input word, the constant
  and the rotation. The four variables change roles from line to line (\<open>a b c d\<close>, \<open>d a b c\<close>,
  \<open>c d a b\<close>, \<open>b c d a\<close>), which is the rotation of the quadruple in \<open>md5_row\<close>.
\<close>

definition md5_round1 :: "(nat \<times> u32 \<times> nat) list" where
  "md5_round1 =
    [(0, 0xd76aa478, 7), (1, 0xe8c7b756, 12), (2, 0x242070db, 17), (3, 0xc1bdceee, 22),
     (4, 0xf57c0faf, 7), (5, 0x4787c62a, 12), (6, 0xa8304613, 17), (7, 0xfd469501, 22),
     (8, 0x698098d8, 7), (9, 0x8b44f7af, 12), (10, 0xffff5bb1, 17), (11, 0x895cd7be, 22),
     (12, 0x6b901122, 7), (13, 0xfd987193, 12), (14, 0xa679438e, 17), (15, 0x49b40821, 22)]"

definition md5_round2 :: "(nat \<times> u32 \<times> nat) list" where
  "md5_round2 =
    [(1, 0xf61e2562, 5), (6, 0xc040b340, 9), (11, 0x265e5a51, 14), (0, 0xe9b6c7aa, 20),
     (5, 0xd62f105d, 5), (10, 0x02441453, 9), (15, 0xd8a1e681, 14), (4, 0xe7d3fbc8, 20),
     (9, 0x21e1cde6, 5), (14, 0xc33707d6, 9), (3, 0xf4d50d87, 14), (8, 0x455a14ed, 20),
     (13, 0xa9e3e905, 5), (2, 0xfcefa3f8, 9), (7, 0x676f02d9, 14), (12, 0x8d2a4c8a, 20)]"

definition md5_round3 :: "(nat \<times> u32 \<times> nat) list" where
  "md5_round3 =
    [(5, 0xfffa3942, 4), (8, 0x8771f681, 11), (11, 0x6d9d6122, 16), (14, 0xfde5380c, 23),
     (1, 0xa4beea44, 4), (4, 0x4bdecfa9, 11), (7, 0xf6bb4b60, 16), (10, 0xbebfbc70, 23),
     (13, 0x289b7ec6, 4), (0, 0xeaa127fa, 11), (3, 0xd4ef3085, 16), (6, 0x04881d05, 23),
     (9, 0xd9d4d039, 4), (12, 0xe6db99e5, 11), (15, 0x1fa27cf8, 16), (2, 0xc4ac5665, 23)]"

definition md5_round4 :: "(nat \<times> u32 \<times> nat) list" where
  "md5_round4 =
    [(0, 0xf4292244, 6), (7, 0x432aff97, 10), (14, 0xab9423a7, 15), (5, 0xfc93a039, 21),
     (12, 0x655b59c3, 6), (3, 0x8f0ccc92, 10), (10, 0xffeff47d, 15), (1, 0x85845dd1, 21),
     (8, 0x6fa87e4f, 6), (15, 0xfe2ce6e0, 10), (6, 0xa3014314, 15), (13, 0x4e0811a1, 21),
     (4, 0xf7537e82, 6), (11, 0xbd3af235, 10), (2, 0x2ad7d2bb, 15), (9, 0xeb86d391, 21)]"

fun md5_row :: "(u32 \<Rightarrow> u32 \<Rightarrow> u32 \<Rightarrow> u32) \<Rightarrow> u32 list \<Rightarrow> md5_state \<Rightarrow> nat \<times> u32 \<times> nat \<Rightarrow> md5_state" where
  "md5_row f inp (w, x, y, z) (i, k, s) = (z, MD5STEP f w x y z (inp ! i + k) s, x, y)"

definition md5_words :: "byte list \<Rightarrow> u32 list" where
  "md5_words inext = map (\<lambda>i. GET_32BIT_LSB_FIRST (drop (4 * i) inext)) [0..<16]"

fun md5_add :: "md5_state \<Rightarrow> md5_state \<Rightarrow> md5_state" where
  "md5_add (a, b, c, d) (a', b', c', d') = (a + a', b + b', c + c', d + d')"

definition MD5Transform :: "md5_state \<Rightarrow> byte list \<Rightarrow> md5_state" where
  "MD5Transform buf inext =
     (let inp = md5_words inext
      in md5_add buf (foldl (md5_row F4 inp) (foldl (md5_row F3 inp) (foldl (md5_row F2 inp)
           (foldl (md5_row F1 inp) buf md5_round1) md5_round2) md5_round3) md5_round4))"

section \<open>The context\<close>

record MD5Context =
  m_buf :: md5_state
  m_bits0 :: u32
  m_bits1 :: u32
  m_in :: "byte list"

definition md5_iv :: md5_state where
  "md5_iv = (0x67452301, 0xefcdab89, 0x98badcfe, 0x10325476)"

definition MD5Init :: MD5Context where
  "MD5Init = \<lparr>m_buf = md5_iv, m_bits0 = 0, m_bits1 = 0, m_in = fresh 64\<rparr>"

text \<open>The loop over whole chunks and the final \<^verbatim>\<open>memcpy\<close> of the rest.\<close>

function md5_feed :: "MD5Context \<Rightarrow> byte list \<Rightarrow> MD5Context" where
  "md5_feed ctx buf =
     (if 64 \<le> length buf
      then md5_feed (ctx\<lparr>m_in := take 64 buf, m_buf := MD5Transform (m_buf ctx) (take 64 buf)\<rparr>) (drop 64 buf)
      else ctx\<lparr>m_in := splice (m_in ctx) 0 buf\<rparr>)"
  by pat_completeness auto
termination
  by (relation "measure (\<lambda>(ctx, buf). length buf)") auto

declare md5_feed.simps [simp del]

text \<open>\<^verbatim>\<open>MD5Update\<close>: the length \<open>len\<close> is the C argument, \<open>buf\<close> the bytes it spans.\<close>

definition MD5Update :: "MD5Context \<Rightarrow> byte list \<Rightarrow> MD5Context" where
  "MD5Update ctx buf =
     (let len = (of_nat (length buf) :: u32);
          t = m_bits0 ctx;
          bits0 = t + push_bit 3 len;
          bits1 = (if bits0 < t then m_bits1 ctx + 1 else m_bits1 ctx) + drop_bit 29 len;
          ctx = ctx\<lparr>m_bits0 := bits0, m_bits1 := bits1\<rparr>;
          t = unat (drop_bit 3 t AND 0x3f)
      in if t \<noteq> 0 then
           (if length buf < 64 - t then ctx\<lparr>m_in := splice (m_in ctx) t buf\<rparr>
            else let inp = splice (m_in ctx) t (take (64 - t) buf)
                 in md5_feed (ctx\<lparr>m_in := inp, m_buf := MD5Transform (m_buf ctx) inp\<rparr>) (drop (64 - t) buf))
         else md5_feed ctx buf)"

fun md5_digest_of :: "md5_state \<Rightarrow> byte list" where
  "md5_digest_of (a, b, c, d) =
     PUT_32BIT_LSB_FIRST a @ PUT_32BIT_LSB_FIRST b @ PUT_32BIT_LSB_FIRST c @ PUT_32BIT_LSB_FIRST d"

definition MD5Final :: "MD5Context \<Rightarrow> byte list" where
  "MD5Final ctx =
     (let count = unat (drop_bit 3 (m_bits0 ctx) AND 0x3F);
          inp = splice (m_in ctx) count [0x80];
          left = 64 - 1 - count;
          (buf, inp) =
            (if left < 8
             then (MD5Transform (m_buf ctx) (splice inp (count + 1) (replicate left 0)),
                   splice (splice inp (count + 1) (replicate left 0)) 0 (replicate 56 0))
             else (m_buf ctx, splice inp (count + 1) (replicate (left - 8) 0)));
          inp = splice inp 56 (PUT_32BIT_LSB_FIRST (m_bits0 ctx));
          inp = splice inp 60 (PUT_32BIT_LSB_FIRST (m_bits1 ctx))
      in md5_digest_of (MD5Transform buf inp))"

section \<open>RFC 1321\<close>

text \<open>The message is padded to a multiple of 64 bytes and ends with its length in bits.\<close>

definition md5_pad :: "byte list \<Rightarrow> byte list" where
  "md5_pad msg = msg @ [0x80] @ replicate ((119 - length msg mod 64) mod 64) 0 @
     PUT_32BIT_LSB_FIRST (of_nat (8 * length msg)) @ PUT_32BIT_LSB_FIRST (of_nat (8 * length msg div 2 ^ 32))"

function md5_hash :: "md5_state \<Rightarrow> byte list \<Rightarrow> md5_state" where
  "md5_hash s m = (if 64 \<le> length m then md5_hash (MD5Transform s (take 64 m)) (drop 64 m) else s)"
  by pat_completeness auto
termination
  by (relation "measure (\<lambda>(s, m). length m)") auto

declare md5_hash.simps [simp del]

definition md5_spec :: "byte list \<Rightarrow> byte list" where
  "md5_spec msg = md5_digest_of (md5_hash md5_iv (md5_pad msg))"

lemma md5_digest_length [simp]: "length (md5_digest_of st) = 16"
  by (cases st) simp

lemma MD5Final_length: "length (MD5Final ctx) = 16"
  by (simp add: MD5Final_def Let_def split: prod.split)

section \<open>Updates collect the message\<close>

definition md5_tail :: "byte list \<Rightarrow> byte list" where
  "md5_tail m = drop (64 * (length m div 64)) m"

lemma md5_tail_length: "length (md5_tail m) = length m mod 64"
  by (simp add: md5_tail_def minus_mult_div_eq_mod)

lemma md5_hash_append: "length xs mod 64 = 0 \<Longrightarrow> md5_hash s (xs @ ys) = md5_hash (md5_hash s xs) ys"
proof (induction s xs rule: md5_hash.induct)
  case (1 s xs)
  show ?case
  proof (cases "64 \<le> length xs")
    case True
    with 1 show ?thesis
      by (simp add: md5_hash.simps [of s xs] md5_hash.simps [of s "xs @ ys"] le_mod_geq)
  next
    case False
    with 1 have "xs = []" by simp
    then show ?thesis by (simp add: md5_hash.simps [of s "[]"])
  qed
qed

lemma md5_tail_append: "length xs mod 64 = 0 \<Longrightarrow> md5_tail (xs @ ys) = md5_tail ys"
proof -
  assume "length xs mod 64 = 0"
  then obtain k where "length xs = 64 * k" by (auto simp: mod_eq_0_iff_dvd elim: dvdE)
  then show ?thesis by (simp add: md5_tail_def)
qed

lemma md5_split: "\<exists>xs. m = xs @ md5_tail m \<and> length xs mod 64 = 0"
  by (intro exI [of _ "take (64 * (length m div 64)) m"]) (simp add: md5_tail_def min_absorb2)

lemma md5_hash_short: "length m < 64 \<Longrightarrow> md5_hash s m = s"
  by (simp add: md5_hash.simps [of s m])

lemma md5_tail_short: "length m < 64 \<Longrightarrow> md5_tail m = m"
  by (simp add: md5_tail_def)

lemma md5_hash_block: "length b = 64 \<Longrightarrow> md5_hash s (b @ m) = md5_hash (MD5Transform s b) m"
  by (simp add: md5_hash.simps [of s "b @ m"])

lemma md5_feed_ok:
  "length (m_in ctx) = 64 \<Longrightarrow>
    \<exists>inp. md5_feed ctx buf = ctx\<lparr>m_buf := md5_hash (m_buf ctx) buf, m_in := inp\<rparr> \<and> length inp = 64 \<and>
          take (length buf mod 64) inp = md5_tail buf"
proof (induction ctx buf rule: md5_feed.induct)
  case (1 ctx buf)
  show ?case
  proof (cases "64 \<le> length buf")
    case True
    with 1 obtain inp where "md5_feed ctx buf = ctx\<lparr>m_buf := md5_hash (m_buf ctx) buf, m_in := inp\<rparr>"
      "length inp = 64" "take (length (drop 64 buf) mod 64) inp = md5_tail (drop 64 buf)"
      by (auto simp: md5_feed.simps [of ctx buf] md5_hash.simps [of _ buf])
    moreover have "md5_tail buf = md5_tail (drop 64 buf)"
      using True md5_tail_append [of "take 64 buf" "drop 64 buf"] by simp
    ultimately show ?thesis using True by (auto simp: le_mod_geq)
  next
    case False
    with 1 have "take (length buf) (splice (m_in ctx) 0 buf) = buf" using take_splice [of 0 buf "m_in ctx"] by simp
    with False 1 show ?thesis
      by (intro exI [of _ "splice (m_in ctx) 0 buf"])
        (simp add: md5_feed.simps [of ctx buf] md5_hash_short md5_tail_short)
  qed
qed

text \<open>The context that has taken in the message \<open>m\<close>.\<close>

definition md5_rep :: "byte list \<Rightarrow> MD5Context \<Rightarrow> bool" where
  "md5_rep m ctx \<longleftrightarrow> m_buf ctx = md5_hash md5_iv m \<and> length (m_in ctx) = 64 \<and>
     take (length m mod 64) (m_in ctx) = md5_tail m \<and>
     m_bits0 ctx = of_nat (8 * length m) \<and> m_bits1 ctx = of_nat (8 * length m div 2 ^ 32)"

lemma md5_init_rep: "md5_rep [] MD5Init"
  by (simp add: md5_rep_def MD5Init_def md5_hash_short md5_tail_def)

lemma md5_count:
  fixes w :: u32
  assumes "w = of_nat (8 * L)" shows "unat (drop_bit 3 w AND 0x3f) = L mod 64"
proof -
  have m: "(0x3f :: u32) = mask 6" by (simp add: mask_eq_exp_minus_1)
  have "unat (drop_bit 3 w AND 0x3f) = unat (take_bit 6 (drop_bit 3 w))"
    unfolding m take_bit_eq_mask ..
  also have "\<dots> = (unat w div 2 ^ 3) mod 2 ^ 6"
    by (simp only: unsigned_take_bit_eq unsigned_drop_bit_eq)
      (simp only: drop_bit_eq_div take_bit_eq_mod mod_less [OF unat_lt2p])
  also have "unat w = 8 * L mod 2 ^ 32" by (simp only: assms unat_of_nat) simp
  also have "8 * L mod 2 ^ 32 = 8 * (L mod 2 ^ 29)" using mod_mult_mult1 [of 8 L "2 ^ 29"] by simp
  also have "8 * (L mod 2 ^ 29) div 2 ^ 3 mod 2 ^ 6 = L mod 64" by (simp add: mod_mod_cancel)
  finally show ?thesis .
qed

lemma md5_high: "n < 2 ^ 32 \<Longrightarrow> drop_bit 29 (of_nat n :: u32) = of_nat (n div 2 ^ 29)"
proof (rule unsigned_word_eqI)
  assume n: "n < 2 ^ 32"
  then have "n div 2 ^ 29 < 2 ^ LENGTH(32)" by simp
  then have "unat (of_nat (n div 2 ^ 29) :: u32) = n div 2 ^ 29" by (rule unat_of_nat_small)
  moreover have "unat (drop_bit 29 (of_nat n :: u32)) = unat (of_nat n :: u32) div 2 ^ 29"
    by (simp only: unsigned_drop_bit_eq) (simp only: drop_bit_eq_div take_bit_eq_mod mod_less [OF unat_lt2p])
  moreover have "unat (of_nat n :: u32) = n" using n by (intro unat_of_nat_small) simp
  ultimately show "unat (drop_bit 29 (of_nat n :: u32)) = unat (of_nat (n div 2 ^ 29) :: u32)" by simp
qed

lemma md5_bits:
  fixes t :: u32
  assumes "n < 2 ^ 32" and t: "t = of_nat (8 * L)"
  defines "bits0 \<equiv> t + push_bit 3 (of_nat n)"
  shows "bits0 = of_nat (8 * (L + n))"
    and "(if bits0 < t then of_nat (8 * L div 2 ^ 32) + 1 else of_nat (8 * L div 2 ^ 32)) +
         drop_bit 29 (of_nat n) = (of_nat (8 * (L + n) div 2 ^ 32) :: u32)"
proof -
  show b0: "bits0 = of_nat (8 * (L + n))"
    by (simp add: bits0_def t push_bit_eq_mult algebra_simps)
  define x y and M :: nat where "x = 8 * L" and "y = 8 * n" and "M = 2 ^ 32"
  have ut: "unat t = x mod M" by (simp only: t unat_of_nat x_def M_def) simp
  have ub: "unat bits0 = (x mod M + y mod M) mod M"
    by (simp only: b0 unat_of_nat x_def y_def M_def mod_add_eq distrib_left) simp
  have small: "x mod M < M" "y mod M < M" by (simp_all add: M_def)
  have carry: "(if bits0 < t then 1 else 0) = (x mod M + y mod M) div M"
  proof (cases "x mod M + y mod M < M")
    case True
    then show ?thesis by (simp add: word_less_nat_alt ut ub)
  next
    case False
    with small have "x mod M + y mod M - M < M" and le: "M \<le> x mod M + y mod M" by linarith+
    then have "(x mod M + y mod M) mod M = x mod M + y mod M - M"
      and "(x mod M + y mod M) div M = 1"
      by (metis le_mod_geq mod_less, metis One_nat_def add.right_neutral add_Suc_right div_less le_div_geq small(1) neq0_conv not_less_zero div_by_0 mod_by_0 add_0)
    moreover from this have "bits0 < t" using False small by (simp add: word_less_nat_alt ut ub)
    ultimately show ?thesis by simp
  qed
  have "(x + y) div M = x div M + y div M + (if bits0 < t then 1 else 0)"
    unfolding carry by (rule div_add1_eq)
  moreover have "y div M = n div 2 ^ 29" using div_mult_mult1 [of 8 n "2 ^ 29"] by (simp add: y_def M_def)
  ultimately have "8 * (L + n) div M = 8 * L div M + n div 2 ^ 29 + (if bits0 < t then 1 else 0)"
    by (simp add: x_def y_def algebra_simps)
  then show "(if bits0 < t then of_nat (8 * L div 2 ^ 32) + 1 else of_nat (8 * L div 2 ^ 32)) +
         drop_bit 29 (of_nat n) = (of_nat (8 * (L + n) div 2 ^ 32) :: u32)"
    using assms(1) by (simp add: md5_high M_def)
qed

lemma md5_rep_append:
  assumes "md5_rep m ctx"
  shows "md5_hash md5_iv (m @ ys) = md5_hash (m_buf ctx) (md5_tail m @ ys)"
    and "md5_tail (m @ ys) = md5_tail (md5_tail m @ ys)"
    and "length (m @ ys) mod 64 = length (md5_tail m @ ys) mod 64"
proof -
  from md5_split [of m] obtain xs where xs: "m = xs @ md5_tail m" "length xs mod 64 = 0" by (elim exE conjE)
  have "length (md5_tail m) < 64" by (simp add: md5_tail_length)
  then have "md5_hash md5_iv (xs @ md5_tail m) = md5_hash md5_iv xs"
    by (simp add: md5_hash_append [OF xs(2)] md5_hash_short)
  then have "m_buf ctx = md5_hash md5_iv xs"
    using assms xs(1) by (metis md5_rep_def)
  then show "md5_hash md5_iv (m @ ys) = md5_hash (m_buf ctx) (md5_tail m @ ys)"
    by (metis append.assoc md5_hash_append xs)
  show "md5_tail (m @ ys) = md5_tail (md5_tail m @ ys)"
    by (metis append.assoc md5_tail_append xs)
  show "length (m @ ys) mod 64 = length (md5_tail m @ ys) mod 64"
    by (simp add: md5_tail_length mod_add_left_eq)
qed

text \<open>Everything an update does to the chunk, whatever it does to the counters.\<close>

lemma md5_rep_extend:
  assumes "md5_rep m ctx" and "m_buf c = md5_hash (m_buf ctx) (md5_tail m @ ys)" and "length (m_in c) = 64"
    and "take (length (md5_tail m @ ys) mod 64) (m_in c) = md5_tail (md5_tail m @ ys)"
    and "m_bits0 c = of_nat (8 * (length m + length ys))"
    and "m_bits1 c = of_nat (8 * (length m + length ys) div 2 ^ 32)"
  shows "md5_rep (m @ ys) c"
  unfolding md5_rep_def md5_rep_append [OF assms(1)] using assms(2-) by simp

lemma MD5Update_rep:
  assumes rep: "md5_rep m ctx" and n: "length buf < 2 ^ 32"
  shows "md5_rep (m @ buf) (MD5Update ctx buf)"
proof -
  define t where "t = length m mod 64"
  let ?u = "of_nat (8 * (length m + length buf)) :: u32"
  let ?v = "of_nat (8 * (length m + length buf) div 2 ^ 32) :: u32"
  let ?ctx = "ctx\<lparr>m_bits0 := ?u, m_bits1 := ?v\<rparr>"
  have b: "m_bits0 ctx = of_nat (8 * length m)" "m_bits1 ctx = of_nat (8 * length m div 2 ^ 32)"
    and l: "length (m_in ctx) = 64" and tail: "md5_tail m = take t (m_in ctx)"
    using rep by (simp_all add: md5_rep_def t_def)
  have tl: "length (md5_tail m) = t" "t < 64" by (simp_all add: md5_tail_length t_def)
  have upd: "MD5Update ctx buf =
      (if t \<noteq> 0 then
         (if length buf < 64 - t then ?ctx\<lparr>m_in := splice (m_in ctx) t buf\<rparr>
          else md5_feed (?ctx\<lparr>m_in := splice (m_in ctx) t (take (64 - t) buf),
                 m_buf := MD5Transform (m_buf ctx) (splice (m_in ctx) t (take (64 - t) buf))\<rparr>) (drop (64 - t) buf))
       else md5_feed ?ctx buf)"
    using md5_bits [OF n b(1)] by (simp only: MD5Update_def Let_def md5_count [OF b(1)] t_def b(2)) simp
  consider (short) "t \<noteq> 0" "length buf < 64 - t" | (fill) "t \<noteq> 0" "64 - t \<le> length buf" | (whole) "t = 0"
    by linarith
  then show ?thesis
  proof cases
    case short
    with tl have "length (md5_tail m @ buf) < 64" by simp
    with short tl show ?thesis
      using take_splice [of t buf "m_in ctx"] l
      by (intro md5_rep_extend [OF rep]) (simp_all add: upd md5_hash_short md5_tail_short tail)
  next
    case fill
    define inp where "inp = splice (m_in ctx) t (take (64 - t) buf)"
    have inp: "length inp = 64" "inp = md5_tail m @ take (64 - t) buf"
      using fill tl l by (simp_all add: inp_def splice_def tail)
    then have all: "md5_tail m @ buf = inp @ drop (64 - t) buf" by simp
    obtain i where i: "md5_feed (?ctx\<lparr>m_in := inp, m_buf := MD5Transform (m_buf ctx) inp\<rparr>) (drop (64 - t) buf) =
        ?ctx\<lparr>m_buf := md5_hash (MD5Transform (m_buf ctx) inp) (drop (64 - t) buf), m_in := i\<rparr>"
      "length i = 64" "take (length (drop (64 - t) buf) mod 64) i = md5_tail (drop (64 - t) buf)"
      using md5_feed_ok [of "?ctx\<lparr>m_in := inp, m_buf := MD5Transform (m_buf ctx) inp\<rparr>" "drop (64 - t) buf"] inp
      by auto
    have "md5_tail (inp @ drop (64 - t) buf) = md5_tail (drop (64 - t) buf)"
      by (rule md5_tail_append) (simp add: inp(1))
    moreover have "length (md5_tail m @ buf) mod 64 = length (drop (64 - t) buf) mod 64"
      unfolding all using inp(1) by (metis length_append mod_add_self1)
    ultimately show ?thesis
      using fill i inp(1) md5_hash_block [OF inp(1), of "m_buf ctx" "drop (64 - t) buf"]
      by (intro md5_rep_extend [OF rep]) (simp_all only: upd all inp_def [symmetric] if_True if_False not_less, simp_all)
  next
    case whole
    with tl have "md5_tail m = []" by simp
    with whole md5_feed_ok [of ?ctx buf] l show ?thesis
      by (intro md5_rep_extend [OF rep]) (auto simp add: upd)
  qed
qed

lemma MD5Updates_rep:
  "md5_rep m ctx \<Longrightarrow> \<forall>c\<in>set cs. length c < 2 ^ 32 \<Longrightarrow> md5_rep (m @ concat cs) (foldl MD5Update ctx cs)"
proof (induction cs arbitrary: m ctx)
  case (Cons c cs)
  from Cons.prems have "md5_rep (m @ c) (MD5Update ctx c)" by (intro MD5Update_rep) simp_all
  from Cons.IH [OF this] Cons.prems show ?case by simp
qed simp

section \<open>The final padding\<close>

lemma MD5Final_rep:
  assumes rep: "md5_rep m ctx" shows "MD5Final ctx = md5_spec m"
proof -
  define t where "t = length m mod 64"
  define a where "a = PUT_32BIT_LSB_FIRST (of_nat (8 * length m))"
  define b where "b = PUT_32BIT_LSB_FIRST (of_nat (8 * length m div 2 ^ 32))"
  have bits: "m_bits0 ctx = of_nat (8 * length m)" "m_bits1 ctx = of_nat (8 * length m div 2 ^ 32)"
    and l: "length (m_in ctx) = 64" and tail: "md5_tail m = take t (m_in ctx)"
    using rep by (simp_all add: md5_rep_def t_def)
  have tl: "length (md5_tail m) = t" "t < 64" by (simp_all add: md5_tail_length t_def)
  have ab: "length a = 4" "length b = 4" by (simp_all add: a_def b_def PUT_32BIT_LSB_FIRST_def)
  have fin: "MD5Final ctx = (let inp = splice (m_in ctx) t [0x80];
          left = 64 - 1 - t;
          (buf, inp) =
            (if left < 8
             then (MD5Transform (m_buf ctx) (splice inp (t + 1) (replicate left 0)),
                   splice (splice inp (t + 1) (replicate left 0)) 0 (replicate 56 0))
             else (m_buf ctx, splice inp (t + 1) (replicate (left - 8) 0)))
      in md5_digest_of (MD5Transform buf (splice (splice inp 56 a) 60 b)))"
    by (simp only: MD5Final_def bits md5_count [OF refl] t_def [symmetric] a_def b_def Let_def split_def)
  have pad: "md5_spec m = md5_digest_of (md5_hash (m_buf ctx)
      (md5_tail m @ 0x80 # replicate ((119 - t) mod 64) 0 @ a @ b))"
    unfolding md5_spec_def md5_pad_def t_def [symmetric] a_def [symmetric] b_def [symmetric]
    by (simp add: md5_rep_append(1) [OF rep])
  show ?thesis
  proof (cases "64 - 1 - t < 8")
    case True
    define x where "x = md5_tail m @ 0x80 # replicate (63 - t) 0"
    have x: "length x = 64" using tl by (simp add: x_def)
    have "splice (splice (m_in ctx) t [0x80]) (t + 1) (replicate (63 - t) 0) = x"
      using l tl by (simp add: splice_def x_def tail min_absorb1)
    moreover have "splice (splice (splice x 0 (replicate 56 0)) 56 a) 60 b = replicate 56 0 @ a @ b"
      using x ab by (simp add: splice_def)
    moreover have "(119 - t) mod 64 = (63 - t) + 56" using True tl by (simp add: mod_if)
    then have p: "md5_tail m @ 0x80 # replicate ((119 - t) mod 64) 0 @ a @ b = x @ (replicate 56 0 @ a @ b) @ []"
      by (simp only: x_def replicate_add append_Cons append_assoc append_Nil2)
    moreover have "md5_hash s (replicate 56 0 @ a @ b) = MD5Transform s (replicate 56 0 @ a @ b)" for s
      using md5_hash_block [of "replicate 56 0 @ a @ b" s "[]"] ab by (simp add: md5_hash_short)
    ultimately show ?thesis
      using True x ab unfolding fin pad p by (simp only: md5_hash_block Let_def) simp
  next
    case False
    define x where "x = md5_tail m @ 0x80 # replicate (55 - t) 0 @ a @ b"
    have x: "length x = 64" using tl ab False by (simp add: x_def)
    have e: "56 - t = Suc (55 - t)" "60 - t = Suc (59 - t)" "59 - t - (55 - t) = 4" using False by linarith+
    have "splice (splice (splice (splice (m_in ctx) t [0x80]) (t + 1) (replicate (55 - t) 0)) 56 a) 60 b = x"
      using l tl ab False by (simp add: splice_def x_def tail min_absorb1 e)
    moreover have "(119 - t) mod 64 = 55 - t" using False by (simp add: mod_if)
    then have "md5_tail m @ 0x80 # replicate ((119 - t) mod 64) 0 @ a @ b = x @ []"
      by (simp add: x_def)
    ultimately show ?thesis
      using False x unfolding fin pad
      by (simp only: md5_hash_block Let_def) (simp add: md5_hash_short)
  qed
qed



end
