(* ===== verification/MpAux.thy ===== *)
theory MpAux
  imports Bufaux Md5
begin

text \<open>
  \<^verbatim>\<open>mpaux.c\<close>: multiple-precision integers as fixed-length byte strings, and the session
  identifier. A number is a natural number; \<^verbatim>\<open>mpz_get_ui\<close> reads its low bits and
  \<^verbatim>\<open>mpz_div_2exp\<close> shifts it down.
\<close>

section \<open>The conversions\<close>

text \<open>
  The two loops of \<^verbatim>\<open>mp_linearize_msb_first\<close> fill the array from its end: words of 32 bits while
  four bytes are left, then single bytes. The array is the list of the \<open>len\<close> bytes written.
\<close>

fun mp_linearize_bytes :: "nat \<Rightarrow> nat \<Rightarrow> byte list" where
  "mp_linearize_bytes 0 aux = []"
| "mp_linearize_bytes (Suc i) aux = mp_linearize_bytes i (aux div 2 ^ 8) @ [of_nat aux]"

fun mp_linearize_msb_first :: "nat \<Rightarrow> nat \<Rightarrow> byte list" where
  "mp_linearize_msb_first i aux =
     (if 4 \<le> i then mp_linearize_msb_first (i - 4) (aux div 2 ^ 32) @ PUT_32BIT (of_nat aux)
      else mp_linearize_bytes i aux)"

fun mp_unlinearize_from :: "nat \<Rightarrow> byte list \<Rightarrow> nat" where
  "mp_unlinearize_from v [] = v"
| "mp_unlinearize_from v (b # bs) =
     (if 4 \<le> length (b # bs)
      then mp_unlinearize_from (v * 2 ^ 32 + unat (GET_32BIT (b # bs))) (drop 4 (b # bs))
      else mp_unlinearize_from (v * 2 ^ 8 + unat b) bs)"

definition mp_unlinearize_msb_first :: "byte list \<Rightarrow> nat" where
  "mp_unlinearize_msb_first buf = mp_unlinearize_from 0 buf"

definition compute_session_id :: "byte list \<Rightarrow> nat \<Rightarrow> nat \<Rightarrow> nat \<Rightarrow> nat \<Rightarrow> byte list" where
  "compute_session_id cookie host_key_bits host_key_n session_key_bits session_key_n =
     (let buf = mp_linearize_msb_first ((host_key_bits + 7) div 8) host_key_n @
                mp_linearize_msb_first ((session_key_bits + 7) div 8) session_key_n @ take 8 cookie
      in MD5Final (MD5Update MD5Init buf))"

declare mp_linearize_msb_first.simps [simp del]
declare mp_unlinearize_from.simps(2) [simp del]

section \<open>The big-endian value\<close>

lemma unat_byte_of: "unat (ucast (drop_bit k v) :: byte) = unat v div 2 ^ k mod 256" for v :: u32
  by (simp only: unsigned_ucast_eq unsigned_drop_bit_eq)
    (simp only: take_bit_eq_mod drop_bit_eq_div mod_less [OF unat_lt2p], simp)

lemma four_bytes:
  fixes n :: nat assumes "n < 2 ^ 32"
  shows "n div 2 ^ 24 mod 256 * 256 ^ 3 + n div 2 ^ 16 mod 256 * 256 ^ 2 + n div 2 ^ 8 mod 256 * 256 + n mod 256 = n"
proof -
  define a b c where "a = n div 256" and "b = a div 256" and "c = b div 256"
  have "n = 256 * a + n mod 256" "a = 256 * b + a mod 256" "b = 256 * c + b mod 256"
    by (simp_all only: a_def b_def c_def mult_div_mod_eq)
  moreover have "c < 256" using assms by (simp add: a_def b_def c_def div_mult2_eq [symmetric] less_mult_imp_div_less)
  moreover have "n div 2 ^ 24 = c" "n div 2 ^ 16 = b" "n div 2 ^ 8 = a"
    by (simp_all add: a_def b_def c_def div_mult2_eq [symmetric])
  ultimately show ?thesis by simp
qed

lemma be_value_PUT_32BIT [simp]: "be_value (PUT_32BIT v) = unat v"
  using four_bytes [of "unat v"] unat_lt2p [of v] unat_byte_of [of 0 v]
  by (simp add: PUT_32BIT_def unat_byte_of)

lemma be_value_GET_32BIT: "4 \<le> length bs \<Longrightarrow> unat (GET_32BIT bs) = be_value (take 4 bs)"
  by (metis GET_32BIT_take PUT_GET_32BIT be_value_PUT_32BIT length_take min.absorb2 order_refl)

lemma be_value_inj:
  "length xs = length ys \<Longrightarrow> be_value xs = be_value ys \<Longrightarrow> xs = ys"
proof (induction xs ys rule: list_induct2)
  case (Cons x xs y ys)
  have "unat x = (unat x * 256 ^ length xs + be_value xs) div 256 ^ length xs" if "length xs = n" for x :: byte and xs n
    using be_value_bound [of xs] by simp
  then have "unat x = unat y" using Cons by (metis be_value_simps(2))
  with Cons show ?case by (simp add: unsigned_word_eqI)
qed simp

lemma mp_linearize_bytes_value:
  "length (mp_linearize_bytes i v) = i \<and> be_value (mp_linearize_bytes i v) = v mod 256 ^ i"
proof (induction i arbitrary: v)
  case (Suc i)
  have "v mod 256 ^ Suc i = 256 * (v div 256 mod 256 ^ i) + v mod 256"
    by (simp add: mod_mult2_eq)
  with Suc.IH [of "v div 256"] show ?case by (simp add: be_value_append unat_of_nat)
qed simp

lemma mp_linearize_value:
  "length (mp_linearize_msb_first i v) = i \<and> be_value (mp_linearize_msb_first i v) = v mod 256 ^ i"
proof (induction i v rule: mp_linearize_msb_first.induct)
  case (1 i v)
  show ?case
  proof (cases "4 \<le> i")
    case True
    then obtain j where i: "i = 4 + j" using le_Suc_ex by blast
    have "v mod 256 ^ (4 + j) = 2 ^ 32 * (v div 2 ^ 32 mod 256 ^ j) + v mod 2 ^ 32"
      using mod_mult2_eq [of v "2 ^ 32" "256 ^ j"] by (simp add: power_add)
    moreover have "unat (of_nat v :: u32) = v mod 2 ^ 32" by (simp only: unat_of_nat) simp
    ultimately show ?thesis
      using 1 True unfolding i by (simp add: mp_linearize_msb_first.simps [of "4 + j"] be_value_append)
  next
    case False
    then show ?thesis by (simp add: mp_linearize_msb_first.simps [of i] mp_linearize_bytes_value)
  qed
qed

lemma mp_unlinearize_value: "mp_unlinearize_from v bs = v * 256 ^ length bs + be_value bs"
proof (induction v bs rule: mp_unlinearize_from.induct)
  case (2 v b bs)
  show ?case
  proof (cases "4 \<le> length (b # bs)")
    case True
    then obtain r where r: "b # bs = take 4 (b # bs) @ r" "length (take 4 (b # bs)) = 4" "r = drop 4 (b # bs)"
      by simp
    have "be_value (b # bs) = be_value (take 4 (b # bs)) * 256 ^ length r + be_value r"
      by (metis be_value_append r(1))
    moreover have "length (b # bs) = 4 + length r" using r by (metis length_append)
    moreover have "mp_unlinearize_from v (b # bs) =
        mp_unlinearize_from (v * 2 ^ 32 + be_value (take 4 (b # bs))) r"
      using True be_value_GET_32BIT [OF True] by (simp only: mp_unlinearize_from.simps if_True r(3))
    moreover have "\<dots> = (v * 2 ^ 32 + be_value (take 4 (b # bs))) * 256 ^ length r + be_value r"
      using 2(1) [OF True] be_value_GET_32BIT [OF True] by (simp only: r(3))
    ultimately show ?thesis by (simp only: power_add) (simp add: algebra_simps)
  next
    case False
    with 2(2) show ?thesis
      by (simp add: mp_unlinearize_from.simps(2) algebra_simps)
  qed
qed simp

lemma mp_linearize_be_value: "mp_linearize_msb_first (length bs) (be_value bs) = bs"
  using be_value_bound [of bs] by (intro be_value_inj) (simp_all add: mp_linearize_value)

section \<open>Properties\<close>

text \<open>The byte string of length \<open>len\<close> that \<^verbatim>\<open>mp_linearize_msb_first\<close> writes is the number modulo
\<open>256 ^ len\<close>, most significant byte first, and \<^verbatim>\<open>mp_unlinearize_msb_first\<close> reads it back; in the other
direction every byte string survives. The word-at-a-time loops and the byte loops at the ends
agree for every length, not only multiples of four.\<close>

theorem mp_linearize_roundtrip:
  "length (mp_linearize_msb_first len v) = len \<and>
   mp_unlinearize_msb_first (mp_linearize_msb_first len v) = v mod 256 ^ len \<and>
   mp_linearize_msb_first (length bs) (mp_unlinearize_msb_first bs) = bs"
  by (simp add: mp_linearize_value mp_linearize_be_value mp_unlinearize_msb_first_def mp_unlinearize_value)

text \<open>The session identifier is the MD5 digest of RFC 1321 of the two moduli, each in the whole
bytes of its size, and the cookie; it is the same on both sides whenever these agree.\<close>

theorem session_id_is_md5:
  assumes "length cookie = 8" and "host_key_bits \<le> 2 ^ 20" and "session_key_bits \<le> 2 ^ 20"
    and "length hn = (host_key_bits + 7) div 8" and "length sn = (session_key_bits + 7) div 8"
  shows "compute_session_id cookie host_key_bits (be_value hn) session_key_bits (be_value sn) =
         md5_spec (hn @ sn @ cookie)"
proof -
  have "mp_linearize_msb_first ((host_key_bits + 7) div 8) (be_value hn) = hn"
    and "mp_linearize_msb_first ((session_key_bits + 7) div 8) (be_value sn) = sn"
    using assms mp_linearize_be_value by metis+
  moreover have "length (hn @ sn @ cookie) < 2 ^ 32" using assms by simp
  ultimately show ?thesis
    using MD5Final_rep [OF MD5Updates_rep [OF md5_init_rep, of "[hn @ sn @ cookie]"]] assms(1)
    by (simp add: compute_session_id_def)
qed

lemma session_id_is_md5_witness:
  "compute_session_id [1, 2, 3, 4, 5, 6, 7, 8] 9 (be_value [1, 44]) 16 (be_value [0, 5]) =
   md5_spec ([1, 44] @ [0, 5] @ [1, 2, 3, 4, 5, 6, 7, 8])"
  by (rule session_id_is_md5) simp_all

end
