(* ===== verification/Match.thy ===== *)
theory Match
  imports Prelude
begin

text \<open>
  \<^verbatim>\<open>match.c\<close>: wildcard patterns over host and user names. A C string is the list of its characters
  before the terminating NUL. The matcher is compared with the meaning of the wildcards; two
  adjacent asterisks at the end are where it departs from that.
\<close>

section \<open>The matcher\<close>

text \<open>
  \<open>match_next s c p\<close> is the loop that looks for the known next character \<open>c\<close> of the pattern, and
  \<open>match_any s p\<close> the loop that tries every position before the end of the string.
\<close>

function (sequential) match_pattern :: "string \<Rightarrow> string \<Rightarrow> bool"
  and match_next :: "string \<Rightarrow> char \<Rightarrow> string \<Rightarrow> bool"
  and match_any :: "string \<Rightarrow> string \<Rightarrow> bool" where
  "match_pattern s [] = (s = [])"
| "match_pattern s (c # p) =
     (if c = CHR ''*'' then
        (case p of [] \<Rightarrow> True
         | d # q \<Rightarrow> if d \<noteq> CHR ''?'' \<and> d \<noteq> CHR ''*'' then match_next s d q else match_any s p)
      else case s of [] \<Rightarrow> False
         | x # s' \<Rightarrow> if c \<noteq> CHR ''?'' \<and> c \<noteq> x then False else match_pattern s' p)"
| "match_next [] c p = False"
| "match_next (x # s) c p = ((x = c \<and> match_pattern s p) \<or> match_next s c p)"
| "match_any [] p = False"
| "match_any (x # s) p = (match_pattern (x # s) p \<or> match_any s p)"
  by pat_completeness auto
termination
  by (relation "measure (\<lambda>v. case v of Inl (s, p) \<Rightarrow> 2 * length s + 2 * length p
        | Inr (Inl (s, c, p)) \<Rightarrow> 2 * length s + 2 * length p + 1
        | Inr (Inr (s, p)) \<Rightarrow> 2 * length s + 2 * length p + 1)") auto

definition isdigit :: "char \<Rightarrow> bool" where
  "isdigit c \<longleftrightarrow> c \<in> set ''0123456789''"

definition ip_char :: "char \<Rightarrow> bool" where
  "ip_char c \<longleftrightarrow> isdigit c \<or> c = CHR ''.'' \<or> c = CHR ''?'' \<or> c = CHR ''*''"

definition match_host :: "string \<Rightarrow> string option \<Rightarrow> string \<Rightarrow> bool" where
  "match_host host ip pattern =
     (case ip of Some i \<Rightarrow> if list_all ip_char pattern then match_pattern i pattern else match_pattern host pattern
      | None \<Rightarrow> match_pattern host pattern)"

definition match_user :: "string \<Rightarrow> string \<Rightarrow> string option \<Rightarrow> string \<Rightarrow> bool" where
  "match_user user host ip pattern =
     (if CHR ''@'' \<notin> set pattern then match_pattern user pattern
      else match_pattern user (takeWhile (\<lambda>c. c \<noteq> CHR ''@'') pattern) \<and>
           match_host host ip (tl (dropWhile (\<lambda>c. c \<noteq> CHR ''@'') pattern)))"

section \<open>The meaning of a pattern\<close>

fun glob :: "string \<Rightarrow> string \<Rightarrow> bool" where
  "glob s [] = (s = [])"
| "glob s (c # p) =
     (if c = CHR ''*'' then \<exists>a b. s = a @ b \<and> glob b p
      else \<exists>x s'. s = x # s' \<and> (c = CHR ''?'' \<or> c = x) \<and> glob s' p)"

fun no_double_star :: "string \<Rightarrow> bool" where
  "no_double_star (c # d # p) = (\<not> (c = CHR ''*'' \<and> d = CHR ''*'') \<and> no_double_star (d # p))"
| "no_double_star p = True"

lemma glob_star: "glob s (CHR ''*'' # p) \<longleftrightarrow> (\<exists>a b. s = a @ b \<and> glob b p)"
  by simp

lemma glob_star_Cons: "glob (x # s) (CHR ''*'' # p) \<longleftrightarrow> glob (x # s) p \<or> glob s (CHR ''*'' # p)"
  unfolding glob_star by (auto simp: Cons_eq_append_conv)

lemma glob_star_end [simp]: "glob s ''*''"
  by simp

declare glob.simps(2) [simp del]

lemma glob_char: "c \<noteq> CHR ''*'' \<Longrightarrow> glob (x # s) (c # p) \<longleftrightarrow> (c = CHR ''?'' \<or> c = x) \<and> glob s p"
  "c \<noteq> CHR ''*'' \<Longrightarrow> \<not> glob [] (c # p)"
  by (simp_all add: glob.simps(2))

text \<open>What is accepted is matched, and the known next character is only a shortcut.\<close>

lemma match_sound:
  "match_pattern s p \<Longrightarrow> glob s p"
  "match_next s c p \<Longrightarrow> c \<noteq> CHR ''*'' \<Longrightarrow> glob s (CHR ''*'' # c # p)"
  "match_any s p \<Longrightarrow> glob s (CHR ''*'' # p)"
proof (induction s p and s c p and s p rule: match_pattern_match_next_match_any.induct)
  case (2 s c p)
  show ?case
  proof (cases "c = CHR ''*''")
    case True
    with 2 show ?thesis by (cases p) (auto split: if_splits)
  next
    case False
    with 2 show ?thesis by (cases s) (auto simp: glob_char split: if_splits)
  qed
qed (auto simp: glob_star_Cons glob_char)

lemma no_double_star_tl: "no_double_star (c # p) \<Longrightarrow> no_double_star p"
  by (cases p) simp_all

lemma match_complete:
  "no_double_star p \<Longrightarrow> glob s p \<Longrightarrow> match_pattern s p"
  "no_double_star p \<Longrightarrow> c \<noteq> CHR ''*'' \<Longrightarrow> c \<noteq> CHR ''?'' \<Longrightarrow> glob s (CHR ''*'' # c # p) \<Longrightarrow> match_next s c p"
  "no_double_star p \<Longrightarrow> p \<noteq> [] \<Longrightarrow> hd p = CHR ''?'' \<Longrightarrow> glob s (CHR ''*'' # p) \<Longrightarrow> match_any s p"
proof (induction s p and s c p and s p rule: match_pattern_match_next_match_any.induct)
  case (2 s c p)
  note nd = no_double_star_tl [OF 2(4)]
  show ?case
  proof (cases "c = CHR ''*''")
    case True
    show ?thesis
    proof (cases p)
      case (Cons d q)
      then have "d \<noteq> CHR ''*''" using 2(4) True by simp
      with 2 True Cons nd no_double_star_tl [of d q] show ?thesis by (cases "d = CHR ''?''") auto
    qed (simp add: True)
  next
    case False
    with 2 nd show ?thesis by (cases s) (auto simp: glob_char)
  qed
next
  case (3 c p)
  then show ?case by (simp add: glob_star glob_char)
next
  case (5 p)
  then show ?case by (cases p) (simp_all add: glob_star glob_char)
qed (auto simp: glob_star_Cons glob_char)

text \<open>C33: The matcher accepts a string only if the pattern, with \<^verbatim>\<open>?\<close> for one character and \<^verbatim>\<open>*\<close> for any number of
them, describes it, and for patterns without two adjacent asterisks it accepts every such string.
The search for the known next character after an asterisk loses no match.\<close>

theorem match_pattern_correct:
  "(match_pattern s p \<longrightarrow> glob s p) \<and> (no_double_star p \<longrightarrow> glob s p \<longrightarrow> match_pattern s p)"
  using match_sound(1) match_complete(1) by blast

lemma match_pattern_correct_witness:
  "match_pattern ''vax1.hut.fi'' ''*.h?t.fi'' \<and> glob ''vax1.hut.fi'' ''*.h?t.fi''"
proof -
  have "match_pattern ''vax1.hut.fi'' ''*.h?t.fi''" by simp
  with match_pattern_correct [of "''vax1.hut.fi''" "''*.h?t.fi''"] show ?thesis by simp
qed

text \<open>Two asterisks at the end of a pattern demand at least one character: the loop over the positions stops
before the end of the string, so \<^verbatim>\<open>host**\<close> rejects \<^verbatim>\<open>host\<close>, which its meaning covers.\<close>

theorem match_double_star_rejects_empty:
  "\<not> match_pattern ''host'' ''host**'' \<and> glob ''host'' ''host**'' \<and> match_pattern ''hosts'' ''host**''"
proof -
  have "glob [] ''**''" by (simp add: glob_star)
  then have "glob ''host'' ''host**''" by (simp add: glob_char)
  then show ?thesis by simp
qed

text \<open>Access rules by address cannot be spoofed by a name: when the peer's address is known, a pattern of digits,
periods and wildcards is decided by the address alone, whatever name the peer's name server gives,
also behind a user name and an \<^verbatim>\<open>@\<close>.\<close>

theorem match_host_ignores_name:
  assumes "list_all ip_char p" and "CHR ''@'' \<notin> set u"
  shows "match_host host (Some ip) p = match_pattern ip p \<and>
         match_user user host (Some ip) (u @ CHR ''@'' # p) = (match_pattern user u \<and> match_pattern ip p)"
proof -
  have "takeWhile (\<lambda>c. c \<noteq> CHR ''@'') (u @ CHR ''@'' # p) = u"
    and "dropWhile (\<lambda>c. c \<noteq> CHR ''@'') (u @ CHR ''@'' # p) = CHR ''@'' # p"
    using assms(2) by (simp_all add: takeWhile_append dropWhile_append)
  then show ?thesis using assms(1) by (simp add: match_user_def match_host_def)
qed

lemma match_host_ignores_name_witness:
  "match_user ''tatu'' ''evil.example'' (Some ''10.0.0.7'') ''tatu@10.0.0.*'' \<and>
   \<not> match_user ''tatu'' ''10.0.0.7'' (Some ''192.0.2.1'') ''tatu@10.0.0.*''"
  using match_host_ignores_name [of "''10.0.0.*''" "''tatu''" "''evil.example''" "''10.0.0.7''" "''tatu''"]
    match_host_ignores_name [of "''10.0.0.*''" "''tatu''" "''10.0.0.7''" "''192.0.2.1''" "''tatu''"]
  by (simp add: ip_char_def isdigit_def)

end
