(* ===== verification/CipherModes.thy ===== *)
theory CipherModes
  imports GetPut
begin

text \<open>
  What the ciphers of \<^verbatim>\<open>arcfour.c\<close>, \<^verbatim>\<open>idea.c\<close>, \<^verbatim>\<open>des.c\<close>, \<^verbatim>\<open>blowfish.c\<close> and \<^verbatim>\<open>cipher.c\<close> share: blocks of two
  words, the CBC loops that DES and Blowfish write out in the same words, and the two contracts
  of the library. A \<open>block_cipher\<close> is a pair of inverse functions on blocks, from which CBC in
  either direction follows; a \<open>duplex\<close> is an encrypting and a decrypting context that stay in
  step, from which whole conversations follow.
\<close>

type_synonym block = "u32 \<times> u32"

fun xor_block :: "block \<Rightarrow> block \<Rightarrow> block" where
  "xor_block (a, b) (c, d) = (a XOR c, b XOR d)"

lemma xor_block_cancel [simp]:
  "xor_block (xor_block x y) y = x" "xor_block y (xor_block x y) = x" "xor_block y (xor_block y x) = x"
  by (cases x; cases y; simp)+

definition get_block :: "byte list \<Rightarrow> block" where
  "get_block bs = (GET_32BIT_LSB_FIRST bs, GET_32BIT_LSB_FIRST (drop 4 bs))"

fun put_block :: "block \<Rightarrow> byte list" where
  "put_block (a, b) = PUT_32BIT_LSB_FIRST a @ PUT_32BIT_LSB_FIRST b"

lemma length_put_block [simp]: "length (put_block b) = 8"
  by (cases b) simp

lemma get_put_block [simp]: "get_block (put_block b @ xs) = b" "get_block (put_block b) = b"
  by (cases b; simp add: get_block_def)+

lemma put_get_block: "8 \<le> length bs \<Longrightarrow> put_block (get_block bs) = take 8 bs"
proof -
  assume "8 \<le> length bs"
  then have "PUT_32BIT_LSB_FIRST (GET_32BIT_LSB_FIRST (take 4 bs)) = take 4 bs"
    and "PUT_32BIT_LSB_FIRST (GET_32BIT_LSB_FIRST (take 4 (drop 4 bs))) = take 4 (drop 4 bs)" by simp_all
  moreover have "take 8 bs = take 4 bs @ take 4 (drop 4 bs)" using take_add [of 4 4 bs] by simp
  ultimately show ?thesis by (simp add: get_block_def GET_32BIT_LSB_FIRST_take)
qed

section \<open>Cipher block chaining\<close>

text \<open>The loops of \<^verbatim>\<open>des_cbc_encrypt\<close>, \<^verbatim>\<open>des_cbc_decrypt\<close> and of their Blowfish counterparts.\<close>

fun cbc_encrypt_loop :: "(block \<Rightarrow> block) \<Rightarrow> block \<Rightarrow> byte list \<Rightarrow> byte list \<times> block" where
  "cbc_encrypt_loop E iv [] = ([], iv)"
| "cbc_encrypt_loop E iv (x # xs) =
     (let src = x # xs;
          iv = E (xor_block iv (get_block src));
          (dest, iv') = cbc_encrypt_loop E iv (drop 8 src)
      in (put_block iv @ dest, iv'))"

fun cbc_decrypt_loop :: "(block \<Rightarrow> block) \<Rightarrow> block \<Rightarrow> byte list \<Rightarrow> byte list \<times> block" where
  "cbc_decrypt_loop D iv [] = ([], iv)"
| "cbc_decrypt_loop D iv (x # xs) =
     (let src = x # xs;
          d = get_block src;
          (dest, iv') = cbc_decrypt_loop D d (drop 8 src)
      in (put_block (xor_block iv (D d)) @ dest, iv'))"

declare cbc_encrypt_loop.simps(2) [simp del] cbc_decrypt_loop.simps(2) [simp del]

lemma get_block_append: "length b = 8 \<Longrightarrow> get_block (b @ xs) = get_block b"
  by (simp add: get_block_def GET_32BIT_LSB_FIRST_append)

lemma cbc_encrypt_step:
  assumes "length b = 8"
  shows "cbc_encrypt_loop E iv (b @ xs) =
     (let iv = E (xor_block iv (get_block b)); (dest, iv') = cbc_encrypt_loop E iv xs
      in (put_block iv @ dest, iv'))"
proof -
  have "cbc_encrypt_loop E iv ys =
     (let iv = E (xor_block iv (get_block ys)); (dest, iv') = cbc_encrypt_loop E iv (drop 8 ys)
      in (put_block iv @ dest, iv'))" if "ys \<noteq> []" for ys
    using that by (cases ys) (simp_all only: cbc_encrypt_loop.simps(2) Let_def, simp)
  from this [of "b @ xs"] assms show ?thesis by (cases "b = []") (simp_all add: get_block_append)
qed

lemma cbc_decrypt_step:
  assumes "length b = 8"
  shows "cbc_decrypt_loop D iv (b @ xs) =
     (let d = get_block b; (dest, iv') = cbc_decrypt_loop D d xs
      in (put_block (xor_block iv (D d)) @ dest, iv'))"
proof -
  have "cbc_decrypt_loop D iv ys =
     (let d = get_block ys; (dest, iv') = cbc_decrypt_loop D d (drop 8 ys)
      in (put_block (xor_block iv (D d)) @ dest, iv'))" if "ys \<noteq> []" for ys
    using that by (cases ys) (simp_all only: cbc_decrypt_loop.simps(2) Let_def, simp)
  from this [of "b @ xs"] assms show ?thesis by (cases "b = []") (simp_all add: get_block_append)
qed

text \<open>Induction over whole blocks.\<close>

lemma block_induct [consumes 1, case_names Nil Block]:
  assumes "8 dvd length xs" and "P []"
    and "\<And>b xs. length b = 8 \<Longrightarrow> 8 dvd length xs \<Longrightarrow> P xs \<Longrightarrow> P (b @ xs)"
  shows "P xs"
  using assms(1)
proof (induction xs rule: length_induct)
  case (1 xs)
  show ?case
  proof (cases "xs = []")
    case False
    with 1(2) have "8 \<le> length xs" using dvd_imp_le by blast
    moreover from this 1(2) have "8 dvd length (drop 8 xs)" by simp
    ultimately have "P (take 8 xs @ drop 8 xs)" using 1(1) False by (intro assms(3)) simp_all
    then show ?thesis by simp
  qed (simp add: assms(2))
qed

locale block_cipher =
  fixes E D :: "block \<Rightarrow> block"
  assumes DE [simp]: "D (E b) = b" and ED [simp]: "E (D b) = b"
begin

lemma cbc_length:
  "8 dvd length xs \<Longrightarrow> length (fst (cbc_encrypt_loop E iv xs)) = length xs"
  by (induction xs arbitrary: iv rule: block_induct) (simp_all add: cbc_encrypt_step Let_def split_def)

lemma cbc_length_dec:
  "8 dvd length xs \<Longrightarrow> length (fst (cbc_decrypt_loop D iv xs)) = length xs"
  by (induction xs arbitrary: iv rule: block_induct) (simp_all add: cbc_decrypt_step Let_def split_def)

lemma cbc_decrypt_encrypt:
  "8 dvd length xs \<Longrightarrow> cbc_encrypt_loop E iv xs = (c, iv') \<Longrightarrow> cbc_decrypt_loop D iv c = (xs, iv')"
proof (induction xs arbitrary: iv c iv' rule: block_induct)
  case (Block b xs)
  let ?iv = "E (xor_block iv (get_block b))"
  obtain c1 where 1: "cbc_encrypt_loop E ?iv xs = (c1, iv')" "c = put_block ?iv @ c1"
    using Block.prems by (simp add: cbc_encrypt_step [OF Block.hyps(1)] Let_def split: prod.splits)
  from Block.IH [OF 1(1)] show ?case
    by (simp add: 1(2) cbc_decrypt_step Let_def put_get_block Block.hyps(1))
qed simp

lemma cbc_encrypt_decrypt:
  "8 dvd length xs \<Longrightarrow> cbc_decrypt_loop D iv xs = (p, iv') \<Longrightarrow> cbc_encrypt_loop E iv p = (xs, iv')"
proof (induction xs arbitrary: iv p iv' rule: block_induct)
  case (Block b xs)
  let ?d = "get_block b"
  obtain p1 where 1: "cbc_decrypt_loop D ?d xs = (p1, iv')" "p = put_block (xor_block iv (D ?d)) @ p1"
    using Block.prems by (simp add: cbc_decrypt_step [OF Block.hyps(1)] Let_def split: prod.splits)
  from Block.IH [OF 1(1)] show ?case
    by (simp add: 1(2) cbc_encrypt_step Let_def put_get_block Block.hyps(1))
qed simp

end

section \<open>Conversations\<close>

text \<open>
  The sender's and the receiver's contexts are \<open>in_step\<close> when the receiver can read what the sender
  encrypts next. Both directions of a connection are such a pair.
\<close>

locale duplex =
  fixes enc :: "'s \<Rightarrow> byte list \<Rightarrow> (byte list \<times> 's) res"
    and dec :: "'r \<Rightarrow> byte list \<Rightarrow> (byte list \<times> 'r) res"
    and in_step :: "'s \<Rightarrow> 'r \<Rightarrow> bool"
  assumes transfer: "in_step s r \<Longrightarrow> 8 dvd length x \<Longrightarrow>
    \<exists>c s' r'. enc s x = Inr (c, s') \<and> length c = length x \<and> dec r c = Inr (x, r') \<and> in_step s' r'"

fun run_all :: "('s \<Rightarrow> byte list \<Rightarrow> (byte list \<times> 's) res) \<Rightarrow> 's \<Rightarrow> byte list list \<Rightarrow> (byte list list \<times> 's) res" where
  "run_all f s [] = Inr ([], s)"
| "run_all f s (x # xs) =
     rbind (f s x) (\<lambda>(y, s). rbind (run_all f s xs) (\<lambda>(ys, s). Inr (y # ys, s)))"

context duplex
begin

lemma conversation:
  "in_step s r \<Longrightarrow> \<forall>x\<in>set xs. 8 dvd length x \<Longrightarrow>
   \<exists>cs s' r'. run_all enc s xs = Inr (cs, s') \<and> run_all dec r cs = Inr (xs, r') \<and>
      map length cs = map length xs \<and> in_step s' r'"
proof (induction xs arbitrary: s r)
  case (Cons x xs)
  then obtain c s1 r1 where 1: "enc s x = Inr (c, s1)" "length c = length x" "dec r c = Inr (x, r1)" "in_step s1 r1"
    using transfer [of s r x] by auto
  with Cons obtain cs s' r' where "run_all enc s1 xs = Inr (cs, s')" "run_all dec r1 cs = Inr (xs, r')"
    "map length cs = map length xs" "in_step s' r'" by fastforce
  with 1 show ?case by (intro exI [of _ "c # cs"]) auto
qed simp

end

section \<open>Undoing a list of steps\<close>

lemma foldl_undo:
  "\<forall>i\<in>set is. \<forall>x. d (h i) (sw (e x i)) = sw x \<Longrightarrow>
   foldl (\<lambda>x i. d i x) (sw (foldl e x is)) (map h (rev is)) = sw x"
  by (induction "is" arbitrary: x) simp_all

end
