(* ===== verification/Arcfour.thy ===== *)
theory Arcfour
  imports CipherModes "HOL-Library.Multiset"
begin

text \<open>
  \<^verbatim>\<open>arcfour.c\<close>: the stream cipher, also used as the pseudo-random generator of the channel code.
  The state is kept a permutation of the 256 bytes; encryption is a XOR with the stream, so that
  a receiver in the same state reads the plain text and ends in the sender's state.
\<close>

record ArcfourContext =
  a_x :: u32
  a_y :: u32
  a_state :: "byte list"

text \<open>One round of the key setup loop: the state, \<open>keyindex\<close> and \<open>stateindex\<close>.\<close>

fun arcfour_setup_step :: "byte list \<Rightarrow> byte list \<times> nat \<times> u32 \<Rightarrow> nat \<Rightarrow> byte list \<times> nat \<times> u32" where
  "arcfour_setup_step key (state, keyindex, stateindex) counter =
     (let t = state ! counter;
          stateindex = (stateindex + ucast (key ! keyindex) + ucast t) AND 0xff;
          u = state ! unat stateindex;
          state = state[unat stateindex := t, counter := u]
      in (state, if Suc keyindex \<ge> length key then 0 else Suc keyindex, stateindex))"

definition arcfour_init :: "byte list \<Rightarrow> ArcfourContext res" where
  "arcfour_init key =
     rbind (ensure (length key > 0) (Assertion ''key_len > 0'')) (\<lambda>_.
     Inr \<lparr>a_x = 0, a_y = 0,
          a_state = fst (foldl (arcfour_setup_step key) (map of_nat [0..<256], 0, 0) [0..<256])\<rparr>)"

definition arcfour_byte :: "ArcfourContext \<Rightarrow> byte \<times> ArcfourContext" where
  "arcfour_byte ctx =
     (let state = a_state ctx;
          x = (a_x ctx + 1) AND 0xff;
          sx = state ! unat x;
          y = (ucast sx + a_y ctx) AND 0xff;
          sy = state ! unat y;
          state = state[unat y := sx, unat x := sy]
      in (state ! unat ((ucast sx + ucast sy :: u32) AND 0xff), \<lparr>a_x = x, a_y = y, a_state = state\<rparr>))"

fun arcfour_encrypt :: "ArcfourContext \<Rightarrow> byte list \<Rightarrow> byte list \<times> ArcfourContext" where
  "arcfour_encrypt ctx [] = ([], ctx)"
| "arcfour_encrypt ctx (s # src) =
     (let (b, ctx) = arcfour_byte ctx; (dest, ctx) = arcfour_encrypt ctx src in ((s XOR b) # dest, ctx))"

definition arcfour_decrypt :: "ArcfourContext \<Rightarrow> byte list \<Rightarrow> byte list \<times> ArcfourContext" where
  "arcfour_decrypt ctx src = arcfour_encrypt ctx src"

section \<open>The state stays a permutation\<close>

definition arcfour_wf :: "ArcfourContext \<Rightarrow> bool" where
  "arcfour_wf ctx \<longleftrightarrow> length (a_state ctx) = 256 \<and> distinct (a_state ctx) \<and> a_x ctx < 256 \<and> a_y ctx < 256"

lemma low_index: "unat (w AND 0xff :: u32) < 256" and low_bound: "w AND 0xff < (256 :: u32)"
proof -
  have "w AND 0xff \<le> 0xff" by (rule word_and_le1)
  then show "w AND 0xff < 256" by (rule le_less_trans) simp
  then show "unat (w AND 0xff) < 256" by (simp add: word_less_nat_alt)
qed

lemma exchange_perm:
  "i < length xs \<Longrightarrow> j < length xs \<Longrightarrow> distinct xs \<Longrightarrow> distinct (xs[j := xs ! i, i := xs ! j])"
  by (metis mset_swap mset_eq_imp_distinct_iff)

lemma arcfour_setup_perm:
  "\<forall>c\<in>set cs. c < 256 \<Longrightarrow> length st = 256 \<Longrightarrow> distinct st \<Longrightarrow>
   length (fst (foldl (arcfour_setup_step key) (st, k, i) cs)) = 256 \<and>
   distinct (fst (foldl (arcfour_setup_step key) (st, k, i) cs))"
proof (induction cs arbitrary: st k i)
  case (Cons c cs)
  obtain st1 k1 i1 where step: "arcfour_setup_step key (st, k, i) c = (st1, k1, i1)" by (metis prod_cases3)
  define j where "j = unat ((i + ucast (key ! k) + ucast (st ! c)) AND 0xff)"
  have "st1 = st[j := st ! c, c := st ! j]" using step by (auto simp: Let_def j_def)
  moreover have "j < 256" by (simp add: j_def low_index)
  ultimately have "length st1 = 256" "distinct st1"
    using Cons.prems exchange_perm [of c st j] by simp_all
  with Cons show ?case by (simp add: step del: arcfour_setup_step.simps)
qed simp

lemma arcfour_init_wf: "arcfour_init key = Inr ctx \<Longrightarrow> arcfour_wf ctx"
proof -
  assume "arcfour_init key = Inr ctx"
  then have "ctx = \<lparr>a_x = 0, a_y = 0,
      a_state = fst (foldl (arcfour_setup_step key) (map of_nat [0..<256], 0, 0) [0..<256])\<rparr>"
    by (auto simp: arcfour_init_def rbind_eq_Inr)
  moreover have "distinct (map of_nat [0..<256] :: byte list)"
    by (auto simp: distinct_map intro!: inj_on_inverseI [where g = unat] unat_of_nat_small)
  ultimately show ?thesis
    using arcfour_setup_perm [of "[0..<256]" "map of_nat [0..<256]" key 0 0] by (simp add: arcfour_wf_def)
qed

lemma arcfour_byte_wf: "arcfour_wf ctx \<Longrightarrow> arcfour_wf (snd (arcfour_byte ctx))"
  by (simp add: arcfour_wf_def arcfour_byte_def Let_def low_bound low_index exchange_perm del: distinct_swap)

lemma arcfour_encrypt_wf: "arcfour_wf ctx \<Longrightarrow> arcfour_wf (snd (arcfour_encrypt ctx src))"
  by (induction src arbitrary: ctx) (simp_all add: split_def Let_def arcfour_byte_wf)

text \<open>The key setup, for every non-empty key, and every encryption keep the state a permutation
of the 256 byte values and both indices below 256: no state is ever indexed out of bounds and no
byte value is lost from the stream.\<close>

theorem arcfour_keeps_permutation:
  assumes "arcfour_init key = Inr ctx" and "arcfour_encrypt ctx src = (dest, ctx')"
  shows "length (a_state ctx') = 256 \<and> set (a_state ctx') = UNIV \<and> a_x ctx' < 256 \<and> a_y ctx' < 256 \<and>
         length dest = length src"
proof -
  have "arcfour_wf ctx'" using assms arcfour_init_wf arcfour_encrypt_wf by (metis snd_conv)
  moreover from this have "card (set (a_state ctx')) = CARD(8 word)"
    by (simp add: arcfour_wf_def distinct_card card_word)
  then have "set (a_state ctx') = UNIV" by (simp add: card_eq_UNIV_imp_eq_UNIV)
  moreover have "length (fst (arcfour_encrypt ctx src)) = length src"
    by (induction src arbitrary: ctx) (simp_all add: split_def Let_def)
  ultimately show ?thesis using assms by (simp add: arcfour_wf_def)
qed

lemma arcfour_keeps_permutation_witness:
  "\<exists>ctx dest ctx'. arcfour_init [7, 9] = Inr ctx \<and> arcfour_encrypt ctx [1, 2, 3] = (dest, ctx') \<and>
     set (a_state ctx') = UNIV \<and> length dest = 3"
proof -
  obtain ctx where i: "arcfour_init [7, 9] = Inr ctx" by (simp add: arcfour_init_def)
  obtain dest ctx' where e: "arcfour_encrypt ctx [1, 2, 3] = (dest, ctx')" by fastforce
  from arcfour_keeps_permutation [OF i e] i e show ?thesis by auto
qed

section \<open>Both ends stay in step\<close>

lemma arcfour_encrypt_twice:
  "arcfour_encrypt ctx src = (c, ctx') \<Longrightarrow> arcfour_encrypt ctx c = (src, ctx') \<and> length c = length src"
  by (induction src arbitrary: ctx c) (auto simp: Let_def split: prod.splits)

lemma arcfour_encrypt_append:
  "arcfour_encrypt ctx (xs @ ys) =
     (let (a, ctx) = arcfour_encrypt ctx xs; (b, ctx) = arcfour_encrypt ctx ys in (a @ b, ctx))"
  by (induction xs arbitrary: ctx) (simp_all add: Let_def split: prod.splits)

interpretation arc: duplex "\<lambda>c x. Inr (arcfour_encrypt c x)" "\<lambda>c x. Inr (arcfour_decrypt c x)" "(=)"
proof
  fix s r :: ArcfourContext and x :: "byte list"
  assume "s = r"
  obtain c s' where e: "arcfour_encrypt r x = (c, s')" by (cases "arcfour_encrypt r x")
  from arcfour_encrypt_twice [OF this] \<open>s = r\<close>
  show "\<exists>c s' r'. Inr (arcfour_encrypt s x) = (Inr (c, s') :: _ res) \<and> length c = length x \<and>
      Inr (arcfour_decrypt r c) = (Inr (x, r') :: _ res) \<and> s' = r'"
    by (intro exI [of _ c] exI [of _ s']) (simp add: e arcfour_decrypt_def)
qed

end
