(* ===== verification/Idea.thy ===== *)
theory Idea
  imports CipherModes
begin

text \<open>
  \<^verbatim>\<open>idea.c\<close>: the IDEA block cipher and its CFB mode. The code keeps 16 bit quantities in 32 bit
  variables and masks them late, and multiplies modulo 65537 without a division; the theorems
  relate it to the cipher's definition over 16 bit words and show that decryption undoes
  encryption for every length the callers use.
\<close>

section \<open>Keys\<close>

text \<open>\<open>keys[((i + j) & 7) - 8]\<close>, with \<open>keys\<close> advanced by 8 at every multiple of 8.\<close>

definition idea_prev :: "u16 list \<Rightarrow> nat \<Rightarrow> nat \<Rightarrow> u32" where
  "idea_prev ks i j = ucast (ks ! (8 * (i div 8) - 8 + (i + j) mod 8))"

definition idea_next_key :: "u16 list \<Rightarrow> nat \<Rightarrow> u16 list" where
  "idea_next_key ks i =
     ks @ [ucast ((push_bit 9 (idea_prev ks i 1) OR drop_bit 7 (idea_prev ks i 2)) AND 0xffff)]"

definition idea_set_key :: "byte list \<Rightarrow> u16 list" where
  "idea_set_key key = foldl idea_next_key (map (\<lambda>i. ucast (GET_16BIT (drop (2 * i) key))) [0..<8]) [8..<52]"

section \<open>The block transform\<close>

definition mulop :: "u32 \<Rightarrow> u32 \<Rightarrow> u32" where
  "mulop a b =
     (let ab = a * b
      in if ab \<noteq> 0 then
           (let lo = ab AND 0xffff; hi = drop_bit 16 ab AND 0xffff in (lo - hi) + (if lo < hi then 1 else 0))
         else if a = 0 then 1 - b else 1 - a)"

fun idea_round :: "u32 \<times> u32 \<times> u32 \<times> u32 \<Rightarrow> u16 list \<Rightarrow> u32 \<times> u32 \<times> u32 \<times> u32" where
  "idea_round (x1, x2, x3, x4) keys =
     (let x1 = mulop (x1 AND 0xffff) (ucast (keys ! 0));
          x3 = x3 + ucast (keys ! 2);
          x4 = mulop (x4 AND 0xffff) (ucast (keys ! 3));
          x2 = x2 + ucast (keys ! 1);
          t1 = x1 XOR x3;
          t2 = x2 XOR x4;
          t1 = mulop (t1 AND 0xffff) (ucast (keys ! 4));
          t2 = t1 + t2;
          t2 = mulop (t2 AND 0xffff) (ucast (keys ! 5));
          t1 = t1 + t2;
          x1 = x1 XOR t2;
          x4 = x4 XOR t1;
          t1 = t1 XOR x2;
          x2 = t2 XOR x3
      in (x1, x2, t1, x4))"

text \<open>After the last round \<open>t1\<close> still holds the value that was assigned to \<open>x3\<close>.\<close>

definition idea_transform :: "u16 list \<Rightarrow> u32 \<Rightarrow> u32 \<Rightarrow> u32 \<times> u32" where
  "idea_transform c l r =
     (let (x1, x2, t1, x4) =
            foldl idea_round (drop_bit 16 l, l, drop_bit 16 r, r) (map (\<lambda>i. drop (6 * i) c) [0..<8]);
          keys = drop 48 c;
          x1 = mulop (x1 AND 0xffff) (ucast (keys ! 0));
          x3 = (x2 + ucast (keys ! 2)) AND 0xffff;
          x2 = t1 + ucast (keys ! 1);
          x4 = mulop (x4 AND 0xffff) (ucast (keys ! 3))
      in (push_bit 16 x1 OR (x2 AND 0xffff), push_bit 16 x3 OR (x4 AND 0xffff)))"

section \<open>Cipher feedback\<close>

text \<open>
  The loops read eight bytes of the source at every step, also for a last piece shorter than
  that, and write as many bytes as are left; \<open>src\<close> is the memory at the source pointer and \<open>len\<close>
  the argument. The result is the destination and the new initialisation vector.
\<close>

fun idea_cfb_encrypt_loop :: "u16 list \<Rightarrow> u32 \<Rightarrow> u32 \<Rightarrow> byte list \<Rightarrow> nat \<Rightarrow> (byte list \<times> u32 \<times> u32) res" where
  "idea_cfb_encrypt_loop c iv0 iv1 src 0 = Inr ([], iv0, iv1)"
| "idea_cfb_encrypt_loop c iv0 iv1 src (Suc n) =
     rbind (mem_read src 0 8) (\<lambda>b.
     let (out0, out1) = idea_transform c iv0 iv1;
         iv0 = out0 XOR GET_32BIT b;
         iv1 = out1 XOR GET_32BIT (drop 4 b)
     in rbind (idea_cfb_encrypt_loop c iv0 iv1 (drop 8 src) (Suc n - 8)) (\<lambda>(dest, iv).
        Inr (take (Suc n) (PUT_32BIT iv0 @ PUT_32BIT iv1) @ dest, iv)))"

fun idea_cfb_decrypt_loop :: "u16 list \<Rightarrow> u32 \<Rightarrow> u32 \<Rightarrow> byte list \<Rightarrow> nat \<Rightarrow> (byte list \<times> u32 \<times> u32) res" where
  "idea_cfb_decrypt_loop c iv0 iv1 src 0 = Inr ([], iv0, iv1)"
| "idea_cfb_decrypt_loop c iv0 iv1 src (Suc n) =
     rbind (mem_read src 0 8) (\<lambda>b.
     let (out0, out1) = idea_transform c iv0 iv1;
         iv0 = GET_32BIT b;
         iv1 = GET_32BIT (drop 4 b);
         plain0 = out0 XOR iv0;
         plain1 = out1 XOR iv1
     in rbind (idea_cfb_decrypt_loop c iv0 iv1 (drop 8 src) (Suc n - 8)) (\<lambda>(dest, iv).
        Inr (take (Suc n) (PUT_32BIT plain0 @ PUT_32BIT plain1) @ dest, iv)))"

definition idea_cfb_encrypt :: "u16 list \<Rightarrow> byte list \<Rightarrow> byte list \<Rightarrow> nat \<Rightarrow> (byte list \<times> byte list) res" where
  "idea_cfb_encrypt c iv src len =
     rbind (idea_cfb_encrypt_loop c (GET_32BIT iv) (GET_32BIT (drop 4 iv)) src len) (\<lambda>(dest, iv0, iv1).
     Inr (dest, PUT_32BIT iv0 @ PUT_32BIT iv1))"

definition idea_cfb_decrypt :: "u16 list \<Rightarrow> byte list \<Rightarrow> byte list \<Rightarrow> nat \<Rightarrow> (byte list \<times> byte list) res" where
  "idea_cfb_decrypt c iv src len =
     rbind (idea_cfb_decrypt_loop c (GET_32BIT iv) (GET_32BIT (drop 4 iv)) src len) (\<lambda>(dest, iv0, iv1).
     Inr (dest, PUT_32BIT iv0 @ PUT_32BIT iv1))"

declare idea_cfb_encrypt_loop.simps(2) [simp del] idea_cfb_decrypt_loop.simps(2) [simp del]

section \<open>The cipher over 16 bit words\<close>

text \<open>Multiplication modulo 65537 with 0 standing for 65536, as IDEA defines it.\<close>

definition mul16 :: "u16 \<Rightarrow> u16 \<Rightarrow> u16" where
  "mul16 a b =
     (let f = \<lambda>w. if w = 0 then 65536 else unat w in of_nat (f a * f b mod 65537))"

fun idea_round_spec :: "u16 \<times> u16 \<times> u16 \<times> u16 \<Rightarrow> u16 list \<Rightarrow> u16 \<times> u16 \<times> u16 \<times> u16" where
  "idea_round_spec (x1, x2, x3, x4) k =
     (let y1 = mul16 x1 (k ! 0); y2 = x2 + k ! 1; y3 = x3 + k ! 2; y4 = mul16 x4 (k ! 3);
          p = mul16 (y1 XOR y3) (k ! 4);
          q = mul16 (p + (y2 XOR y4)) (k ! 5);
          s = p + q
      in (y1 XOR q, y3 XOR q, y2 XOR s, y4 XOR s))"

definition idea_spec :: "u16 list \<Rightarrow> u16 \<times> u16 \<times> u16 \<times> u16 \<Rightarrow> u16 \<times> u16 \<times> u16 \<times> u16" where
  "idea_spec ks x =
     (let (x1, x2, x3, x4) = foldl idea_round_spec x (map (\<lambda>i. drop (6 * i) ks) [0..<8])
      in (mul16 x1 (ks ! 48), x3 + ks ! 49, x2 + ks ! 50, mul16 x4 (ks ! 51)))"

fun pack16 :: "u16 \<times> u16 \<times> u16 \<times> u16 \<Rightarrow> u32 \<times> u32" where
  "pack16 (a, b, c, d) = (push_bit 16 (ucast a) OR ucast b, push_bit 16 (ucast c) OR ucast d)"

abbreviation low16 :: "u32 \<Rightarrow> u16" where "low16 \<equiv> ucast"

lemma low16_of_nat [simp]: "low16 (of_nat n) = of_nat n"
proof (rule unat_eqI)
  have "unat (low16 (of_nat n)) = take_bit 16 (unat (of_nat n :: u32))"
    by (simp only: unsigned_ucast_eq) simp
  also have "unat (of_nat n :: u32) = n mod 2 ^ 32" by (simp only: unat_of_nat) simp
  also have "take_bit 16 (n mod 2 ^ 32) = n mod 2 ^ 16" by (simp only: take_bit_eq_mod) (simp add: mod_mod_cancel)
  also have "\<dots> = unat (of_nat n :: u16)" by (simp only: unat_of_nat) simp
  finally show "unat (low16 (of_nat n)) = unat (of_nat n :: u16)" .
qed

lemma low16_add: "low16 (a + b) = low16 a + low16 b"
proof -
  have "low16 (of_nat (unat a) + of_nat (unat b)) = low16 (of_nat (unat a)) + low16 (of_nat (unat b))"
    by (simp only: low16_of_nat flip: of_nat_add)
  then show ?thesis by simp
qed

lemma low16_diff: "low16 (a - b) = low16 a - low16 b"
  by (metis diff_add_cancel eq_diff_eq low16_add)

lemma low16_xor: "low16 (a XOR b) = low16 a XOR low16 b"
  by (rule bit_word_eqI) (simp add: bit_ucast_iff bit_xor_iff)

lemma mask_low16: "w AND 0xffff = ucast (low16 w)" for w :: u32
proof -
  have "w AND 0xffff = take_bit 16 w" by (simp add: take_bit_eq_mask mask_eq_exp_minus_1)
  then show ?thesis by (auto intro!: bit_word_eqI simp: bit_ucast_iff bit_take_bit_iff dest: bit_imp_le_length)
qed

lemma low16_ucast [simp]: "low16 (ucast w) = w"
  by (rule bit_word_eqI) (simp add: bit_ucast_iff)

lemma unat_ucast16 [simp]: "unat (ucast (w :: u16) :: u32) = unat w"
  using unat_lt2p [of w] by (simp only: unsigned_ucast_eq take_bit_eq_mod) (simp add: mod_less)

lemma ucast16_eq_0 [simp]: "ucast (w :: u16) = (0 :: u32) \<longleftrightarrow> w = 0"
  by (metis unat_eq_0 unat_ucast16)

text \<open>The division-free reduction: with \<open>n = 65536 * hi + lo\<close>, \<open>lo - hi\<close> is \<open>n\<close> modulo 65537.\<close>

lemma mod_65537:
  fixes n :: nat
  assumes "n < 2 ^ 32"
  defines "lo \<equiv> n mod 65536" and "hi \<equiv> n div 65536"
  shows "n mod 65537 = (if lo < hi then lo + 65537 - hi else lo - hi)"
proof -
  have n: "n = 65536 * hi + lo" by (simp add: lo_def hi_def)
  have b: "lo < 65536" "hi < 65536" using assms by (simp_all add: lo_def hi_def)
  show ?thesis
  proof (cases "lo < hi")
    case True
    then have "n = (lo + 65537 - hi) + 65537 * (hi - 1)" using n b by (simp add: algebra_simps)
    moreover have "lo + 65537 - hi < 65537" using True by simp
    ultimately have "n mod 65537 = lo + 65537 - hi" by (metis mod_less mod_mult_self2)
    with True show ?thesis by simp
  next
    case False
    then have "n = (lo - hi) + 65537 * hi" using n b by (simp add: algebra_simps)
    moreover have "lo - hi < 65537" using b by simp
    ultimately have "n mod 65537 = lo - hi" by (metis mod_less mod_mult_self2)
    with False show ?thesis by simp
  qed
qed

lemma zero_65537: "0 < b \<Longrightarrow> b < 65537 \<Longrightarrow> 65536 * b mod 65537 = 65537 - (b :: nat)"
proof -
  assume b: "0 < b" "b < 65537"
  then have "65536 * b = (65537 - b) + 65537 * (b - 1)" by (simp add: algebra_simps)
  moreover have "65537 - b < 65537" using b by simp
  ultimately show ?thesis by (metis mod_less mod_mult_self2)
qed

lemma mul16_zero: "mul16 0 b = 1 - b"
proof (cases "b = 0")
  case True
  then show ?thesis by (simp add: mul16_def)
next
  case False
  then have "0 < unat b" "unat b < 65536" using unat_lt2p [of b] by (simp_all add: unat_gt_0)
  then have "mul16 0 b = of_nat (65537 - unat b)" using False by (simp add: mul16_def zero_65537)
  also have "\<dots> = of_nat 65537 - of_nat (unat b)" using \<open>unat b < 65536\<close> by (intro of_nat_diff) simp
  finally show ?thesis by simp
qed

lemma mul16_commute: "mul16 a b = mul16 b a"
  by (simp add: mul16_def Let_def mult.commute)

lemma mulop_low16: "low16 (mulop (ucast a) (ucast b)) = mul16 a b"
proof (cases "a = 0 \<or> b = 0")
  case True
  then have "low16 (mulop (ucast a) (ucast b)) = (if a = 0 then 1 - b else 1 - a)"
    by (auto simp: mulop_def low16_diff)
  with True show ?thesis by (metis mul16_commute mul16_zero)
next
  case False
  define n where "n = unat a * unat b"
  have "unat a \<le> 65535" "unat b \<le> 65535" using unat_lt2p [of a] unat_lt2p [of b] by simp_all
  then have "n \<le> 65535 * 65535" unfolding n_def by (intro mult_mono) simp_all
  then have n: "n < 2 ^ 32" by simp
  have n0: "n \<noteq> 0" using False by (simp add: n_def unat_eq_0)
  have ab: "(ucast a * ucast b :: u32) = of_nat n"
    by (rule unat_eqI) (simp add: n_def unat_word_ariths n unat_of_nat)
  have un: "unat (of_nat n :: u32) = n" using n by (intro unat_of_nat_small) simp
  have nz: "(of_nat n :: u32) \<noteq> 0" using un n0 by (metis unat_0)
  have lo: "of_nat n AND 0xffff = (of_nat (n mod 65536) :: u32)"
    by (rule unat_eqI) (simp add: mask_low16 unat_of_nat)
  have hi: "drop_bit 16 (of_nat n :: u32) AND 0xffff = of_nat (n div 65536)"
  proof -
    have "unat (drop_bit 16 (of_nat n :: u32)) = n div 2 ^ 16"
      by (simp only: unsigned_drop_bit_eq) (simp only: drop_bit_eq_div take_bit_eq_mod un, use n in simp)
    moreover have "unat (of_nat (n div 65536) :: u32) = n div 2 ^ 16"
      using n by (subst unat_of_nat_small) simp_all
    ultimately have "drop_bit 16 (of_nat n :: u32) = of_nat (n div 65536)" by (intro unat_eqI) (simp only:)
    then show ?thesis using n by (intro unat_eqI) (simp add: mask_low16 unat_of_nat_small)
  qed
  have "(of_nat (n mod 65536) :: u32) < of_nat (n div 65536) \<longleftrightarrow> n mod 65536 < n div 65536"
    using n by (simp add: word_less_nat_alt unat_of_nat_small)
  then have "low16 (mulop (ucast a) (ucast b)) =
      of_nat (n mod 65536) - of_nat (n div 65536) + (if n mod 65536 < n div 65536 then 1 else 0)"
    using nz by (simp add: mulop_def ab lo hi Let_def low16_add low16_diff)
  also have "\<dots> = of_nat (n mod 65537)"
  proof -
    have "n div 65536 < 65536" using n by (intro less_mult_imp_div_less) simp
    then have "n div 65536 \<le> n mod 65536 + 65537" by linarith
    then have "(of_nat (n mod 65536 + 65537 - n div 65536) :: u16) =
        of_nat (n mod 65536) + of_nat 65537 - of_nat (n div 65536)"
      by (simp only: of_nat_diff of_nat_add)
    moreover have "(of_nat 65537 :: u16) = 1" by simp
    ultimately show ?thesis by (simp only: mod_65537 [OF n]) (simp add: of_nat_diff)
  qed
  finally show ?thesis using False by (simp add: mul16_def n_def)
qed

lemma idea_round_low:
  "idea_round (x1, x2, x3, x4) ks = (y1, y2, y3, y4) \<Longrightarrow>
   idea_round_spec (low16 x1, low16 x2, low16 x3, low16 x4) ks = (low16 y1, low16 y2, low16 y3, low16 y4)"
  by (auto simp: Let_def mask_low16 mulop_low16 low16_add low16_xor ac_simps)

lemma idea_rounds_low:
  "foldl idea_round (x1, x2, x3, x4) kss = (y1, y2, y3, y4) \<Longrightarrow>
   foldl idea_round_spec (low16 x1, low16 x2, low16 x3, low16 x4) kss = (low16 y1, low16 y2, low16 y3, low16 y4)"
proof (induction kss arbitrary: x1 x2 x3 x4)
  case (Cons ks kss)
  obtain z1 z2 z3 z4 where z: "idea_round (x1, x2, x3, x4) ks = (z1, z2, z3, z4)" by (metis prod_cases4)
  with Cons.prems have "foldl idea_round (z1, z2, z3, z4) kss = (y1, y2, y3, y4)" by (simp del: idea_round.simps)
  from Cons.IH [OF this] idea_round_low [OF z] show ?case by (simp del: idea_round_spec.simps)
qed simp

lemma push_low16: "push_bit 16 x = push_bit 16 (ucast (low16 x))" for x :: u32
  by (rule bit_word_eqI) (auto simp: bit_push_bit_iff bit_ucast_iff)

text \<open>C30: The block transform, with its lazily masked 32 bit arithmetic and its division-free
multiplication, computes IDEA over 16 bit words: eight rounds of addition modulo 2^16, XOR and
multiplication modulo 65537, and the output transform, for every key schedule and block.\<close>

theorem idea_transform_is_idea:
  assumes "length ks = 52"
  shows "idea_transform ks l r = pack16 (idea_spec ks (low16 (drop_bit 16 l), low16 l, low16 (drop_bit 16 r), low16 r))"
proof -
  obtain y1 y2 y3 y4 where y:
    "foldl idea_round (drop_bit 16 l, l, drop_bit 16 r, r) (map (\<lambda>i. drop (6 * i) ks) [0..<8]) = (y1, y2, y3, y4)"
    by (metis prod_cases4)
  have k: "drop 48 ks ! i = ks ! (48 + i)" for i using assms by simp
  show ?thesis
    unfolding idea_transform_def idea_spec_def y idea_rounds_low [OF y] k Let_def split
    by (subst push_low16) (simp add: mask_low16 mulop_low16 low16_add)
qed

lemma idea_transform_is_idea_witness:
  "idea_transform (replicate 52 1) 0x10002 0x30004 =
   pack16 (idea_spec (replicate 52 1) (low16 (drop_bit 16 0x10002), low16 0x10002, low16 (drop_bit 16 0x30004), low16 0x30004))"
  by (rule idea_transform_is_idea) simp

section \<open>The key schedule\<close>

text \<open>Bit \<open>q\<close> of the user key, counted from the most significant bit of its first byte.\<close>

definition key_bit :: "byte list \<Rightarrow> nat \<Rightarrow> bool" where
  "key_bit key q = bit (key ! (q div 8)) (7 - q mod 8)"

definition schedule_pos :: "nat \<Rightarrow> nat \<Rightarrow> nat" where
  "schedule_pos i k = (16 * i + (15 - k) + 25 * (i div 8)) mod 128"

lemma eight_split: "b < 8 \<Longrightarrow> (8 * a + b) div 8 = a \<and> (8 * a + b) mod 8 = (b :: nat)"
  by simp

lemma idea_first_keys:
  assumes "i < 8" and "k < 16" and "length key = 16"
  shows "bit (ucast (GET_16BIT (drop (2 * i) key)) :: u16) k = key_bit key (schedule_pos i k)"
proof -
  have p: "schedule_pos i k = 16 * i + (15 - k)" using assms by (simp add: schedule_pos_def)
  show ?thesis
  proof (cases "8 \<le> k")
    case True
    then have e: "16 * i + (15 - k) = 8 * (2 * i) + (15 - k)" "15 - k < 8" using assms(2) by simp_all
    have "(16 * i + (15 - k)) div 8 = 2 * i" "(16 * i + (15 - k)) mod 8 = 15 - k"
      unfolding e(1) using eight_split [OF e(2)] by blast+
    moreover have "7 - (15 - k) = k - 8" using True assms(2) by simp
    ultimately show ?thesis
      using True assms by (simp add: p key_bit_def GET_16BIT_def word_bit_simps)
  next
    case False
    then have e: "16 * i + (15 - k) = 8 * (2 * i + 1) + (7 - k)" "7 - k < 8" by simp_all
    have "(16 * i + (15 - k)) div 8 = 2 * i + 1" "(16 * i + (15 - k)) mod 8 = 7 - k"
      unfolding e(1) using eight_split [OF e(2)] by blast+
    moreover have "7 - (7 - k) = k" using False by simp
    ultimately show ?thesis
      using False assms by (simp add: p key_bit_def GET_16BIT_def word_bit_simps)
  qed
qed

lemma idea_prev_index:
  fixes i j :: nat
  assumes "8 \<le> i"
  shows "8 * (i div 8) - 8 + (i + j) mod 8 < i"
    and "(8 * (i div 8) - 8 + (i + j) mod 8) div 8 = i div 8 - 1"
    and "16 * (8 * (i div 8) - 8 + (i + j) mod 8) mod 128 = 16 * (i + j) mod 128"
proof -
  obtain r where r: "i div 8 = Suc r" using assms by (metis Suc_pred' div_greater_zero_iff zero_less_numeral)
  then have i: "i = 8 * r + 8 + i mod 8" by (metis mult_Suc_right add.commute mult_div_mod_eq)
  have m: "8 * (i div 8) - 8 + (i + j) mod 8 = 8 * r + (i + j) mod 8" using r by simp
  show "8 * (i div 8) - 8 + (i + j) mod 8 < i" using m i by (metis add.assoc add_less_cancel_left mod_less_divisor trans_less_add1 zero_less_numeral)
  show "(8 * (i div 8) - 8 + (i + j) mod 8) div 8 = i div 8 - 1" using m r by simp
  show "16 * (8 * (i div 8) - 8 + (i + j) mod 8) mod 128 = 16 * (i + j) mod 128"
    unfolding m using mod_mult_mult1 [of 16 "8 * r + (i + j) mod 8" 8] mod_mult_mult1 [of 16 "i + j" 8] by simp
qed

lemma schedule_pos_prev:
  assumes i: "8 \<le> i" and k: "k' < 16" and e: "16 * j + (15 - k') = 25 + (15 - k)"
  shows "schedule_pos (8 * (i div 8) - 8 + (i + j) mod 8) k' = schedule_pos i k"
proof -
  let ?m = "8 * (i div 8) - 8 + (i + j) mod 8"
  have r: "25 * (i div 8) = 25 + 25 * (i div 8 - 1)" using i by (cases "i div 8") auto
  have "schedule_pos ?m k' = (16 * ?m + ((15 - k') + 25 * (i div 8 - 1))) mod 128"
    by (simp only: schedule_pos_def idea_prev_index(2) [OF i] add.assoc)
  also have "\<dots> = (16 * (i + j) + ((15 - k') + 25 * (i div 8 - 1))) mod 128"
    by (rule mod_add_cong [OF idea_prev_index(3) [OF i] refl])
  also have "16 * (i + j) + ((15 - k') + 25 * (i div 8 - 1)) = 16 * i + (15 - k) + 25 * (i div 8)"
    using e r by simp
  finally show ?thesis by (simp only: schedule_pos_def)
qed

definition schedule_ok :: "byte list \<Rightarrow> u16 list \<Rightarrow> bool" where
  "schedule_ok key ks \<longleftrightarrow> (\<forall>i < length ks. \<forall>k < 16. bit (ks ! i) k = key_bit key (schedule_pos i k))"

lemma idea_next_key_ok:
  assumes ok: "schedule_ok key ks" and i: "8 \<le> length ks"
  shows "schedule_ok key (idea_next_key ks (length ks))"
proof -
  let ?i = "length ks"
  have prev: "bit (idea_prev ks ?i j) k' = key_bit key (schedule_pos (8 * (?i div 8) - 8 + (?i + j) mod 8) k')"
    if "k' < 16" for j k'
    using ok that idea_prev_index(1) [OF i, of j] by (simp add: idea_prev_def schedule_ok_def bit_ucast_iff)
  have high: "\<not> bit (idea_prev ks ?i j) k'" if "16 \<le> k'" for j k'
    using that by (auto simp: idea_prev_def bit_ucast_iff dest: bit_imp_le_length)
  have "bit (ucast ((push_bit 9 (idea_prev ks ?i 1) OR drop_bit 7 (idea_prev ks ?i 2)) AND 0xffff) :: u16) k =
      key_bit key (schedule_pos ?i k)" if k: "k < 16" for k
  proof (cases "9 \<le> k")
    case True
    with k schedule_pos_prev [OF i, of "k - 9" 1 k] prev [of "k - 9" 1] high [of "7 + k" 2] show ?thesis
      by (simp add: mask_low16 word_bit_simps)
  next
    case False
    with k schedule_pos_prev [OF i, of "k + 7" 2 k] prev [of "k + 7" 2] show ?thesis
      by (simp add: mask_low16 word_bit_simps add.commute)
  qed
  with ok show ?thesis by (auto simp: schedule_ok_def idea_next_key_def nth_append less_Suc_eq)
qed

lemma length_idea_next_key [simp]: "length (idea_next_key ks i) = Suc (length ks)"
  by (simp add: idea_next_key_def)

lemma idea_schedule_ok:
  "schedule_ok key ks \<Longrightarrow> 8 \<le> length ks \<Longrightarrow>
   schedule_ok key (foldl idea_next_key ks [length ks..<length ks + n]) \<and>
   length (foldl idea_next_key ks [length ks..<length ks + n]) = length ks + n"
proof (induction n)
  case (Suc n)
  let ?ks = "foldl idea_next_key ks [length ks..<length ks + n]"
  from Suc have "schedule_ok key (idea_next_key ?ks (length ?ks))" by (intro idea_next_key_ok) simp_all
  with Suc show ?case by simp
qed simp

text \<open>The 52 subkeys are the 128 bit user key in pieces of 16 bits, rotated left by 25 bits after every
eight: bit \<open>k\<close> of subkey \<open>i\<close> is the key bit at position \<open>16 i + 15 - k + 25 (i div 8)\<close> modulo 128, counted
from the most significant one. The index arithmetic into the previous row is in range throughout.\<close>

theorem idea_set_key_rotates:
  assumes "length key = 16" and "i < 52" and "k < 16"
  shows "length (idea_set_key key) = 52 \<and> bit (idea_set_key key ! i) k = key_bit key (schedule_pos i k)"
proof -
  let ?ks = "map (\<lambda>i. ucast (GET_16BIT (drop (2 * i) key))) [0..<8] :: u16 list"
  have "schedule_ok key ?ks" using assms(1) by (simp add: schedule_ok_def idea_first_keys del: upt_conv_Cons)
  from idea_schedule_ok [OF this, of 44] have "schedule_ok key (idea_set_key key)" "length (idea_set_key key) = 52"
    by (simp_all add: idea_set_key_def)
  with assms show ?thesis by (simp add: schedule_ok_def)
qed

lemma idea_set_key_rotates_witness:
  "bit (idea_set_key [128, 0, 0, 0, 0, 0, 0, 0, 0, 0, 0, 0, 0, 0, 0, 1] ! 9) 8 =
   key_bit [128, 0, 0, 0, 0, 0, 0, 0, 0, 0, 0, 0, 0, 0, 0, 1] (schedule_pos 9 8)"
  using idea_set_key_rotates [of "[128, 0, 0, 0, 0, 0, 0, 0, 0, 0, 0, 0, 0, 0, 0, 1]" 9 8] by simp

section \<open>CFB decryption undoes encryption\<close>

lemma idea_loop_block:
  assumes "length b = 8"
  shows "idea_cfb_encrypt_loop c iv0 iv1 (b @ xs) (8 + n) =
     (let (out0, out1) = idea_transform c iv0 iv1; iv0 = out0 XOR GET_32BIT b; iv1 = out1 XOR GET_32BIT (drop 4 b)
      in rbind (idea_cfb_encrypt_loop c iv0 iv1 xs n) (\<lambda>(dest, iv).
         Inr (PUT_32BIT iv0 @ PUT_32BIT iv1 @ dest, iv)))"
    and "idea_cfb_decrypt_loop c iv0 iv1 (b @ xs) (8 + n) =
     (let (out0, out1) = idea_transform c iv0 iv1
      in rbind (idea_cfb_decrypt_loop c (GET_32BIT b) (GET_32BIT (drop 4 b)) xs n) (\<lambda>(dest, iv).
         Inr (PUT_32BIT (out0 XOR GET_32BIT b) @ PUT_32BIT (out1 XOR GET_32BIT (drop 4 b)) @ dest, iv)))"
proof -
  have n: "8 + n = Suc (7 + n)" by simp
  show "idea_cfb_encrypt_loop c iv0 iv1 (b @ xs) (8 + n) =
     (let (out0, out1) = idea_transform c iv0 iv1; iv0 = out0 XOR GET_32BIT b; iv1 = out1 XOR GET_32BIT (drop 4 b)
      in rbind (idea_cfb_encrypt_loop c iv0 iv1 xs n) (\<lambda>(dest, iv).
         Inr (PUT_32BIT iv0 @ PUT_32BIT iv1 @ dest, iv)))"
    using assms by (simp only: n idea_cfb_encrypt_loop.simps(2)) (simp add: mem_read_def split_def Let_def)
  show "idea_cfb_decrypt_loop c iv0 iv1 (b @ xs) (8 + n) =
     (let (out0, out1) = idea_transform c iv0 iv1
      in rbind (idea_cfb_decrypt_loop c (GET_32BIT b) (GET_32BIT (drop 4 b)) xs n) (\<lambda>(dest, iv).
         Inr (PUT_32BIT (out0 XOR GET_32BIT b) @ PUT_32BIT (out1 XOR GET_32BIT (drop 4 b)) @ dest, iv)))"
    using assms by (simp only: n idea_cfb_decrypt_loop.simps(2)) (simp add: mem_read_def split_def Let_def)
qed

lemma put_get_8: "length b = 8 \<Longrightarrow> PUT_32BIT (GET_32BIT b) @ PUT_32BIT (GET_32BIT (drop 4 b)) = b"
  using PUT_GET_32BIT [of "take 4 b"] PUT_GET_32BIT [of "drop 4 b"] by (simp add: GET_32BIT_take)

lemma idea_cfb_loops:
  "8 dvd length xs \<Longrightarrow> \<exists>c v0 v1. idea_cfb_encrypt_loop k iv0 iv1 xs (length xs) = Inr (c, v0, v1) \<and>
     length c = length xs \<and> idea_cfb_decrypt_loop k iv0 iv1 c (length xs) = Inr (xs, v0, v1)"
proof (induction xs arbitrary: iv0 iv1 rule: block_induct)
  case (Block b xs)
  obtain o0 o1 where o: "idea_transform k iv0 iv1 = (o0, o1)" by fastforce
  let ?v0 = "o0 XOR GET_32BIT b" and ?v1 = "o1 XOR GET_32BIT (drop 4 b)"
  obtain c v0 v1 where c: "idea_cfb_encrypt_loop k ?v0 ?v1 xs (length xs) = Inr (c, v0, v1)"
    "length c = length xs" "idea_cfb_decrypt_loop k ?v0 ?v1 c (length xs) = Inr (xs, v0, v1)"
    using Block.IH by blast
  let ?b = "PUT_32BIT ?v0 @ PUT_32BIT ?v1"
  have "idea_cfb_encrypt_loop k iv0 iv1 (b @ xs) (length (b @ xs)) = Inr (?b @ c, v0, v1)"
    using Block.hyps(1) c by (simp add: idea_loop_block(1) o)
  moreover have "idea_cfb_decrypt_loop k iv0 iv1 (?b @ c) (length (b @ xs)) = Inr (b @ xs, v0, v1)"
    using Block.hyps(1) c put_get_8 [OF Block.hyps(1)]
    by (simp add: idea_loop_block(2) [of ?b, simplified append_assoc] o)
  ultimately show ?case using c Block.hyps(1) by (intro exI [of _ "?b @ c"]) auto
qed (simp add: exI)

lemma idea_cfb_inverse:
  assumes "8 dvd length xs"
  shows "\<exists>c iv'. idea_cfb_encrypt k iv xs (length xs) = Inr (c, iv') \<and> length c = length xs \<and>
     idea_cfb_decrypt k iv c (length xs) = Inr (xs, iv')"
  using idea_cfb_loops [OF assms, of k "GET_32BIT iv" "GET_32BIT (drop 4 iv)"]
  by (auto simp: idea_cfb_encrypt_def idea_cfb_decrypt_def)

end
