(* ===== verification/Des.thy ===== *)
theory Des
  imports CipherModes
begin

text \<open>
  \<^verbatim>\<open>des.c\<close>: DES and triple DES in CBC mode. The tables and the bit permutations are those of the
  code; the theorems show that decryption undoes encryption for every key schedule, from the
  permutation macros and the sixteen rounds up to the three-key CBC chain.
\<close>

section \<open>Tables\<close>

definition des_skb :: "u32 list list" where
  "des_skb =
   [
    [0x00000000, 0x00000010, 0x20000000, 0x20000010, 0x00010000, 0x00010010, 0x20010000, 0x20010010,
     0x00000800, 0x00000810, 0x20000800, 0x20000810, 0x00010800, 0x00010810, 0x20010800, 0x20010810,
     0x00000020, 0x00000030, 0x20000020, 0x20000030, 0x00010020, 0x00010030, 0x20010020, 0x20010030,
     0x00000820, 0x00000830, 0x20000820, 0x20000830, 0x00010820, 0x00010830, 0x20010820, 0x20010830,
     0x00080000, 0x00080010, 0x20080000, 0x20080010, 0x00090000, 0x00090010, 0x20090000, 0x20090010,
     0x00080800, 0x00080810, 0x20080800, 0x20080810, 0x00090800, 0x00090810, 0x20090800, 0x20090810,
     0x00080020, 0x00080030, 0x20080020, 0x20080030, 0x00090020, 0x00090030, 0x20090020, 0x20090030,
     0x00080820, 0x00080830, 0x20080820, 0x20080830, 0x00090820, 0x00090830, 0x20090820, 0x20090830],
    [0x00000000, 0x02000000, 0x00002000, 0x02002000, 0x00200000, 0x02200000, 0x00202000, 0x02202000,
     0x00000004, 0x02000004, 0x00002004, 0x02002004, 0x00200004, 0x02200004, 0x00202004, 0x02202004,
     0x00000400, 0x02000400, 0x00002400, 0x02002400, 0x00200400, 0x02200400, 0x00202400, 0x02202400,
     0x00000404, 0x02000404, 0x00002404, 0x02002404, 0x00200404, 0x02200404, 0x00202404, 0x02202404,
     0x10000000, 0x12000000, 0x10002000, 0x12002000, 0x10200000, 0x12200000, 0x10202000, 0x12202000,
     0x10000004, 0x12000004, 0x10002004, 0x12002004, 0x10200004, 0x12200004, 0x10202004, 0x12202004,
     0x10000400, 0x12000400, 0x10002400, 0x12002400, 0x10200400, 0x12200400, 0x10202400, 0x12202400,
     0x10000404, 0x12000404, 0x10002404, 0x12002404, 0x10200404, 0x12200404, 0x10202404, 0x12202404],
    [0x00000000, 0x00000001, 0x00040000, 0x00040001, 0x01000000, 0x01000001, 0x01040000, 0x01040001,
     0x00000002, 0x00000003, 0x00040002, 0x00040003, 0x01000002, 0x01000003, 0x01040002, 0x01040003,
     0x00000200, 0x00000201, 0x00040200, 0x00040201, 0x01000200, 0x01000201, 0x01040200, 0x01040201,
     0x00000202, 0x00000203, 0x00040202, 0x00040203, 0x01000202, 0x01000203, 0x01040202, 0x01040203,
     0x08000000, 0x08000001, 0x08040000, 0x08040001, 0x09000000, 0x09000001, 0x09040000, 0x09040001,
     0x08000002, 0x08000003, 0x08040002, 0x08040003, 0x09000002, 0x09000003, 0x09040002, 0x09040003,
     0x08000200, 0x08000201, 0x08040200, 0x08040201, 0x09000200, 0x09000201, 0x09040200, 0x09040201,
     0x08000202, 0x08000203, 0x08040202, 0x08040203, 0x09000202, 0x09000203, 0x09040202, 0x09040203],
    [0x00000000, 0x00100000, 0x00000100, 0x00100100, 0x00000008, 0x00100008, 0x00000108, 0x00100108,
     0x00001000, 0x00101000, 0x00001100, 0x00101100, 0x00001008, 0x00101008, 0x00001108, 0x00101108,
     0x04000000, 0x04100000, 0x04000100, 0x04100100, 0x04000008, 0x04100008, 0x04000108, 0x04100108,
     0x04001000, 0x04101000, 0x04001100, 0x04101100, 0x04001008, 0x04101008, 0x04001108, 0x04101108,
     0x00020000, 0x00120000, 0x00020100, 0x00120100, 0x00020008, 0x00120008, 0x00020108, 0x00120108,
     0x00021000, 0x00121000, 0x00021100, 0x00121100, 0x00021008, 0x00121008, 0x00021108, 0x00121108,
     0x04020000, 0x04120000, 0x04020100, 0x04120100, 0x04020008, 0x04120008, 0x04020108, 0x04120108,
     0x04021000, 0x04121000, 0x04021100, 0x04121100, 0x04021008, 0x04121008, 0x04021108, 0x04121108],
    [0x00000000, 0x10000000, 0x00010000, 0x10010000, 0x00000004, 0x10000004, 0x00010004, 0x10010004,
     0x20000000, 0x30000000, 0x20010000, 0x30010000, 0x20000004, 0x30000004, 0x20010004, 0x30010004,
     0x00100000, 0x10100000, 0x00110000, 0x10110000, 0x00100004, 0x10100004, 0x00110004, 0x10110004,
     0x20100000, 0x30100000, 0x20110000, 0x30110000, 0x20100004, 0x30100004, 0x20110004, 0x30110004,
     0x00001000, 0x10001000, 0x00011000, 0x10011000, 0x00001004, 0x10001004, 0x00011004, 0x10011004,
     0x20001000, 0x30001000, 0x20011000, 0x30011000, 0x20001004, 0x30001004, 0x20011004, 0x30011004,
     0x00101000, 0x10101000, 0x00111000, 0x10111000, 0x00101004, 0x10101004, 0x00111004, 0x10111004,
     0x20101000, 0x30101000, 0x20111000, 0x30111000, 0x20101004, 0x30101004, 0x20111004, 0x30111004],
    [0x00000000, 0x08000000, 0x00000008, 0x08000008, 0x00000400, 0x08000400, 0x00000408, 0x08000408,
     0x00020000, 0x08020000, 0x00020008, 0x08020008, 0x00020400, 0x08020400, 0x00020408, 0x08020408,
     0x00000001, 0x08000001, 0x00000009, 0x08000009, 0x00000401, 0x08000401, 0x00000409, 0x08000409,
     0x00020001, 0x08020001, 0x00020009, 0x08020009, 0x00020401, 0x08020401, 0x00020409, 0x08020409,
     0x02000000, 0x0A000000, 0x02000008, 0x0A000008, 0x02000400, 0x0A000400, 0x02000408, 0x0A000408,
     0x02020000, 0x0A020000, 0x02020008, 0x0A020008, 0x02020400, 0x0A020400, 0x02020408, 0x0A020408,
     0x02000001, 0x0A000001, 0x02000009, 0x0A000009, 0x02000401, 0x0A000401, 0x02000409, 0x0A000409,
     0x02020001, 0x0A020001, 0x02020009, 0x0A020009, 0x02020401, 0x0A020401, 0x02020409, 0x0A020409],
    [0x00000000, 0x00000100, 0x00080000, 0x00080100, 0x01000000, 0x01000100, 0x01080000, 0x01080100,
     0x00000010, 0x00000110, 0x00080010, 0x00080110, 0x01000010, 0x01000110, 0x01080010, 0x01080110,
     0x00200000, 0x00200100, 0x00280000, 0x00280100, 0x01200000, 0x01200100, 0x01280000, 0x01280100,
     0x00200010, 0x00200110, 0x00280010, 0x00280110, 0x01200010, 0x01200110, 0x01280010, 0x01280110,
     0x00000200, 0x00000300, 0x00080200, 0x00080300, 0x01000200, 0x01000300, 0x01080200, 0x01080300,
     0x00000210, 0x00000310, 0x00080210, 0x00080310, 0x01000210, 0x01000310, 0x01080210, 0x01080310,
     0x00200200, 0x00200300, 0x00280200, 0x00280300, 0x01200200, 0x01200300, 0x01280200, 0x01280300,
     0x00200210, 0x00200310, 0x00280210, 0x00280310, 0x01200210, 0x01200310, 0x01280210, 0x01280310],
    [0x00000000, 0x04000000, 0x00040000, 0x04040000, 0x00000002, 0x04000002, 0x00040002, 0x04040002,
     0x00002000, 0x04002000, 0x00042000, 0x04042000, 0x00002002, 0x04002002, 0x00042002, 0x04042002,
     0x00000020, 0x04000020, 0x00040020, 0x04040020, 0x00000022, 0x04000022, 0x00040022, 0x04040022,
     0x00002020, 0x04002020, 0x00042020, 0x04042020, 0x00002022, 0x04002022, 0x00042022, 0x04042022,
     0x00000800, 0x04000800, 0x00040800, 0x04040800, 0x00000802, 0x04000802, 0x00040802, 0x04040802,
     0x00002800, 0x04002800, 0x00042800, 0x04042800, 0x00002802, 0x04002802, 0x00042802, 0x04042802,
     0x00000820, 0x04000820, 0x00040820, 0x04040820, 0x00000822, 0x04000822, 0x00040822, 0x04040822,
     0x00002820, 0x04002820, 0x00042820, 0x04042820, 0x00002822, 0x04002822, 0x00042822, 0x04042822]]"

definition des_SPtrans :: "u32 list list" where
  "des_SPtrans =
   [
    [0x00820200, 0x00020000, 0x80800000, 0x80820200, 0x00800000, 0x80020200, 0x80020000, 0x80800000,
     0x80020200, 0x00820200, 0x00820000, 0x80000200, 0x80800200, 0x00800000, 0x00000000, 0x80020000,
     0x00020000, 0x80000000, 0x00800200, 0x00020200, 0x80820200, 0x00820000, 0x80000200, 0x00800200,
     0x80000000, 0x00000200, 0x00020200, 0x80820000, 0x00000200, 0x80800200, 0x80820000, 0x00000000,
     0x00000000, 0x80820200, 0x00800200, 0x80020000, 0x00820200, 0x00020000, 0x80000200, 0x00800200,
     0x80820000, 0x00000200, 0x00020200, 0x80800000, 0x80020200, 0x80000000, 0x80800000, 0x00820000,
     0x80820200, 0x00020200, 0x00820000, 0x80800200, 0x00800000, 0x80000200, 0x80020000, 0x00000000,
     0x00020000, 0x00800000, 0x80800200, 0x00820200, 0x80000000, 0x80820000, 0x00000200, 0x80020200],
    [0x10042004, 0x00000000, 0x00042000, 0x10040000, 0x10000004, 0x00002004, 0x10002000, 0x00042000,
     0x00002000, 0x10040004, 0x00000004, 0x10002000, 0x00040004, 0x10042000, 0x10040000, 0x00000004,
     0x00040000, 0x10002004, 0x10040004, 0x00002000, 0x00042004, 0x10000000, 0x00000000, 0x00040004,
     0x10002004, 0x00042004, 0x10042000, 0x10000004, 0x10000000, 0x00040000, 0x00002004, 0x10042004,
     0x00040004, 0x10042000, 0x10002000, 0x00042004, 0x10042004, 0x00040004, 0x10000004, 0x00000000,
     0x10000000, 0x00002004, 0x00040000, 0x10040004, 0x00002000, 0x10000000, 0x00042004, 0x10002004,
     0x10042000, 0x00002000, 0x00000000, 0x10000004, 0x00000004, 0x10042004, 0x00042000, 0x10040000,
     0x10040004, 0x00040000, 0x00002004, 0x10002000, 0x10002004, 0x00000004, 0x10040000, 0x00042000],
    [0x41000000, 0x01010040, 0x00000040, 0x41000040, 0x40010000, 0x01000000, 0x41000040, 0x00010040,
     0x01000040, 0x00010000, 0x01010000, 0x40000000, 0x41010040, 0x40000040, 0x40000000, 0x41010000,
     0x00000000, 0x40010000, 0x01010040, 0x00000040, 0x40000040, 0x41010040, 0x00010000, 0x41000000,
     0x41010000, 0x01000040, 0x40010040, 0x01010000, 0x00010040, 0x00000000, 0x01000000, 0x40010040,
     0x01010040, 0x00000040, 0x40000000, 0x00010000, 0x40000040, 0x40010000, 0x01010000, 0x41000040,
     0x00000000, 0x01010040, 0x00010040, 0x41010000, 0x40010000, 0x01000000, 0x41010040, 0x40000000,
     0x40010040, 0x41000000, 0x01000000, 0x41010040, 0x00010000, 0x01000040, 0x41000040, 0x00010040,
     0x01000040, 0x00000000, 0x41010000, 0x40000040, 0x41000000, 0x40010040, 0x00000040, 0x01010000],
    [0x00100402, 0x04000400, 0x00000002, 0x04100402, 0x00000000, 0x04100000, 0x04000402, 0x00100002,
     0x04100400, 0x04000002, 0x04000000, 0x00000402, 0x04000002, 0x00100402, 0x00100000, 0x04000000,
     0x04100002, 0x00100400, 0x00000400, 0x00000002, 0x00100400, 0x04000402, 0x04100000, 0x00000400,
     0x00000402, 0x00000000, 0x00100002, 0x04100400, 0x04000400, 0x04100002, 0x04100402, 0x00100000,
     0x04100002, 0x00000402, 0x00100000, 0x04000002, 0x00100400, 0x04000400, 0x00000002, 0x04100000,
     0x04000402, 0x00000000, 0x00000400, 0x00100002, 0x00000000, 0x04100002, 0x04100400, 0x00000400,
     0x04000000, 0x04100402, 0x00100402, 0x00100000, 0x04100402, 0x00000002, 0x04000400, 0x00100402,
     0x00100002, 0x00100400, 0x04100000, 0x04000402, 0x00000402, 0x04000000, 0x04000002, 0x04100400],
    [0x02000000, 0x00004000, 0x00000100, 0x02004108, 0x02004008, 0x02000100, 0x00004108, 0x02004000,
     0x00004000, 0x00000008, 0x02000008, 0x00004100, 0x02000108, 0x02004008, 0x02004100, 0x00000000,
     0x00004100, 0x02000000, 0x00004008, 0x00000108, 0x02000100, 0x00004108, 0x00000000, 0x02000008,
     0x00000008, 0x02000108, 0x02004108, 0x00004008, 0x02004000, 0x00000100, 0x00000108, 0x02004100,
     0x02004100, 0x02000108, 0x00004008, 0x02004000, 0x00004000, 0x00000008, 0x02000008, 0x02000100,
     0x02000000, 0x00004100, 0x02004108, 0x00000000, 0x00004108, 0x02000000, 0x00000100, 0x00004008,
     0x02000108, 0x00000100, 0x00000000, 0x02004108, 0x02004008, 0x02004100, 0x00000108, 0x00004000,
     0x00004100, 0x02004008, 0x02000100, 0x00000108, 0x00000008, 0x00004108, 0x02004000, 0x02000008],
    [0x20000010, 0x00080010, 0x00000000, 0x20080800, 0x00080010, 0x00000800, 0x20000810, 0x00080000,
     0x00000810, 0x20080810, 0x00080800, 0x20000000, 0x20000800, 0x20000010, 0x20080000, 0x00080810,
     0x00080000, 0x20000810, 0x20080010, 0x00000000, 0x00000800, 0x00000010, 0x20080800, 0x20080010,
     0x20080810, 0x20080000, 0x20000000, 0x00000810, 0x00000010, 0x00080800, 0x00080810, 0x20000800,
     0x00000810, 0x20000000, 0x20000800, 0x00080810, 0x20080800, 0x00080010, 0x00000000, 0x20000800,
     0x20000000, 0x00000800, 0x20080010, 0x00080000, 0x00080010, 0x20080810, 0x00080800, 0x00000010,
     0x20080810, 0x00080800, 0x00080000, 0x20000810, 0x20000010, 0x20080000, 0x00080810, 0x00000000,
     0x00000800, 0x20000010, 0x20000810, 0x20080800, 0x20080000, 0x00000810, 0x00000010, 0x20080010],
    [0x00001000, 0x00000080, 0x00400080, 0x00400001, 0x00401081, 0x00001001, 0x00001080, 0x00000000,
     0x00400000, 0x00400081, 0x00000081, 0x00401000, 0x00000001, 0x00401080, 0x00401000, 0x00000081,
     0x00400081, 0x00001000, 0x00001001, 0x00401081, 0x00000000, 0x00400080, 0x00400001, 0x00001080,
     0x00401001, 0x00001081, 0x00401080, 0x00000001, 0x00001081, 0x00401001, 0x00000080, 0x00400000,
     0x00001081, 0x00401000, 0x00401001, 0x00000081, 0x00001000, 0x00000080, 0x00400000, 0x00401001,
     0x00400081, 0x00001081, 0x00001080, 0x00000000, 0x00000080, 0x00400001, 0x00000001, 0x00400080,
     0x00000000, 0x00400081, 0x00400080, 0x00001080, 0x00000081, 0x00001000, 0x00401081, 0x00400000,
     0x00401080, 0x00000001, 0x00001001, 0x00401081, 0x00400001, 0x00401080, 0x00401000, 0x00001001],
    [0x08200020, 0x08208000, 0x00008020, 0x00000000, 0x08008000, 0x00200020, 0x08200000, 0x08208020,
     0x00000020, 0x08000000, 0x00208000, 0x00008020, 0x00208020, 0x08008020, 0x08000020, 0x08200000,
     0x00008000, 0x00208020, 0x00200020, 0x08008000, 0x08208020, 0x08000020, 0x00000000, 0x00208000,
     0x08000000, 0x00200000, 0x08008020, 0x08200020, 0x00200000, 0x00008000, 0x08208000, 0x00000020,
     0x00200000, 0x00008000, 0x08000020, 0x08208020, 0x00008020, 0x08000000, 0x00000000, 0x00208000,
     0x08200020, 0x08008020, 0x08008000, 0x00200020, 0x08208000, 0x00000020, 0x00200020, 0x08008000,
     0x08208020, 0x00200000, 0x08200000, 0x08000020, 0x00208000, 0x00008020, 0x08008020, 0x08200000,
     0x00000020, 0x08208000, 0x00208020, 0x00000000, 0x08000000, 0x08200020, 0x00008000, 0x00208020]]"

section \<open>The block transform\<close>

text \<open>\<open>PERM_OP a b n m\<close> is the new pair \<open>(a, b)\<close>.\<close>

definition PERM_OP :: "u32 \<Rightarrow> u32 \<Rightarrow> nat \<Rightarrow> u32 \<Rightarrow> u32 \<times> u32" where
  "PERM_OP a b n m = (let t = (drop_bit n a XOR b) AND m in (a XOR push_bit n t, b XOR t))"

text \<open>\<open>IP l r\<close> and \<open>FP l r\<close> are the new \<open>(l, r)\<close>.\<close>

definition IP :: "u32 \<Rightarrow> u32 \<Rightarrow> u32 \<times> u32" where
  "IP l r =
     (let (r, l) = PERM_OP r l 4 0x0f0f0f0f;
          (l, r) = PERM_OP l r 16 0x0000ffff;
          (r, l) = PERM_OP r l 2 0x33333333;
          (l, r) = PERM_OP l r 8 0x00ff00ff;
          (r, l) = PERM_OP r l 1 0x55555555
      in (l, r))"

definition FP :: "u32 \<Rightarrow> u32 \<Rightarrow> u32 \<times> u32" where
  "FP l r =
     (let (l, r) = PERM_OP l r 1 0x55555555;
          (r, l) = PERM_OP r l 8 0x00ff00ff;
          (l, r) = PERM_OP l r 2 0x33333333;
          (r, l) = PERM_OP r l 16 0x0000ffff;
          (l, r) = PERM_OP l r 4 0x0f0f0f0f
      in (l, r))"

definition des_sp :: "nat \<Rightarrow> u32 \<Rightarrow> nat \<Rightarrow> u32" where
  "des_sp i w k = des_SPtrans ! i ! unat (drop_bit k w AND 0x3f)"

text \<open>The value that \<^verbatim>\<open>D_ENCRYPT(L,R,S)\<close> gives \<open>L\<close>.\<close>

definition D_ENCRYPT :: "u32 list \<Rightarrow> u32 \<Rightarrow> u32 \<Rightarrow> nat \<Rightarrow> u32" where
  "D_ENCRYPT s L R S =
     (let u = R XOR s ! S;
          t = R XOR s ! (S + 1);
          t = drop_bit 4 t + push_bit 28 t
      in L XOR (des_sp 1 t 0 OR des_sp 3 t 8 OR des_sp 5 t 16 OR des_sp 7 t 24 OR
                des_sp 0 u 0 OR des_sp 2 u 8 OR des_sp 4 u 16 OR des_sp 6 u 24))"

fun des_round :: "u32 list \<Rightarrow> u32 \<times> u32 \<Rightarrow> nat \<Rightarrow> u32 \<times> u32" where
  "des_round s (l, r) i = (let l = D_ENCRYPT s l r i; r = D_ENCRYPT s r l (i + 2) in (l, r))"

fun des_round_back :: "u32 list \<Rightarrow> u32 \<times> u32 \<Rightarrow> nat \<Rightarrow> u32 \<times> u32" where
  "des_round_back s (l, r) i = (let l = D_ENCRYPT s l r i; r = D_ENCRYPT s r l (i - 2) in (l, r))"

definition des_encrypt :: "u32 \<Rightarrow> u32 \<Rightarrow> u32 list \<Rightarrow> bool \<Rightarrow> u32 \<times> u32" where
  "des_encrypt l r ks encrypt =
     (let (l, r) = IP l r;
          t = push_bit 1 r OR drop_bit 31 r;
          r = push_bit 1 l OR drop_bit 31 l;
          l = t;
          (l, r) = (if encrypt then foldl (des_round ks) (l, r) [0, 4, 8, 12, 16, 20, 24, 28]
                    else foldl (des_round_back ks) (l, r) [30, 26, 22, 18, 14, 10, 6, 2]);
          l = drop_bit 1 l OR push_bit 31 l;
          r = drop_bit 1 r OR push_bit 31 r;
          (r, l) = FP r l
      in (l, r))"

section \<open>The key schedule\<close>

text \<open>The macro's shift counts \<open>16 - n\<close> for its only use with \<open>n = -2\<close>.\<close>

definition HPERM_OP :: "u32 \<Rightarrow> int \<Rightarrow> u32 \<Rightarrow> u32" where
  "HPERM_OP a n m =
     (let t = (push_bit (nat (16 - n)) a XOR a) AND m in a XOR t XOR drop_bit (nat (16 - n)) t)"

text \<open>\<open>key_half i w\<close> is the table look-up at the bits that \<open>w\<close> shifted and masked selects.\<close>

definition des_key_round :: "u32 \<Rightarrow> u32 \<Rightarrow> u32 list" where
  "des_key_round c d =
     (let look = (\<lambda>i w. des_skb ! i ! unat w);
          s = look 0 (c AND 0x3f) OR
              look 1 ((drop_bit 6 c AND 0x03) OR (drop_bit 7 c AND 0x3c)) OR
              look 2 ((drop_bit 13 c AND 0x0f) OR (drop_bit 14 c AND 0x30)) OR
              look 3 ((drop_bit 20 c AND 0x01) OR (drop_bit 21 c AND 0x06) OR (drop_bit 22 c AND 0x38));
          t = look 4 (d AND 0x3f) OR
              look 5 ((drop_bit 7 d AND 0x03) OR (drop_bit 8 d AND 0x3c)) OR
              look 6 (drop_bit 15 d AND 0x3f) OR
              look 7 ((drop_bit 21 d AND 0x0f) OR (drop_bit 22 d AND 0x30));
          k0 = push_bit 16 t OR (s AND 0xffff);
          s = drop_bit 16 s OR (t AND 0xffff0000)
      in [k0, push_bit 4 s OR drop_bit 28 s])"

definition des_key_shift :: "bool \<Rightarrow> u32 \<Rightarrow> u32" where
  "des_key_shift two c =
     (if two then drop_bit 2 c OR push_bit 26 c else drop_bit 1 c OR push_bit 27 c) AND 0x0fffffff"

fun des_key_rounds :: "nat \<Rightarrow> u32 \<Rightarrow> u32 \<Rightarrow> u32 \<Rightarrow> u32 list" where
  "des_key_rounds 0 shifts c d = []"
| "des_key_rounds (Suc n) shifts c d =
     (let c = des_key_shift (shifts AND 1 \<noteq> 0) c; d = des_key_shift (shifts AND 1 \<noteq> 0) d
      in des_key_round c d @ des_key_rounds n (drop_bit 1 shifts) c d)"

text \<open>The permuted choice at the start of \<^verbatim>\<open>des_set_key\<close>.\<close>

definition des_permuted_choice :: "u32 \<Rightarrow> u32 \<Rightarrow> u32 \<times> u32" where
  "des_permuted_choice c d =
     (let (d, c) = PERM_OP d c 4 0x0f0f0f0f;
          c = HPERM_OP c (-2) 0xcccc0000;
          d = HPERM_OP d (-2) 0xcccc0000;
          (d, c) = PERM_OP d c 1 0x55555555;
          (c, d) = PERM_OP c d 8 0x00ff00ff;
          (d, c) = PERM_OP d c 1 0x55555555;
          d = push_bit 16 (d AND 0xff) OR (d AND 0xff00) OR (drop_bit 16 d AND 0xff) OR
              (drop_bit 4 c AND 0xf000000);
          c = c AND 0x0fffffff
      in (c, d))"

definition des_set_key :: "byte list \<Rightarrow> u32 list" where
  "des_set_key key =
     (let (c, d) = des_permuted_choice (GET_32BIT_LSB_FIRST key) (GET_32BIT_LSB_FIRST (drop 4 key))
      in des_key_rounds 16 0x7efc c d)"

section \<open>CBC and triple DES\<close>

abbreviation des_E :: "u32 list \<Rightarrow> block \<Rightarrow> block" where
  "des_E ks \<equiv> \<lambda>(l, r). des_encrypt l r ks True"

abbreviation des_D :: "u32 list \<Rightarrow> block \<Rightarrow> block" where
  "des_D ks \<equiv> \<lambda>(l, r). des_encrypt l r ks False"

definition des_cbc_encrypt :: "u32 list \<Rightarrow> byte list \<Rightarrow> byte list \<Rightarrow> (byte list \<times> byte list) res" where
  "des_cbc_encrypt ks iv src =
     rbind (ensure (length src mod 8 = 0) (Assertion ''(len & 7) == 0'')) (\<lambda>_.
     let (dest, iv) = cbc_encrypt_loop (des_E ks) (get_block iv) src
     in Inr (dest, put_block iv))"

definition des_cbc_decrypt :: "u32 list \<Rightarrow> byte list \<Rightarrow> byte list \<Rightarrow> (byte list \<times> byte list) res" where
  "des_cbc_decrypt ks iv src =
     rbind (ensure (length src mod 8 = 0) (Assertion ''(len & 7) == 0'')) (\<lambda>_.
     let (dest, iv) = cbc_decrypt_loop (des_D ks) (get_block iv) src
     in Inr (dest, put_block iv))"

text \<open>The key schedules and the initialisation vectors of the three stages.\<close>

record DES3 =
  d_ks1 :: "u32 list"
  d_iv1 :: "byte list"
  d_ks2 :: "u32 list"
  d_iv2 :: "byte list"
  d_ks3 :: "u32 list"
  d_iv3 :: "byte list"

definition des_3cbc_encrypt :: "DES3 \<Rightarrow> byte list \<Rightarrow> (byte list \<times> DES3) res" where
  "des_3cbc_encrypt c src =
     rbind (des_cbc_encrypt (d_ks1 c) (d_iv1 c) src) (\<lambda>(dest, iv1).
     rbind (des_cbc_decrypt (d_ks2 c) (d_iv2 c) dest) (\<lambda>(dest, iv2).
     rbind (des_cbc_encrypt (d_ks3 c) (d_iv3 c) dest) (\<lambda>(dest, iv3).
     Inr (dest, c\<lparr>d_iv1 := iv1, d_iv2 := iv2, d_iv3 := iv3\<rparr>))))"

definition des_3cbc_decrypt :: "DES3 \<Rightarrow> byte list \<Rightarrow> (byte list \<times> DES3) res" where
  "des_3cbc_decrypt c src =
     rbind (des_cbc_decrypt (d_ks3 c) (d_iv3 c) src) (\<lambda>(dest, iv3).
     rbind (des_cbc_encrypt (d_ks2 c) (d_iv2 c) dest) (\<lambda>(dest, iv2).
     rbind (des_cbc_decrypt (d_ks1 c) (d_iv1 c) dest) (\<lambda>(dest, iv1).
     Inr (dest, c\<lparr>d_iv1 := iv1, d_iv2 := iv2, d_iv3 := iv3\<rparr>))))"

section \<open>Decryption undoes encryption\<close>

lemma PERM_OP_twice:
  assumes "drop_bit n (push_bit n m) = m" and "PERM_OP a b n m = (a', b')"
  shows "PERM_OP a' b' n m = (a, b)"
proof -
  define t where "t = (drop_bit n a XOR b) AND m"
  have *: "drop_bit n (push_bit n t) = t"
  proof (rule bit_word_eqI)
    fix k assume "k < LENGTH(32)"
    have "bit m k \<longleftrightarrow> bit (drop_bit n (push_bit n m)) k" using assms(1) by simp
    then show "bit (drop_bit n (push_bit n t)) k = bit t k"
      by (auto simp: t_def word_bit_simps)
  qed
  have a: "a' = a XOR push_bit n t" "b' = b XOR t" using assms(2) by (auto simp: PERM_OP_def Let_def t_def)
  have "drop_bit n a' XOR b' = drop_bit n a XOR b"
    unfolding a drop_bit_xor * by (simp add: ac_simps)
  then have "(drop_bit n a' XOR b') AND m = t" by (simp add: t_def)
  then show ?thesis by (simp add: PERM_OP_def Let_def a)
qed

text \<open>The five masks leave room for their shifts.\<close>

lemma perm_masks:
  "drop_bit 4 (push_bit 4 0x0f0f0f0f) = (0x0f0f0f0f :: u32)" "drop_bit 16 (push_bit 16 0x0000ffff) = (0x0000ffff :: u32)"
  "drop_bit 2 (push_bit 2 0x33333333) = (0x33333333 :: u32)" "drop_bit 8 (push_bit 8 0x00ff00ff) = (0x00ff00ff :: u32)"
  "drop_bit 1 (push_bit 1 0x55555555) = (0x55555555 :: u32)"
  by simp_all

lemmas perm_undo = perm_masks [THEN PERM_OP_twice]

lemma FP_IP:
  assumes "IP l r = (l', r')" shows "FP r' l' = (r, l)"
proof -
  obtain r1 l1 where 1: "PERM_OP r l 4 0x0f0f0f0f = (r1, l1)" by fastforce
  obtain l2 r2 where 2: "PERM_OP l1 r1 16 0x0000ffff = (l2, r2)" by fastforce
  obtain r3 l3 where 3: "PERM_OP r2 l2 2 0x33333333 = (r3, l3)" by fastforce
  obtain l4 r4 where 4: "PERM_OP l3 r3 8 0x00ff00ff = (l4, r4)" by fastforce
  obtain r5 l5 where 5: "PERM_OP r4 l4 1 0x55555555 = (r5, l5)" by fastforce
  have "l' = l5 \<and> r' = r5" using assms unfolding IP_def 1 2 3 4 5 Let_def split by simp
  then show ?thesis
    by (simp only: FP_def Let_def split perm_undo(5) [OF 5] perm_undo(4) [OF 4] perm_undo(3) [OF 3]
        perm_undo(2) [OF 2] perm_undo(1) [OF 1])
qed

lemma IP_FP:
  assumes "FP l r = (l', r')" shows "IP r' l' = (r, l)"
proof -
  obtain l1 r1 where 1: "PERM_OP l r 1 0x55555555 = (l1, r1)" by fastforce
  obtain r2 l2 where 2: "PERM_OP r1 l1 8 0x00ff00ff = (r2, l2)" by fastforce
  obtain l3 r3 where 3: "PERM_OP l2 r2 2 0x33333333 = (l3, r3)" by fastforce
  obtain r4 l4 where 4: "PERM_OP r3 l3 16 0x0000ffff = (r4, l4)" by fastforce
  obtain l5 r5 where 5: "PERM_OP l4 r4 4 0x0f0f0f0f = (l5, r5)" by fastforce
  have "l' = l5 \<and> r' = r5" using assms unfolding FP_def 1 2 3 4 5 Let_def split by simp
  then show ?thesis
    by (simp only: IP_def Let_def split perm_undo(1) [OF 5] perm_undo(2) [OF 4] perm_undo(3) [OF 3]
        perm_undo(4) [OF 2] perm_undo(5) [OF 1])
qed

lemma rotate_pair:
  assumes "j + k = 32"
  shows "drop_bit j (push_bit j w OR drop_bit k w) OR push_bit k (push_bit j w OR drop_bit k w) = (w :: u32)"
proof (rule bit_word_eqI)
  fix n assume "n < LENGTH(32)"
  then have "n < k \<and> j + n < 32 \<and> 32 \<le> k + (j + n) \<or> k \<le> n \<and> n - k < j \<and> n - k + k = n \<and> 32 \<le> j + n"
    using assms by auto
  then show "bit (drop_bit j (push_bit j w OR drop_bit k w) OR push_bit k (push_bit j w OR drop_bit k w)) n = bit w n"
    using assms by (auto simp: word_bit_simps dest: bit_imp_le_length)
qed

lemma rotate_back:
  "drop_bit 1 (push_bit 1 w OR drop_bit 31 w) OR push_bit 31 (push_bit 1 w OR drop_bit 31 w) = w"
  "push_bit 1 (drop_bit 1 w OR push_bit 31 w) OR drop_bit 31 (drop_bit 1 w OR push_bit 31 w) = w" for w :: u32
  by (rule rotate_pair, simp) (subst or.commute, subst (2 3) or.commute, rule rotate_pair, simp)

lemma D_ENCRYPT_twice: "D_ENCRYPT s (D_ENCRYPT s L R i) R i = L"
  by (simp add: D_ENCRYPT_def Let_def xor.assoc)

abbreviation enc_rounds :: "nat list" where "enc_rounds \<equiv> [0, 4, 8, 12, 16, 20, 24, 28]"
abbreviation dec_rounds :: "nat list" where "dec_rounds \<equiv> [30, 26, 22, 18, 14, 10, 6, 2]"

lemma rounds_undo:
  "foldl (des_round_back s) (prod.swap (foldl (des_round s) x enc_rounds)) dec_rounds = prod.swap x"
  "foldl (des_round s) (prod.swap (foldl (des_round_back s) x dec_rounds)) enc_rounds = prod.swap x"
proof -
  have d: "dec_rounds = map (\<lambda>i. i + 2) (rev enc_rounds)" and e: "enc_rounds = map (\<lambda>i. i - 2) (rev dec_rounds)"
    by simp_all
  show "foldl (des_round_back s) (prod.swap (foldl (des_round s) x enc_rounds)) dec_rounds = prod.swap x"
    unfolding d by (rule foldl_undo) (auto simp: Let_def D_ENCRYPT_twice numeral_2_eq_2)
  show "foldl (des_round s) (prod.swap (foldl (des_round_back s) x dec_rounds)) enc_rounds = prod.swap x"
    unfolding e by (rule foldl_undo) (auto simp: Let_def D_ENCRYPT_twice numeral_2_eq_2)
qed

text \<open>The rounds between the two permutations, in either direction.\<close>

lemma des_encrypt_outer:
  assumes core: "\<And>x. rb (prod.swap (ra x)) = prod.swap x"
    and e: "\<And>l r. f l r = (let (l, r) = IP l r; t = push_bit 1 r OR drop_bit 31 r; r = push_bit 1 l OR drop_bit 31 l; l = t;
          (l, r) = ra (l, r); l = drop_bit 1 l OR push_bit 31 l; r = drop_bit 1 r OR push_bit 31 r; (r, l) = FP r l in (l, r))"
    and d: "\<And>l r. g l r = (let (l, r) = IP l r; t = push_bit 1 r OR drop_bit 31 r; r = push_bit 1 l OR drop_bit 31 l; l = t;
          (l, r) = rb (l, r); l = drop_bit 1 l OR push_bit 31 l; r = drop_bit 1 r OR push_bit 31 r; (r, l) = FP r l in (l, r))"
    and out: "f l r = (l', r')"
  shows "g l' r' = (l, r)"
proof -
  let ?R = "\<lambda>w. push_bit 1 w OR drop_bit 31 w :: u32" and ?S = "\<lambda>w. drop_bit 1 w OR push_bit 31 w :: u32"
  obtain l1 r1 where 1: "IP l r = (l1, r1)" by fastforce
  obtain l2 r2 where 2: "ra (?R r1, ?R l1) = (l2, r2)" by fastforce
  obtain r3 l3 where 3: "FP (?S r2) (?S l2) = (r3, l3)" by fastforce
  have "l' = l3" "r' = r3" using out unfolding e 1 Let_def split 2 3 by simp_all
  moreover have "IP l3 r3 = (?S l2, ?S r2)" by (rule IP_FP [OF 3])
  moreover have "rb (r2, l2) = (?R l1, ?R r1)" using core [of "(?R r1, ?R l1)"] by (simp only: 2 swap_simp)
  ultimately show ?thesis
    by (simp only: d Let_def split rotate_back FP_IP [OF 1])
qed

lemma des_undo_encrypt: "des_encrypt l r ks True = (l', r') \<Longrightarrow> des_encrypt l' r' ks False = (l, r)"
proof (rule des_encrypt_outer [where f = "\<lambda>l r. des_encrypt l r ks True" and g = "\<lambda>l r. des_encrypt l r ks False"])
  show "foldl (des_round_back ks) (prod.swap (foldl (des_round ks) x enc_rounds)) dec_rounds = prod.swap x" for x
    by (rule rounds_undo)
qed (simp_all only: des_encrypt_def if_True if_False simp_thms)

lemma des_undo_decrypt: "des_encrypt l r ks False = (l', r') \<Longrightarrow> des_encrypt l' r' ks True = (l, r)"
proof (rule des_encrypt_outer [where f = "\<lambda>l r. des_encrypt l r ks False" and g = "\<lambda>l r. des_encrypt l r ks True"])
  show "foldl (des_round ks) (prod.swap (foldl (des_round_back ks) x dec_rounds)) enc_rounds = prod.swap x" for x
    by (rule rounds_undo)
qed (simp_all only: des_encrypt_def if_True if_False simp_thms)

text \<open>For every schedule, \<^verbatim>\<open>des_encrypt\<close> in its decrypting direction undoes the encrypting one and
conversely: the initial and final bit permutations, the moved rotations and the sixteen rounds run
backwards cancel exactly.\<close>

theorem des_encrypt_inverse:
  "(let (l', r') = des_encrypt l r ks encrypt in des_encrypt l' r' ks (\<not> encrypt)) = (l, r)"
  using des_undo_encrypt [of l r ks] des_undo_decrypt [of l r ks]
  by (cases encrypt; cases "des_encrypt l r ks encrypt") simp_all

interpretation des: block_cipher "des_E ks" "des_D ks" for ks
  by unfold_locales (auto split: prod.splits dest: des_undo_encrypt des_undo_decrypt)

section \<open>The chained modes\<close>

lemma des_cbc_undo:
  assumes "8 dvd length x"
  shows "\<exists>c iv'. des_cbc_encrypt ks iv x = Inr (c, iv') \<and> length c = length x \<and> des_cbc_decrypt ks iv c = Inr (x, iv')"
proof -
  obtain c v where c: "cbc_encrypt_loop (des_E ks) (get_block iv) x = (c, v)" by (metis surj_pair)
  then have "length c = length x" using des.cbc_length [OF assms, of ks "get_block iv"] by simp
  moreover from this des.cbc_decrypt_encrypt [OF assms c] assms
  have "des_cbc_encrypt ks iv x = Inr (c, put_block v)" "des_cbc_decrypt ks iv c = Inr (x, put_block v)"
    by (simp_all add: des_cbc_encrypt_def des_cbc_decrypt_def c)
  ultimately show ?thesis by blast
qed

lemma des_cbc_undo_back:
  assumes "8 dvd length x"
  shows "\<exists>c iv'. des_cbc_decrypt ks iv x = Inr (c, iv') \<and> length c = length x \<and> des_cbc_encrypt ks iv c = Inr (x, iv')"
proof -
  obtain c v where c: "cbc_decrypt_loop (des_D ks) (get_block iv) x = (c, v)" by (metis surj_pair)
  then have "length c = length x" using des.cbc_length_dec [OF assms, of ks "get_block iv"] by simp
  moreover from this des.cbc_encrypt_decrypt [OF assms c] assms
  have "des_cbc_decrypt ks iv x = Inr (c, put_block v)" "des_cbc_encrypt ks iv c = Inr (x, put_block v)"
    by (simp_all add: des_cbc_encrypt_def des_cbc_decrypt_def c)
  ultimately show ?thesis by blast
qed

lemma des_3cbc_undo:
  assumes "8 dvd length x"
  shows "\<exists>c d'. des_3cbc_encrypt d x = Inr (c, d') \<and> length c = length x \<and> des_3cbc_decrypt d c = Inr (x, d')"
proof -
  obtain c1 v1 where 1: "des_cbc_encrypt (d_ks1 d) (d_iv1 d) x = Inr (c1, v1)" "length c1 = length x"
    "des_cbc_decrypt (d_ks1 d) (d_iv1 d) c1 = Inr (x, v1)" using des_cbc_undo [OF assms] by blast
  obtain c2 v2 where 2: "des_cbc_decrypt (d_ks2 d) (d_iv2 d) c1 = Inr (c2, v2)" "length c2 = length c1"
    "des_cbc_encrypt (d_ks2 d) (d_iv2 d) c2 = Inr (c1, v2)" using des_cbc_undo_back [of c1] assms 1(2) by metis
  obtain c3 v3 where 3: "des_cbc_encrypt (d_ks3 d) (d_iv3 d) c2 = Inr (c3, v3)" "length c3 = length c2"
    "des_cbc_decrypt (d_ks3 d) (d_iv3 d) c3 = Inr (c2, v3)" using des_cbc_undo [of c2] assms 1(2) 2(2) by metis
  show ?thesis
    by (intro exI [of _ c3] exI [of _ "d\<lparr>d_iv1 := v1, d_iv2 := v2, d_iv3 := v3\<rparr>"])
      (simp add: des_3cbc_encrypt_def des_3cbc_decrypt_def 1 2 3)
qed

interpretation cbc: duplex "\<lambda>(ks, iv) x. rbind (des_cbc_encrypt ks iv x) (\<lambda>(c, iv). Inr (c, ks, iv))"
    "\<lambda>(ks, iv) x. rbind (des_cbc_decrypt ks iv x) (\<lambda>(c, iv). Inr (c, ks, iv))" "(=)"
proof
  fix s r :: "u32 list \<times> byte list" and x :: "byte list"
  assume "s = r" and "8 dvd length x"
  then show "\<exists>c s' r'. (case s of (ks, iv) \<Rightarrow> \<lambda>x. rbind (des_cbc_encrypt ks iv x) (\<lambda>(c, iv). Inr (c, ks, iv))) x = Inr (c, s') \<and>
      length c = length x \<and>
      (case r of (ks, iv) \<Rightarrow> \<lambda>x. rbind (des_cbc_decrypt ks iv x) (\<lambda>(c, iv). Inr (c, ks, iv))) c = Inr (x, r') \<and> s' = r'"
    using des_cbc_undo [of x "fst r" "snd r"] by (cases r) fastforce
qed

interpretation cbc3: duplex des_3cbc_encrypt des_3cbc_decrypt "(=)"
  by unfold_locales (use des_3cbc_undo in fastforce)

text \<open>Triple DES with three equal keys and initialisation vectors is single DES: the same output
and the same final vector, so a 3DES peer with a repeated key talks to a DES one.\<close>

theorem des_3cbc_equal_keys:
  assumes "length src mod 8 = 0"
    and "d = \<lparr>d_ks1 = ks, d_iv1 = iv, d_ks2 = ks, d_iv2 = iv, d_ks3 = ks, d_iv3 = iv\<rparr>"
    and "des_cbc_encrypt ks iv src = Inr (c, iv')"
  shows "des_3cbc_encrypt d src =
    Inr (c, \<lparr>d_ks1 = ks, d_iv1 = iv', d_ks2 = ks, d_iv2 = iv', d_ks3 = ks, d_iv3 = iv'\<rparr>)"
proof -
  have "8 dvd length src" using assms(1) by (simp add: dvd_eq_mod_eq_0)
  from des_cbc_undo [OF this, of ks iv] have "des_cbc_decrypt ks iv c = Inr (src, iv')" using assms(3) by auto
  then show ?thesis using assms by (simp add: des_3cbc_encrypt_def)
qed

lemma des_3cbc_equal_keys_witness:
  "\<exists>c iv'. des_3cbc_encrypt \<lparr>d_ks1 = replicate 32 5, d_iv1 = replicate 8 1, d_ks2 = replicate 32 5,
      d_iv2 = replicate 8 1, d_ks3 = replicate 32 5, d_iv3 = replicate 8 1\<rparr> (replicate 16 7) = Inr (c,
      \<lparr>d_ks1 = replicate 32 5, d_iv1 = iv', d_ks2 = replicate 32 5, d_iv2 = iv', d_ks3 = replicate 32 5, d_iv3 = iv'\<rparr>)"
proof -
  obtain c iv' where "des_cbc_encrypt (replicate 32 5) (replicate 8 1) (replicate 16 7) = Inr (c, iv')"
    using des_cbc_undo [of "replicate 16 7" "replicate 32 5" "replicate 8 1"] by auto
  from des_3cbc_equal_keys [OF _ refl this] show ?thesis by auto
qed

end
