(* ===== verification/Cipher.thy ===== *)
theory Cipher
  imports Arcfour Idea Des Blowfish Md5
begin

text \<open>
  \<^verbatim>\<open>cipher.c\<close>: the table of ciphers and the dispatch to them. Which ciphers exist is fixed when the
  program is compiled; \<open>cipher_config\<close> holds these switches. A context is the cipher number with the
  union of the per-cipher states; using a member other than the one last written is undefined.
\<close>

section \<open>Numbers and names\<close>

record cipher_config =
  with_none :: bool
  with_idea :: bool
  with_des :: bool
  with_arcfour :: bool
  with_blowfish :: bool

abbreviation (input) "SSH_CIPHER_NOT_SET \<equiv> - 1 :: int"
abbreviation (input) "SSH_CIPHER_NONE \<equiv> 0 :: int"
abbreviation (input) "SSH_CIPHER_IDEA \<equiv> 1 :: int"
abbreviation (input) "SSH_CIPHER_DES \<equiv> 2 :: int"
abbreviation (input) "SSH_CIPHER_3DES \<equiv> 3 :: int"
abbreviation (input) "SSH_CIPHER_ARCFOUR \<equiv> 5 :: int"
abbreviation (input) "SSH_CIPHER_BLOWFISH \<equiv> 6 :: int"

definition cipher_names :: "string list" where
  "cipher_names = [''none'', ''idea'', ''des'', ''3des'', ''used to be tss'', ''arcfour'', ''blowfish'', ''reserved'']"

definition cipher_mask :: "cipher_config \<Rightarrow> u32" where
  "cipher_mask cfg =
     (let mask = 0;
          mask = (if with_none cfg then mask OR push_bit 0 1 else mask);
          mask = (if with_idea cfg then mask OR push_bit 1 1 else mask);
          mask = (if with_des cfg then mask OR push_bit 2 1 else mask);
          mask = mask OR push_bit 3 1;
          mask = (if with_arcfour cfg then mask OR push_bit 5 1 else mask);
          mask = (if with_blowfish cfg then mask OR push_bit 6 1 else mask)
      in mask)"

definition cipher_name :: "int \<Rightarrow> string res" where
  "cipher_name cipher =
     (if cipher < 0 \<or> cipher \<ge> 8 then Inl (Fatal ''cipher_name: bad cipher number'')
      else Inr (cipher_names ! nat cipher))"

fun cipher_number_loop :: "cipher_config \<Rightarrow> string \<Rightarrow> int \<Rightarrow> string list \<Rightarrow> int" where
  "cipher_number_loop cfg name i [] = -1"
| "cipher_number_loop cfg name i (n # names) =
     (if n = name
      then (if \<not> with_arcfour cfg \<and> with_blowfish cfg \<and> i = SSH_CIPHER_ARCFOUR then SSH_CIPHER_BLOWFISH else i)
      else cipher_number_loop cfg name (i + 1) names)"

definition cipher_number :: "cipher_config \<Rightarrow> string \<Rightarrow> int" where
  "cipher_number cfg name =
     (if name = ''rc4''
      then (if with_arcfour cfg \<or> \<not> with_blowfish cfg then SSH_CIPHER_ARCFOUR else SSH_CIPHER_BLOWFISH)
      else cipher_number_loop cfg name 0 cipher_names)"

section \<open>Contexts\<close>

datatype cipher_union =
    U_None
  | U_Idea "u16 list" "byte list"
  | U_Des "u32 list" "byte list"
  | U_Des3 DES3
  | U_Arcfour ArcfourContext
  | U_Blowfish BlowfishContext

record CipherContext =
  c_type :: int
  c_u :: cipher_union

text \<open>The 3DES case of \<^verbatim>\<open>cipher_set_key\<close>: a key of at most 16 bytes gives the first key again as the third.\<close>

definition cipher_3des_key :: "byte list \<Rightarrow> nat \<Rightarrow> DES3" where
  "cipher_3des_key padded keylen =
     \<lparr>d_ks1 = des_set_key padded, d_iv1 = replicate 8 0,
      d_ks2 = des_set_key (drop 8 padded), d_iv2 = replicate 8 0,
      d_ks3 = (if keylen \<le> 16 then des_set_key padded else des_set_key (drop 16 padded)), d_iv3 = replicate 8 0\<rparr>"

text \<open>The cleared context has all initialisation vectors zero; messages about short keys only go to the log.\<close>

definition cipher_set_key :: "cipher_config \<Rightarrow> int \<Rightarrow> byte list \<Rightarrow> bool \<Rightarrow> CipherContext res" where
  "cipher_set_key cfg cipher key for_encryption =
     (let padded = take 32 key @ replicate (32 - length key) 0;
          iv = replicate 8 0
      in if cipher = SSH_CIPHER_NONE then Inr \<lparr>c_type = cipher, c_u = U_None\<rparr>
         else if cipher = SSH_CIPHER_IDEA \<and> with_idea cfg then
           Inr \<lparr>c_type = cipher, c_u = U_Idea (idea_set_key (take 16 padded)) iv\<rparr>
         else if cipher = SSH_CIPHER_DES \<and> with_des cfg then
           Inr \<lparr>c_type = cipher, c_u = U_Des (des_set_key padded) iv\<rparr>
         else if cipher = SSH_CIPHER_3DES then
           Inr \<lparr>c_type = cipher, c_u = U_Des3 (cipher_3des_key padded (length key))\<rparr>
         else if cipher = SSH_CIPHER_ARCFOUR \<and> with_arcfour cfg then
           rbind (arcfour_init key) (\<lambda>a. Inr \<lparr>c_type = cipher, c_u = U_Arcfour a\<rparr>)
         else if cipher = SSH_CIPHER_BLOWFISH \<and> with_blowfish cfg then
           rbind (blowfish_set_key \<lparr>bf_S = replicate 1024 0, bf_P = replicate 18 0, bf_iv = iv\<rparr> key for_encryption)
             (\<lambda>b. Inr \<lparr>c_type = cipher, c_u = U_Blowfish b\<rparr>)
         else Inl (Fatal ''cipher_set_key: unknown cipher''))"

definition cipher_set_key_string :: "cipher_config \<Rightarrow> int \<Rightarrow> byte list \<Rightarrow> bool \<Rightarrow> CipherContext res" where
  "cipher_set_key_string cfg cipher passphrase for_encryption =
     cipher_set_key cfg cipher (MD5Final (MD5Update MD5Init passphrase)) for_encryption"

definition cipher_encrypt :: "cipher_config \<Rightarrow> CipherContext \<Rightarrow> byte list \<Rightarrow> (byte list \<times> CipherContext) res" where
  "cipher_encrypt cfg ctx src =
     (if c_type ctx = SSH_CIPHER_NONE then Inr (src, ctx)
      else if c_type ctx = SSH_CIPHER_IDEA \<and> with_idea cfg then
        (case c_u ctx of U_Idea key iv \<Rightarrow>
           rbind (idea_cfb_encrypt key iv src (length src)) (\<lambda>(dest, iv). Inr (dest, ctx\<lparr>c_u := U_Idea key iv\<rparr>))
         | _ \<Rightarrow> Inl (Undefined ''union''))
      else if c_type ctx = SSH_CIPHER_DES \<and> with_des cfg then
        (case c_u ctx of U_Des key iv \<Rightarrow>
           rbind (des_cbc_encrypt key iv src) (\<lambda>(dest, iv). Inr (dest, ctx\<lparr>c_u := U_Des key iv\<rparr>))
         | _ \<Rightarrow> Inl (Undefined ''union''))
      else if c_type ctx = SSH_CIPHER_3DES then
        (case c_u ctx of U_Des3 d \<Rightarrow>
           rbind (des_3cbc_encrypt d src) (\<lambda>(dest, d). Inr (dest, ctx\<lparr>c_u := U_Des3 d\<rparr>))
         | _ \<Rightarrow> Inl (Undefined ''union''))
      else if c_type ctx = SSH_CIPHER_ARCFOUR \<and> with_arcfour cfg then
        (case c_u ctx of U_Arcfour a \<Rightarrow>
           (let (dest, a) = arcfour_encrypt a src in Inr (dest, ctx\<lparr>c_u := U_Arcfour a\<rparr>))
         | _ \<Rightarrow> Inl (Undefined ''union''))
      else if c_type ctx = SSH_CIPHER_BLOWFISH \<and> with_blowfish cfg then
        (case c_u ctx of U_Blowfish b \<Rightarrow>
           rbind (blowfish_cbc_encrypt b src) (\<lambda>(dest, b). Inr (dest, ctx\<lparr>c_u := U_Blowfish b\<rparr>))
         | _ \<Rightarrow> Inl (Undefined ''union''))
      else Inl (Fatal ''cipher_encrypt: unknown cipher''))"

definition cipher_decrypt :: "cipher_config \<Rightarrow> CipherContext \<Rightarrow> byte list \<Rightarrow> (byte list \<times> CipherContext) res" where
  "cipher_decrypt cfg ctx src =
     (if c_type ctx = SSH_CIPHER_NONE then Inr (src, ctx)
      else if c_type ctx = SSH_CIPHER_IDEA \<and> with_idea cfg then
        (case c_u ctx of U_Idea key iv \<Rightarrow>
           rbind (idea_cfb_decrypt key iv src (length src)) (\<lambda>(dest, iv). Inr (dest, ctx\<lparr>c_u := U_Idea key iv\<rparr>))
         | _ \<Rightarrow> Inl (Undefined ''union''))
      else if c_type ctx = SSH_CIPHER_DES \<and> with_des cfg then
        (case c_u ctx of U_Des key iv \<Rightarrow>
           rbind (des_cbc_decrypt key iv src) (\<lambda>(dest, iv). Inr (dest, ctx\<lparr>c_u := U_Des key iv\<rparr>))
         | _ \<Rightarrow> Inl (Undefined ''union''))
      else if c_type ctx = SSH_CIPHER_3DES then
        (case c_u ctx of U_Des3 d \<Rightarrow>
           rbind (des_3cbc_decrypt d src) (\<lambda>(dest, d). Inr (dest, ctx\<lparr>c_u := U_Des3 d\<rparr>))
         | _ \<Rightarrow> Inl (Undefined ''union''))
      else if c_type ctx = SSH_CIPHER_ARCFOUR \<and> with_arcfour cfg then
        (case c_u ctx of U_Arcfour a \<Rightarrow>
           (let (dest, a) = arcfour_decrypt a src in Inr (dest, ctx\<lparr>c_u := U_Arcfour a\<rparr>))
         | _ \<Rightarrow> Inl (Undefined ''union''))
      else if c_type ctx = SSH_CIPHER_BLOWFISH \<and> with_blowfish cfg then
        (case c_u ctx of U_Blowfish b \<Rightarrow>
           rbind (blowfish_cbc_decrypt b src) (\<lambda>(dest, b). Inr (dest, ctx\<lparr>c_u := U_Blowfish b\<rparr>))
         | _ \<Rightarrow> Inl (Undefined ''union''))
      else Inl (Fatal ''cipher_decrypt: unknown cipher''))"

section \<open>Keyed contexts\<close>

text \<open>The contexts that \<^verbatim>\<open>cipher_set_key\<close> makes: the union holds the member of the type.\<close>

definition keyed :: "cipher_config \<Rightarrow> CipherContext \<Rightarrow> bool" where
  "keyed cfg ctx \<longleftrightarrow>
     (c_type ctx = SSH_CIPHER_NONE
      \<or> c_type ctx = SSH_CIPHER_IDEA \<and> with_idea cfg \<and> (\<exists>k iv. c_u ctx = U_Idea k iv)
      \<or> c_type ctx = SSH_CIPHER_DES \<and> with_des cfg \<and> (\<exists>k iv. c_u ctx = U_Des k iv)
      \<or> c_type ctx = SSH_CIPHER_3DES \<and> (\<exists>d. c_u ctx = U_Des3 d)
      \<or> c_type ctx = SSH_CIPHER_ARCFOUR \<and> with_arcfour cfg \<and> (\<exists>a. c_u ctx = U_Arcfour a)
      \<or> c_type ctx = SSH_CIPHER_BLOWFISH \<and> with_blowfish cfg \<and> (\<exists>b. c_u ctx = U_Blowfish b))"

text \<open>The ciphers that a configuration has, and what becomes of the others.\<close>

definition available :: "cipher_config \<Rightarrow> int \<Rightarrow> bool" where
  "available cfg c \<longleftrightarrow> c = 0 \<or> c = 1 \<and> with_idea cfg \<or> c = 2 \<and> with_des cfg \<or> c = 3 \<or>
     c = 5 \<and> with_arcfour cfg \<or> c = 6 \<and> with_blowfish cfg"

lemma available_cases [consumes 1, case_names none idea des des3 arcfour blowfish]:
  assumes "available cfg c"
  obtains "c = 0" | "c = 1" "with_idea cfg" | "c = 2" "with_des cfg" | "c = 3"
    | "c = 5" "with_arcfour cfg" | "c = 6" "with_blowfish cfg"
  using assms by (auto simp: available_def)

lemma cipher_set_key_unavailable:
  "\<not> available cfg c \<Longrightarrow> cipher_set_key cfg c key e = Inl (Fatal ''cipher_set_key: unknown cipher'')"
  unfolding available_def by (simp only: cipher_set_key_def Let_def de_Morgan_disj if_False simp_thms)

lemma cipher_set_key_keyed:
  assumes "cipher_set_key cfg cipher key e = Inr ctx" shows "keyed cfg ctx \<and> c_type ctx = cipher"
proof -
  have "available cfg cipher" using assms cipher_set_key_unavailable [of cfg cipher key e] by auto
  then show ?thesis
  proof (cases rule: available_cases)
    case none then show ?thesis using assms by (auto simp: cipher_set_key_def keyed_def)
  next
    case idea then show ?thesis using assms by (auto simp: cipher_set_key_def keyed_def Let_def)
  next
    case des then show ?thesis using assms by (auto simp: cipher_set_key_def keyed_def Let_def)
  next
    case des3 then show ?thesis using assms by (auto simp: cipher_set_key_def keyed_def Let_def)
  next
    case arcfour then show ?thesis using assms by (auto simp: cipher_set_key_def keyed_def rbind_eq_Inr)
  next
    case blowfish then show ?thesis using assms by (auto simp: cipher_set_key_def keyed_def rbind_eq_Inr)
  qed
qed

lemma cipher_set_key_direction: "cipher_set_key cfg cipher key True = cipher_set_key cfg cipher key False"
  by (simp add: cipher_set_key_def blowfish_set_key_def Let_def)

lemma cipher_set_key_total:
  assumes "available cfg cipher" and "0 < length key" and "length key < 2 ^ 15"
  shows "\<exists>ctx. cipher_set_key cfg cipher key e = Inr ctx"
proof -
  have a: "\<exists>a. arcfour_init key = Inr a" using assms(2) by (simp add: arcfour_init_def)
  have b: "\<exists>b. blowfish_set_key c key e = Inr b" for c
    using blowfish_set_key_total [OF assms(2,3)] by blast
  from assms(1) show ?thesis
    by (cases rule: available_cases) (use a b in \<open>auto simp: cipher_set_key_def Let_def rbind_eq_Inr\<close>)
qed

lemma cipher_inverse:
  assumes "keyed cfg ctx" and x: "8 dvd length x"
  shows "\<exists>c ctx'. cipher_encrypt cfg ctx x = Inr (c, ctx') \<and> length c = length x \<and>
     cipher_decrypt cfg ctx c = Inr (x, ctx') \<and> keyed cfg ctx' \<and> c_type ctx' = c_type ctx"
  using assms(1) [unfolded keyed_def]
proof (elim disjE conjE exE)
  assume "c_type ctx = SSH_CIPHER_NONE"
  then show ?thesis by (simp add: cipher_encrypt_def cipher_decrypt_def keyed_def)
next
  fix k iv assume "c_type ctx = SSH_CIPHER_IDEA" "with_idea cfg" "c_u ctx = U_Idea k iv"
  then show ?thesis using idea_cfb_inverse [OF x, of k iv]
    by (auto simp: cipher_encrypt_def cipher_decrypt_def keyed_def)
next
  fix k iv assume "c_type ctx = SSH_CIPHER_DES" "with_des cfg" "c_u ctx = U_Des k iv"
  then show ?thesis using des_cbc_undo [OF x, of k iv]
    by (auto simp: cipher_encrypt_def cipher_decrypt_def keyed_def)
next
  fix d assume "c_type ctx = SSH_CIPHER_3DES" "c_u ctx = U_Des3 d"
  then show ?thesis using des_3cbc_undo [OF x, of d]
    by (auto simp: cipher_encrypt_def cipher_decrypt_def keyed_def)
next
  fix a assume "c_type ctx = SSH_CIPHER_ARCFOUR" "with_arcfour cfg" "c_u ctx = U_Arcfour a"
  then show ?thesis using arc.transfer [OF refl x, of a]
    by (auto simp: cipher_encrypt_def cipher_decrypt_def keyed_def)
next
  fix b assume "c_type ctx = SSH_CIPHER_BLOWFISH" "with_blowfish cfg" "c_u ctx = U_Blowfish b"
  then show ?thesis using blowfish_cbc_undo [OF x, of b]
    by (auto simp: cipher_encrypt_def cipher_decrypt_def keyed_def)
qed

interpretation ciph: duplex "cipher_encrypt cfg" "cipher_decrypt cfg" "\<lambda>s r. s = r \<and> keyed cfg s" for cfg
  by unfold_locales (use cipher_inverse in blast)

section \<open>Properties\<close>

text \<open>C31: Two sides that set the same cipher and key understand each other: whatever cipher is compiled in,
every sequence of packets of whole blocks that one side encrypts is decrypted by the other to the
same packets, of the same lengths, with the chaining state carried from packet to packet.\<close>

theorem cipher_conversation:
  assumes "cipher_set_key cfg cipher key True = Inr s" and "cipher_set_key cfg cipher key False = Inr r"
    and "\<forall>x\<in>set xs. 8 dvd length x"
  shows "\<exists>cs s' r'. run_all (cipher_encrypt cfg) s xs = Inr (cs, s') \<and> run_all (cipher_decrypt cfg) r cs = Inr (xs, r') \<and>
     map length cs = map length xs"
proof -
  have "blowfish_set_key c key True = blowfish_set_key c key False" for c by (simp only: blowfish_set_key_def)
  then have "cipher_set_key cfg cipher key True = cipher_set_key cfg cipher key False"
    by (simp only: cipher_set_key_def)
  with assms have "s = r \<and> keyed cfg s" using cipher_set_key_keyed by fastforce
  from ciph.conversation [OF this assms(3)] show ?thesis by blast
qed

lemma cipher_conversation_witness:
  "\<exists>s r cs s' r'. cipher_set_key \<lparr>with_none = True, with_idea = True, with_des = False, with_arcfour = True, with_blowfish = True\<rparr> 3
      (replicate 16 9) True = Inr s \<and>
    run_all (cipher_encrypt \<lparr>with_none = True, with_idea = True, with_des = False, with_arcfour = True, with_blowfish = True\<rparr>) s
      [replicate 8 1, replicate 24 2] = Inr (cs, s') \<and>
    run_all (cipher_decrypt \<lparr>with_none = True, with_idea = True, with_des = False, with_arcfour = True, with_blowfish = True\<rparr>) r cs =
      Inr ([replicate 8 1, replicate 24 2], r')"
proof -
  let ?cfg = "\<lparr>with_none = True, with_idea = True, with_des = False, with_arcfour = True, with_blowfish = True\<rparr>"
  obtain s where s: "cipher_set_key ?cfg 3 (replicate 16 9) True = Inr s" by (simp add: cipher_set_key_def Let_def)
  obtain r where r: "cipher_set_key ?cfg 3 (replicate 16 9) False = Inr r" by (simp add: cipher_set_key_def Let_def)
  from cipher_conversation [OF s r, of "[replicate 8 1, replicate 24 2]"] s show ?thesis by auto
qed

lemma bit_if_or: "bit (if c then m OR w else m) n \<longleftrightarrow> bit m n \<or> c \<and> bit w n"
  by (auto simp: bit_or_iff)

lemma bit_push_one: "k < 32 \<Longrightarrow> bit (push_bit k 1 :: u32) n \<longleftrightarrow> n = k"
  by (simp only: bit_push_bit_iff bit_1_iff) auto

lemma bit_cipher_mask:
  "bit (cipher_mask cfg) n \<longleftrightarrow> n = 0 \<and> with_none cfg \<or> n = 1 \<and> with_idea cfg \<or> n = 2 \<and> with_des cfg \<or> n = 3 \<or>
     n = 5 \<and> with_arcfour cfg \<or> n = 6 \<and> with_blowfish cfg"
  unfolding cipher_mask_def Let_def bit_if_or bit_or_iff
  by (subst bit_push_one, simp)+ auto

text \<open>The cipher mask, the key setup and the names agree: a cipher other than none can be keyed (with a key
of 1 to 32767 bytes) exactly when its bit is in the mask, and is refused as unknown otherwise.\<close>

theorem cipher_mask_exact:
  assumes "0 < length key" and "length key < 2 ^ 15" and "0 < cipher" and "cipher < 32"
  shows "if bit (cipher_mask cfg) (nat cipher)
     then \<exists>ctx. cipher_set_key cfg cipher key e = Inr ctx \<and> keyed cfg ctx \<and> c_type ctx = cipher
     else cipher_set_key cfg cipher key e = Inl (Fatal ''cipher_set_key: unknown cipher'')"
proof -
  have bits: "bit (cipher_mask cfg) (nat cipher) \<longleftrightarrow> available cfg cipher"
    using assms(3) by (auto simp: available_def bit_cipher_mask nat_eq_iff)
  have "\<exists>ctx. cipher_set_key cfg cipher key e = Inr ctx" if "available cfg cipher"
    by (rule cipher_set_key_total [OF that assms(1,2)])
  then show ?thesis
    using cipher_set_key_keyed cipher_set_key_unavailable unfolding bits by auto
qed

lemma cipher_mask_exact_witness:
  "cipher_set_key \<lparr>with_none = True, with_idea = True, with_des = False, with_arcfour = True, with_blowfish = True\<rparr> 2 [1] True =
   Inl (Fatal ''cipher_set_key: unknown cipher'')"
  using cipher_mask_exact [of "[1]" 2 "\<lparr>with_none = True, with_idea = True, with_des = False, with_arcfour = True, with_blowfish = True\<rparr>" True]
  by (simp add: bit_cipher_mask)

text \<open>Names and numbers translate back and forth, except that a host without arcfour but with blowfish takes
the name of arcfour for blowfish; every other name gives -1.\<close>

theorem cipher_names_roundtrip:
  "(0 \<le> c \<and> c < 8 \<longrightarrow> (\<exists>n. cipher_name c = Inr n \<and>
      cipher_number cfg n = (if c = 5 \<and> \<not> with_arcfour cfg \<and> with_blowfish cfg then 6 else c))) \<and>
   (cipher_number cfg n = -1 \<longleftrightarrow> n \<noteq> ''rc4'' \<and> n \<notin> set cipher_names)"
proof
  have "c = 0 \<or> c = 1 \<or> c = 2 \<or> c = 3 \<or> c = 4 \<or> c = 5 \<or> c = 6 \<or> c = 7" if "0 \<le> c \<and> c < 8"
    using that by arith
  then show "0 \<le> c \<and> c < 8 \<longrightarrow> (\<exists>n. cipher_name c = Inr n \<and>
      cipher_number cfg n = (if c = 5 \<and> \<not> with_arcfour cfg \<and> with_blowfish cfg then 6 else c))"
    by (auto simp: cipher_name_def cipher_number_def cipher_names_def)
  show "cipher_number cfg n = -1 \<longleftrightarrow> n \<noteq> ''rc4'' \<and> n \<notin> set cipher_names"
    by (auto simp: cipher_number_def cipher_names_def)
qed

lemma cipher_names_roundtrip_witness:
  "cipher_number \<lparr>with_none = True, with_idea = True, with_des = True, with_arcfour = False, with_blowfish = True\<rparr> ''arcfour'' = 6"
  using cipher_names_roundtrip [of 5 "\<lparr>with_none = True, with_idea = True, with_des = True, with_arcfour = False, with_blowfish = True\<rparr>"]
  by (auto simp: cipher_name_def cipher_names_def)

end
