(* ===== verification/Crc32.thy ===== *)
theory Crc32
  imports GetPut
begin

text \<open>
  \<^verbatim>\<open>crc32.c\<close>: the table-driven 32 bit CRC that protects every packet. The reference is the
  bitwise division by the polynomial; the table routine is proved equal to it, and linear,
  which is the weakness that theory \<open>Deattack\<close> guards against.
\<close>

section \<open>The table and the routine\<close>

definition crc32_tab :: "u32 list" where
  "crc32_tab = [
     0x00000000, 0x77073096, 0xee0e612c, 0x990951ba, 0x076dc419, 0x706af48f,
     0xe963a535, 0x9e6495a3, 0x0edb8832, 0x79dcb8a4, 0xe0d5e91e, 0x97d2d988,
     0x09b64c2b, 0x7eb17cbd, 0xe7b82d07, 0x90bf1d91, 0x1db71064, 0x6ab020f2,
     0xf3b97148, 0x84be41de, 0x1adad47d, 0x6ddde4eb, 0xf4d4b551, 0x83d385c7,
     0x136c9856, 0x646ba8c0, 0xfd62f97a, 0x8a65c9ec, 0x14015c4f, 0x63066cd9,
     0xfa0f3d63, 0x8d080df5, 0x3b6e20c8, 0x4c69105e, 0xd56041e4, 0xa2677172,
     0x3c03e4d1, 0x4b04d447, 0xd20d85fd, 0xa50ab56b, 0x35b5a8fa, 0x42b2986c,
     0xdbbbc9d6, 0xacbcf940, 0x32d86ce3, 0x45df5c75, 0xdcd60dcf, 0xabd13d59,
     0x26d930ac, 0x51de003a, 0xc8d75180, 0xbfd06116, 0x21b4f4b5, 0x56b3c423,
     0xcfba9599, 0xb8bda50f, 0x2802b89e, 0x5f058808, 0xc60cd9b2, 0xb10be924,
     0x2f6f7c87, 0x58684c11, 0xc1611dab, 0xb6662d3d, 0x76dc4190, 0x01db7106,
     0x98d220bc, 0xefd5102a, 0x71b18589, 0x06b6b51f, 0x9fbfe4a5, 0xe8b8d433,
     0x7807c9a2, 0x0f00f934, 0x9609a88e, 0xe10e9818, 0x7f6a0dbb, 0x086d3d2d,
     0x91646c97, 0xe6635c01, 0x6b6b51f4, 0x1c6c6162, 0x856530d8, 0xf262004e,
     0x6c0695ed, 0x1b01a57b, 0x8208f4c1, 0xf50fc457, 0x65b0d9c6, 0x12b7e950,
     0x8bbeb8ea, 0xfcb9887c, 0x62dd1ddf, 0x15da2d49, 0x8cd37cf3, 0xfbd44c65,
     0x4db26158, 0x3ab551ce, 0xa3bc0074, 0xd4bb30e2, 0x4adfa541, 0x3dd895d7,
     0xa4d1c46d, 0xd3d6f4fb, 0x4369e96a, 0x346ed9fc, 0xad678846, 0xda60b8d0,
     0x44042d73, 0x33031de5, 0xaa0a4c5f, 0xdd0d7cc9, 0x5005713c, 0x270241aa,
     0xbe0b1010, 0xc90c2086, 0x5768b525, 0x206f85b3, 0xb966d409, 0xce61e49f,
     0x5edef90e, 0x29d9c998, 0xb0d09822, 0xc7d7a8b4, 0x59b33d17, 0x2eb40d81,
     0xb7bd5c3b, 0xc0ba6cad, 0xedb88320, 0x9abfb3b6, 0x03b6e20c, 0x74b1d29a,
     0xead54739, 0x9dd277af, 0x04db2615, 0x73dc1683, 0xe3630b12, 0x94643b84,
     0x0d6d6a3e, 0x7a6a5aa8, 0xe40ecf0b, 0x9309ff9d, 0x0a00ae27, 0x7d079eb1,
     0xf00f9344, 0x8708a3d2, 0x1e01f268, 0x6906c2fe, 0xf762575d, 0x806567cb,
     0x196c3671, 0x6e6b06e7, 0xfed41b76, 0x89d32be0, 0x10da7a5a, 0x67dd4acc,
     0xf9b9df6f, 0x8ebeeff9, 0x17b7be43, 0x60b08ed5, 0xd6d6a3e8, 0xa1d1937e,
     0x38d8c2c4, 0x4fdff252, 0xd1bb67f1, 0xa6bc5767, 0x3fb506dd, 0x48b2364b,
     0xd80d2bda, 0xaf0a1b4c, 0x36034af6, 0x41047a60, 0xdf60efc3, 0xa867df55,
     0x316e8eef, 0x4669be79, 0xcb61b38c, 0xbc66831a, 0x256fd2a0, 0x5268e236,
     0xcc0c7795, 0xbb0b4703, 0x220216b9, 0x5505262f, 0xc5ba3bbe, 0xb2bd0b28,
     0x2bb45a92, 0x5cb36a04, 0xc2d7ffa7, 0xb5d0cf31, 0x2cd99e8b, 0x5bdeae1d,
     0x9b64c2b0, 0xec63f226, 0x756aa39c, 0x026d930a, 0x9c0906a9, 0xeb0e363f,
     0x72076785, 0x05005713, 0x95bf4a82, 0xe2b87a14, 0x7bb12bae, 0x0cb61b38,
     0x92d28e9b, 0xe5d5be0d, 0x7cdcefb7, 0x0bdbdf21, 0x86d3d2d4, 0xf1d4e242,
     0x68ddb3f8, 0x1fda836e, 0x81be16cd, 0xf6b9265b, 0x6fb077e1, 0x18b74777,
     0x88085ae6, 0xff0f6a70, 0x66063bca, 0x11010b5c, 0x8f659eff, 0xf862ae69,
     0x616bffd3, 0x166ccf45, 0xa00ae278, 0xd70dd2ee, 0x4e048354, 0x3903b3c2,
     0xa7672661, 0xd06016f7, 0x4969474d, 0x3e6e77db, 0xaed16a4a, 0xd9d65adc,
     0x40df0b66, 0x37d83bf0, 0xa9bcae53, 0xdebb9ec5, 0x47b2cf7f, 0x30b5ffe9,
     0xbdbdf21c, 0xcabac28a, 0x53b39330, 0x24b4a3a6, 0xbad03605, 0xcdd70693,
     0x54de5729, 0x23d967bf, 0xb3667a2e, 0xc4614ab8, 0x5d681b02, 0x2a6f2b94,
     0xb40bbe37, 0xc30c8ea1, 0x5a05df1b, 0x2d02ef8d]"

definition crc32_step :: "u32 \<Rightarrow> byte \<Rightarrow> u32" where
  "crc32_step crc32val b = (crc32_tab ! unat ((crc32val XOR ucast b) AND 0xff)) XOR drop_bit 8 crc32val"

definition crc32 :: "byte list \<Rightarrow> u32" where
  "crc32 s = foldl crc32_step 0 s"

section \<open>The reference: polynomial division bit by bit\<close>

definition crc_bit :: "u32 \<Rightarrow> u32" where
  "crc_bit c = (if bit c 0 then drop_bit 1 c XOR 0xedb88320 else drop_bit 1 c)"

definition crc_byte :: "u32 \<Rightarrow> byte \<Rightarrow> u32" where
  "crc_byte c b = (crc_bit ^^ 8) (c XOR ucast b)"

definition crc_poly :: "byte list \<Rightarrow> u32" where
  "crc_poly s = foldl crc_byte 0 s"

lemma crc_bit_xor: "crc_bit (x XOR y) = crc_bit x XOR crc_bit y"
  by (auto simp: crc_bit_def bit_xor_iff drop_bit_xor xor.assoc xor.left_commute xor.commute)

lemma crc_bits_xor: "(crc_bit ^^ n) (x XOR y) = (crc_bit ^^ n) x XOR (crc_bit ^^ n) y"
  by (induction n arbitrary: x y) (simp_all add: crc_bit_xor funpow_swap1)

lemma crc_bit_low: "\<not> bit x 0 \<Longrightarrow> crc_bit x = drop_bit 1 x"
  by (simp add: crc_bit_def)

lemma crc_bits_shift: "take_bit n x = 0 \<Longrightarrow> (crc_bit ^^ n) x = drop_bit n x"
proof (induction n arbitrary: x)
  case 0
  then show ?case by simp
next
  case (Suc n)
  have low: "\<not> bit x 0"
    using Suc.prems by (auto simp: bit_eq_iff bit_take_bit_iff)
  have "take_bit n (drop_bit 1 x) = 0"
    using Suc.prems by (metis drop_bit_of_0 drop_bit_take_bit diff_Suc_1 take_bit_drop_bit Suc_eq_plus1)
  then have "(crc_bit ^^ n) (crc_bit x) = drop_bit n (drop_bit 1 x)"
    using Suc.IH low by (simp add: crc_bit_low)
  then show ?case by (simp add: funpow_swap1 drop_bit_drop_bit)
qed

section \<open>The table holds the remainders of the bytes\<close>

lemma crc8: "(crc_bit ^^ 8) x = crc_bit (crc_bit (crc_bit (crc_bit (crc_bit (crc_bit (crc_bit (crc_bit x)))))))"
  by (simp add: numeral_eq_Suc)

lemma of_nat_add_exp:
  assumes "i < 2 ^ k" and "k < 32"
  shows "(of_nat (i + 2 ^ k) :: u32) = of_nat i XOR 2 ^ k"
proof -
  have "\<not> bit i k" using assms by (simp add: bit_iff_odd)
  then have "(of_nat i :: u32) AND 2 ^ k = 0"
    by (intro bit_word_eqI) (auto simp: bit_and_iff bit_exp_iff bit_of_nat_iff)
  then have "(of_nat i :: u32) + 2 ^ k = of_nat i XOR 2 ^ k" by (rule disjunctive_add_eq_xor)
  then show ?thesis by simp
qed

lemma crc_tab_double:
  assumes "map (\<lambda>i. (crc_bit ^^ 8) (of_nat i)) [0..<2 ^ k] = L" and "k < 32"
  shows "map (\<lambda>i. (crc_bit ^^ 8) (of_nat i)) [0..<2 ^ Suc k] = L @ map (\<lambda>t. t XOR (crc_bit ^^ 8) (2 ^ k)) L"
proof -
  have "[0..<2 ^ Suc k] = [0..<2 ^ k] @ map (\<lambda>i. i + 2 ^ k) [0..<2 ^ k]"
    using upt_add_eq_append [of 0 "2 ^ k" "2 ^ k"] map_add_upt [of "2 ^ k" "2 ^ k"] by (simp add: mult_2)
  then have "map (\<lambda>i. (crc_bit ^^ 8) (of_nat i)) [0..<2 ^ Suc k] =
    L @ map (\<lambda>i. (crc_bit ^^ 8) (of_nat (i + 2 ^ k))) [0..<2 ^ k]"
    by (simp only: assms(1) [symmetric] map_append map_map comp_def)
  also have "map (\<lambda>i. (crc_bit ^^ 8) (of_nat (i + 2 ^ k))) [0..<2 ^ k] =
      map (\<lambda>t. t XOR (crc_bit ^^ 8) (2 ^ k)) L"
    unfolding assms(1) [symmetric] map_map
    by (rule map_cong [OF refl]) (simp only: set_upt atLeastLessThan_iff of_nat_add_exp assms(2) crc_bits_xor comp_def)
  finally show ?thesis .
qed

lemma crc_tab_0: "map (\<lambda>i. (crc_bit ^^ 8) (of_nat i)) [0..<2 ^ 0] = [0]"
  by (simp add: crc8 crc_bit_def)

lemma crc_basis:
  "(crc_bit ^^ 8) 1 = 0x77073096" "(crc_bit ^^ 8) 2 = 0xee0e612c" "(crc_bit ^^ 8) 4 = 0x076dc419"
  "(crc_bit ^^ 8) 8 = 0x0edb8832" "(crc_bit ^^ 8) 16 = 0x1db71064" "(crc_bit ^^ 8) 32 = 0x3b6e20c8"
  "(crc_bit ^^ 8) 64 = 0x76dc4190" "(crc_bit ^^ 8) 128 = 0xedb88320"
  by (simp_all add: crc8 crc_bit_def)

lemma crc32_tab_correct: "map (\<lambda>i. (crc_bit ^^ 8) (of_nat i)) [0..<256] = crc32_tab"
proof -
  have "map (\<lambda>i. (crc_bit ^^ 8) (of_nat i)) [0..<2 ^ 8] = crc32_tab"
    using crc_tab_0 [THEN crc_tab_double, THEN crc_tab_double, THEN crc_tab_double, THEN crc_tab_double,
        THEN crc_tab_double, THEN crc_tab_double, THEN crc_tab_double, THEN crc_tab_double]
    by (simp add: crc_basis crc32_tab_def)
  then show ?thesis by simp
qed

lemma crc32_tab_nth: "i < 256 \<Longrightarrow> crc32_tab ! i = (crc_bit ^^ 8) (of_nat i)"
  by (simp add: crc32_tab_correct [symmetric])

lemma low_byte: "x AND 0xff = take_bit 8 x" for x :: u32
  by (simp add: take_bit_eq_mask mask_eq_exp_minus_1)

lemma crc32_step_poly: "crc32_step c b = crc_byte c b"
proof -
  define y where "y = c XOR ucast b"
  define lo where "lo = take_bit 8 y"
  have "unat lo < 256"
    using take_bit_nat_less_exp [of 8 "unat y"] by (simp add: lo_def unsigned_take_bit_eq)
  then have tab: "crc32_tab ! unat lo = (crc_bit ^^ 8) lo" by (simp add: crc32_tab_nth)
  have split: "y = lo XOR (y XOR lo)" by simp
  have "take_bit 8 (y XOR lo) = 0" by (simp add: lo_def take_bit_xor)
  then have "(crc_bit ^^ 8) (y XOR lo) = drop_bit 8 (y XOR lo)" by (rule crc_bits_shift)
  also have "drop_bit 8 (y XOR lo) = drop_bit 8 c"
    by (rule bit_word_eqI) (simp add: y_def lo_def bit_drop_bit_eq bit_xor_iff bit_take_bit_iff bit_ucast_iff)
  finally have hi: "(crc_bit ^^ 8) (y XOR lo) = drop_bit 8 c" .
  have "crc_byte c b = (crc_bit ^^ 8) (lo XOR (y XOR lo))"
    unfolding crc_byte_def y_def [symmetric] by (subst split) (rule refl)
  also have "\<dots> = (crc_bit ^^ 8) lo XOR (crc_bit ^^ 8) (y XOR lo)" by (rule crc_bits_xor)
  finally show ?thesis by (simp add: hi crc32_step_def low_byte y_def [symmetric] lo_def [symmetric] tab)
qed

lemma crc32_step_eq: "crc32_step = crc_byte"
  by (intro ext) (rule crc32_step_poly)

text \<open>C29: The table-driven routine computes the remainder of the bitwise division by the
  polynomial, for every message.\<close>

theorem crc32_is_polynomial_division: "crc32 s = crc_poly s"
  by (simp add: crc32_def crc_poly_def crc32_step_eq)

section \<open>What the checksum detects, and what it does not\<close>

lemma crc_byte_xor: "crc_byte (c XOR c') (b XOR b') = crc_byte c b XOR crc_byte c' b'"
proof -
  have "(c XOR c') XOR ucast (b XOR b') = (c XOR ucast b) XOR (c' XOR ucast b' :: u32)"
    by (rule bit_word_eqI) (auto simp: bit_xor_iff bit_ucast_iff)
  then show ?thesis by (simp only: crc_byte_def crc_bits_xor)
qed

lemma crc32_foldl: "crc32 s = foldl crc_byte 0 s"
  by (simp add: crc32_def crc32_step_eq)

lemma crc_foldl_xor:
  "length xs = length ys \<Longrightarrow>
    foldl crc_byte (c XOR c') (map2 (XOR) xs ys) = foldl crc_byte c xs XOR foldl crc_byte c' ys"
  by (induction xs ys arbitrary: c c' rule: list_induct2) (simp_all add: crc_byte_xor)

lemma crc32_map2_xor: "length xs = length ys \<Longrightarrow> crc32 (map2 (XOR) xs ys) = crc32 xs XOR crc32 ys"
  using crc_foldl_xor [of xs ys 0 0] by (simp add: crc32_foldl)

lemma crc_bit_eq_0: "crc_bit x = 0 \<Longrightarrow> x = 0"
proof (cases "bit x 0")
  case True
  assume "crc_bit x = 0"
  with True have "drop_bit 1 x XOR 0xedb88320 = 0" by (simp only: crc_bit_def if_True)
  then have "drop_bit 1 x = 0xedb88320" by (simp only: word_xor_cancel)
  then have "bit (drop_bit 1 x) 31" by simp
  then have "bit x 32" by (simp add: bit_drop_bit_eq)
  then show "x = 0" using bit_imp_le_length [of x 32] by simp
next
  case False
  assume "crc_bit x = 0"
  with False have high: "drop_bit 1 x = 0" by (simp add: crc_bit_def)
  show "x = 0"
  proof (rule bit_word_eqI)
    fix n show "bit x n = bit 0 n"
      using False arg_cong [OF high, of "\<lambda>w. bit w (n - 1)"] by (cases n) (simp_all add: bit_drop_bit_eq)
  qed
qed

lemma crc_bit_inj: "crc_bit x = crc_bit y \<Longrightarrow> x = y"
  using crc_bit_eq_0 [of "x XOR y"] by (simp add: crc_bit_xor)

lemma crc_byte_inj: "crc_byte c b = crc_byte c' b \<Longrightarrow> c = c'" "crc_byte c b = crc_byte c b' \<Longrightarrow> b = b'"
proof -
  have inj: "inj (crc_bit ^^ 8)" using crc_bit_inj by (intro inj_fn injI)
  show "crc_byte c b = crc_byte c' b \<Longrightarrow> c = c'"
    using inj by (auto simp: crc_byte_def dest!: injD)
  assume "crc_byte c b = crc_byte c b'"
  then have "ucast b = (ucast b' :: u32)" using inj by (auto simp: crc_byte_def dest!: injD)
  then show "b = b'" by (metis (no_types) ucast_ucast_byte)
qed

lemma crc_foldl_inj: "foldl crc_byte c ys = foldl crc_byte c' ys \<Longrightarrow> c = c'"
  by (induction ys arbitrary: c c') (auto dest: crc_byte_inj(1))

text \<open>A change of one byte always changes the checksum.\<close>

theorem crc32_detects_byte_change: "b \<noteq> b' \<Longrightarrow> crc32 (xs @ b # ys) \<noteq> crc32 (xs @ b' # ys)"
  by (auto simp: crc32_foldl dest!: crc_foldl_inj crc_byte_inj(2))

theorem crc32_detects_byte_change_witness: "crc32 ([1] @ 2 # [3]) \<noteq> crc32 ([1] @ 7 # [3])"
  using crc32_detects_byte_change [of 2 7 "[1]" "[3]"] by simp

text \<open>The checksum is linear: flipping bits of a message flips the checksum by an amount that
  depends on the flipped bits alone. An attacker who can flip ciphertext bits can compensate for it,
  the attack that \<^verbatim>\<open>deattack.c\<close> looks for.\<close>

theorem crc32_linear:
  "length xs = length ys \<Longrightarrow> crc32 (map2 (XOR) xs ys) = crc32 xs XOR crc32 ys"
  by (rule crc32_map2_xor)

theorem crc32_linear_witness: "crc32 (map2 (XOR) [1, 2] [3, 4]) = crc32 [1, 2] XOR crc32 [3, 4]"
  using crc32_linear [of "[1, 2]" "[3, 4]"] by simp

end

