(* ===== verification/Deattack.thy ===== *)
theory Deattack
  imports Crc32
begin

text \<open>
  \<^verbatim>\<open>deattack.c\<close>: the detector of the CRC compensation attack. A packet is suspicious when a
  ciphertext block occurs twice (or equals the initialization vector) and the pattern of its
  occurrences has a zero checksum. The code looks for such blocks with an open-addressing hash
  table; the theorems say that the search always ends and finds exactly the suspicious packets.
\<close>

section \<open>Constants and checksum patterns\<close>

abbreviation (input) "SSH_MAXBLOCKS \<equiv> 32 * 1024 :: nat"
abbreviation (input) "SSH_BLOCKSIZE \<equiv> 8 :: nat"
abbreviation (input) "HASH_MINSIZE \<equiv> 8 * 1024 :: nat"
abbreviation (input) "HASH_ENTRYSIZE \<equiv> 2 :: nat"
abbreviation (input) "HASH_MINBLOCKS \<equiv> 7 * SSH_BLOCKSIZE"
abbreviation (input) "HASH_UNUSED \<equiv> 0xffff :: u16"
abbreviation (input) "HASH_IV \<equiv> 0xfffe :: u16"

definition HASH_FACTOR :: "nat \<Rightarrow> nat" where
  "HASH_FACTOR x = x * 3 div 2"

definition HASH :: "byte list \<Rightarrow> nat" where
  "HASH x = unat (GET_32BIT x)"

text \<open>
  \<^verbatim>\<open>crc_update\<close> takes the checksum of a word as it lies in memory: the byte order of the host
  is the parameter \<open>le\<close> (true for least significant byte first).
\<close>

definition crc_update :: "bool \<Rightarrow> u32 \<Rightarrow> u32 \<Rightarrow> u32" where
  "crc_update le a b = crc32 (if le then PUT_32BIT_LSB_FIRST (b XOR a) else PUT_32BIT (b XOR a))"

definition check_crc :: "bool \<Rightarrow> byte list \<Rightarrow> byte list \<Rightarrow> byte list option \<Rightarrow> bool" where
  "check_crc le S buf IV =
     (let crc = (if IV = Some S then crc_update le (crc_update le 0 1) 0 else 0)
      in foldl (\<lambda>crc c. if S = c then crc_update le (crc_update le crc 1) 0
                        else crc_update le (crc_update le crc 0) 0) crc (blocks buf) = 0)"

section \<open>The detector\<close>

text \<open>The static variables of \<^verbatim>\<open>detect_attack\<close>: the table, once allocated, and its size.\<close>

record detector =
  d_h :: "u16 list option"
  d_n :: nat

definition detector_init :: detector where
  "detector_init = \<lparr>d_h = None, d_n = HASH_MINSIZE div HASH_ENTRYSIZE\<rparr>"

text \<open>\<^verbatim>\<open>for (l = n; l < HASH_FACTOR(...); l = l << 2);\<close> (\<open>None\<close> would be an endless loop)\<close>

function table_size :: "nat \<Rightarrow> nat \<Rightarrow> nat option" where
  "table_size l x = (if x \<le> l then Some l else if l = 0 then None else table_size (4 * l) x)"
  by pat_completeness auto
termination
  by (relation "measure (\<lambda>(l, x). x - l)") auto

declare table_size.simps [simp del]

text \<open>
  The quadratic scan of short packets. \<open>chk c\<close> stands for \<^verbatim>\<open>check_crc(c, buf, len, IV)\<close>, \<open>prev\<close>
  for the blocks before \<open>c\<close>. Finding the vector without an attack leaves the outer loop.
\<close>

fun small_inner :: "byte list \<Rightarrow> byte list list \<Rightarrow> bool \<Rightarrow> bool" where
  "small_inner c [] chk = False"
| "small_inner c (d # ds) chk = (if c = d then chk else small_inner c ds chk)"

fun small_scan :: "(byte list \<Rightarrow> bool) \<Rightarrow> byte list option \<Rightarrow> byte list list \<Rightarrow> byte list list \<Rightarrow> bool" where
  "small_scan chk IV prev [] = False"
| "small_scan chk IV prev (c # cs) =
     (if IV = Some c then chk c
      else if small_inner c prev (chk c) then True
      else small_scan chk IV (prev @ [c]) cs)"

text \<open>
  The probe loop: from slot \<open>i\<close> to the first slot that is unused or holds the block \<open>c\<close>. It
  returns whether a block was found, and the slot; \<open>None\<close> is a loop that does not end.
\<close>

definition slot_holds :: "byte list option \<Rightarrow> byte list list \<Rightarrow> byte list \<Rightarrow> u16 \<Rightarrow> bool" where
  "slot_holds IV bs c e = (if e = HASH_IV then IV = Some c else c = bs ! unat e)"

partial_function (option) probe :: "u16 list \<Rightarrow> nat \<Rightarrow> (u16 \<Rightarrow> bool) \<Rightarrow> nat \<Rightarrow> (bool \<times> nat) option" where
  "probe h n same i =
     (if h ! i = HASH_UNUSED then Some (False, i)
      else if same (h ! i) then Some (True, i)
      else probe h n same ((i + 1) AND (n - 1)))"

fun hash_scan :: "(byte list \<Rightarrow> bool) \<Rightarrow> byte list option \<Rightarrow> byte list list \<Rightarrow> nat \<Rightarrow>
    u16 list \<Rightarrow> nat \<Rightarrow> byte list list \<Rightarrow> (bool \<times> u16 list) option" where
  "hash_scan chk IV bs n h j [] = Some (False, h)"
| "hash_scan chk IV bs n h j (c # cs) =
     (case probe h n (slot_holds IV bs c) (HASH c AND (n - 1)) of
        None \<Rightarrow> None
      | Some (found, i) \<Rightarrow>
          if found \<and> chk c then Some (True, h)
          else hash_scan chk IV bs n (h[i := of_nat j]) (Suc j) cs)"

definition detect_attack :: "bool \<Rightarrow> detector \<Rightarrow> byte list \<Rightarrow> byte list option \<Rightarrow> (bool \<times> detector) res" where
  "detect_attack le st buf IV =
     (let len = length buf; bs = blocks buf; chk = (\<lambda>c. check_crc le c buf IV)
      in rbind (ensure (len \<le> SSH_MAXBLOCKS * SSH_BLOCKSIZE) (Assertion ''len <= SSH_MAXBLOCKS * SSH_BLOCKSIZE'')) (\<lambda>_.
         rbind (ensure (len mod SSH_BLOCKSIZE = 0) (Assertion ''len % SSH_BLOCKSIZE == 0'')) (\<lambda>_.
         case table_size (d_n st) (HASH_FACTOR (len div SSH_BLOCKSIZE)) of
           None \<Rightarrow> Inl (Diverges ''detect_attack'')
         | Some l \<Rightarrow>
             let st = (if d_h st = None \<or> l > d_n st then \<lparr>d_h = Some (replicate l 0), d_n = l\<rparr> else st);
                 n = d_n st
             in if len \<le> HASH_MINBLOCKS then Inr (small_scan chk IV [] bs, st)
                else let h = replicate n HASH_UNUSED;
                         h = (case IV of None \<Rightarrow> h | Some iv \<Rightarrow> h[HASH iv AND (n - 1) := HASH_IV])
                     in case hash_scan chk IV bs n h 0 bs of
                          None \<Rightarrow> Inl (Diverges ''detect_attack'')
                        | Some (r, h) \<Rightarrow> Inr (r, st\<lparr>d_h := Some h\<rparr>))))"

section \<open>The specification\<close>

text \<open>A suspicious block occurs twice, or equals the vector, in a pattern of checksum zero.\<close>

definition suspicious :: "(byte list \<Rightarrow> bool) \<Rightarrow> byte list option \<Rightarrow> byte list list \<Rightarrow> bool" where
  "suspicious chk IV bs \<longleftrightarrow> (\<exists>c \<in> set bs. (IV = Some c \<or> 2 \<le> count_list bs c) \<and> chk c)"

section \<open>The probe loop\<close>

text \<open>What a used slot stands for.\<close>

definition slot_content :: "byte list option \<Rightarrow> byte list list \<Rightarrow> u16 \<Rightarrow> byte list option" where
  "slot_content IV bs e =
     (if e = HASH_UNUSED then None else if e = HASH_IV then IV else Some (bs ! unat e))"

lemma slot_holds_content:
  "e \<noteq> HASH_UNUSED \<Longrightarrow> slot_holds IV bs c e \<longleftrightarrow> slot_content IV bs e = Some c"
  by (auto simp: slot_holds_def slot_content_def)

lemma nat_mask: "i AND (2 ^ k - 1) = i mod 2 ^ k" for i k :: nat
  by (metis mask_eq_exp_minus_1 take_bit_eq_mask take_bit_eq_mod)

definition stops :: "u16 list \<Rightarrow> (u16 \<Rightarrow> bool) \<Rightarrow> nat \<Rightarrow> bool" where
  "stops h same i \<longleftrightarrow> h ! i = HASH_UNUSED \<or> same (h ! i)"

lemma probe_from:
  assumes "n = 2 ^ k" and "s < n" and "stops h same ((s + m) mod n)"
  shows "\<exists>t \<le> m. probe h n same s = Some (h ! ((s + t) mod n) \<noteq> HASH_UNUSED, (s + t) mod n) \<and>
                 stops h same ((s + t) mod n) \<and> (\<forall>u < t. \<not> stops h same ((s + u) mod n))"
  using assms(2,3)
proof (induction m arbitrary: s)
  case 0
  then show ?case by (auto simp: stops_def probe.simps [of h n same s])
next
  case (Suc m)
  show ?case
  proof (cases "stops h same s")
    case True
    then show ?thesis using Suc.prems
      by (intro exI [of _ 0]) (auto simp: stops_def probe.simps [of h n same s])
  next
    case False
    let ?s = "(s + 1) mod n"
    have n: "0 < n" by (simp add: assms(1))
    have next_eq: "probe h n same s = probe h n same ?s"
      using False nat_mask [of "s + 1" k] unfolding stops_def by (subst probe.simps) (simp add: assms(1))
    have shift: "(?s + u) mod n = (s + Suc u) mod n" for u by (simp add: mod_add_left_eq)
    obtain t where t: "t \<le> m" "probe h n same ?s = Some (h ! ((s + Suc t) mod n) \<noteq> HASH_UNUSED, (s + Suc t) mod n)"
      "stops h same ((s + Suc t) mod n)" "\<forall>u < t. \<not> stops h same ((s + Suc u) mod n)"
      using Suc.IH [of ?s] Suc.prems n unfolding shift by auto
    have "\<forall>u < Suc t. \<not> stops h same ((s + u) mod n)"
      using t(4) False Suc.prems(1) by (auto simp: less_Suc_eq_0_disj)
    then show ?thesis using t next_eq by (intro exI [of _ "Suc t"]) simp
  qed
qed

text \<open>Every slot is some number of steps ahead of every other.\<close>

lemma slot_ahead: "s < n \<Longrightarrow> i < n \<Longrightarrow> \<exists>m < n. (s + m) mod n = (i :: nat)"
  by (cases "s \<le> i") (auto intro: exI [of _ "i - s"] exI [of _ "n + i - s"])

section \<open>The table and its invariant\<close>

text \<open>
  After \<open>j\<close> blocks the table holds exactly the vector and the first \<open>j\<close> blocks: each is found by
  probing from its hash without meeting an unused slot, every used slot holds one of them, and
  at most one slot per entry is used.
\<close>

definition entries :: "byte list option \<Rightarrow> byte list list \<Rightarrow> nat \<Rightarrow> byte list set" where
  "entries IV bs j = set (take j bs) \<union> set_option IV"

definition chained :: "byte list option \<Rightarrow> byte list list \<Rightarrow> nat \<Rightarrow> u16 list \<Rightarrow> byte list \<Rightarrow> bool" where
  "chained IV bs n h v \<longleftrightarrow>
     (\<exists>m. (\<forall>t \<le> m. h ! ((HASH v mod n + t) mod n) \<noteq> HASH_UNUSED) \<and>
          slot_content IV bs (h ! ((HASH v mod n + m) mod n)) = Some v)"

definition table_inv :: "byte list option \<Rightarrow> byte list list \<Rightarrow> nat \<Rightarrow> nat \<Rightarrow> u16 list \<Rightarrow> bool" where
  "table_inv IV bs n j h \<longleftrightarrow> length h = n \<and>
     (\<forall>i < n. h ! i \<noteq> HASH_UNUSED \<longrightarrow> (\<exists>v \<in> entries IV bs j. slot_content IV bs (h ! i) = Some v)) \<and>
     (\<forall>v \<in> entries IV bs j. chained IV bs n h v) \<and>
     card {i. i < n \<and> h ! i \<noteq> HASH_UNUSED} \<le> Suc j"

lemma unused_slot:
  assumes "table_inv IV bs n j h" and "Suc j < n"
  shows "\<exists>i < n. h ! i = HASH_UNUSED"
proof (rule ccontr)
  assume "\<not> ?thesis"
  then have "{i. i < n \<and> h ! i \<noteq> HASH_UNUSED} = {..<n}" by auto
  with assms show False by (simp add: table_inv_def)
qed

text \<open>The probe ends, and finds the block exactly when it is an entry.\<close>

lemma probe_ok:
  assumes inv: "table_inv IV bs n j h" and n: "n = 2 ^ k" and room: "Suc j < n"
  shows "\<exists>t. probe h n (slot_holds IV bs c) (HASH c mod n) =
               Some (c \<in> entries IV bs j, (HASH c mod n + t) mod n) \<and>
             (\<forall>u < t. h ! ((HASH c mod n + u) mod n) \<noteq> HASH_UNUSED) \<and>
             (if c \<in> entries IV bs j then slot_content IV bs (h ! ((HASH c mod n + t) mod n)) = Some c
              else h ! ((HASH c mod n + t) mod n) = HASH_UNUSED)"
proof -
  let ?s = "HASH c mod n" and ?same = "slot_holds IV bs c"
  have s: "?s < n" using room by simp
  obtain i where "i < n" "h ! i = HASH_UNUSED" using unused_slot [OF inv room] by blast
  with slot_ahead [OF s] obtain m where "stops h ?same ((?s + m) mod n)" by (auto simp: stops_def)
  from probe_from [OF n s this] obtain t
    where p: "probe h n ?same ?s = Some (h ! ((?s + t) mod n) \<noteq> HASH_UNUSED, (?s + t) mod n)"
      and st: "stops h ?same ((?s + t) mod n)" and nst: "\<forall>u < t. \<not> stops h ?same ((?s + u) mod n)"
    by blast
  have lt: "(?s + t) mod n < n" using s by simp
  have used: "h ! ((?s + t) mod n) \<noteq> HASH_UNUSED \<longleftrightarrow> c \<in> entries IV bs j"
  proof
    assume u: "h ! ((?s + t) mod n) \<noteq> HASH_UNUSED"
    with st have "slot_content IV bs (h ! ((?s + t) mod n)) = Some c" by (simp add: stops_def slot_holds_content)
    with inv u lt show "c \<in> entries IV bs j" by (fastforce simp: table_inv_def)
  next
    assume "c \<in> entries IV bs j"
    with inv have "chained IV bs n h c" by (simp add: table_inv_def)
    then obtain m where m: "\<forall>u \<le> m. h ! ((?s + u) mod n) \<noteq> HASH_UNUSED"
      "slot_content IV bs (h ! ((?s + m) mod n)) = Some c" by (auto simp: chained_def)
    then have "stops h ?same ((?s + m) mod n)" by (simp add: stops_def slot_holds_content)
    with nst have "t \<le> m" using not_le by blast
    with m show "h ! ((?s + t) mod n) \<noteq> HASH_UNUSED" by simp
  qed
  have "\<forall>u < t. h ! ((?s + u) mod n) \<noteq> HASH_UNUSED" using nst by (simp add: stops_def)
  moreover have "c \<in> entries IV bs j \<Longrightarrow> slot_content IV bs (h ! ((?s + t) mod n)) = Some c"
    using st used by (simp add: stops_def slot_holds_content)
  ultimately show ?thesis using p used by auto
qed

lemma index_u16:
  "j < 32768 \<Longrightarrow> unat (of_nat j :: u16) = j \<and> (of_nat j :: u16) \<noteq> HASH_UNUSED \<and> (of_nat j :: u16) \<noteq> HASH_IV"
proof -
  assume j: "j < 32768"
  then have "unat (of_nat j :: u16) = j" by (intro unat_of_nat_small) simp
  then show ?thesis using j by (auto dest: arg_cong [of _ _ unat])
qed

lemma content_index: "j < 32768 \<Longrightarrow> slot_content IV bs (of_nat j) = Some (bs ! j)"
  using index_u16 [of j] by (simp add: slot_content_def)

text \<open>Storing a block where its probe stopped keeps the invariant.\<close>

lemma table_inv_store:
  assumes inv: "table_inv IV bs n j h" and n: "n = 2 ^ k" and room: "Suc j < n"
    and j: "j < length bs" "j < 32768"
    and p: "probe h n (slot_holds IV bs (bs ! j)) (HASH (bs ! j) mod n) = Some (found, i)"
  shows "table_inv IV bs n (Suc j) (h[i := of_nat j])"
proof -
  let ?c = "bs ! j" and ?h = "h[i := of_nat j]"
  obtain t where i: "i = (HASH ?c mod n + t) mod n"
    and before: "\<forall>u < t. h ! ((HASH ?c mod n + u) mod n) \<noteq> HASH_UNUSED"
    and at: "if ?c \<in> entries IV bs j then slot_content IV bs (h ! i) = Some ?c else h ! i = HASH_UNUSED"
    using probe_ok [OF inv n room, of ?c] p by auto
  have len: "length h = n" and i_lt: "i < n" using inv room by (auto simp: table_inv_def i)
  have content_i: "slot_content IV bs (?h ! i) = Some ?c" "?h ! i \<noteq> HASH_UNUSED"
    using len i_lt j content_index [OF j(2)] index_u16 [OF j(2)] by simp_all
  have same: "slot_content IV bs (h ! x) = Some v \<Longrightarrow> slot_content IV bs (?h ! x) = Some v" for x v
    using at content_i by (cases "x = i") (auto simp: slot_content_def split: if_splits)
  have mono: "h ! x \<noteq> HASH_UNUSED \<Longrightarrow> ?h ! x \<noteq> HASH_UNUSED" for x
    using content_i by (cases "x = i") auto
  have ent: "entries IV bs (Suc j) = insert ?c (entries IV bs j)"
    using j(1) by (auto simp: entries_def take_Suc_conv_app_nth)
  have "chained IV bs n ?h v" if "v \<in> entries IV bs (Suc j)" for v
  proof (cases "v = ?c")
    case True
    have "\<forall>u \<le> t. ?h ! ((HASH ?c mod n + u) mod n) \<noteq> HASH_UNUSED"
      using before mono content_i(2) by (auto simp: i order_le_less)
    then show ?thesis using content_i True by (auto simp: chained_def i)
  next
    case False
    with that ent inv have "chained IV bs n h v" by (simp add: table_inv_def)
    then show ?thesis unfolding chained_def using same mono by blast
  qed
  moreover have "\<exists>v \<in> entries IV bs (Suc j). slot_content IV bs (?h ! x) = Some v"
    if "x < n" "?h ! x \<noteq> HASH_UNUSED" for x
    using that inv content_i by (cases "x = i") (auto simp: table_inv_def ent)
  moreover have "card {x. x < n \<and> ?h ! x \<noteq> HASH_UNUSED} \<le> Suc (Suc j)"
  proof -
    have "{x. x < n \<and> ?h ! x \<noteq> HASH_UNUSED} \<subseteq> insert i {x. x < n \<and> h ! x \<noteq> HASH_UNUSED}"
      by (auto simp: nth_list_update)
    then have "card {x. x < n \<and> ?h ! x \<noteq> HASH_UNUSED} \<le> card (insert i {x. x < n \<and> h ! x \<noteq> HASH_UNUSED})"
      by (intro card_mono) auto
    also have "\<dots> \<le> Suc (card {x. x < n \<and> h ! x \<noteq> HASH_UNUSED})" by (simp add: card_insert_if)
    finally show ?thesis using inv by (simp add: table_inv_def)
  qed
  ultimately show ?thesis using len by (simp add: table_inv_def)
qed

text \<open>The table before the first block: empty, or holding the vector alone.\<close>

lemma table_inv_init:
  assumes "0 < n"
  shows "table_inv IV bs n 0
    (case IV of None \<Rightarrow> replicate n HASH_UNUSED
     | Some iv \<Rightarrow> (replicate n HASH_UNUSED)[HASH iv mod n := HASH_IV])"
proof (cases IV)
  case None
  then show ?thesis by (simp add: table_inv_def entries_def cong: conj_cong)
next
  case (Some iv)
  have "{i. i < n \<and> (replicate n HASH_UNUSED)[HASH iv mod n := HASH_IV] ! i \<noteq> HASH_UNUSED} \<subseteq> {HASH iv mod n}"
    by (auto simp: nth_list_update split: if_splits)
  then have "card {i. i < n \<and> (replicate n HASH_UNUSED)[HASH iv mod n := HASH_IV] ! i \<noteq> HASH_UNUSED} \<le> card {HASH iv mod n}"
    by (intro card_mono) auto
  then show ?thesis using Some assms
    by (auto simp: table_inv_def entries_def chained_def slot_content_def nth_list_update intro!: exI [of _ 0])
qed

section \<open>The scan finds exactly the suspicious packets\<close>

lemma hash_scan_ok:
  assumes "n = 2 ^ k" and "Suc (length bs) < n" and "length bs \<le> 32768"
  shows "table_inv IV bs n j h \<Longrightarrow> bs = take j bs @ cs \<Longrightarrow> length cs + j = length bs \<Longrightarrow>
    \<exists>h'. hash_scan chk IV bs n h j cs =
      Some (\<exists>m. j \<le> m \<and> m < length bs \<and> bs ! m \<in> entries IV bs m \<and> chk (bs ! m), h')"
proof (induction cs arbitrary: j h)
  case Nil
  then show ?case by auto
next
  case (Cons c cs)
  then have j: "j < length bs" "j < 32768" "Suc j < n" using assms by auto
  have c: "c = bs ! j" using Cons.prems(2) j(1)
    by (metis Cons_nth_drop_Suc append_eq_conv_conj length_take list.inject min.absorb2 order_less_imp_le)
  obtain i where p: "probe h n (slot_holds IV bs c) (HASH c mod n) = Some (c \<in> entries IV bs j, i)"
    using probe_ok [OF Cons.prems(1) assms(1) j(3)] by blast
  have hash: "HASH c AND (n - 1) = HASH c mod n" unfolding assms(1) by (rule nat_mask)
  show ?case
  proof (cases "c \<in> entries IV bs j \<and> chk c")
    case True
    then show ?thesis using p c j(1) hash by auto
  next
    case False
    have inv: "table_inv IV bs n (Suc j) (h[i := of_nat j])"
      using table_inv_store [OF Cons.prems(1) assms(1) j(3) j(1,2)] p c by simp
    have "bs = take (Suc j) bs @ cs"
      using Cons.prems(2) j(1) c by (simp add: take_Suc_conv_app_nth)
    from Cons.IH [OF inv this] Cons.prems(3) obtain h' where
      "hash_scan chk IV bs n (h[i := of_nat j]) (Suc j) cs =
        Some (\<exists>m. Suc j \<le> m \<and> m < length bs \<and> bs ! m \<in> entries IV bs m \<and> chk (bs ! m), h')" by auto
    moreover have "(\<exists>m. Suc j \<le> m \<and> m < length bs \<and> bs ! m \<in> entries IV bs m \<and> chk (bs ! m)) =
        (\<exists>m. j \<le> m \<and> m < length bs \<and> bs ! m \<in> entries IV bs m \<and> chk (bs ! m))"
      using False c by (metis Suc_leD le_antisym not_less_eq_eq)
    ultimately show ?thesis using p False hash by auto
  qed
qed

lemma hash_scan_length: "hash_scan chk IV bs n h j cs = Some (r, h') \<Longrightarrow> length h' = length h"
  by (induction cs arbitrary: h j) (auto split: option.splits prod.splits if_splits)

lemma count_list_split: "2 \<le> count_list xs c \<longleftrightarrow> (\<exists>m < length xs. xs ! m = c \<and> c \<in> set (take m xs))"
proof (induction xs rule: rev_induct)
  case Nil
  then show ?case by simp
next
  case (snoc x xs)
  have "c \<in> set xs \<longleftrightarrow> 0 < count_list xs c" by (metis count_list_0_iff gr0I less_irrefl)
  with snoc show ?case by (auto simp: nth_append less_Suc_eq)
qed

lemma suspicious_index:
  "suspicious chk IV bs \<longleftrightarrow> (\<exists>m < length bs. bs ! m \<in> entries IV bs m \<and> chk (bs ! m))"
proof -
  have "bs ! m \<in> entries IV bs m \<longleftrightarrow> IV = Some (bs ! m) \<or> bs ! m \<in> set (take m bs)" for m
    by (auto simp: entries_def)
  then show ?thesis
    unfolding suspicious_def count_list_split by (metis in_set_conv_nth)
qed

section \<open>Short packets\<close>

text \<open>
  The checksum of a pattern of occurrences. It is linear in the pattern, and the contributions
  of the last eight positions are linearly independent, so no pattern of at most eight blocks
  with an occurrence in it has the checksum zero: the quadratic scan never reports an attack.
\<close>

definition crc_block :: "bool \<Rightarrow> u32 \<Rightarrow> u32" where
  "crc_block le x = crc_update le (crc_update le 0 x) 0"

definition pattern_crc :: "bool \<Rightarrow> u32 \<Rightarrow> bool list \<Rightarrow> u32" where
  "pattern_crc le = foldl (\<lambda>crc b. crc_update le (crc_update le crc (of_bool b)) 0)"

lemma check_crc_pattern:
  "check_crc le S buf IV \<longleftrightarrow>
     pattern_crc le 0 ((if IV = Some S then [True] else []) @ map (\<lambda>c. S = c) (blocks buf)) = 0"
proof -
  have "foldl (\<lambda>crc c. if S = c then crc_update le (crc_update le crc 1) 0
                        else crc_update le (crc_update le crc 0) 0) c bs =
        pattern_crc le c (map (\<lambda>c. S = c) bs)" for c and bs :: "byte list list"
    by (induction bs arbitrary: c) (simp_all add: pattern_crc_def)
  then show ?thesis by (simp add: check_crc_def pattern_crc_def)
qed

lemma crc_update_eq: "crc_update le a b = crc_update le 0 (b XOR a)"
  by (simp add: crc_update_def)

lemma crc_update_xor: "crc_update le 0 (x XOR y) = crc_update le 0 x XOR crc_update le 0 y"
  by (simp add: crc_update_def PUT_32BIT_xor PUT_32BIT_LSB_FIRST_xor crc32_map2_xor)

lemma crc_block_xor: "crc_block le (x XOR y) = crc_block le x XOR crc_block le y"
  by (simp add: crc_block_def crc_update_eq [of _ _ 0] crc_update_xor)

lemma pattern_step: "crc_update le (crc_update le c b) 0 = crc_block le (c XOR b)"
  by (simp add: crc_block_def crc_update_eq [of _ c] xor.commute)

lemma pattern_crc_simps:
  "pattern_crc le c [] = c"
  "pattern_crc le c (b # bs) = pattern_crc le (crc_block le (c XOR of_bool b)) bs"
  by (simp_all add: pattern_crc_def pattern_step)

lemma pattern_crc_xor: "pattern_crc le (c XOR d) bs = (crc_block le ^^ length bs) c XOR pattern_crc le d bs"
proof (induction bs arbitrary: c d)
  case Nil
  then show ?case by (simp add: pattern_crc_simps)
next
  case (Cons b bs)
  have "crc_block le ((c XOR d) XOR of_bool b) = crc_block le c XOR crc_block le (d XOR of_bool b)"
    by (simp only: xor.assoc crc_block_xor)
  with Cons.IH show ?case by (simp add: pattern_crc_simps funpow_swap1)
qed

lemma crc_block_0 [simp]: "crc_block le 0 = 0"
  using crc_block_xor [of le 0 0] by simp

text \<open>All checksums of patterns over the vectors \<open>vs\<close>, one vector per position.\<close>

fun spans :: "u32 list \<Rightarrow> u32 list" where
  "spans [] = [0]"
| "spans (v # vs) = spans vs @ map ((XOR) v) (spans vs)"

fun vectors :: "bool \<Rightarrow> nat \<Rightarrow> u32 list" where
  "vectors le 0 = []"
| "vectors le (Suc k) = (crc_block le ^^ Suc k) 1 # vectors le k"

lemma pattern_crc_in_spans: "pattern_crc le 0 bs \<in> set (spans (vectors le (length bs)))"
proof (induction bs)
  case Nil
  then show ?case by (simp add: pattern_crc_simps)
next
  case (Cons b bs)
  have "pattern_crc le (crc_block le 1) bs = (crc_block le ^^ Suc (length bs)) 1 XOR pattern_crc le 0 bs"
    using pattern_crc_xor [of le "crc_block le 1" 0 bs] by (simp add: funpow_swap1)
  with Cons show ?case by (cases b) (auto simp: pattern_crc_simps)
qed

fun independent :: "u32 list \<Rightarrow> bool" where
  "independent [] \<longleftrightarrow> True"
| "independent (v # vs) \<longleftrightarrow> v \<notin> set (spans vs) \<and> independent vs"

lemma pattern_crc_nonzero:
  "independent (vectors le (length bs)) \<Longrightarrow> True \<in> set bs \<Longrightarrow> pattern_crc le 0 bs \<noteq> 0"
proof (induction bs)
  case Nil
  then show ?case by simp
next
  case (Cons b bs)
  have "pattern_crc le (crc_block le 1) bs = (crc_block le ^^ Suc (length bs)) 1 XOR pattern_crc le 0 bs"
    using pattern_crc_xor [of le "crc_block le 1" 0 bs] by (simp add: funpow_swap1)
  with Cons pattern_crc_in_spans [of le bs] show ?case by (cases b) (auto simp: pattern_crc_simps)
qed

lemmas crc_block_eval = crc_block_def crc_update_def crc32_def crc32_step_def PUT_32BIT_LSB_FIRST_def
  PUT_32BIT_def low_byte crc32_tab_def

lemma crc_block_le:
  "crc_block True 1 = 0xccaa009e"
  "crc_block True 0xccaa009e = 0xae689191"
  "crc_block True 0xae689191 = 0x81256527"
  "crc_block True 0x81256527 = 0xf1da05aa"
  "crc_block True 0xf1da05aa = 0xaf449247"
  "crc_block True 0xaf449247 = 0x3db1ecdc"
  "crc_block True 0x3db1ecdc = 0x1d9513d7"
  "crc_block True 0x1d9513d7 = 0x8f352d95"
  by (simp_all add: crc_block_eval)

lemma crc_block_be:
  "crc_block False 1 = 0x358d8e22"
  "crc_block False 0x358d8e22 = 0xd6ac45"
  "crc_block False 0xd6ac45 = 0xc6758b27"
  "crc_block False 0xc6758b27 = 0xbc773b2e"
  "crc_block False 0xbc773b2e = 0x7d284e54"
  "crc_block False 0x7d284e54 = 0x76a8c832"
  "crc_block False 0x76a8c832 = 0xe3093f09"
  "crc_block False 0xe3093f09 = 0xf96e1247"
  by (simp_all add: crc_block_eval)

lemma vectors_8: "vectors le 8 = map (\<lambda>k. (crc_block le ^^ k) 1) [8, 7, 6, 5, 4, 3, 2, 1]"
  by (simp add: numeral_eq_Suc)

lemma independent_8: "independent (vectors le 8)"
proof (cases le)
  case True
  then have "vectors le 8 = [0x8f352d95, 0x1d9513d7, 0x3db1ecdc, 0xaf449247, 0xf1da05aa, 0x81256527, 0xae689191, 0xccaa009e]"
    by (simp add: vectors_8 numeral_eq_Suc crc_block_le)
  then show ?thesis by simp
next
  case False
  then have "vectors le 8 = [0xf96e1247, 0xe3093f09, 0x76a8c832, 0x7d284e54, 0xbc773b2e, 0xc6758b27, 0xd6ac45, 0x358d8e22]"
    by (simp add: vectors_8 numeral_eq_Suc crc_block_be)
  then show ?thesis by simp
qed

lemma independent_le: "independent (vectors le n) \<Longrightarrow> k \<le> n \<Longrightarrow> independent (vectors le k)"
  by (induction n) (auto simp: le_Suc_eq)

lemma short_packet_not_attack:
  assumes "length (blocks buf) \<le> 7" and "c \<in> set (blocks buf)"
  shows "\<not> check_crc le c buf IV"
proof -
  let ?bits = "(if IV = Some c then [True] else []) @ map (\<lambda>d. c = d) (blocks buf)"
  have "length ?bits \<le> 8" and "True \<in> set ?bits" using assms by auto
  with pattern_crc_nonzero [OF independent_le [OF independent_8]] show ?thesis
    unfolding check_crc_pattern by blast
qed

lemma small_inner_False: "\<not> small_inner c ds False"
  by (induction ds) auto

lemma small_scan_False: "\<forall>c \<in> set cs. \<not> chk c \<Longrightarrow> \<not> small_scan chk IV prev cs"
  by (induction cs arbitrary: prev) (auto simp: small_inner_False)

section \<open>The detector is total and exact\<close>

definition detector_wf :: "detector \<Rightarrow> bool" where
  "detector_wf st \<longleftrightarrow> (\<exists>k \<ge> 12. d_n st = 2 ^ k) \<and> (\<forall>h. d_h st = Some h \<longrightarrow> length h = d_n st)"

lemma detector_init_wf: "detector_wf detector_init"
  by (auto simp: detector_wf_def detector_init_def intro!: exI [of _ 12])

lemma table_size_ok: "0 < l \<Longrightarrow> \<exists>m. table_size l x = Some (4 ^ m * l) \<and> x \<le> 4 ^ m * l"
proof (induction l x rule: table_size.induct)
  case (1 l x)
  show ?case
  proof (cases "x \<le> l")
    case True
    then show ?thesis by (intro exI [of _ 0]) (simp add: table_size.simps [of l x])
  next
    case False
    with 1 obtain m where "table_size (4 * l) x = Some (4 ^ m * (4 * l))" "x \<le> 4 ^ m * (4 * l)" by auto
    with False 1 show ?thesis by (intro exI [of _ "Suc m"]) (simp add: table_size.simps [of l x])
  qed
qed

lemma table_step_wf:
  assumes "detector_wf st" and "table_size (d_n st) x = Some l"
  defines "st' \<equiv> (if d_h st = None \<or> l > d_n st then \<lparr>d_h = Some (replicate l 0), d_n = l\<rparr> else st)"
  shows "detector_wf st' \<and> x \<le> d_n st'"
proof -
  from assms(1) obtain k where k: "12 \<le> k" "d_n st = 2 ^ k" by (auto simp: detector_wf_def)
  with table_size_ok [of "d_n st" x] assms(2) obtain m where m: "l = 4 ^ m * 2 ^ k" "x \<le> l" by auto
  then have "l = 2 ^ (2 * m + k)" by (simp add: power_add power_mult)
  moreover have "d_n st \<le> l" using m k by simp
  ultimately show ?thesis using assms(1) k m(2)
    by (auto simp: st'_def detector_wf_def intro!: exI [of _ "2 * m + k"])
qed

lemma hash_room: "HASH_FACTOR N \<le> n \<Longrightarrow> 4096 \<le> n \<Longrightarrow> 7 < N \<Longrightarrow> Suc N < n"
  by (simp add: HASH_FACTOR_def)

lemma detect_attack_result:
  assumes "detector_wf st" and "length buf \<le> 262144" and "8 dvd length buf"
  shows "\<exists>st'. detect_attack le st buf IV =
      Inr (suspicious (\<lambda>c. check_crc le c buf IV) IV (blocks buf), st') \<and> detector_wf st'"
proof -
  define chk where "chk = (\<lambda>c. check_crc le c buf IV)"
  have N: "length (blocks buf) = length buf div 8" by (rule length_blocks [OF assms(3)])
  obtain l where l: "table_size (d_n st) (HASH_FACTOR (length buf div 8)) = Some l"
    using table_size_ok [of "d_n st"] assms(1) by (fastforce simp: detector_wf_def)
  define st1 where "st1 = (if d_h st = None \<or> l > d_n st then \<lparr>d_h = Some (replicate l 0), d_n = l\<rparr> else st)"
  have wf1: "detector_wf st1" and big: "HASH_FACTOR (length buf div 8) \<le> d_n st1"
    using table_step_wf [OF assms(1) l] by (simp_all add: st1_def)
  obtain k where k: "12 \<le> k" "d_n st1 = 2 ^ k" using wf1 by (auto simp: detector_wf_def)
  have "(2 :: nat) ^ 12 \<le> 2 ^ k" using k(1) by (intro power_increasing) auto
  then have n4096: "4096 \<le> d_n st1" by (simp add: k(2))
  have guards: "length buf \<le> 32 * 1024 * 8" "length buf mod 8 = 0" using assms by auto
  show ?thesis
  proof (cases "length buf \<le> 56")
    case True
    then have "\<forall>c \<in> set (blocks buf). \<not> chk c"
      using short_packet_not_attack [of buf] N by (auto simp: chk_def)
    then have "\<not> small_scan chk IV [] (blocks buf)" "\<not> suspicious chk IV (blocks buf)"
      by (auto simp: small_scan_False suspicious_def)
    with True guards l wf1 show ?thesis
      by (simp add: detect_attack_def Let_def chk_def [symmetric] st1_def [symmetric])
  next
    case False
    let ?bs = "blocks buf" and ?n = "d_n st1"
    let ?h = "case IV of None \<Rightarrow> replicate ?n HASH_UNUSED
                | Some iv \<Rightarrow> (replicate ?n HASH_UNUSED)[HASH iv AND (?n - 1) := HASH_IV]"
    have inv: "table_inv IV ?bs ?n 0 ?h"
      using table_inv_init [of ?n IV ?bs] n4096 unfolding k(2) nat_mask by simp
    have "7 < length ?bs" using False assms(3) N by auto
    then have room: "Suc (length ?bs) < ?n" using hash_room big n4096 N by simp
    have small: "length ?bs \<le> 32768" using assms(2) N by simp
    obtain h' where h': "hash_scan chk IV ?bs ?n ?h 0 ?bs =
        Some (\<exists>m. 0 \<le> m \<and> m < length ?bs \<and> ?bs ! m \<in> entries IV ?bs m \<and> chk (?bs ! m), h')"
      using hash_scan_ok [OF k(2) room small inv, of ?bs chk] by auto
    have len: "length h' = ?n" using hash_scan_length [OF h'] inv by (simp add: table_inv_def)
    have "detector_wf (st1\<lparr>d_h := Some h'\<rparr>)" using wf1 len by (simp add: detector_wf_def)
    with False guards l h' show ?thesis
      by (simp add: detect_attack_def Let_def chk_def [symmetric] st1_def [symmetric] suspicious_index)
  qed
qed

text \<open>C25: On every packet of whole blocks, at most 256 kilobytes long, the detector returns (its table
  search ends and stays within the table), it reports an attack exactly when the packet is
  suspicious, and its static table remains well formed for the next packet.\<close>

theorem detect_attack_exact:
  assumes "detector_wf st" and "length buf \<le> 262144" and "8 dvd length buf"
  shows "\<exists>st'. detect_attack le st buf IV =
      Inr (suspicious (\<lambda>c. check_crc le c buf IV) IV (blocks buf), st') \<and> detector_wf st'"
  by (rule detect_attack_result [OF assms])

theorem detect_attack_exact_witness:
  "\<exists>st'. detect_attack True detector_init (replicate 64 0) None =
      Inr (suspicious (\<lambda>c. check_crc True c (replicate 64 0) None) None (blocks (replicate 64 0)), st') \<and>
      detector_wf st'"
  by (rule detect_attack_exact [OF detector_init_wf]) simp_all

lemma detect_attack_short:
  assumes "length buf \<le> 56" and "8 dvd length buf" and "detector_wf st"
  shows "\<exists>st'. detect_attack le st buf IV = Inr (False, st')"
proof -
  obtain l where l: "table_size (d_n st) (HASH_FACTOR (length buf div 8)) = Some l"
    using table_size_ok [of "d_n st"] assms(3) by (fastforce simp: detector_wf_def)
  have "length (blocks buf) \<le> 7" using assms by (simp add: length_blocks)
  then have "\<not> small_scan (\<lambda>c. check_crc le c buf IV) IV [] (blocks buf)"
    by (intro small_scan_False) (simp add: short_packet_not_attack)
  with assms l show ?thesis by (simp add: detect_attack_def Let_def)
qed

text \<open>A packet of at most seven blocks is never reported, whatever its contents.\<close>

theorem detect_attack_short_packets:
  assumes "length buf \<le> 56" and "8 dvd length buf" and "detector_wf st"
  shows "\<exists>st'. detect_attack le st buf IV = Inr (False, st')"
  by (rule detect_attack_short [OF assms])

theorem detect_attack_short_packets_witness:
  "\<exists>st'. detect_attack True detector_init (replicate 16 7) (Some (replicate 8 7)) = Inr (False, st')"
  by (rule detect_attack_short_packets) (simp_all add: detector_init_wf)

end
