(* ===== verification/Compress.thy ===== *)
theory Compress
  imports Buffer
begin

text \<open>
  \<^verbatim>\<open>compress.c\<close>: packet payloads as one compressed stream, flushed at every packet. The zlib
  functions are parameters: \<open>defl z inp n\<close> is a call of \<^verbatim>\<open>deflate(&stream, Z_PARTIAL_FLUSH)\<close> with the
  input \<open>inp\<close> and \<open>n\<close> bytes of output space; it returns the status, the input left, the output
  and the stream, and \<open>infl\<close> likewise for \<^verbatim>\<open>inflate\<close>. What zlib documents about them is the contract
  \<open>zlib_streams\<close>.
\<close>

datatype zstatus = Z_OK | Z_STREAM_END | Z_STREAM_ERROR | Z_BUF_ERROR | Z_DATA_ERROR | Z_MEM_ERROR | Z_OTHER

type_synonym 'z zcall = "'z \<Rightarrow> byte list \<Rightarrow> nat \<Rightarrow> zstatus \<times> byte list \<times> byte list \<times> 'z"

section \<open>The loops\<close>

text \<open>\<open>level\<close> is checked when compression starts; \<open>new_d\<close> and \<open>new_i\<close> are what the init functions of zlib set up.\<close>

definition buffer_compress_init :: "(int \<Rightarrow> 'd) \<Rightarrow> 'i \<Rightarrow> int \<Rightarrow> ('i \<times> 'd) res" where
  "buffer_compress_init new_d new_i level =
     (if level < 1 \<or> level > 9 then Inl (Fatal ''Bad compression level'') else Inr (new_i, new_d level))"

partial_function (option) compress_loop :: "'d zcall \<Rightarrow> 'd \<Rightarrow> byte list \<Rightarrow> Buffer \<Rightarrow> (Buffer \<times> 'd) res option" where
  "compress_loop defl z inp out =
     (case defl z inp 4096 of (status, inp', ob, z') \<Rightarrow>
        if status = Z_OK then
          (case buffer_append out ob (of_nat (length ob)) of
             Inl e \<Rightarrow> Some (Inl e)
           | Inr out' \<Rightarrow> if length ob = 4096 then compress_loop defl z' inp' out' else Some (Inr (out', z')))
        else Some (Inl (Fatal ''buffer_compress: deflate returned'')))"

definition buffer_compress :: "'d zcall \<Rightarrow> 'd \<Rightarrow> Buffer \<Rightarrow> Buffer \<Rightarrow> (Buffer \<times> 'd) res" where
  "buffer_compress defl z input_buffer output_buffer =
     (if buffer_len input_buffer = 0 then Inr (output_buffer, z)
      else rbind (mem_read (buffer_ptr input_buffer) 0 (unat (buffer_len input_buffer))) (\<lambda>inp.
           case compress_loop defl z inp output_buffer of
             None \<Rightarrow> Inl (Diverges ''buffer_compress'')
           | Some r \<Rightarrow> r))"

partial_function (option) uncompress_loop :: "'i zcall \<Rightarrow> 'i \<Rightarrow> byte list \<Rightarrow> Buffer \<Rightarrow> (Buffer \<times> 'i) res option" where
  "uncompress_loop infl z inp out =
     (case infl z inp 4096 of (status, inp', ob, z') \<Rightarrow>
        if status = Z_OK then
          (case buffer_append out ob (of_nat (length ob)) of
             Inl e \<Rightarrow> Some (Inl e)
           | Inr out' \<Rightarrow> uncompress_loop infl z' inp' out')
        else if status = Z_BUF_ERROR then Some (Inr (out, z'))
        else Some (Inl (Fatal ''buffer_uncompress: inflate returned'')))"

definition buffer_uncompress :: "'i zcall \<Rightarrow> 'i \<Rightarrow> Buffer \<Rightarrow> Buffer \<Rightarrow> (Buffer \<times> 'i) res" where
  "buffer_uncompress infl z input_buffer output_buffer =
     rbind (mem_read (buffer_ptr input_buffer) 0 (unat (buffer_len input_buffer))) (\<lambda>inp.
     case uncompress_loop infl z inp output_buffer of
       None \<Rightarrow> Inl (Diverges ''buffer_uncompress'')
     | Some r \<Rightarrow> r)"

section \<open>What zlib promises\<close>

text \<open>
  \<open>deflates defl z x c z'\<close>: the calls that compress \<open>x\<close> fill the output space as long as there is
  more to flush, and produce \<open>c\<close>. \<open>inflates\<close> is the converse; it ends with the error that reports
  that there is no more input.
\<close>

inductive deflates :: "'d zcall \<Rightarrow> 'd \<Rightarrow> byte list \<Rightarrow> byte list \<Rightarrow> 'd \<Rightarrow> bool" for defl where
  deflates_last: "defl z x 4096 = (Z_OK, [], c, z') \<Longrightarrow> length c < 4096 \<Longrightarrow> deflates defl z x c z'"
| deflates_more: "defl z x 4096 = (Z_OK, x', c, z1) \<Longrightarrow> length c = 4096 \<Longrightarrow> deflates defl z1 x' c' z' \<Longrightarrow>
    deflates defl z x (c @ c') z'"

inductive inflates :: "'i zcall \<Rightarrow> 'i \<Rightarrow> byte list \<Rightarrow> byte list \<Rightarrow> 'i \<Rightarrow> bool" for infl where
  inflates_done: "infl z c 4096 = (Z_BUF_ERROR, c', [], z') \<Longrightarrow> inflates infl z c [] z'"
| inflates_more: "infl z c 4096 = (Z_OK, c', x, z1) \<Longrightarrow> length x \<le> 4096 \<Longrightarrow> inflates infl z1 c' x' z' \<Longrightarrow>
    inflates infl z c (x @ x') z'"

text \<open>
  The streams of the two ends are in step when the next flushed piece can be read back, and then
  stay so; compression expands incompressible input by a bounded amount only.
\<close>

definition zlib_streams :: "'d zcall \<Rightarrow> 'i zcall \<Rightarrow> ('d \<Rightarrow> 'i \<Rightarrow> bool) \<Rightarrow> bool" where
  "zlib_streams defl infl in_step \<longleftrightarrow>
     (\<forall>d i x. in_step d i \<longrightarrow> x \<noteq> [] \<longrightarrow>
        (\<exists>c d' i'. deflates defl d x c d' \<and> inflates infl i c x i' \<and> in_step d' i' \<and>
           c \<noteq> [] \<and> length c \<le> length x + length x div 500 + 100))"

section \<open>The loops carry the streams\<close>

lemma compress_loop_ok:
  "deflates defl z x c z' \<Longrightarrow> buffer_wf out \<Longrightarrow> unat (b_alloc out) \<le> N \<Longrightarrow>
   3 * (length (contents out) + length c) + 4096 \<le> N \<Longrightarrow> N + length c + 4096 < 2 ^ 32 \<Longrightarrow>
   \<exists>out'. compress_loop defl z x out = Some (Inr (out', z')) \<and> buffer_wf out' \<and> contents out' = contents out @ c \<and>
     unat (b_alloc out') \<le> N"
proof (induction arbitrary: out rule: deflates.induct)
  case (deflates_last z x c z')
  then show ?case using buffer_put_within [of out N c] by (auto simp: compress_loop.simps [of defl z])
next
  case (deflates_more z x x' c z1 c' z')
  obtain out1 where o1: "buffer_append out c (of_nat (length c)) = Inr out1" "buffer_wf out1"
    "contents out1 = contents out @ c" "unat (b_alloc out1) \<le> N"
    using buffer_put_within [of out N c] deflates_more.prems by auto
  moreover have "\<exists>out'. compress_loop defl z1 x' out1 = Some (Inr (out', z')) \<and> buffer_wf out' \<and>
      contents out' = contents out1 @ c' \<and> unat (b_alloc out') \<le> N"
    using deflates_more.prems o1 by (intro deflates_more.IH) simp_all
  ultimately show ?case using deflates_more(1,2) by (auto simp: compress_loop.simps [of defl z])
qed

lemma uncompress_loop_ok:
  "inflates infl z c x z' \<Longrightarrow> buffer_wf out \<Longrightarrow> unat (b_alloc out) \<le> N \<Longrightarrow>
   3 * (length (contents out) + length x) + 4096 \<le> N \<Longrightarrow> N + length x + 4096 < 2 ^ 32 \<Longrightarrow>
   \<exists>out'. uncompress_loop infl z c out = Some (Inr (out', z')) \<and> buffer_wf out' \<and> contents out' = contents out @ x \<and>
     unat (b_alloc out') \<le> N"
proof (induction arbitrary: out rule: inflates.induct)
  case (inflates_done z c c' z')
  then show ?case by (simp add: uncompress_loop.simps [of infl z])
next
  case (inflates_more z c c' x z1 x' z')
  obtain out1 where o1: "buffer_append out x (of_nat (length x)) = Inr out1" "buffer_wf out1"
    "contents out1 = contents out @ x" "unat (b_alloc out1) \<le> N"
    using buffer_put_within [of out N x] inflates_more.prems by auto
  moreover have "\<exists>out'. uncompress_loop infl z1 c' out1 = Some (Inr (out', z')) \<and> buffer_wf out' \<and>
      contents out' = contents out1 @ x' \<and> unat (b_alloc out') \<le> N"
    using inflates_more.prems o1 by (intro inflates_more.IH) simp_all
  ultimately show ?case using inflates_more(1) by (auto simp: uncompress_loop.simps [of infl z])
qed

lemma buffer_read_at:
  assumes "buffer_wf b" and "k + n \<le> length (contents b)"
  shows "mem_read (buffer_ptr b) k n = Inr (take n (drop k (contents b)))"
proof -
  have c: "contents b = take (length (contents b)) (buffer_ptr b)"
    using buffer_ptr_contents [OF assms(1)] buffer_len_contents [OF assms(1)] by simp
  then have "length (contents b) \<le> length (buffer_ptr b)" by (metis length_take min.bounded_iff order_refl)
  moreover have "take n (drop k (contents b)) = take n (drop k (buffer_ptr b))"
    using assms(2) by (subst c) (simp add: drop_take min_absorb1)
  ultimately show ?thesis using assms(2) by (simp add: mem_read_def)
qed

lemma buffer_read_all: "buffer_wf b \<Longrightarrow> mem_read (buffer_ptr b) 0 (unat (buffer_len b)) = Inr (contents b)"
  by (simp add: buffer_read_at buffer_len_contents)

lemma buffer_compress_ok:
  assumes "deflates defl z (contents inb) c z'" and "contents inb \<noteq> []" and "buffer_wf inb" and "buffer_wf out"
    and "unat (b_alloc out) \<le> N" and "3 * (length (contents out) + length c) + 4096 \<le> N" and "N + length c + 4096 < 2 ^ 32"
  shows "\<exists>out'. buffer_compress defl z inb out = Inr (out', z') \<and> buffer_wf out' \<and> contents out' = contents out @ c \<and>
     unat (b_alloc out') \<le> N"
proof -
  have "buffer_len inb \<noteq> 0" using buffer_len_contents [OF assms(3)] assms(2) by (metis length_0_conv unat_0)
  then show ?thesis
    using compress_loop_ok [OF assms(1,4-7)] by (auto simp: buffer_compress_def buffer_read_all assms(3))
qed

lemma buffer_uncompress_ok:
  assumes "inflates infl z (contents inb) x z'" and "buffer_wf inb" and "buffer_wf out"
    and "unat (b_alloc out) \<le> N" and "3 * (length (contents out) + length x) + 4096 \<le> N" and "N + length x + 4096 < 2 ^ 32"
  shows "\<exists>out'. buffer_uncompress infl z inb out = Inr (out', z') \<and> buffer_wf out' \<and> contents out' = contents out @ x \<and>
     unat (b_alloc out') \<le> N"
  using uncompress_loop_ok [OF assms(1,3-6)] by (auto simp: buffer_uncompress_def buffer_read_all assms(2))

text \<open>A codec that stores its input keeps the contract.\<close>

definition store_deflate :: "unit zcall" where
  "store_deflate z inp n = (Z_OK, drop n inp, take n inp, z)"

definition store_inflate :: "unit zcall" where
  "store_inflate z inp n = (if inp = [] then (Z_BUF_ERROR, [], [], z) else (Z_OK, drop n inp, take n inp, z))"

lemma store_deflates: "deflates store_deflate () x x ()"
proof (induction x rule: length_induct)
  case (1 x)
  show ?case
  proof (cases "length x < 4096")
    case True
    then show ?thesis by (intro deflates_last) (simp_all add: store_deflate_def)
  next
    case False
    then have "deflates store_deflate () (take 4096 x @ drop 4096 x) (take 4096 x @ drop 4096 x) ()"
    proof (intro deflates_more)
      show "store_deflate () (take 4096 x @ drop 4096 x) 4096 = (Z_OK, drop 4096 x, take 4096 x, ())"
        by (simp add: store_deflate_def)
    qed (use 1 False in simp_all)
    then show ?thesis by simp
  qed
qed

lemma store_inflates: "inflates store_inflate () x x ()"
proof (induction x rule: length_induct)
  case (1 x)
  show ?case
  proof (cases "x = []")
    case True
    then show ?thesis by (auto intro: inflates_done simp: store_inflate_def)
  next
    case False
    then have "inflates store_inflate () (take 4096 x @ drop 4096 x) (take 4096 x @ drop 4096 x) ()"
    proof (intro inflates_more)
      show "store_inflate () (take 4096 x @ drop 4096 x) 4096 = (Z_OK, drop 4096 x, take 4096 x, ())"
        using False by (simp add: store_inflate_def)
    qed (use 1 False in simp_all)
    then show ?thesis by simp
  qed
qed

lemma store_streams: "zlib_streams store_deflate store_inflate (\<lambda>_ _. True)"
  unfolding zlib_streams_def using store_deflates store_inflates by fastforce

text \<open>C32: With zlib as documented, what \<^verbatim>\<open>buffer_compress\<close> appends to one buffer, \<^verbatim>\<open>buffer_uncompress\<close> at the other end
appends to its own as the original contents: the two loops over the fixed output space end, in any
number of pieces, and the two streams are again in step for the next packet.\<close>

theorem compress_roundtrip:
  assumes "zlib_streams defl infl in_step" and "in_step d i" and "contents src \<noteq> []" and "length (contents src) \<le> 1000000"
    and "buffer_wf src" and "buffer_wf out" "contents out = []" "unat (b_alloc out) \<le> 2 ^ 24"
    and "buffer_wf dst" "contents dst = []" "unat (b_alloc dst) \<le> 2 ^ 24"
  shows "\<exists>out' d' dst' i'. buffer_compress defl d src out = Inr (out', d') \<and>
     buffer_uncompress infl i out' dst = Inr (dst', i') \<and> contents dst' = contents src \<and>
     length (contents out') \<le> length (contents src) + length (contents src) div 500 + 100 \<and> in_step d' i'"
proof -
  obtain c d' i' where c: "deflates defl d (contents src) c d'" "inflates infl i c (contents src) i'" "in_step d' i'"
    "length c \<le> length (contents src) + length (contents src) div 500 + 100"
    using assms(1-3) unfolding zlib_streams_def by blast
  have "length c \<le> 1002100" using c(4) assms(4) by linarith
  then obtain out' where o': "buffer_compress defl d src out = Inr (out', d')" "buffer_wf out'" "contents out' = c"
    using buffer_compress_ok [OF c(1) assms(3,5,6), of "2 ^ 24"] assms by auto
  moreover obtain dst' where "buffer_uncompress infl i out' dst = Inr (dst', i')" "contents dst' = contents src"
    using buffer_uncompress_ok [of infl i out' "contents src" i' dst "2 ^ 24"] c o' assms by auto
  ultimately show ?thesis using c by auto
qed

lemma compress_roundtrip_witness:
  "\<exists>src out' dst' d' i'. buffer_append buffer_init [1, 2, 3] 3 = Inr src \<and>
     buffer_compress store_deflate () src buffer_init = Inr (out', d') \<and>
     buffer_uncompress store_inflate () out' buffer_init = Inr (dst', i') \<and> contents dst' = [1, 2, 3]"
proof -
  have a: "unat (b_alloc buffer_init) \<le> 2 ^ 24" by (simp add: buffer_init_def)
  obtain src where src: "buffer_append buffer_init [1, 2, 3] 3 = Inr src" "buffer_wf src" "contents src = [1, 2, 3]"
    using bf.put_law [OF buffer_init_wf, of "[1, 2, 3]"] a by auto
  from compress_roundtrip [OF store_streams TrueI _ _ src(2) buffer_init_wf contents_init a buffer_init_wf contents_init a] src
  show ?thesis by auto
qed

end
