(* ===== verification/Packet.thy ===== *)
theory Packet
  imports Bufaux Cipher Deattack Compress
begin

text \<open>
  \<^verbatim>\<open>packet.c\<close>: the binary packet protocol. The static variables of the file, and those of \<^verbatim>\<open>compress.c\<close>
  and \<^verbatim>\<open>deattack.c\<close> that only this layer uses, are the record \<open>packet_state\<close>; every function takes
  and returns it. What the file takes from outside (the compiled-in ciphers, the byte order of the
  host, zlib and the random number generator) is the record \<open>packet_env\<close>, and the answers of the
  operating system to reads and writes are lists of results.
\<close>

section \<open>State\<close>

abbreviation (input) "SSH_MSG_NONE \<equiv> 0 :: nat"
abbreviation (input) "SSH_MSG_DISCONNECT \<equiv> 1 :: nat"
abbreviation (input) "SSH_MSG_IGNORE \<equiv> 32 :: nat"
abbreviation (input) "SSH_MSG_DEBUG \<equiv> 36 :: nat"

record ('d, 'i, 'r) packet_env =
  e_cfg :: cipher_config
  e_little_endian :: bool
  e_deflate :: "'d zcall"
  e_inflate :: "'i zcall"
  e_deflate_init :: "int \<Rightarrow> 'd"
  e_inflate_init :: 'i
  e_random :: "'r \<Rightarrow> byte \<times> 'r"

record ('d, 'i, 'r) packet_state =
  p_connection_in :: int
  p_connection_out :: int
  p_cipher_type :: int
  p_remote_protocol_flags :: u32
  p_receive_context :: CipherContext
  p_send_context :: CipherContext
  p_input :: Buffer
  p_output :: Buffer
  p_outgoing_packet :: Buffer
  p_incoming_packet :: Buffer
  p_compression_buffer :: Buffer
  p_compression :: bool
  p_outgoing_stream :: 'd
  p_incoming_stream :: 'i
  p_random_state :: 'r
  p_attack_detector :: detector
  p_initialized :: bool
  p_interactive_mode :: bool
  p_max_packet_size :: u32
  p_debug_on :: bool
  p_wire :: "byte list"

text \<open>
  \<open>p_wire\<close> is what has been written to the connection. At the start of the program the variables have
  their initial values, and zeros where the file gives none; the zlib streams, which get their values
  later, and the random state are arguments.
\<close>

definition packet_statics :: "'d \<Rightarrow> 'i \<Rightarrow> 'r \<Rightarrow> ('d, 'i, 'r) packet_state" where
  "packet_statics d i r =
     (let zero = \<lparr>b_buf = [], b_alloc = 0, b_offset = 0, b_end = 0\<rparr>; none = \<lparr>c_type = 0, c_u = U_None\<rparr>
      in \<lparr>p_connection_in = -1, p_connection_out = -1, p_cipher_type = SSH_CIPHER_NONE, p_remote_protocol_flags = 0,
          p_receive_context = none, p_send_context = none, p_input = zero, p_output = zero, p_outgoing_packet = zero,
          p_incoming_packet = zero, p_compression_buffer = zero, p_compression = False, p_outgoing_stream = d,
          p_incoming_stream = i, p_random_state = r, p_attack_detector = detector_init, p_initialized = False,
          p_interactive_mode = False, p_max_packet_size = 256000, p_debug_on = False, p_wire = []\<rparr>)"

text \<open>Small accessors and setters.\<close>

text \<open>
  \<^verbatim>\<open>packet_set_interactive\<close> records the mode; on a socket, where both descriptors are the same, it also
  sets options. \<open>iptos\<close> and \<open>nodelay\<close> say whether the options exist on the host.
\<close>

datatype sockopt = Keepalive bool | Tos_lowdelay | Tos_throughput | Nodelay bool

definition socket_options :: "bool \<Rightarrow> bool \<Rightarrow> ('d, 'i, 'r) packet_state \<Rightarrow> bool \<Rightarrow> bool \<Rightarrow> sockopt list" where
  "socket_options iptos nodelay s interactive keepalives =
     (if p_connection_in s \<noteq> p_connection_out s then []
      else [Keepalive keepalives] @
           (if iptos then [if interactive then Tos_lowdelay else Tos_throughput] else []) @
           (if nodelay then [Nodelay interactive] else []))"

definition packet_set_interactive :: "('d, 'i, 'r) packet_state \<Rightarrow> bool \<Rightarrow> ('d, 'i, 'r) packet_state" where
  "packet_set_interactive s interactive = s\<lparr>p_interactive_mode := interactive\<rparr>"

definition packet_set_connection :: "('d, 'i, 'r) packet_env \<Rightarrow> ('d, 'i, 'r) packet_state \<Rightarrow> int \<Rightarrow> int \<Rightarrow> 'r \<Rightarrow>
    ('d, 'i, 'r) packet_state res" where
  "packet_set_connection E s fd_in fd_out state =
     (let s = s\<lparr>p_connection_in := fd_in, p_connection_out := fd_out, p_random_state := state, p_cipher_type := SSH_CIPHER_NONE\<rparr>
      in rbind (cipher_set_key (e_cfg E) SSH_CIPHER_NONE [] True) (\<lambda>c.
         rbind (cipher_set_key (e_cfg E) SSH_CIPHER_NONE [] False) (\<lambda>r.
         let s = s\<lparr>p_send_context := c, p_receive_context := r\<rparr>;
             s = (if \<not> p_initialized s then
                    s\<lparr>p_initialized := True, p_input := buffer_init, p_output := buffer_init,
                      p_outgoing_packet := buffer_init, p_incoming_packet := buffer_init\<rparr>
                  else s)
         in Inr (packet_set_interactive s True))))"

definition packet_get_connection_in :: "('d, 'i, 'r) packet_state \<Rightarrow> int" where
  "packet_get_connection_in s = p_connection_in s"

definition packet_get_connection_out :: "('d, 'i, 'r) packet_state \<Rightarrow> int" where
  "packet_get_connection_out s = p_connection_out s"

text \<open>The descriptors that are put into non-blocking mode.\<close>

definition packet_set_nonblocking :: "('d, 'i, 'r) packet_state \<Rightarrow> int list" where
  "packet_set_nonblocking s =
     p_connection_in s # (if p_connection_out s \<noteq> p_connection_in s then [p_connection_out s] else [])"

text \<open>Closing: the arrays handed back to the allocator, and the state.\<close>

definition packet_close :: "('d, 'i, 'r) packet_state \<Rightarrow> byte list list \<times> ('d, 'i, 'r) packet_state" where
  "packet_close s =
     (if \<not> p_initialized s then ([], s)
      else ([buffer_free (p_input s), buffer_free (p_output s), buffer_free (p_outgoing_packet s), buffer_free (p_incoming_packet s)] @
              (if p_compression s then [buffer_free (p_compression_buffer s)] else []),
            s\<lparr>p_initialized := False\<rparr>))"

text \<open>The flags decide how channel open requests are read; that option belongs to the channel code.\<close>

definition packet_set_protocol_flags :: "('d, 'i, 'r) packet_state \<Rightarrow> u32 \<Rightarrow> bool \<times> ('d, 'i, 'r) packet_state" where
  "packet_set_protocol_flags s protocol_flags =
     (protocol_flags AND 2 \<noteq> 0, s\<lparr>p_remote_protocol_flags := protocol_flags\<rparr>)"

definition packet_get_protocol_flags :: "('d, 'i, 'r) packet_state \<Rightarrow> u32" where
  "packet_get_protocol_flags s = p_remote_protocol_flags s"

definition packet_start_compression :: "('d, 'i, 'r) packet_env \<Rightarrow> ('d, 'i, 'r) packet_state \<Rightarrow> int \<Rightarrow>
    ('d, 'i, 'r) packet_state res" where
  "packet_start_compression E s level =
     (if p_compression s then Inl (Fatal ''Compression already enabled.'')
      else rbind (buffer_compress_init (e_deflate_init E) (e_inflate_init E) level) (\<lambda>(i, d).
           Inr (s\<lparr>p_compression := True, p_compression_buffer := buffer_init,
                  p_incoming_stream := i, p_outgoing_stream := d\<rparr>)))"

definition packet_is_interactive :: "('d, 'i, 'r) packet_state \<Rightarrow> bool" where
  "packet_is_interactive s = p_interactive_mode s"

definition packet_set_max_size :: "('d, 'i, 'r) packet_state \<Rightarrow> u32 \<Rightarrow> ('d, 'i, 'r) packet_state" where
  "packet_set_max_size s max_size = s\<lparr>p_max_packet_size := max_size\<rparr>"

definition packet_max_size :: "('d, 'i, 'r) packet_state \<Rightarrow> u32" where
  "packet_max_size s = p_max_packet_size s"

definition packet_init_debug :: "('d, 'i, 'r) packet_state \<Rightarrow> bool \<Rightarrow> bool \<Rightarrow> ('d, 'i, 'r) packet_state" where
  "packet_init_debug s debug quiet = s\<lparr>p_debug_on := debug \<and> \<not> quiet\<rparr>"

section \<open>Encryption\<close>

definition packet_encrypt :: "('d, 'i, 'r) packet_env \<Rightarrow> CipherContext \<Rightarrow> byte list \<Rightarrow> (byte list \<times> CipherContext) res" where
  "packet_encrypt E cc src =
     rbind (ensure (length src mod 8 = 0) (Assertion ''(bytes % 8) == 0'')) (\<lambda>_. cipher_encrypt (e_cfg E) cc src)"

text \<open>The vector that the attack detector looks for: that of IDEA, if it is compiled in.\<close>

definition packet_attack_iv :: "('d, 'i, 'r) packet_env \<Rightarrow> CipherContext \<Rightarrow> byte list option" where
  "packet_attack_iv E cc =
     (if c_type cc = SSH_CIPHER_IDEA \<and> with_idea (e_cfg E) then (case c_u cc of U_Idea k iv \<Rightarrow> Some iv | _ \<Rightarrow> None) else None)"

definition packet_decrypt :: "('d, 'i, 'r) packet_env \<Rightarrow> detector \<Rightarrow> CipherContext \<Rightarrow> byte list \<Rightarrow>
    (byte list \<times> CipherContext \<times> detector) res" where
  "packet_decrypt E det cc src =
     rbind (ensure (length src mod 8 = 0) (Assertion ''(bytes % 8) == 0'')) (\<lambda>_.
     rbind (if c_type cc = SSH_CIPHER_NONE then Inr (False, det)
            else detect_attack (e_little_endian E) det src (packet_attack_iv E cc)) (\<lambda>(i, det).
     if i then Inl (Disconnect ''crc32 compensation attack: network attack detected'')
     else rbind (cipher_decrypt (e_cfg E) cc src) (\<lambda>(dest, cc). Inr (dest, cc, det))))"

text \<open>Arcfour uses the two halves of the key for the two directions.\<close>

definition packet_set_encryption_key :: "('d, 'i, 'r) packet_env \<Rightarrow> ('d, 'i, 'r) packet_state \<Rightarrow> byte list \<Rightarrow> int \<Rightarrow> bool \<Rightarrow>
    ('d, 'i, 'r) packet_state res" where
  "packet_set_encryption_key E s key cipher is_client =
     (let h = length key div 2; first = take h key; second = take h (drop h key);
          (rk, sk) = (if cipher = SSH_CIPHER_ARCFOUR then (if is_client then (first, second) else (second, first))
                      else (key, key))
      in rbind (cipher_set_key (e_cfg E) cipher rk False) (\<lambda>r.
         rbind (cipher_set_key (e_cfg E) cipher sk True) (\<lambda>c.
         Inr (s\<lparr>p_cipher_type := cipher, p_receive_context := r, p_send_context := c\<rparr>))))"

section \<open>Constructing and sending a packet\<close>

text \<open>An operation on the packet under construction.\<close>

definition on_outgoing :: "(Buffer \<Rightarrow> Buffer res) \<Rightarrow> ('d, 'i, 'r) packet_state \<Rightarrow> ('d, 'i, 'r) packet_state res" where
  "on_outgoing f s = rbind (f (p_outgoing_packet s)) (\<lambda>b. Inr (s\<lparr>p_outgoing_packet := b\<rparr>))"

definition packet_start :: "('d, 'i, 'r) packet_state \<Rightarrow> nat \<Rightarrow> ('d, 'i, 'r) packet_state res" where
  "packet_start s type = on_outgoing (\<lambda>b. buffer_append (buffer_clear b) (replicate 8 0 @ [of_nat type]) 9) s"

definition packet_put_char :: "('d, 'i, 'r) packet_state \<Rightarrow> u32 \<Rightarrow> ('d, 'i, 'r) packet_state res" where
  "packet_put_char s value = on_outgoing (\<lambda>b. buffer_append b [ucast value] 1) s"

definition packet_put_int :: "('d, 'i, 'r) packet_state \<Rightarrow> u32 \<Rightarrow> ('d, 'i, 'r) packet_state res" where
  "packet_put_int s value = on_outgoing (\<lambda>b. buffer_put_int b value) s"

definition packet_put_string :: "('d, 'i, 'r) packet_state \<Rightarrow> byte list \<Rightarrow> ('d, 'i, 'r) packet_state res" where
  "packet_put_string s buf = on_outgoing (\<lambda>b. buffer_put_string b buf) s"

definition packet_put_mp_int :: "('d, 'i, 'r) packet_state \<Rightarrow> nat \<Rightarrow> ('d, 'i, 'r) packet_state res" where
  "packet_put_mp_int s value = on_outgoing (\<lambda>b. buffer_put_mp_int b value) s"

text \<open>The compression step of \<^verbatim>\<open>packet_send\<close>.\<close>

definition packet_compress :: "('d, 'i, 'r) packet_env \<Rightarrow> ('d, 'i, 'r) packet_state \<Rightarrow> ('d, 'i, 'r) packet_state res" where
  "packet_compress E s =
     rbind (buffer_consume (p_outgoing_packet s) 8) (\<lambda>out.
     rbind (buffer_append (buffer_clear (p_compression_buffer s)) (replicate 8 0) 8) (\<lambda>cb.
     rbind (buffer_compress (e_deflate E) (p_outgoing_stream s) out cb) (\<lambda>(cb, d).
     rbind (buffer_append (buffer_clear out) (buffer_ptr cb) (buffer_len cb)) (\<lambda>out.
     Inr (s\<lparr>p_outgoing_packet := out, p_compression_buffer := cb, p_outgoing_stream := d\<rparr>)))))"

text \<open>Random padding: \<open>cp[7 - i]\<close> for \<open>i < padding\<close>, where \<open>cp\<close> is the first byte of the packet.\<close>

fun packet_pad :: "('r \<Rightarrow> byte \<times> 'r) \<Rightarrow> nat \<Rightarrow> nat list \<Rightarrow> byte list \<Rightarrow> 'r \<Rightarrow> (byte list \<times> 'r) res" where
  "packet_pad rnd cp [] m r = Inr (m, r)"
| "packet_pad rnd cp (i # is) m r =
     (let (b, r) = rnd r in rbind (mem_write m (cp + (7 - i)) [b]) (\<lambda>m. packet_pad rnd cp is m r))"

text \<open>The rest of \<^verbatim>\<open>packet_send\<close>: padding, checksum, length and encryption into the output buffer.\<close>

definition packet_finish :: "('d, 'i, 'r) packet_env \<Rightarrow> ('d, 'i, 'r) packet_state \<Rightarrow> ('d, 'i, 'r) packet_state res" where
  "packet_finish E s =
     (let len = buffer_len (p_outgoing_packet s) + 4 - 8
      in if sint len < 0 then Inl (Undefined ''negative packet length'')
         else
      let padding = 8 - unat len mod 8; op = p_outgoing_packet s
      in rbind (if p_cipher_type s \<noteq> SSH_CIPHER_NONE
                then packet_pad (e_random E) (unat (b_offset op)) [0..<padding] (b_buf op) (p_random_state s)
                else Inr (b_buf op, p_random_state s)) (\<lambda>(m, r).
         rbind (buffer_consume (op\<lparr>b_buf := m\<rparr>) (of_nat (8 - padding))) (\<lambda>op.
         rbind (mem_read (buffer_ptr op) 0 (unat (buffer_len op))) (\<lambda>plain.
         rbind (buffer_append op (PUT_32BIT (crc32 plain)) 4) (\<lambda>op.
         rbind (buffer_append (p_output s) (PUT_32BIT len) 4) (\<lambda>out.
         rbind (buffer_append_space out (buffer_len op)) (\<lambda>(cp, out).
         rbind (mem_read (buffer_ptr op) 0 (unat (buffer_len op))) (\<lambda>src.
         rbind (packet_encrypt E (p_send_context s) src) (\<lambda>(dest, cc).
         rbind (mem_write (b_buf out) (unat cp) dest) (\<lambda>m.
         Inr (s\<lparr>p_random_state := r, p_send_context := cc, p_output := out\<lparr>b_buf := m\<rparr>,
                p_outgoing_packet := buffer_clear op\<rparr>)))))))))))"

definition packet_send :: "('d, 'i, 'r) packet_env \<Rightarrow> ('d, 'i, 'r) packet_state \<Rightarrow> ('d, 'i, 'r) packet_state res" where
  "packet_send E s =
     (if buffer_len (p_outgoing_packet s) \<ge> p_max_packet_size s - 30
      then Inl (Fatal ''packet_send: sending too big a packet'')
      else rbind (if p_compression s then packet_compress E s else Inr s) (packet_finish E))"

section \<open>Receiving\<close>

text \<open>
  \<open>packet_read_once\<close> is the body of \<^verbatim>\<open>packet_read_poll\<close> from its label to the next \<^verbatim>\<open>goto restart\<close>:
  \<open>Some t\<close> is a return of type \<open>t\<close>, \<open>None\<close> a message that was handled here and skipped.
\<close>

definition packet_get_string :: "('d, 'i, 'r) packet_state \<Rightarrow> (byte list \<times> ('d, 'i, 'r) packet_state) res" where
  "packet_get_string s =
     rbind (buffer_get_string (p_incoming_packet s)) (\<lambda>(str, b). Inr (str, s\<lparr>p_incoming_packet := b\<rparr>))"

text \<open>The decompression step of \<^verbatim>\<open>packet_read_poll\<close>.\<close>

definition packet_uncompress :: "('d, 'i, 'r) packet_env \<Rightarrow> ('d, 'i, 'r) packet_state \<Rightarrow> ('d, 'i, 'r) packet_state res" where
  "packet_uncompress E s =
     rbind (buffer_uncompress (e_inflate E) (p_incoming_stream s) (p_incoming_packet s) (buffer_clear (p_compression_buffer s))) (\<lambda>(cb, i).
     rbind (buffer_append (buffer_clear (p_incoming_packet s)) (buffer_ptr cb) (buffer_len cb)) (\<lambda>ip.
     Inr (s\<lparr>p_incoming_packet := ip, p_compression_buffer := cb, p_incoming_stream := i\<rparr>)))"

text \<open>Taking the next packet off the input, decrypted and checked, into \<open>incoming_packet\<close>.\<close>

definition packet_take :: "('d, 'i, 'r) packet_env \<Rightarrow> ('d, 'i, 'r) packet_state \<Rightarrow> u32 \<Rightarrow> u32 \<Rightarrow> ('d, 'i, 'r) packet_state res" where
  "packet_take E s len padded_len =
     rbind (buffer_consume (p_input s) 4) (\<lambda>inb.
     rbind (ensure (buffer_len (p_incoming_packet s) = 0)
              (Disconnect ''Junk data left to incoming packet buffer after all data processed'')) (\<lambda>_.
     rbind (buffer_append_space (buffer_clear (p_incoming_packet s)) padded_len) (\<lambda>(cp, ip).
     rbind (mem_read (buffer_ptr inb) 0 (unat padded_len)) (\<lambda>src.
     rbind (packet_decrypt E (p_attack_detector s) (p_receive_context s) src) (\<lambda>(dest, cc, det).
     rbind (mem_write (b_buf ip) (unat cp) dest) (\<lambda>m.
     let ip = ip\<lparr>b_buf := m\<rparr>
     in rbind (buffer_consume inb padded_len) (\<lambda>inb.
        rbind (mem_read (buffer_ptr ip) 0 (unat (buffer_len ip - 4))) (\<lambda>body.
        let checksum = crc32 body
        in rbind (buffer_consume ip (of_nat (8 - unat len mod 8))) (\<lambda>ip.
           rbind (ensure (len = buffer_len ip) (Assertion ''len == buffer_len(&incoming_packet)'')) (\<lambda>_.
           rbind (mem_read (buffer_ptr ip) (unat len - 4) 4) (\<lambda>ucp.
           rbind (ensure (checksum = GET_32BIT ucp) (Disconnect ''Corrupted check bytes on input.'')) (\<lambda>_.
           rbind (buffer_consume_end ip 4) (\<lambda>ip.
           Inr (s\<lparr>p_input := inb, p_incoming_packet := ip, p_receive_context := cc, p_attack_detector := det\<rparr>))))))))))))))"

text \<open>A C string in a message: up to the first NUL, at most 900 characters of it.\<close>

definition shown :: "byte list \<Rightarrow> string" where
  "shown str = take 900 (map (\<lambda>b. char_of (unat b)) (takeWhile (\<lambda>b. b \<noteq> 0) str))"

definition packet_dispatch :: "('d, 'i, 'r) packet_state \<Rightarrow> (nat option \<times> ('d, 'i, 'r) packet_state) res" where
  "packet_dispatch s =
     rbind (buffer_get (p_incoming_packet s) 1) (\<lambda>(buf, ip).
     let s = s\<lparr>p_incoming_packet := ip\<rparr>; type = unat (buf ! 0)
     in if type = SSH_MSG_DISCONNECT then rbind (packet_get_string s) (\<lambda>(str, s). Inl (Fatal (shown str)))
        else if type = SSH_MSG_IGNORE then rbind (packet_get_string s) (\<lambda>(str, s). Inr (None, s))
        else if type = SSH_MSG_DEBUG then rbind (packet_get_string s) (\<lambda>(str, s). Inr (None, s))
        else Inr (Some type, s))"

definition packet_read_once :: "('d, 'i, 'r) packet_env \<Rightarrow> ('d, 'i, 'r) packet_state \<Rightarrow>
    (nat option \<times> ('d, 'i, 'r) packet_state) res" where
  "packet_read_once E s =
     (if buffer_len (p_input s) < 4 + 8 then Inr (Some SSH_MSG_NONE, s)
      else
        rbind (mem_read (buffer_ptr (p_input s)) 0 4) (\<lambda>ucp.
        let len = GET_32BIT ucp
        in if len < 1 + 2 + 2 \<or> len > 256 * 1024 then Inl (Disconnect ''Bad packet length'')
           else
        let padded_len = (len + 8) AND NOT 7
        in if buffer_len (p_input s) < 4 + padded_len then Inr (Some SSH_MSG_NONE, s)
           else
        rbind (packet_take E s len padded_len) (\<lambda>s.
        rbind (if p_compression s then packet_uncompress E s else Inr s) packet_dispatch)))"

partial_function (option) packet_read_loop :: "('d, 'i, 'r) packet_env \<Rightarrow> ('d, 'i, 'r) packet_state \<Rightarrow>
    (nat \<times> ('d, 'i, 'r) packet_state) res option" where
  "packet_read_loop E s =
     (case packet_read_once E s of
        Inl e \<Rightarrow> Some (Inl e)
      | Inr (Some type, s) \<Rightarrow> Some (Inr (type, s))
      | Inr (None, s) \<Rightarrow> packet_read_loop E s)"

definition packet_read_poll :: "('d, 'i, 'r) packet_env \<Rightarrow> ('d, 'i, 'r) packet_state \<Rightarrow> (nat \<times> ('d, 'i, 'r) packet_state) res" where
  "packet_read_poll E s =
     (case packet_read_loop E s of None \<Rightarrow> Inl (Diverges ''packet_read_poll'') | Some r \<Rightarrow> r)"

definition packet_process_incoming :: "('d, 'i, 'r) packet_state \<Rightarrow> byte list \<Rightarrow> ('d, 'i, 'r) packet_state res" where
  "packet_process_incoming s buf =
     rbind (buffer_append (p_input s) buf (of_nat (length buf))) (\<lambda>b. Inr (s\<lparr>p_input := b\<rparr>))"

definition packet_get_len :: "('d, 'i, 'r) packet_state \<Rightarrow> u32" where
  "packet_get_len s = buffer_len (p_incoming_packet s)"

definition packet_get_char :: "('d, 'i, 'r) packet_state \<Rightarrow> (byte \<times> ('d, 'i, 'r) packet_state) res" where
  "packet_get_char s = rbind (buffer_get (p_incoming_packet s) 1) (\<lambda>(ch, b). Inr (ch ! 0, s\<lparr>p_incoming_packet := b\<rparr>))"

definition packet_get_int :: "('d, 'i, 'r) packet_state \<Rightarrow> (u32 \<times> ('d, 'i, 'r) packet_state) res" where
  "packet_get_int s = rbind (buffer_get_int (p_incoming_packet s)) (\<lambda>(v, b). Inr (v, s\<lparr>p_incoming_packet := b\<rparr>))"

definition packet_get_mp_int :: "('d, 'i, 'r) packet_state \<Rightarrow> (nat \<times> ('d, 'i, 'r) packet_state) res" where
  "packet_get_mp_int s = rbind (buffer_get_mp_int (p_incoming_packet s)) (\<lambda>(v, b). Inr (v, s\<lparr>p_incoming_packet := b\<rparr>))"

definition packet_get_all :: "('d, 'i, 'r) packet_state \<Rightarrow> ('d, 'i, 'r) packet_state" where
  "packet_get_all s = s\<lparr>p_incoming_packet := buffer_clear (p_incoming_packet s)\<rparr>"

section \<open>Reading from and writing to the connection\<close>

text \<open>The possible outcomes of one \<^verbatim>\<open>write\<close> or \<^verbatim>\<open>read\<close>.\<close>

datatype write_result = Written nat | Write_again | Write_failed

text \<open>A read that delivers no bytes is the end of the connection.\<close>

datatype read_result = Data "byte list" | Read_again | Read_failed

definition packet_have_data_to_write :: "('d, 'i, 'r) packet_state \<Rightarrow> bool" where
  "packet_have_data_to_write s = (buffer_len (p_output s) \<noteq> 0)"

definition packet_not_very_much_data_to_write :: "('d, 'i, 'r) packet_state \<Rightarrow> bool" where
  "packet_not_very_much_data_to_write s =
     (if p_interactive_mode s then buffer_len (p_output s) < 16384 else buffer_len (p_output s) < 128 * 1024)"

text \<open>A write that takes no bytes counts as a failure; it cannot take more than it was given.\<close>

definition packet_write_poll :: "('d, 'i, 'r) packet_state \<Rightarrow> write_result \<Rightarrow> ('d, 'i, 'r) packet_state res" where
  "packet_write_poll s w =
     (if sint (buffer_len (p_output s)) > 0 then
        (case w of
           Written n \<Rightarrow>
             if n = 0 then Inl (Fatal ''Write failed'')
             else rbind (mem_read (buffer_ptr (p_output s)) 0 (min n (unat (buffer_len (p_output s))))) (\<lambda>bytes.
                  rbind (buffer_consume (p_output s) (of_nat (min n (unat (buffer_len (p_output s)))))) (\<lambda>b.
                  Inr (s\<lparr>p_output := b, p_wire := p_wire s @ bytes\<rparr>)))
         | Write_again \<Rightarrow> Inr s
         | Write_failed \<Rightarrow> Inl (Fatal ''Write failed''))
      else Inr s)"

text \<open>
  The loop of \<^verbatim>\<open>packet_write_wait\<close> with the outcomes of its writes; it returns those it did not need.
  \<open>None\<close>: all outcomes are used and there still is data.
\<close>

fun packet_write_loop :: "('d, 'i, 'r) packet_state \<Rightarrow> write_result list \<Rightarrow> ('d, 'i, 'r) packet_state res option" where
  "packet_write_loop s [] = (if packet_have_data_to_write s then None else Some (Inr s))"
| "packet_write_loop s (w # ws) =
     (if packet_have_data_to_write s
      then (case packet_write_poll s w of Inl e \<Rightarrow> Some (Inl e) | Inr s \<Rightarrow> packet_write_loop s ws)
      else Some (Inr s))"

definition packet_write_wait :: "('d, 'i, 'r) packet_state \<Rightarrow> write_result list \<Rightarrow> ('d, 'i, 'r) packet_state res option" where
  "packet_write_wait s ws =
     (case ws of
        [] \<Rightarrow> if packet_have_data_to_write s then None else Some (Inr s)
      | w # ws \<Rightarrow> (case packet_write_poll s w of Inl e \<Rightarrow> Some (Inl e) | Inr s \<Rightarrow> packet_write_loop s ws))"

text \<open>The loop of \<^verbatim>\<open>packet_read\<close>, with the outcomes of its reads; each delivers at most 8192 bytes.\<close>

fun packet_receive_loop :: "('d, 'i, 'r) packet_env \<Rightarrow> ('d, 'i, 'r) packet_state \<Rightarrow> read_result list \<Rightarrow>
    (nat \<times> ('d, 'i, 'r) packet_state \<times> read_result list) res option" where
  "packet_receive_loop E s rs =
     (case packet_read_poll E s of
        Inl e \<Rightarrow> Some (Inl e)
      | Inr (type, s) \<Rightarrow>
          if type \<noteq> SSH_MSG_NONE then Some (Inr (type, s, rs))
          else (case rs of
                  [] \<Rightarrow> None
                | Data buf # rs \<Rightarrow>
                    if buf = [] then Some (Inl (Fatal ''Connection closed by remote host.'')) else
                    (case packet_process_incoming s buf of
                       Inl e \<Rightarrow> Some (Inl e)
                     | Inr s \<Rightarrow> packet_receive_loop E s rs)
                | Read_again # rs \<Rightarrow> packet_receive_loop E s rs
                | Read_failed # rs \<Rightarrow> Some (Inl (Fatal ''Read from socket failed''))))"

declare packet_receive_loop.simps [simp del]

definition packet_read :: "('d, 'i, 'r) packet_env \<Rightarrow> ('d, 'i, 'r) packet_state \<Rightarrow> write_result list \<Rightarrow> read_result list \<Rightarrow>
    (nat \<times> ('d, 'i, 'r) packet_state \<times> read_result list) res option" where
  "packet_read E s ws rs =
     (case packet_write_wait s ws of
        None \<Rightarrow> None
      | Some (Inl e) \<Rightarrow> Some (Inl e)
      | Some (Inr s) \<Rightarrow> packet_receive_loop E s rs)"

definition packet_read_expect :: "('d, 'i, 'r) packet_env \<Rightarrow> ('d, 'i, 'r) packet_state \<Rightarrow> write_result list \<Rightarrow> read_result list \<Rightarrow>
    nat \<Rightarrow> (('d, 'i, 'r) packet_state \<times> read_result list) res option" where
  "packet_read_expect E s ws rs expected_type =
     map_option (\<lambda>r. rbind r (\<lambda>(type, s, rs).
       if type \<noteq> expected_type then Inl (Disconnect ''Protocol error: expected packet type'') else Inr (s, rs)))
     (packet_read E s ws rs)"

text \<open>Debug and disconnect messages; \<open>msg\<close> is the formatted text, cut by \<^verbatim>\<open>vsnprintf\<close> to its buffer of 1024.\<close>

definition packet_send_debug :: "('d, 'i, 'r) packet_env \<Rightarrow> ('d, 'i, 'r) packet_state \<Rightarrow> byte list \<Rightarrow> write_result list \<Rightarrow>
    ('d, 'i, 'r) packet_state res option" where
  "packet_send_debug E s msg ws =
     (if \<not> p_debug_on s then Some (Inr s)
      else case rbind (packet_start s SSH_MSG_DEBUG) (\<lambda>s. rbind (packet_put_string s (take 1023 msg)) (packet_send E)) of
             Inl e \<Rightarrow> Some (Inl e)
           | Inr s \<Rightarrow> packet_write_wait s ws)"

text \<open>What \<^verbatim>\<open>packet_disconnect\<close> does before it exits: the state in which it does so.\<close>

definition packet_disconnect :: "('d, 'i, 'r) packet_env \<Rightarrow> ('d, 'i, 'r) packet_state \<Rightarrow> byte list \<Rightarrow> write_result list \<Rightarrow>
    ('d, 'i, 'r) packet_state res option" where
  "packet_disconnect E s msg ws =
     (case rbind (packet_start s SSH_MSG_DISCONNECT) (\<lambda>s. rbind (packet_put_string s (take 1023 msg)) (packet_send E)) of
        Inl e \<Rightarrow> Some (Inl e)
      | Inr s \<Rightarrow> map_option (map_sum id (\<lambda>s. snd (packet_close s))) (packet_write_wait s ws))"

end
