(* ===== verification/PacketRound.thy ===== *)
theory PacketRound
  imports Packet
begin

text \<open>
  What the packet layer of \<^verbatim>\<open>packet.c\<close> promises: a packet that one side sends is the packet that the
  other side takes off its input.
\<close>

section \<open>Well-formed states\<close>

text \<open>The buffers are well formed and their arrays small enough that no size can wrap.\<close>

abbreviation (input) "room \<equiv> 2 ^ 26 :: nat"

definition small_buffer :: "Buffer \<Rightarrow> bool" where
  "small_buffer b \<longleftrightarrow> buffer_wf b \<and> unat (b_alloc b) \<le> room"

definition packet_wf :: "('d, 'i, 'r) packet_state \<Rightarrow> bool" where
  "packet_wf s \<longleftrightarrow> small_buffer (p_input s) \<and> small_buffer (p_output s) \<and> small_buffer (p_outgoing_packet s) \<and>
     small_buffer (p_incoming_packet s) \<and> (p_compression s \<longrightarrow> small_buffer (p_compression_buffer s))"

lemma small_init [simp]: "small_buffer buffer_init"
  by (simp add: small_buffer_def) (simp add: buffer_init_def)

lemma small_clear [simp]: "small_buffer b \<Longrightarrow> small_buffer (buffer_clear b)"
  by (simp add: small_buffer_def buffer_clear_wf)

lemma small_len: "small_buffer b \<Longrightarrow> unat (buffer_len b) = length (contents b)"
  by (simp add: small_buffer_def buffer_len_contents)

lemma small_len_eq: "small_buffer b \<Longrightarrow> buffer_len b = of_nat (length (contents b))"
  using small_len [of b] by (metis of_nat_unat ucast_id)

lemma small_put:
  assumes "small_buffer b" and "3 * (length (contents b) + length d) + 4096 \<le> room"
  shows "\<exists>b'. buffer_append b d (of_nat (length d)) = Inr b' \<and> small_buffer b' \<and> contents b' = contents b @ d"
  using buffer_put_within [of b room d] assms by (auto simp: small_buffer_def)

lemma small_space:
  assumes "small_buffer b" and "3 * (length (contents b) + length d) + 4096 \<le> room"
  shows "\<exists>p b' m. buffer_append_space b (of_nat (length d)) = Inr (p, b') \<and> mem_write (b_buf b') (unat p) d = Inr m \<and>
     small_buffer (b'\<lparr>b_buf := m\<rparr>) \<and> contents (b'\<lparr>b_buf := m\<rparr>) = contents b @ d"
proof -
  have "unat (of_nat (length d) :: u32) = length d" using assms(2) by (intro unat_of_nat_small) simp
  then show ?thesis
    using small_put [OF assms] by (auto simp: buffer_append_def rbind_eq_Inr mem_read_eq_Inr)
qed

lemma small_put_buffer:
  assumes "small_buffer b" and "small_buffer c" and "3 * (length (contents b) + length (contents c)) + 4096 \<le> room"
  shows "\<exists>b'. buffer_append b (buffer_ptr c) (buffer_len c) = Inr b' \<and> small_buffer b' \<and> contents b' = contents b @ contents c"
proof -
  have "unat (buffer_len c) \<le> length (buffer_ptr c)" "take (unat (buffer_len c)) (buffer_ptr c) = contents c"
    using assms(2) buffer_read_all [of c] by (auto simp: small_buffer_def mem_read_eq_Inr)
  then have "buffer_append b (buffer_ptr c) (buffer_len c) = buffer_append b (contents c) (buffer_len c)"
    using small_len [OF assms(2)] by (simp add: buffer_append_def mem_read_def)
  with small_put [OF assms(1,3)] show ?thesis by (simp add: small_len_eq [OF assms(2)])
qed

lemma small_consume:
  "small_buffer b \<Longrightarrow> unat n \<le> length (contents b) \<Longrightarrow>
    \<exists>b'. buffer_consume b n = Inr b' \<and> small_buffer b' \<and> contents b' = drop (unat n) (contents b)"
  using buffer_consume_ok [of b n] by (auto simp: small_buffer_def)

lemma small_get:
  "small_buffer b \<Longrightarrow> unat n \<le> length (contents b) \<Longrightarrow>
    \<exists>b'. buffer_get b n = Inr (take (unat n) (contents b), b') \<and> small_buffer b' \<and> contents b' = drop (unat n) (contents b)"
  using buffer_get_ok [of b n] by (auto simp: small_buffer_def)

lemma small_consume_end:
  "small_buffer b \<Longrightarrow> unat n \<le> length (contents b) \<Longrightarrow>
    \<exists>b'. buffer_consume_end b n = Inr b' \<and> small_buffer b' \<and> contents b' = take (length (contents b) - unat n) (contents b)"
  using buffer_consume_end_ok [of b n] by (auto simp: small_buffer_def)

lemma small_read: "small_buffer b \<Longrightarrow> k + n \<le> length (contents b) \<Longrightarrow>
   mem_read (buffer_ptr b) k n = Inr (take n (drop k (contents b)))"
  by (simp add: small_buffer_def buffer_read_at)

section \<open>Padding\<close>

lemma packet_pad_ok:
  "cp + 8 \<le> length m \<Longrightarrow> \<forall>i\<in>set is. i < 8 \<Longrightarrow>
   \<exists>m' r'. packet_pad rnd cp is m r = Inr (m', r') \<and> length m' = length m \<and> take cp m' = take cp m \<and>
     drop (cp + 8) m' = drop (cp + 8) m"
proof (induction "is" arbitrary: m r)
  case (Cons i "is")
  obtain b r1 where b: "rnd r = (b, r1)" by fastforce
  let ?m = "take (cp + (7 - i)) m @ [b] @ drop (cp + (7 - i) + 1) m"
  have w: "mem_write m (cp + (7 - i)) [b] = Inr ?m" using Cons.prems by (simp add: mem_write_def)
  have l: "length ?m = length m" using Cons.prems by simp
  have "i < 8" using Cons.prems by simp
  then have i7: "cp \<le> cp + 7 - i" by linarith
  have "take cp ?m = take cp m" using Cons.prems i7 by (simp add: min_absorb1)
  moreover have "drop (cp + 8) ?m = drop (cp + 8) m"
    using Cons.prems by (cases "i \<le> 7") (simp_all add: drop_append add.commute)
  ultimately show ?case
    using Cons.IH [of ?m r1] Cons.prems l w by (auto simp: b)
qed simp

lemma contents_rewrite:
  assumes "buffer_wf b" and "length m = length (b_buf b)"
    and "take (unat (b_offset b)) m = take (unat (b_offset b)) (b_buf b)"
    and "drop (unat (b_offset b) + 8) m = drop (unat (b_offset b) + 8) (b_buf b)" and "8 \<le> length (contents b)"
  shows "buffer_wf (b\<lparr>b_buf := m\<rparr>)" and "length (contents (b\<lparr>b_buf := m\<rparr>)) = length (contents b)"
    and "drop 8 (contents (b\<lparr>b_buf := m\<rparr>)) = drop 8 (contents b)"
proof -
  show wf: "buffer_wf (b\<lparr>b_buf := m\<rparr>)" using assms by (simp add: buffer_wf_def)
  show "length (contents (b\<lparr>b_buf := m\<rparr>)) = length (contents b)"
    using buffer_wfD(3) [OF wf] buffer_wfD(3) [OF assms(1)] by simp
  show "drop 8 (contents (b\<lparr>b_buf := m\<rparr>)) = drop 8 (contents b)"
    using assms(4) by (simp add: contents_def drop_take add.commute)
qed

section \<open>What sending appends to the output\<close>

text \<open>
  \<open>framed E cc0 pad body c cc1\<close>: \<open>c\<close> is the packet on the wire whose payload is \<open>body\<close>: its length,
  and the padding, the payload and the checksum, encrypted by the context \<open>cc0\<close>.
\<close>

definition pad_length :: "nat \<Rightarrow> nat" where
  "pad_length n = 8 - (n + 4) mod 8"

definition plain_packet :: "byte list \<Rightarrow> byte list \<Rightarrow> byte list" where
  "plain_packet pad body = pad @ body @ PUT_32BIT (crc32 (pad @ body))"

definition frame :: "byte list \<Rightarrow> byte list \<Rightarrow> byte list" where
  "frame body dest = PUT_32BIT (of_nat (length body + 4)) @ dest"

lemma round_up_8: "8 - n mod 8 + n = 8 * (1 + n div 8)" for n :: nat
proof -
  define q r where "q = n div 8" and "r = n mod 8"
  then have "n = 8 * q + r" "r < 8" by simp_all
  then have "8 - r + n = 8 * (1 + q)" by simp
  then show ?thesis by (simp only: q_def r_def)
qed

lemma pad_length_bounds: "1 \<le> pad_length n" "pad_length n \<le> 8"
proof -
  have "(n + 4) mod 8 < 8" by simp
  then show "1 \<le> pad_length n" unfolding pad_length_def by linarith
qed (simp add: pad_length_def)

lemma length_plain_packet:
  "length pad = pad_length (length body) \<Longrightarrow> 8 dvd length (plain_packet pad body)"
proof -
  assume "length pad = pad_length (length body)"
  then have "length (plain_packet pad body) = 8 - (length body + 4) mod 8 + (length body + 4)"
    by (simp add: plain_packet_def pad_length_def)
  also have "\<dots> = 8 * (1 + (length body + 4) div 8)"
    by (rule round_up_8)
  finally show ?thesis by simp
qed

lemma packet_pad_contents:
  assumes "small_buffer b" and "8 \<le> length (contents b)" and "n \<le> 8"
  shows "\<exists>m r'. (if random then packet_pad rnd (unat (b_offset b)) [0..<n] (b_buf b) r else Inr (b_buf b, r)) = Inr (m, r') \<and>
     small_buffer (b\<lparr>b_buf := m\<rparr>) \<and> length (contents (b\<lparr>b_buf := m\<rparr>)) = length (contents b) \<and>
     drop 8 (contents (b\<lparr>b_buf := m\<rparr>)) = drop 8 (contents b)"
proof (cases random)
  case True
  have wf: "buffer_wf b" using assms(1) by (simp add: small_buffer_def)
  have "unat (b_offset b) + 8 \<le> length (b_buf b)" using assms(2) buffer_wfD [OF wf] by simp
  with packet_pad_ok [of "unat (b_offset b)" "b_buf b" "[0..<n]" rnd r] assms(3) obtain m r' where
    m: "packet_pad rnd (unat (b_offset b)) [0..<n] (b_buf b) r = Inr (m, r')" "length m = length (b_buf b)"
      "take (unat (b_offset b)) m = take (unat (b_offset b)) (b_buf b)"
      "drop (unat (b_offset b) + 8) m = drop (unat (b_offset b) + 8) (b_buf b)" by auto
  from contents_rewrite [OF wf m(2-4) assms(2)] m(1) True assms(1) show ?thesis by (auto simp: small_buffer_def)
next
  case False
  with assms show ?thesis by simp
qed

lemma drop_split: "c = a @ body \<Longrightarrow> length a = 8 \<Longrightarrow> drop (8 - k) c = drop (8 - k) a @ body"
  by simp

lemma packet_finish_ok:
  assumes wf: "packet_wf s" and out: "contents (p_outgoing_packet s) = eight @ body" "length eight = 8"
    and body: "length body \<le> 260000" and cc: "keyed (e_cfg E) (p_send_context s)"
    and queue: "length (contents (p_output s)) \<le> 2 ^ 24"
  shows "\<exists>pad dest cc' out' op' r'. packet_finish E s = Inr (s\<lparr>p_random_state := r', p_send_context := cc', p_output := out',
        p_outgoing_packet := op'\<rparr>) \<and> length pad = pad_length (length body) \<and>
     cipher_encrypt (e_cfg E) (p_send_context s) (plain_packet pad body) = Inr (dest, cc') \<and>
     contents out' = contents (p_output s) @ frame body dest \<and> contents op' = [] \<and> small_buffer out' \<and> small_buffer op' \<and>
     length dest = length (plain_packet pad body) \<and> keyed (e_cfg E) cc'"
proof -
  let ?op = "p_outgoing_packet s" and ?n = "length body + 4" and ?pad = "pad_length (length body)"
  have small: "small_buffer ?op" "small_buffer (p_output s)" using wf by (simp_all add: packet_wf_def)
  have "buffer_len ?op + 4 - 8 = of_nat ?n"
    by (simp add: small_len_eq [OF small(1)] out)
  moreover have un: "unat (of_nat ?n :: u32) = ?n" using body by (intro unat_of_nat_small) simp
  moreover have "\<not> sint (of_nat ?n :: u32) < 0" using body by (subst sint_of_nat_small) simp_all
  moreover define L where "L = buffer_len ?op + 4 - 8"
  ultimately have len: "\<not> sint L < 0" "8 - unat L mod 8 = ?pad" "L = of_nat ?n"
    by (simp_all add: pad_length_def del: of_nat_add)
  have p8: "?pad \<le> 8" "1 \<le> ?pad" by (rule pad_length_bounds)+
  have "8 \<le> length (contents ?op)" using out by simp
  from packet_pad_contents [OF small(1) this p8(1), of "p_cipher_type s \<noteq> 0" "e_random E" "p_random_state s"]
  obtain m r' where m: "(if p_cipher_type s \<noteq> 0 then packet_pad (e_random E) (unat (b_offset ?op)) [0..<?pad] (b_buf ?op) (p_random_state s)
       else Inr (b_buf ?op, p_random_state s)) = Inr (m, r')"
    and op0: "small_buffer (?op\<lparr>b_buf := m\<rparr>)" "length (contents (?op\<lparr>b_buf := m\<rparr>)) = length (contents ?op)"
      "drop 8 (contents (?op\<lparr>b_buf := m\<rparr>)) = drop 8 (contents ?op)" by blast
  have c8: "unat (of_nat (8 - ?pad) :: u32) = 8 - ?pad" by (intro unat_of_nat_small) simp
  then obtain op1 where op1: "buffer_consume (?op\<lparr>b_buf := m\<rparr>) (of_nat (8 - ?pad)) = Inr op1" "small_buffer op1"
    "contents op1 = drop (8 - ?pad) (contents (?op\<lparr>b_buf := m\<rparr>))"
    using small_consume [OF op0(1), of "of_nat (8 - ?pad)", unfolded c8] op0(2) out trans_le_add1 [OF diff_le_self] by auto
  define pad where "pad = drop (8 - ?pad) (take 8 (contents (?op\<lparr>b_buf := m\<rparr>)))"
  have pad: "length pad = ?pad" using op0(2) out p8 by (simp add: pad_def)
  have "contents (?op\<lparr>b_buf := m\<rparr>) = take 8 (contents (?op\<lparr>b_buf := m\<rparr>)) @ body"
    using op0(3) out append_take_drop_id [of 8 "contents (?op\<lparr>b_buf := m\<rparr>)"] by simp
  moreover have "length (take 8 (contents (?op\<lparr>b_buf := m\<rparr>))) = 8" using op0(2) out by simp
  ultimately have op1c: "contents op1 = pad @ body"
    unfolding op1(3) pad_def by (metis drop_split)
  define plain where "plain = plain_packet pad body"
  have pl: "length plain = ?pad + length body + 4" by (simp add: plain_def plain_packet_def pad)
  have "length (contents op1) + 4 \<le> 260020" using op1c pad p8 body by simp
  then obtain op2 where op2: "buffer_append op1 (PUT_32BIT (crc32 (pad @ body))) 4 = Inr op2" "small_buffer op2"
    "contents op2 = plain"
    using small_put [OF op1(2), of "PUT_32BIT (crc32 (pad @ body))"] by (auto simp: op1c plain_def plain_packet_def)
  obtain out1 where out1: "buffer_append (p_output s) (PUT_32BIT L) 4 = Inr out1" "small_buffer out1"
    "contents out1 = contents (p_output s) @ PUT_32BIT L"
    using small_put [OF small(2), of "PUT_32BIT L"] queue by auto
  have "8 dvd length plain" unfolding plain_def using pad by (intro length_plain_packet)
  then obtain dest cc' where enc: "cipher_encrypt (e_cfg E) (p_send_context s) plain = Inr (dest, cc')"
    "length dest = length plain" "keyed (e_cfg E) cc'"
    using cipher_inverse [OF cc] by blast
  have "3 * (length (contents out1) + length dest) + 4096 \<le> room"
    using queue out1(3) enc(2) pl p8 body by simp
  then obtain p out2 m2 where out2: "buffer_append_space out1 (of_nat (length dest)) = Inr (p, out2)"
    "mem_write (b_buf out2) (unat p) dest = Inr m2" "small_buffer (out2\<lparr>b_buf := m2\<rparr>)"
    "contents (out2\<lparr>b_buf := m2\<rparr>) = contents out1 @ dest"
    using small_space [OF out1(2)] by blast
  have l2: "buffer_len op2 = of_nat (length dest)" using small_len_eq [OF op2(2)] op2(3) enc(2) by simp
  have read: "mem_read (buffer_ptr op1) 0 (unat (buffer_len op1)) = Inr (pad @ body)"
    "mem_read (buffer_ptr op2) 0 (unat (buffer_len op2)) = Inr plain"
    using buffer_read_all [of op1] buffer_read_all [of op2] op1 op2 op1c by (simp_all add: small_buffer_def)
  have pe: "packet_encrypt E (p_send_context s) plain = Inr (dest, cc')"
    using \<open>8 dvd length plain\<close> enc(1) by (simp add: packet_encrypt_def dvd_eq_mod_eq_0)
  have "packet_finish E s = Inr (s\<lparr>p_random_state := r', p_send_context := cc', p_output := out2\<lparr>b_buf := m2\<rparr>,
      p_outgoing_packet := buffer_clear op2\<rparr>)"
    unfolding packet_finish_def L_def [symmetric] Let_def
    by (simp only: len(1,2) if_False m op1(1) read read(2) [unfolded l2] op2(1) rbind_simps split out1(1) l2 out2(1,2) pe)
  moreover have "contents (out2\<lparr>b_buf := m2\<rparr>) = contents (p_output s) @ frame body dest"
    by (simp add: out2(4) out1(3) frame_def len(3))
  ultimately show ?thesis
    using pad enc op2(2) out2(3) unfolding plain_def by (intro exI conjI) (assumption | simp)+
qed

section \<open>What receiving takes off the input\<close>

lemma and_not_mask: "w AND NOT (mask n) = push_bit n (drop_bit n w)" for w :: "'a::len word"
  by (rule bit_word_eqI) (auto simp: bit_simps)

lemma padded_length:
  assumes "n \<le> 2 ^ 20" and "4 \<le> n"
  shows "(of_nat n + 8 :: u32) AND NOT 7 = of_nat (pad_length (n - 4) + n)"
proof -
  have m: "(7 :: u32) = mask 3" by (simp add: mask_eq_exp_minus_1)
  have u: "unat (of_nat n + 8 :: u32) = n + 8"
    using assms by (simp add: unat_word_ariths unat_of_nat)
  have "unat ((of_nat n + 8 :: u32) AND NOT 7) = take_bit LENGTH(32) ((n + 8) div 2 ^ 3 * 2 ^ 3)"
  proof -
    have t: "take_bit LENGTH(32) (n + 8) = n + 8" using assms(1) by (intro take_bit_nat_eq_self) simp
    show ?thesis unfolding m and_not_mask unsigned_push_bit_eq unsigned_drop_bit_eq u t
      unfolding push_bit_eq_mult drop_bit_eq_div ..
  qed
  also have "(n + 8) div 2 ^ 3 * 2 ^ 3 = 8 * ((n + 8) div 8)" by simp
  also have "8 * ((n + 8) div 8) = pad_length (n - 4) + n"
    using round_up_8 [of n] assms(2) div_add_self2 [of 8 n] by (simp add: pad_length_def)
  also have "take_bit LENGTH(32) (pad_length (n - 4) + n) = unat (of_nat (pad_length (n - 4) + n) :: u32)"
    by (simp only: unsigned_of_nat of_nat_id)
  finally show ?thesis by (rule unat_eqI)
qed

lemma length_plain_packet_eq [simp]: "length (plain_packet pad body) = length pad + length body + 4"
  by (simp add: plain_packet_def)

lemma packet_take_prefix:
  assumes wf: "packet_wf r" and inp: "contents (p_input r) = frame body dest @ rest" and empty: "contents (p_incoming_packet r) = []"
    and dest: "length dest \<le> 270000"
  shows "\<exists>in1 p ip1. buffer_consume (p_input r) 4 = Inr in1 \<and> small_buffer in1 \<and> contents in1 = dest @ rest \<and>
     buffer_len (p_incoming_packet r) = 0 \<and> mem_read (buffer_ptr in1) 0 (unat (of_nat (length dest) :: u32)) = Inr dest \<and>
     buffer_append_space (buffer_clear (p_incoming_packet r)) (of_nat (length dest)) = Inr (p, ip1) \<and>
     (\<forall>x. length x = length dest \<longrightarrow> (\<exists>m. mem_write (b_buf ip1) (unat p) x = Inr m \<and> small_buffer (ip1\<lparr>b_buf := m\<rparr>) \<and>
        contents (ip1\<lparr>b_buf := m\<rparr>) = x))"
proof -
  have small: "small_buffer (p_input r)" "small_buffer (p_incoming_packet r)" using wf by (simp_all add: packet_wf_def)
  have c4: "unat (4 :: u32) \<le> length (contents (p_input r))" by (simp add: inp frame_def)
  from small_consume [OF small(1) this] obtain in1 where in1: "buffer_consume (p_input r) 4 = Inr in1" "small_buffer in1"
    "contents in1 = dest @ rest" by (auto simp: inp frame_def)
  have e0: "buffer_len (p_incoming_packet r) = 0" by (simp add: small_len_eq [OF small(2)] empty)
  have space: "\<exists>p b' m. buffer_append_space (buffer_clear (p_incoming_packet r)) (of_nat (length x)) = Inr (p, b') \<and>
     mem_write (b_buf b') (unat p) x = Inr m \<and> small_buffer (b'\<lparr>b_buf := m\<rparr>) \<and> contents (b'\<lparr>b_buf := m\<rparr>) = x"
    if "length x = length dest" for x :: "byte list"
    using small_space [OF small_clear [OF small(2)], of x] dest that by simp
  then obtain p ip1 where ip1: "buffer_append_space (buffer_clear (p_incoming_packet r)) (of_nat (length dest)) = Inr (p, ip1)"
    by blast
  have "unat (of_nat (length dest) :: u32) = length dest" using dest by (intro unat_of_nat_small) simp
  then have r1: "mem_read (buffer_ptr in1) 0 (unat (of_nat (length dest) :: u32)) = Inr dest"
    using small_read [OF in1(2), of 0 "length dest"] by (simp add: in1(3))
  have "\<forall>x. length x = length dest \<longrightarrow> (\<exists>m. mem_write (b_buf ip1) (unat p) x = Inr m \<and> small_buffer (ip1\<lparr>b_buf := m\<rparr>) \<and>
        contents (ip1\<lparr>b_buf := m\<rparr>) = x)"
    using space ip1 by (metis Pair_inject sum.inject(2))
  with in1 e0 r1 ip1 show ?thesis by blast
qed

lemma packet_take_refused:
  assumes "packet_wf r" and "contents (p_input r) = frame body dest @ rest" and "contents (p_incoming_packet r) = []"
    and "length dest \<le> 270000" and "packet_decrypt E (p_attack_detector r) (p_receive_context r) dest = Inl e"
  shows "packet_take E r len (of_nat (length dest)) = Inl e"
  using packet_take_prefix [OF assms(1-4)] by (auto simp: packet_take_def assms(5))

lemma packet_take_ok:
  assumes wf: "packet_wf r" and inp: "contents (p_input r) = frame body dest @ rest" and empty: "contents (p_incoming_packet r) = []"
    and dec: "packet_decrypt E (p_attack_detector r) (p_receive_context r) dest = Inr (plain_packet pad body, cc', det')"
    and pad: "length pad = pad_length (length body)" and dest: "length dest = length (plain_packet pad body)"
    and body: "length body \<le> 262140"
  shows "\<exists>inb ip. packet_take E r (of_nat (length body + 4)) (of_nat (length dest)) = Inr (r\<lparr>p_input := inb,
       p_incoming_packet := ip, p_receive_context := cc', p_attack_detector := det'\<rparr>) \<and>
     small_buffer inb \<and> small_buffer ip \<and> contents inb = rest \<and> contents ip = body"
proof -
  let ?len = "of_nat (length body + 4) :: u32" and ?pl = "of_nat (length dest) :: u32" and ?plain = "plain_packet pad body"
  have small: "small_buffer (p_input r)" "small_buffer (p_incoming_packet r)" using wf by (simp_all add: packet_wf_def)
  have p8: "length pad \<le> 8" by (simp add: pad pad_length_bounds)
  have u: "unat ?len = length body + 4" "unat ?pl = length dest"
    using body dest p8 by (simp_all only: length_plain_packet_eq) (intro unat_of_nat_small, simp)+
  have "length dest \<le> 270000" using body dest p8 by simp
  from packet_take_prefix [OF wf inp empty this] dest obtain in1 p ip1 m where
    in1: "buffer_consume (p_input r) 4 = Inr in1" "small_buffer in1" "contents in1 = dest @ rest" and
    e0: "buffer_len (p_incoming_packet r) = 0" and r1: "mem_read (buffer_ptr in1) 0 (unat ?pl) = Inr dest" and
    ip1: "buffer_append_space (buffer_clear (p_incoming_packet r)) ?pl = Inr (p, ip1)" "mem_write (b_buf ip1) (unat p) ?plain = Inr m"
      "small_buffer (ip1\<lparr>b_buf := m\<rparr>)" "contents (ip1\<lparr>b_buf := m\<rparr>) = ?plain"
    by metis
  from small_consume [OF in1(2), of ?pl] obtain in2 where in2: "buffer_consume in1 ?pl = Inr in2" "small_buffer in2" "contents in2 = rest"
    by (auto simp: u in1(3))
  have l: "buffer_len (ip1\<lparr>b_buf := m\<rparr>) = of_nat (length ?plain)" using small_len_eq [OF ip1(3)] ip1(4) by simp
  have u4: "unat (buffer_len (ip1\<lparr>b_buf := m\<rparr>) - 4) = length pad + length body"
  proof -
    have "buffer_len (ip1\<lparr>b_buf := m\<rparr>) - 4 = of_nat (length pad + length body)" by (simp add: l)
    also have "unat \<dots> = length pad + length body" using body p8 by (intro unat_of_nat_small) simp
    finally show ?thesis .
  qed
  have r2: "mem_read (buffer_ptr (ip1\<lparr>b_buf := m\<rparr>)) 0 (length pad + length body) = Inr (pad @ body)"
    using small_read [OF ip1(3), of 0 "length pad + length body"] by (simp add: ip1(4) plain_packet_def)
  have up: "8 - (length body + 4) mod 8 = length pad" by (simp only: pad pad_length_def)
  have u8: "unat (of_nat (length pad) :: u32) = length pad" using p8 by (intro unat_of_nat_small) simp
  from small_consume [OF ip1(3), of "of_nat (length pad)"] obtain ip2 where ip2:
    "buffer_consume (ip1\<lparr>b_buf := m\<rparr>) (of_nat (length pad)) = Inr ip2" "small_buffer ip2"
    "contents ip2 = body @ PUT_32BIT (crc32 (pad @ body))"
    by (auto simp: u8 ip1(4) plain_packet_def)
  have l2: "?len = buffer_len ip2" by (simp add: small_len_eq [OF ip2(2)] ip2(3))
  have r3: "mem_read (buffer_ptr ip2) (length body) 4 = Inr (PUT_32BIT (crc32 (pad @ body)))"
    using small_read [OF ip2(2), of "length body" 4] by (simp add: ip2(3))
  from small_consume_end [OF ip2(2), of 4] obtain ip3 where ip3: "buffer_consume_end ip2 4 = Inr ip3" "small_buffer ip3" "contents ip3 = body"
    by (auto simp: ip2(3))
  have "packet_take E r ?len ?pl = Inr (r\<lparr>p_input := in2, p_incoming_packet := ip3, p_receive_context := cc', p_attack_detector := det'\<rparr>)"
    unfolding packet_take_def Let_def
    by (simp only: in1(1) e0 ip1(1,2) r1 dec in2(1) u4 r2 up ip2(1) l2 [symmetric] u(1) add_diff_cancel_right' r3 GET_PUT_32BIT ip3(1)
      rbind_simps split ensure_simps)
  with in2 ip3 show ?thesis by blast
qed

section \<open>Compression\<close>

lemma packet_compress_ok:
  assumes wf: "packet_wf s" "p_compression s" and out: "contents (p_outgoing_packet s) = eight @ body" "length eight = 8" and body: "body \<noteq> []"
    and d: "deflates (e_deflate E) (p_outgoing_stream s) body c d'" and c: "length c \<le> 260000"
  shows "\<exists>op cb. packet_compress E s = Inr (s\<lparr>p_outgoing_packet := op, p_compression_buffer := cb, p_outgoing_stream := d'\<rparr>) \<and>
     small_buffer op \<and> small_buffer cb \<and> contents op = replicate 8 0 @ c"
proof -
  have small: "small_buffer (p_outgoing_packet s)" "small_buffer (p_compression_buffer s)" using wf by (simp_all add: packet_wf_def)
  from small_consume [OF small(1), of 8] obtain o1 where o1: "buffer_consume (p_outgoing_packet s) 8 = Inr o1" "small_buffer o1"
    "contents o1 = body" by (auto simp: out)
  from small_put [OF small_clear [OF small(2)], of "replicate 8 0"] obtain b1 where
    b1: "buffer_append (buffer_clear (p_compression_buffer s)) (replicate 8 0) 8 = Inr b1" "small_buffer b1" "contents b1 = replicate 8 0"
    by auto
  obtain b2 where b2: "buffer_compress (e_deflate E) (p_outgoing_stream s) o1 b1 = Inr (b2, d')" "small_buffer b2"
    "contents b2 = replicate 8 0 @ c"
    using buffer_compress_ok [of "e_deflate E" "p_outgoing_stream s" o1 c d' b1 room] d body c o1 b1 by (auto simp: small_buffer_def)
  from small_put_buffer [OF small_clear [OF o1(2)] b2(2)] obtain o2 where
    o2: "buffer_append (buffer_clear o1) (buffer_ptr b2) (buffer_len b2) = Inr o2" "small_buffer o2" "contents o2 = replicate 8 0 @ c"
    using c by (auto simp: b2(3))
  have "packet_compress E s = Inr (s\<lparr>p_outgoing_packet := o2, p_compression_buffer := b2, p_outgoing_stream := d'\<rparr>)"
    by (simp add: packet_compress_def o1(1) b1(1) b2(1) o2(1))
  with o2 b2 show ?thesis by blast
qed

lemma packet_uncompress_ok:
  assumes wf: "packet_wf r" "p_compression r" and i: "inflates (e_inflate E) (p_incoming_stream r) (contents (p_incoming_packet r)) body i'"
    and body: "length body \<le> 260000"
  shows "\<exists>ip cb. packet_uncompress E r = Inr (r\<lparr>p_incoming_packet := ip, p_compression_buffer := cb, p_incoming_stream := i'\<rparr>) \<and>
     small_buffer ip \<and> small_buffer cb \<and> contents ip = body"
proof -
  have small: "small_buffer (p_incoming_packet r)" "small_buffer (p_compression_buffer r)" using wf by (simp_all add: packet_wf_def)
  obtain b1 where b1: "buffer_uncompress (e_inflate E) (p_incoming_stream r) (p_incoming_packet r) (buffer_clear (p_compression_buffer r)) = Inr (b1, i')"
    "small_buffer b1" "contents b1 = body"
    using buffer_uncompress_ok [OF i, of "buffer_clear (p_compression_buffer r)" room] small small_clear [OF small(2)] body
    by (auto simp: small_buffer_def)
  from small_put_buffer [OF small_clear [OF small(1)] b1(2)] obtain p1 where
    p1: "buffer_append (buffer_clear (p_incoming_packet r)) (buffer_ptr b1) (buffer_len b1) = Inr p1" "small_buffer p1" "contents p1 = body"
    using body by (auto simp: b1(3))
  have "packet_uncompress E r = Inr (r\<lparr>p_incoming_packet := p1, p_compression_buffer := b1, p_incoming_stream := i'\<rparr>)"
    by (simp add: packet_uncompress_def b1(1) p1(1))
  with p1 b1 show ?thesis by blast
qed

section \<open>From one end to the other\<close>

text \<open>The sender \<open>s\<close> and the receiver \<open>r\<close> of one direction agree on cipher state and compression state.\<close>

definition in_touch :: "('d, 'i, 'r) packet_env \<Rightarrow> ('d \<Rightarrow> 'i \<Rightarrow> bool) \<Rightarrow> ('d, 'i, 'r) packet_state \<Rightarrow> ('d, 'i, 'r) packet_state \<Rightarrow> bool" where
  "in_touch E in_step s r \<longleftrightarrow>
     packet_wf s \<and> packet_wf r \<and> keyed (e_cfg E) (p_send_context s) \<and> p_receive_context r = p_send_context s \<and>
     detector_wf (p_attack_detector r) \<and> p_compression r = p_compression s \<and>
     (p_compression s \<longrightarrow> in_step (p_outgoing_stream s) (p_incoming_stream r))"

text \<open>The detector of the receiver fires on the encrypted bytes \<open>buf\<close>.\<close>

definition flagged :: "('d, 'i, 'r) packet_env \<Rightarrow> CipherContext \<Rightarrow> byte list \<Rightarrow> bool" where
  "flagged E cc buf \<longleftrightarrow> c_type cc \<noteq> SSH_CIPHER_NONE \<and>
     suspicious (\<lambda>c. check_crc (e_little_endian E) c buf (packet_attack_iv E cc)) (packet_attack_iv E cc) (blocks buf)"

lemma packet_decrypt_ok:
  assumes "cipher_decrypt (e_cfg E) cc buf = Inr (x, cc')" and "8 dvd length buf" and "length buf \<le> 262144" and "detector_wf det"
  shows "if flagged E cc buf then packet_decrypt E det cc buf = Inl (Disconnect ''crc32 compensation attack: network attack detected'')
    else \<exists>det'. packet_decrypt E det cc buf = Inr (x, cc', det') \<and> detector_wf det'"
proof (cases "c_type cc = SSH_CIPHER_NONE")
  case True
  with assms show ?thesis by (simp add: flagged_def packet_decrypt_def dvd_eq_mod_eq_0)
next
  case False
  obtain det' where d: "detect_attack (e_little_endian E) det buf (packet_attack_iv E cc) = Inr (flagged E cc buf, det')" "detector_wf det'"
    using detect_attack_result [OF assms(4,3,2), of "e_little_endian E" "packet_attack_iv E cc"] False by (auto simp: flagged_def)
  with False assms show ?thesis by (simp add: packet_decrypt_def dvd_eq_mod_eq_0)
qed

text \<open>\<open>carried E in_step s s' w body\<close>: the bytes \<open>w\<close> take the payload \<open>body\<close> to every receiver in touch with \<open>s\<close>.\<close>

definition carried :: "('d, 'i, 'r) packet_env \<Rightarrow> ('d \<Rightarrow> 'i \<Rightarrow> bool) \<Rightarrow> ('d, 'i, 'r) packet_state \<Rightarrow> ('d, 'i, 'r) packet_state \<Rightarrow>
    byte list \<Rightarrow> byte list \<Rightarrow> bool" where
  "carried E in_step s s' w body \<longleftrightarrow>
     (\<forall>r rest. in_touch E in_step s r \<longrightarrow> contents (p_input r) = w @ rest \<longrightarrow> contents (p_incoming_packet r) = [] \<longrightarrow>
        (if flagged E (p_receive_context r) (drop 4 w)
         then packet_read_once E r = Inl (Disconnect ''crc32 compensation attack: network attack detected'')
         else \<exists>r'. packet_read_once E r = packet_dispatch r' \<and> in_touch E in_step s' r' \<and> contents (p_input r') = rest \<and>
                contents (p_incoming_packet r') = body))"

text \<open>The checks that \<open>packet_read_once\<close> makes of the length.\<close>

lemma packet_read_once_take:
  assumes wf: "packet_wf r" and inp: "contents (p_input r) = frame c dest @ rest" and c: "1 \<le> length c" "length c \<le> 262132"
    and dest: "length dest = pad_length (length c) + length c + 4"
  shows "packet_read_once E r = rbind (packet_take E r (of_nat (length c + 4)) (of_nat (length dest))) (\<lambda>s.
     rbind (if p_compression s then packet_uncompress E s else Inr s) packet_dispatch)"
proof -
  let ?len = "of_nat (length c + 4) :: u32"
  have small: "small_buffer (p_input r)" using wf by (simp add: packet_wf_def)
  then have rd: "mem_read (buffer_ptr (p_input r)) 0 4 = Inr (PUT_32BIT ?len)"
    using small_read [of "p_input r" 0 4] by (simp add: inp frame_def)
  have u: "unat ?len = length c + 4" using c by (intro unat_of_nat_small) simp
  have p8: "pad_length (length c) \<le> 8" by (rule pad_length_bounds)
  have ge8: "8 \<le> length dest"
    using dest dvd_imp_le [OF length_plain_packet [of "replicate (pad_length (length c)) 0" c]] c by simp
  have checks: "(?len < 1 + 2 + 2 \<or> ?len > 256 * 1024) = False" "(buffer_len (p_input r) < 4 + 8) = False"
    using c ge8 by (simp_all only: word_less_nat_alt u small_len [OF small] inp) (auto simp: frame_def)
  have pl: "(?len + 8) AND NOT 7 = of_nat (length dest)"
    using padded_length [of "length c + 4"] c(2) dest by (simp add: add.assoc del: of_nat_add)
  have "unat (4 + of_nat (length dest) :: u32) = 4 + length dest"
    using c(2) dest p8 by (simp add: unat_word_ariths unat_of_nat)
  then have all: "(buffer_len (p_input r) < 4 + of_nat (length dest)) = False"
    by (simp add: word_less_nat_alt small_len [OF small] inp frame_def)
  show ?thesis
    unfolding packet_read_once_def Let_def rd rbind_simps GET_PUT_32BIT checks pl all if_False ..
qed

lemma packet_receive_ok:
  assumes touch: "in_touch E in_step s r" and inp: "contents (p_input r) = frame c dest @ rest" and empty: "contents (p_incoming_packet r) = []"
    and enc: "cipher_decrypt (e_cfg E) (p_send_context s) dest = Inr (plain_packet pad c, cc')"
    and pad: "length pad = pad_length (length c)" and dest: "length dest = length (plain_packet pad c)"
    and c: "1 \<le> length c" "length c \<le> 260000"
  shows "if flagged E (p_receive_context r) dest
    then packet_read_once E r = Inl (Disconnect ''crc32 compensation attack: network attack detected'')
    else \<exists>inb ip det'. packet_read_once E r = (let r' = r\<lparr>p_input := inb, p_incoming_packet := ip, p_receive_context := cc',
           p_attack_detector := det'\<rparr> in rbind (if p_compression r then packet_uncompress E r' else Inr r') packet_dispatch) \<and>
       small_buffer inb \<and> small_buffer ip \<and> contents inb = rest \<and> contents ip = c \<and> detector_wf det'"
proof -
  have wf: "packet_wf r" and rc: "p_receive_context r = p_send_context s" and det: "detector_wf (p_attack_detector r)"
    using touch by (simp_all add: in_touch_def)
  have ld: "length dest = pad_length (length c) + length c + 4" using dest pad by simp
  have "8 dvd length dest" using length_plain_packet [OF pad] dest by simp
  moreover have "length dest \<le> 262144" using ld c pad_length_bounds(2) [of "length c"] by simp
  ultimately have dec: "if flagged E (p_receive_context r) dest
    then packet_decrypt E (p_attack_detector r) (p_receive_context r) dest = Inl (Disconnect ''crc32 compensation attack: network attack detected'')
    else \<exists>det'. packet_decrypt E (p_attack_detector r) (p_receive_context r) dest = Inr (plain_packet pad c, cc', det') \<and> detector_wf det'"
    using packet_decrypt_ok [OF enc [folded rc] _ _ det] by simp
  have once: "packet_read_once E r = rbind (packet_take E r (of_nat (length c + 4)) (of_nat (length dest))) (\<lambda>s.
     rbind (if p_compression s then packet_uncompress E s else Inr s) packet_dispatch)"
    using c by (intro packet_read_once_take [OF wf inp _ _ ld]) simp_all
  show ?thesis
  proof (cases "flagged E (p_receive_context r) dest")
    case True
    with dec have "packet_decrypt E (p_attack_detector r) (p_receive_context r) dest =
      Inl (Disconnect ''crc32 compensation attack: network attack detected'')" by simp
    from packet_take_refused [OF wf inp empty _ this] ld c pad_length_bounds(2) [of "length c"] True show ?thesis by (simp add: once)
  next
    case False
    with dec obtain det' where d: "packet_decrypt E (p_attack_detector r) (p_receive_context r) dest = Inr (plain_packet pad c, cc', det')"
      "detector_wf det'" by auto
    from packet_take_ok [OF wf inp empty d(1) pad dest] c obtain inb ip where
      "packet_take E r (of_nat (length c + 4)) (of_nat (length dest)) = Inr (r\<lparr>p_input := inb,
       p_incoming_packet := ip, p_receive_context := cc', p_attack_detector := det'\<rparr>)"
      "small_buffer inb" "small_buffer ip" "contents inb = rest" "contents ip = c" by auto
    with False d(2) show ?thesis by (simp add: once Let_def) blast
  qed
qed

definition same_settings :: "('d, 'i, 'r) packet_state \<Rightarrow> ('d, 'i, 'r) packet_state \<Rightarrow> bool" where
  "same_settings s s' \<longleftrightarrow> p_compression s' = p_compression s \<and> p_max_packet_size s' = p_max_packet_size s \<and>
     p_wire s' = p_wire s \<and> p_interactive_mode s' = p_interactive_mode s \<and> p_input s' = p_input s \<and>
     p_incoming_packet s' = p_incoming_packet s \<and> c_type (p_send_context s') = c_type (p_send_context s)"

lemma finish_carried:
  assumes wf: "packet_wf s" and out: "contents (p_outgoing_packet s) = eight @ c" "length eight = 8"
    and c: "1 \<le> length c" "length c \<le> 260000" and cc: "keyed (e_cfg E) (p_send_context s)"
    and queue: "length (contents (p_output s)) \<le> 2 ^ 24"
  shows "\<exists>pad dest cc' s'. packet_finish E s = Inr s' \<and> packet_wf s' \<and> same_settings s s' \<and>
     contents (p_output s') = contents (p_output s) @ frame c dest \<and> contents (p_outgoing_packet s') = [] \<and>
     p_outgoing_stream s' = p_outgoing_stream s \<and> p_send_context s' = cc' \<and> keyed (e_cfg E) cc' \<and>
     cipher_decrypt (e_cfg E) (p_send_context s) dest = Inr (plain_packet pad c, cc') \<and>
     length pad = pad_length (length c) \<and> length dest = length (plain_packet pad c)"
proof -
  obtain pad dest cc' out' op' r' where f: "packet_finish E s = Inr (s\<lparr>p_random_state := r', p_send_context := cc', p_output := out',
        p_outgoing_packet := op'\<rparr>)" and pad: "length pad = pad_length (length c)" and
     enc: "cipher_encrypt (e_cfg E) (p_send_context s) (plain_packet pad c) = Inr (dest, cc')" and
     rest: "contents out' = contents (p_output s) @ frame c dest" "contents op' = []" "small_buffer out'" "small_buffer op'"
     "length dest = length (plain_packet pad c)" "keyed (e_cfg E) cc'"
    using packet_finish_ok [OF wf out c(2) cc queue] by blast
  have "8 dvd length (plain_packet pad c)" by (rule length_plain_packet [OF pad])
  from cipher_inverse [OF cc this] enc
  have "cipher_decrypt (e_cfg E) (p_send_context s) dest = Inr (plain_packet pad c, cc')" "c_type cc' = c_type (p_send_context s)"
    by auto
  with f pad rest wf show ?thesis
    by (intro exI [of _ pad] exI [of _ dest] exI [of _ cc']
      exI [of _ "s\<lparr>p_random_state := r', p_send_context := cc', p_output := out', p_outgoing_packet := op'\<rparr>"])
      (simp add: packet_wf_def same_settings_def)
qed

lemma deflates_unique: "deflates defl z x c z' \<Longrightarrow> deflates defl z x c2 z2 \<Longrightarrow> c2 = c \<and> z2 = z'"
proof (induction arbitrary: c2 z2 rule: deflates.induct)
  case (deflates_last z x c z')
  from deflates_last.prems show ?case by (cases rule: deflates.cases) (use deflates_last.hyps in auto)
next
  case (deflates_more z x x' c z1 c' z')
  from deflates_more.prems show ?case
  proof (cases rule: deflates.cases)
    case deflates_last
    with deflates_more.hyps show ?thesis by simp
  next
    case (deflates_more y d z3 d')
    with \<open>defl z x 4096 = (Z_OK, x', c, z1)\<close> have "y = x'" "d = c" "z3 = z1" by simp_all
    with local.deflates_more deflates_more.IH show ?thesis by blast
  qed
qed

lemma carried_plain:
  assumes "\<not> p_compression s" and "1 \<le> length c" "length c \<le> 260000"
    and s': "packet_wf s'" "same_settings s s'" "p_send_context s' = cc'" "keyed (e_cfg E) cc'"
    and dec: "cipher_decrypt (e_cfg E) (p_send_context s) dest = Inr (plain_packet pad c, cc')"
    "length pad = pad_length (length c)" "length dest = length (plain_packet pad c)"
  shows "carried E in_step s s' (frame c dest) c"
  unfolding carried_def
proof (intro allI impI)
  fix r rest
  assume r: "in_touch E in_step s r" "contents (p_input r) = frame c dest @ rest" "contents (p_incoming_packet r) = []"
  have "drop 4 (frame c dest) = dest" by (simp add: frame_def)
  with packet_receive_ok [OF r dec assms(2,3)] r assms(1) s'
  show "if flagged E (p_receive_context r) (drop 4 (frame c dest))
         then packet_read_once E r = Inl (Disconnect ''crc32 compensation attack: network attack detected'')
         else \<exists>r'. packet_read_once E r = packet_dispatch r' \<and> in_touch E in_step s' r' \<and> contents (p_input r') = rest \<and>
                contents (p_incoming_packet r') = c"
    by (auto simp: in_touch_def Let_def packet_wf_def same_settings_def split: if_splits)
qed

lemma carried_compressed:
  assumes "p_compression s" and z: "zlib_streams (e_deflate E) (e_inflate E) in_step"
    and d: "deflates (e_deflate E) (p_outgoing_stream s) body c d'" and body: "body \<noteq> []" "length body \<le> 250000"
    and "1 \<le> length c" "length c \<le> 260000"
    and s': "packet_wf s'" "same_settings s s'" "p_send_context s' = cc'" "keyed (e_cfg E) cc'" "p_outgoing_stream s' = d'"
    and dec: "cipher_decrypt (e_cfg E) (p_send_context s) dest = Inr (plain_packet pad c, cc')"
    "length pad = pad_length (length c)" "length dest = length (plain_packet pad c)"
  shows "carried E in_step s s' (frame c dest) body"
  unfolding carried_def
proof (intro allI impI)
  fix r rest
  assume r: "in_touch E in_step s r" "contents (p_input r) = frame c dest @ rest" "contents (p_incoming_packet r) = []"
  have rc: "p_compression r" and "in_step (p_outgoing_stream s) (p_incoming_stream r)"
    using r(1) assms(1) by (simp_all add: in_touch_def)
  with z body(1) obtain c2 d2 i' where "deflates (e_deflate E) (p_outgoing_stream s) body c2 d2"
    "inflates (e_inflate E) (p_incoming_stream r) c2 body i'" "in_step d2 i'" unfolding zlib_streams_def by blast
  with deflates_unique [OF d] have i: "inflates (e_inflate E) (p_incoming_stream r) c body i'" "in_step d' i'" by auto
  have fd: "drop 4 (frame c dest) = dest" by (simp add: frame_def)
  show "if flagged E (p_receive_context r) (drop 4 (frame c dest))
         then packet_read_once E r = Inl (Disconnect ''crc32 compensation attack: network attack detected'')
         else \<exists>r'. packet_read_once E r = packet_dispatch r' \<and> in_touch E in_step s' r' \<and> contents (p_input r') = rest \<and>
                contents (p_incoming_packet r') = body"
  proof (cases "flagged E (p_receive_context r) dest")
    case True
    with packet_receive_ok [OF r dec assms(6,7)] show ?thesis by (simp add: fd)
  next
    case False
    with packet_receive_ok [OF r dec assms(6,7)] rc obtain inb ip det' where
      once: "packet_read_once E r = rbind (packet_uncompress E (r\<lparr>p_input := inb, p_incoming_packet := ip, p_receive_context := cc',
           p_attack_detector := det'\<rparr>)) packet_dispatch" and
      b: "small_buffer inb" "small_buffer ip" "contents inb = rest" "contents ip = c" "detector_wf det'"
      by (auto simp: Let_def)
    let ?r = "r\<lparr>p_input := inb, p_incoming_packet := ip, p_receive_context := cc', p_attack_detector := det'\<rparr>"
    have "packet_wf ?r" using r(1) b by (simp add: in_touch_def packet_wf_def)
    from packet_uncompress_ok [OF this, of E body i'] rc i(1) b(4) body(2) obtain ip2 cb where
      "packet_uncompress E ?r = Inr (?r\<lparr>p_incoming_packet := ip2, p_compression_buffer := cb, p_incoming_stream := i'\<rparr>)"
      "small_buffer ip2" "small_buffer cb" "contents ip2 = body" by auto
    with once b r(1) s' i(2) False rc show ?thesis
      by (auto simp: fd in_touch_def packet_wf_def same_settings_def assms(1))
  qed
qed

definition whole_packet :: "byte list \<Rightarrow> bool" where
  "whole_packet w \<longleftrightarrow> (\<exists>c dest. w = frame c dest \<and> 1 \<le> length c \<and> length c \<le> 255000 \<and>
     length dest = pad_length (length c) + length c + 4)"

lemma whole_packetI:
  "1 \<le> length c \<Longrightarrow> length c \<le> 255000 \<Longrightarrow> length pad = pad_length (length c) \<Longrightarrow> length dest = length (plain_packet pad c) \<Longrightarrow>
   whole_packet (frame c dest)"
  unfolding whole_packet_def by (rule exI [of _ c], rule exI [of _ dest]) simp

lemma packet_send_carried:
  assumes wf: "packet_wf s" and out: "contents (p_outgoing_packet s) = eight @ body" "length eight = 8"
    and body: "1 \<le> length body" "length body \<le> 250000" "length body + 38 < unat (p_max_packet_size s)"
    and cc: "keyed (e_cfg E) (p_send_context s)" and queue: "length (contents (p_output s)) \<le> 2 ^ 24"
    and z: "p_compression s \<Longrightarrow> zlib_streams (e_deflate E) (e_inflate E) in_step" "p_compression s \<Longrightarrow> \<exists>i. in_step (p_outgoing_stream s) i"
  shows "\<exists>w s'. packet_send E s = Inr s' \<and> packet_wf s' \<and> same_settings s s' \<and> contents (p_output s') = contents (p_output s) @ w \<and>
     contents (p_outgoing_packet s') = [] \<and> keyed (e_cfg E) (p_send_context s') \<and> carried E in_step s s' w body \<and>
     length w \<le> 260000 \<and> whole_packet w \<and> (p_compression s \<longrightarrow> (\<exists>i. in_step (p_outgoing_stream s') i))"
proof -
  have "small_buffer (p_outgoing_packet s)" using wf by (simp add: packet_wf_def)
  then have "unat (buffer_len (p_outgoing_packet s)) = length body + 8" by (simp add: small_len out)
  moreover have "unat (p_max_packet_size s - 30) = unat (p_max_packet_size s) - 30"
    using body(3) unat_minus_no_wrap [of 30 "p_max_packet_size s"] by (simp add: word_le_nat_alt)
  moreover have "\<not> unat (p_max_packet_size s) - 30 \<le> length body + 8" using body(3) by linarith
  ultimately have "\<not> p_max_packet_size s - 30 \<le> buffer_len (p_outgoing_packet s)" by (simp only: word_le_nat_alt) simp
  then have send: "packet_send E s = rbind (if p_compression s then packet_compress E s else Inr s) (packet_finish E)"
    by (simp add: packet_send_def)
  show ?thesis
  proof (cases "p_compression s")
    case False
    from finish_carried [OF wf out body(1) _ cc queue] body(2) obtain pad dest cc' s' where
      f: "packet_finish E s = Inr s'" "packet_wf s'" "same_settings s s'"
     "contents (p_output s') = contents (p_output s) @ frame body dest" "contents (p_outgoing_packet s') = []"
     "p_outgoing_stream s' = p_outgoing_stream s" "p_send_context s' = cc'" "keyed (e_cfg E) cc'"
     "cipher_decrypt (e_cfg E) (p_send_context s) dest = Inr (plain_packet pad body, cc')"
     "length pad = pad_length (length body)" "length dest = length (plain_packet pad body)" by auto
    have "length (frame body dest) \<le> 260000" using f(10,11) body(2) pad_length_bounds(2) [of "length body"] by (simp add: frame_def)
    moreover have "carried E in_step s s' (frame body dest) body"
      using body by (intro carried_plain [OF False _ _ f(2,3,7,8,9,10,11)]) simp_all
    moreover have "whole_packet (frame body dest)" using body by (intro whole_packetI [OF _ _ f(10,11)]) simp_all
    ultimately show ?thesis using f False send by auto
  next
    case True
    have ne: "body \<noteq> []" using body(1) by auto
    with z(1) [OF True] z(2) [OF True] obtain c d' i' where c: "deflates (e_deflate E) (p_outgoing_stream s) body c d'"
      "c \<noteq> []" "length c \<le> length body + length body div 500 + 100" "in_step d' i'" unfolding zlib_streams_def by meson
    have lc: "1 \<le> length c" using c(2) by (cases c) simp_all
    have "length body div 500 \<le> 500" using div_le_mono [OF body(2), of 500] by simp
    then have lc2: "length c \<le> 255000" using c(3) body(2) by linarith
    note lc = lc lc2
    from packet_compress_ok [OF wf True out ne c(1)] lc obtain op cb where
      k: "packet_compress E s = Inr (s\<lparr>p_outgoing_packet := op, p_compression_buffer := cb, p_outgoing_stream := d'\<rparr>)"
      "small_buffer op" "small_buffer cb" "contents op = replicate 8 0 @ c" by auto
    let ?s = "s\<lparr>p_outgoing_packet := op, p_compression_buffer := cb, p_outgoing_stream := d'\<rparr>"
    have s: "packet_wf ?s" using wf k by (simp add: packet_wf_def)
    have o8: "contents (p_outgoing_packet ?s) = replicate 8 0 @ c" "length (replicate 8 (0 :: byte)) = 8" using k by simp_all
    have l: "length c \<le> 260000" using lc by simp
    have kq: "keyed (e_cfg E) (p_send_context ?s)" "length (contents (p_output ?s)) \<le> 2 ^ 24" using cc queue by simp_all
    from finish_carried [OF s o8 lc(1) l kq] obtain pad dest cc' s' where
      f: "packet_finish E ?s = Inr s'" "packet_wf s'" "same_settings ?s s'"
     "contents (p_output s') = contents (p_output ?s) @ frame c dest" "contents (p_outgoing_packet s') = []"
     "p_outgoing_stream s' = p_outgoing_stream ?s" "p_send_context s' = cc'" "keyed (e_cfg E) cc'"
     "cipher_decrypt (e_cfg E) (p_send_context ?s) dest = Inr (plain_packet pad c, cc')"
     "length pad = pad_length (length c)" "length dest = length (plain_packet pad c)" by blast
    then have f: "packet_finish E ?s = Inr s'" "packet_wf s'" "same_settings ?s s'"
     "contents (p_output s') = contents (p_output s) @ frame c dest" "contents (p_outgoing_packet s') = []"
     "p_outgoing_stream s' = d'" "p_send_context s' = cc'" "keyed (e_cfg E) cc'"
     "cipher_decrypt (e_cfg E) (p_send_context s) dest = Inr (plain_packet pad c, cc')"
     "length pad = pad_length (length c)" "length dest = length (plain_packet pad c)" by simp_all
    have same: "same_settings s s'" using f(3) by (simp add: same_settings_def)
    have "length (frame c dest) \<le> 260000" using f(10,11) lc pad_length_bounds(2) [of "length c"] by (simp add: frame_def)
    moreover have "carried E in_step s s' (frame c dest) body"
      by (rule carried_compressed [OF True z(1) [OF True] c(1) ne body(2) lc(1) l f(2) same f(7,8,6,9,10,11)])
    moreover have "whole_packet (frame c dest)" by (rule whole_packetI [OF lc f(10,11)])
    ultimately show ?thesis using f True send k(1) same c(4) by auto
  qed
qed

end
