(* ===== verification/Peers.thy ===== *)
theory Peers
  imports PacketRound
begin

text \<open>
  Two ends of a connection: messages made of fields with the \<^verbatim>\<open>packet_put\<close> functions of \<^verbatim>\<open>packet.c\<close>
  at one end, read with its \<^verbatim>\<open>packet_get\<close> functions at the other.
\<close>

section \<open>Messages as lists of fields\<close>

datatype field = F_char byte | F_int u32 | F_string "byte list" | F_mp nat

fun field_bytes :: "field \<Rightarrow> byte list" where
  "field_bytes (F_char c) = [c]"
| "field_bytes (F_int v) = PUT_32BIT v"
| "field_bytes (F_string str) = PUT_32BIT (of_nat (length str)) @ str"
| "field_bytes (F_mp v) = PUT_16BIT (of_nat (bit_length v)) @ hex_to_bytes (hex_digits v)"

fun field_ok :: "field \<Rightarrow> bool" where
  "field_ok (F_string str) = (length str \<le> 256 * 1024)"
| "field_ok (F_mp v) = (bit_length v < 2 ^ 16)"
| "field_ok _ = True"

fun put_field :: "('d, 'i, 'r) packet_state \<Rightarrow> field \<Rightarrow> ('d, 'i, 'r) packet_state res" where
  "put_field s (F_char c) = packet_put_char s (ucast c)"
| "put_field s (F_int v) = packet_put_int s v"
| "put_field s (F_string str) = packet_put_string s str"
| "put_field s (F_mp v) = packet_put_mp_int s v"

text \<open>The reader knows which kinds of fields to expect, here from a list of fields of those kinds.\<close>

fun get_field :: "('d, 'i, 'r) packet_state \<Rightarrow> field \<Rightarrow> (field \<times> ('d, 'i, 'r) packet_state) res" where
  "get_field r (F_char c) = rbind (packet_get_char r) (\<lambda>(c, r). Inr (F_char c, r))"
| "get_field r (F_int v) = rbind (packet_get_int r) (\<lambda>(v, r). Inr (F_int v, r))"
| "get_field r (F_string str) = rbind (packet_get_string r) (\<lambda>(str, r). Inr (F_string str, r))"
| "get_field r (F_mp v) = rbind (packet_get_mp_int r) (\<lambda>(v, r). Inr (F_mp v, r))"

fun put_fields :: "('d, 'i, 'r) packet_state \<Rightarrow> field list \<Rightarrow> ('d, 'i, 'r) packet_state res" where
  "put_fields s [] = Inr s"
| "put_fields s (f # fs) = rbind (put_field s f) (\<lambda>s. put_fields s fs)"

fun get_fields :: "('d, 'i, 'r) packet_state \<Rightarrow> field list \<Rightarrow> (field list \<times> ('d, 'i, 'r) packet_state) res" where
  "get_fields r [] = Inr ([], r)"
| "get_fields r (f # fs) = rbind (get_field r f) (\<lambda>(v, r). rbind (get_fields r fs) (\<lambda>(vs, r). Inr (v # vs, r)))"

text \<open>A message of any type but those that the packet layer keeps for itself.\<close>

type_synonym message = "nat \<times> field list"

definition payload :: "message \<Rightarrow> byte list" where
  "payload m = of_nat (fst m) # concat (map field_bytes (snd m))"

definition message_ok :: "message \<Rightarrow> bool" where
  "message_ok m \<longleftrightarrow> fst m < 256 \<and> fst m \<noteq> SSH_MSG_NONE \<and> fst m \<noteq> SSH_MSG_DISCONNECT \<and> fst m \<noteq> SSH_MSG_IGNORE \<and>
     fst m \<noteq> SSH_MSG_DEBUG \<and> list_all field_ok (snd m) \<and> length (payload m) \<le> 250000"

definition send_message :: "('d, 'i, 'r) packet_env \<Rightarrow> ('d, 'i, 'r) packet_state \<Rightarrow> message \<Rightarrow> ('d, 'i, 'r) packet_state res" where
  "send_message E s m = rbind (packet_start s (fst m)) (\<lambda>s. rbind (put_fields s (snd m)) (packet_send E))"

section \<open>Writing and reading fields\<close>

lemma small_put_field:
  assumes "small_buffer b" and "3 * (length (contents b) + length (field_bytes f)) + 4096 \<le> room"
  shows "\<exists>b'. (case f of F_char c \<Rightarrow> buffer_append b [ucast (ucast c :: u32)] 1 | F_int v \<Rightarrow> buffer_put_int b v
       | F_string str \<Rightarrow> buffer_put_string b str | F_mp v \<Rightarrow> buffer_put_mp_int b v) = Inr b' \<and>
     small_buffer b' \<and> contents b' = contents b @ field_bytes f"
proof (cases f)
  case (F_char c)
  with small_put [of b "[c]"] assms show ?thesis by simp
next
  case (F_int v)
  with small_put [of b "PUT_32BIT v"] assms show ?thesis by (simp add: buffer_put_int_def put_int_via_def)
next
  case (F_string str)
  obtain b1 where b1: "buffer_append b (PUT_32BIT (of_nat (length str))) 4 = Inr b1" "small_buffer b1"
    "contents b1 = contents b @ PUT_32BIT (of_nat (length str))"
    using small_put [of b "PUT_32BIT (of_nat (length str))"] assms F_string by auto
  with small_put [of b1 str] assms F_string show ?thesis
    by (auto simp: buffer_put_string_def put_string_via_def put_int_via_def)
next
  case (F_mp v)
  obtain b1 where b1: "buffer_append b (PUT_16BIT (of_nat (bit_length v))) 2 = Inr b1" "small_buffer b1"
    "contents b1 = contents b @ PUT_16BIT (of_nat (bit_length v))"
    using small_put [of b "PUT_16BIT (of_nat (bit_length v))"] assms F_mp by auto
  with small_put [of b1 "hex_to_bytes (hex_digits v)"] assms F_mp show ?thesis
    by (auto simp: buffer_put_mp_int_def put_mp_int_via_def mp_bytes)
qed

lemma put_field_ok:
  assumes "packet_wf s" and "3 * (length (contents (p_outgoing_packet s)) + length (field_bytes f)) + 4096 \<le> room"
  shows "\<exists>b. put_field s f = Inr (s\<lparr>p_outgoing_packet := b\<rparr>) \<and> small_buffer b \<and>
     contents b = contents (p_outgoing_packet s) @ field_bytes f"
  using small_put_field [OF _ assms(2)] assms(1)
  by (cases f) (auto simp: packet_wf_def on_outgoing_def packet_put_char_def packet_put_int_def packet_put_string_def packet_put_mp_int_def)

lemma put_fields_ok:
  "packet_wf s \<Longrightarrow> 3 * (length (contents (p_outgoing_packet s)) + length (concat (map field_bytes fs))) + 4096 \<le> room \<Longrightarrow>
   \<exists>b. put_fields s fs = Inr (s\<lparr>p_outgoing_packet := b\<rparr>) \<and> small_buffer b \<and>
     contents b = contents (p_outgoing_packet s) @ concat (map field_bytes fs)"
proof (induction fs arbitrary: s)
  case Nil
  then show ?case by (auto simp: packet_wf_def intro!: exI [of _ "p_outgoing_packet s"])
next
  case (Cons f fs)
  from put_field_ok [OF Cons.prems(1), of f] Cons.prems(2) obtain b where
    b: "put_field s f = Inr (s\<lparr>p_outgoing_packet := b\<rparr>)" "small_buffer b" "contents b = contents (p_outgoing_packet s) @ field_bytes f"
    by auto
  with Cons.IH [of "s\<lparr>p_outgoing_packet := b\<rparr>"] Cons.prems show ?case by (auto simp: packet_wf_def)
qed

lemma small_get_field:
  assumes "small_buffer b" and "contents b = field_bytes f @ rest" and "field_ok f"
  shows "\<exists>b'. (case f of F_char _ \<Rightarrow> rbind (buffer_get b 1) (\<lambda>(ch, b). Inr (F_char (ch ! 0), b))
       | F_int _ \<Rightarrow> rbind (buffer_get_int b) (\<lambda>(v, b). Inr (F_int v, b))
       | F_string _ \<Rightarrow> rbind (buffer_get_string b) (\<lambda>(v, b). Inr (F_string v, b))
       | F_mp _ \<Rightarrow> rbind (buffer_get_mp_int b) (\<lambda>(v, b). Inr (F_mp v, b))) = Inr (f, b') \<and>
     small_buffer b' \<and> contents b' = rest"
proof (cases f)
  case (F_char c)
  with small_get [of b 1] assms show ?thesis by auto
next
  case (F_int v)
  with bf.get_int_law [of b] assms show ?thesis by (auto simp: small_buffer_def buffer_get_int_def)
next
  case (F_string str)
  with bf.get_string_law [of b str rest] assms show ?thesis by (auto simp: small_buffer_def buffer_get_string_def)
next
  case (F_mp v)
  with bf.get_mp_int_law [of b "bit_length v" "hex_to_bytes (hex_digits v)" rest] assms bit_length_pos mp_bytes
  show ?thesis by (auto simp: small_buffer_def buffer_get_mp_int_def)
qed

lemma get_field_ok:
  assumes "packet_wf r" and "contents (p_incoming_packet r) = field_bytes f @ rest" and "field_ok f"
  shows "\<exists>b. get_field r f = Inr (f, r\<lparr>p_incoming_packet := b\<rparr>) \<and> small_buffer b \<and> contents b = rest"
  using small_get_field [OF _ assms(2,3)] assms(1)
  by (cases f) (auto simp: packet_wf_def packet_get_char_def packet_get_int_def packet_get_string_def packet_get_mp_int_def
    rbind_eq_Inr)

lemma get_fields_ok:
  "packet_wf r \<Longrightarrow> contents (p_incoming_packet r) = concat (map field_bytes fs) \<Longrightarrow> list_all field_ok fs \<Longrightarrow>
   \<exists>b. get_fields r fs = Inr (fs, r\<lparr>p_incoming_packet := b\<rparr>) \<and> small_buffer b \<and> contents b = []"
proof (induction fs arbitrary: r)
  case Nil
  then show ?case by (auto simp: packet_wf_def intro!: exI [of _ "p_incoming_packet r"])
next
  case (Cons f fs)
  from get_field_ok [OF Cons.prems(1), of f] Cons.prems(2,3) obtain b where
    b: "get_field r f = Inr (f, r\<lparr>p_incoming_packet := b\<rparr>)" "small_buffer b" "contents b = concat (map field_bytes fs)" by auto
  with Cons.IH [of "r\<lparr>p_incoming_packet := b\<rparr>"] Cons.prems show ?case by (auto simp: packet_wf_def)
qed

section \<open>Sending and taking a message\<close>

definition ready :: "('d, 'i, 'r) packet_env \<Rightarrow> ('d, 'i, 'r) packet_state \<Rightarrow> bool" where
  "ready E s \<longleftrightarrow> packet_wf s \<and> keyed (e_cfg E) (p_send_context s) \<and> 250040 \<le> unat (p_max_packet_size s)"

lemma packet_start_ok:
  assumes "packet_wf s"
  shows "\<exists>b. packet_start s type = Inr (s\<lparr>p_outgoing_packet := b\<rparr>) \<and> small_buffer b \<and>
     contents b = replicate 8 0 @ [of_nat type]"
  using small_put [OF small_clear, of "p_outgoing_packet s" "replicate 8 0 @ [of_nat type]"] assms
  by (auto simp: packet_start_def on_outgoing_def packet_wf_def)

lemma send_message_ok:
  assumes s: "ready E s" and m: "length (payload m) \<le> 250000" and queue: "length (contents (p_output s)) \<le> 2 ^ 24"
    and z: "p_compression s \<Longrightarrow> zlib_streams (e_deflate E) (e_inflate E) in_step" "p_compression s \<Longrightarrow> \<exists>i. in_step (p_outgoing_stream s) i"
  shows "\<exists>w s'. send_message E s m = Inr s' \<and> ready E s' \<and> same_settings s s' \<and>
     contents (p_output s') = contents (p_output s) @ w \<and> carried E in_step s s' w (payload m) \<and> length w \<le> 260000 \<and> whole_packet w \<and>
     (p_compression s \<longrightarrow> (\<exists>i. in_step (p_outgoing_stream s') i))"
proof -
  have len: "1 \<le> length (payload m)" "length (payload m) \<le> 250000" using m by (simp_all add: payload_def)
  obtain b0 where b0: "packet_start s (fst m) = Inr (s\<lparr>p_outgoing_packet := b0\<rparr>)" "small_buffer b0"
    "contents b0 = replicate 8 0 @ [of_nat (fst m)]" using packet_start_ok s unfolding ready_def by blast
  have "packet_wf (s\<lparr>p_outgoing_packet := b0\<rparr>)" using s b0 by (simp add: ready_def packet_wf_def)
  from put_fields_ok [OF this, of "snd m"] len b0 obtain b where
    b: "put_fields (s\<lparr>p_outgoing_packet := b0\<rparr>) (snd m) = Inr (s\<lparr>p_outgoing_packet := b\<rparr>)" "small_buffer b"
      "contents b = replicate 8 0 @ payload m" by (auto simp: payload_def)
  let ?s = "s\<lparr>p_outgoing_packet := b\<rparr>"
  have w: "packet_wf ?s" using s b by (simp add: ready_def packet_wf_def)
  have o8: "contents (p_outgoing_packet ?s) = replicate 8 0 @ payload m" "length (replicate 8 (0 :: byte)) = 8" using b by simp_all
  have k: "length (payload m) + 38 < unat (p_max_packet_size ?s)" "keyed (e_cfg E) (p_send_context ?s)"
    "length (contents (p_output ?s)) \<le> 2 ^ 24" using s len queue by (simp_all add: ready_def)
  have z': "p_compression ?s \<Longrightarrow> zlib_streams (e_deflate E) (e_inflate E) in_step" "p_compression ?s \<Longrightarrow> \<exists>i. in_step (p_outgoing_stream ?s) i"
    using z by simp_all
  obtain w s' where "packet_send E ?s = Inr s'" "packet_wf s'" "same_settings ?s s'" "contents (p_output s') = contents (p_output ?s) @ w"
    "keyed (e_cfg E) (p_send_context s')" "carried E in_step ?s s' w (payload m)" "length w \<le> 260000" "whole_packet w"
    "p_compression ?s \<longrightarrow> (\<exists>i. in_step (p_outgoing_stream s') i)"
    using packet_send_carried [OF w o8 len k z'] by blast
  moreover have "carried E in_step s s' w (payload m) = carried E in_step ?s s' w (payload m)"
    using s b by (simp add: carried_def in_touch_def packet_wf_def ready_def)
  ultimately show ?thesis using s b0(1) b(1) by (auto simp: send_message_def ready_def same_settings_def)
qed

lemma packet_dispatch_message:
  assumes "packet_wf r" and "contents (p_incoming_packet r) = payload m" and m: "message_ok m"
  shows "\<exists>b. packet_dispatch r = Inr (Some (fst m), r\<lparr>p_incoming_packet := b\<rparr>) \<and> small_buffer b \<and>
     contents b = concat (map field_bytes (snd m))"
proof -
  obtain b where b: "buffer_get (p_incoming_packet r) 1 = Inr ([of_nat (fst m)], b)" "small_buffer b"
    "contents b = concat (map field_bytes (snd m))"
    using small_get [of "p_incoming_packet r" 1] assms(1,2) by (auto simp: packet_wf_def payload_def)
  have "unat (of_nat (fst m) :: byte) = fst m" using m by (intro unat_of_nat_small) (simp add: message_ok_def)
  with b m show ?thesis by (intro exI [of _ b]) (simp add: packet_dispatch_def Let_def message_ok_def)
qed

text \<open>The bytes of one message at the head of the input.\<close>

lemma packet_read_message:
  assumes "carried E in_step s s' w (payload m)" and "message_ok m" and "in_touch E in_step s r"
    and "contents (p_input r) = w @ rest" and "contents (p_incoming_packet r) = []"
  shows "if flagged E (p_receive_context r) (drop 4 w)
     then packet_read_poll E r = Inl (Disconnect ''crc32 compensation attack: network attack detected'')
     else \<exists>r'. packet_read_poll E r = Inr (fst m, r') \<and> in_touch E in_step s' r' \<and> contents (p_input r') = rest \<and>
        contents (p_incoming_packet r') = concat (map field_bytes (snd m))"
proof (cases "flagged E (p_receive_context r) (drop 4 w)")
  case True
  with assms show ?thesis by (simp add: carried_def packet_read_poll_def packet_read_loop.simps [of E r])
next
  case False
  with assms obtain r1 where r1: "packet_read_once E r = packet_dispatch r1" "in_touch E in_step s' r1" "contents (p_input r1) = rest"
    "contents (p_incoming_packet r1) = payload m" unfolding carried_def by metis
  obtain b where "packet_dispatch r1 = Inr (Some (fst m), r1\<lparr>p_incoming_packet := b\<rparr>)" "small_buffer b"
    "contents b = concat (map field_bytes (snd m))"
    using packet_dispatch_message [OF _ r1(4) assms(2)] r1(2) by (auto simp: in_touch_def)
  with r1 False show ?thesis
    by (auto simp: packet_read_poll_def packet_read_loop.simps [of E r] in_touch_def packet_wf_def)
qed

section \<open>Bytes that arrive in pieces\<close>

lemma partial_packet_waits:
  assumes wf: "packet_wf r" and w: "whole_packet w" and inp: "contents (p_input r) = take k w" and k: "k < length w"
  shows "packet_read_poll E r = Inr (SSH_MSG_NONE, r)"
proof -
  obtain c dest where f: "w = frame c dest" and c: "1 \<le> length c" "length c \<le> 255000"
    and dest: "length dest = pad_length (length c) + length c + 4" using w unfolding whole_packet_def by blast
  have small: "small_buffer (p_input r)" using wf by (simp add: packet_wf_def)
  have len: "unat (buffer_len (p_input r)) = k" using k by (simp add: small_len [OF small] inp)
  have "packet_read_once E r = Inr (Some SSH_MSG_NONE, r)"
  proof (cases "k < 12")
    case True
    then show ?thesis by (simp add: packet_read_once_def word_less_nat_alt len)
  next
    case False
    let ?len = "of_nat (length c + 4) :: u32"
    have rd: "mem_read (buffer_ptr (p_input r)) 0 4 = Inr (PUT_32BIT ?len)"
      using small_read [OF small, of 0 4] k False by (simp add: inp f frame_def)
    have u: "unat ?len = length c + 4" using c by (intro unat_of_nat_small) simp
    have p8: "pad_length (length c) \<le> 8" by (rule pad_length_bounds)
    have checks: "(?len < 1 + 2 + 2 \<or> ?len > 256 * 1024) = False" "(buffer_len (p_input r) < 4 + 8) = False"
      using c False by (simp_all only: word_less_nat_alt u len) auto
    have pl: "(?len + 8) AND NOT 7 = of_nat (length dest)"
      using padded_length [of "length c + 4"] c(2) dest by (simp add: add.assoc del: of_nat_add)
    have "unat (4 + of_nat (length dest) :: u32) = 4 + length dest"
      using c(2) dest p8 by (simp add: unat_word_ariths unat_of_nat)
    then have part: "(buffer_len (p_input r) < 4 + of_nat (length dest)) = True"
      using k by (simp add: word_less_nat_alt len f frame_def)
    show ?thesis
      unfolding packet_read_once_def Let_def rd rbind_simps GET_PUT_32BIT checks pl part if_False if_True ..
  qed
  then show ?thesis by (simp add: packet_read_poll_def packet_read_loop.simps [of E r])
qed

lemma packet_receive_message:
  assumes sent: "carried E in_step s s' w (payload m)" "whole_packet w" and m: "message_ok m"
  shows "in_touch E in_step s r \<Longrightarrow> contents (p_incoming_packet r) = [] \<Longrightarrow> [] \<notin> set cs \<Longrightarrow>
     contents (p_input r) @ concat cs = w @ rest \<Longrightarrow> length (w @ rest) \<le> 2 ^ 24 \<Longrightarrow>
     if flagged E (p_receive_context r) (drop 4 w)
     then packet_receive_loop E r (map Data cs) = Some (Inl (Disconnect ''crc32 compensation attack: network attack detected''))
     else \<exists>r' cs'. packet_receive_loop E r (map Data cs) = Some (Inr (fst m, r', map Data cs')) \<and> in_touch E in_step s' r' \<and>
        contents (p_input r') @ concat cs' = rest \<and> [] \<notin> set cs' \<and> contents (p_incoming_packet r') = concat (map field_bytes (snd m))"
proof (induction cs arbitrary: r)
  case Nil
  with packet_read_message [OF sent(1) m, of r rest] m show ?case
    by (auto simp: packet_receive_loop.simps [of E r] message_ok_def split: if_splits intro!: exI [of _ "[]"])
next
  case (Cons d cs)
  show ?case
  proof (cases "length w \<le> length (contents (p_input r))")
    case True
    with Cons.prems(4) obtain rest1 where r1: "contents (p_input r) = w @ rest1" "rest1 @ concat (d # cs) = rest"
      by (metis append_eq_append_conv_if append_take_drop_id)
    with packet_read_message [OF sent(1) m Cons.prems(1) r1(1) Cons.prems(2)] m Cons.prems(3) show ?thesis
      by (auto simp: packet_receive_loop.simps [of E r] message_ok_def split: if_splits intro!: exI [of _ "d # cs"])
  next
    case False
    then have part: "contents (p_input r) = take (length (contents (p_input r))) w"
      using Cons.prems(4) by (metis append_eq_append_conv_if nat_le_linear)
    have wf: "packet_wf r" using Cons.prems(1) by (simp add: in_touch_def)
    have poll: "packet_read_poll E r = Inr (SSH_MSG_NONE, r)"
      using partial_packet_waits [OF wf sent(2) part] False by simp
    have "length (contents (p_input r)) + length d \<le> 2 ^ 24"
      using Cons.prems(5) unfolding Cons.prems(4) [symmetric] by simp
    then obtain b where b: "buffer_append (p_input r) d (of_nat (length d)) = Inr b" "small_buffer b"
      "contents b = contents (p_input r) @ d"
      using small_put [of "p_input r" d] wf by (auto simp: packet_wf_def)
    have "packet_receive_loop E r (map Data (d # cs)) = packet_receive_loop E (r\<lparr>p_input := b\<rparr>) (map Data cs)"
      using Cons.prems(3) b(1) by (auto simp: packet_receive_loop.simps [of E r] poll packet_process_incoming_def)
    moreover have "in_touch E in_step s (r\<lparr>p_input := b\<rparr>)" using Cons.prems(1) b(2) by (simp add: in_touch_def packet_wf_def)
    ultimately show ?thesis using Cons.IH [of "r\<lparr>p_input := b\<rparr>"] Cons.prems b by simp
  qed
qed

section \<open>A whole conversation in one direction\<close>

fun send_all :: "('d, 'i, 'r) packet_env \<Rightarrow> ('d, 'i, 'r) packet_state \<Rightarrow> message list \<Rightarrow> ('d, 'i, 'r) packet_state res" where
  "send_all E s [] = Inr s"
| "send_all E s (m # ms) = rbind (send_message E s m) (\<lambda>s. send_all E s ms)"

text \<open>Reading messages that have the fields of \<open>ms\<close>, from a connection whose reads have the results \<open>rs\<close>.\<close>

fun receive_all :: "('d, 'i, 'r) packet_env \<Rightarrow> ('d, 'i, 'r) packet_state \<Rightarrow> read_result list \<Rightarrow> message list \<Rightarrow>
    (message list \<times> ('d, 'i, 'r) packet_state) res option" where
  "receive_all E r rs [] = Some (Inr ([], r))"
| "receive_all E r rs (m # ms) =
     (case packet_receive_loop E r rs of
        None \<Rightarrow> None
      | Some (Inl e) \<Rightarrow> Some (Inl e)
      | Some (Inr (type, r, rs)) \<Rightarrow>
          (case get_fields r (snd m) of
             Inl e \<Rightarrow> Some (Inl e)
           | Inr (fs, r) \<Rightarrow> map_option (map_sum id (\<lambda>(ms, r). ((type, fs) # ms, r))) (receive_all E r rs ms)))"

abbreviation (input) "attack \<equiv> Disconnect ''crc32 compensation attack: network attack detected''"

lemma send_all_carried:
  "ready E s \<Longrightarrow> list_all message_ok ms \<Longrightarrow> length (contents (p_output s)) + 260000 * length ms \<le> 2 ^ 24 \<Longrightarrow>
   (p_compression s \<longrightarrow> zlib_streams (e_deflate E) (e_inflate E) in_step \<and> (\<exists>i. in_step (p_outgoing_stream s) i)) \<Longrightarrow>
   \<exists>s' w. send_all E s ms = Inr s' \<and> contents (p_output s') = contents (p_output s) @ w \<and> length w \<le> 260000 * length ms \<and>
     (\<forall>r cs. in_touch E in_step s r \<longrightarrow> contents (p_incoming_packet r) = [] \<longrightarrow> [] \<notin> set cs \<longrightarrow> contents (p_input r) @ concat cs = w \<longrightarrow>
        (\<exists>r'. receive_all E r (map Data cs) ms = Some (Inr (ms, r'))) \<or>
        (c_type (p_send_context s) \<noteq> SSH_CIPHER_NONE \<and> receive_all E r (map Data cs) ms = Some (Inl attack)))"
proof (induction ms arbitrary: s)
  case Nil
  then show ?case by simp
next
  case (Cons m ms)
  have m: "message_ok m" "list_all message_ok ms" using Cons.prems(2) by simp_all
  obtain w s' where s': "send_message E s m = Inr s'" "ready E s'" "same_settings s s'" "contents (p_output s') = contents (p_output s) @ w"
    "carried E in_step s s' w (payload m)" "length w \<le> 260000" "whole_packet w"
    "p_compression s \<longrightarrow> (\<exists>i. in_step (p_outgoing_stream s') i)"
    using send_message_ok [OF Cons.prems(1), of m in_step] m(1) Cons.prems(3,4) by (auto simp: message_ok_def)
  have p: "p_compression s' \<longrightarrow> zlib_streams (e_deflate E) (e_inflate E) in_step \<and> (\<exists>i. in_step (p_outgoing_stream s') i)"
    "c_type (p_send_context s') = c_type (p_send_context s)" "length (contents (p_output s')) + 260000 * length ms \<le> 2 ^ 24"
    using s' Cons.prems by (auto simp: same_settings_def)
  obtain s2 v where s2: "send_all E s' ms = Inr s2" "contents (p_output s2) = contents (p_output s') @ v" "length v \<le> 260000 * length ms"
    and rec: "\<And>r cs. in_touch E in_step s' r \<Longrightarrow> contents (p_incoming_packet r) = [] \<Longrightarrow> [] \<notin> set cs \<Longrightarrow> contents (p_input r) @ concat cs = v \<Longrightarrow>
        (\<exists>r'. receive_all E r (map Data cs) ms = Some (Inr (ms, r'))) \<or>
        (c_type (p_send_context s') \<noteq> SSH_CIPHER_NONE \<and> receive_all E r (map Data cs) ms = Some (Inl attack))"
    using Cons.IH [OF s'(2) m(2) p(3,1)] by blast
  have "(\<exists>r'. receive_all E r (map Data cs) (m # ms) = Some (Inr (m # ms, r'))) \<or>
        (c_type (p_send_context s) \<noteq> SSH_CIPHER_NONE \<and> receive_all E r (map Data cs) (m # ms) = Some (Inl attack))"
    if r: "in_touch E in_step s r" "contents (p_incoming_packet r) = []" "[] \<notin> set cs" "contents (p_input r) @ concat cs = w @ v" for r cs
  proof (cases "flagged E (p_receive_context r) (drop 4 w)")
    case True
    have "length (w @ v) \<le> 2 ^ 24" using s'(6) s2(3) Cons.prems(3) by simp
    from packet_receive_message [OF s'(5,7) m(1) r this] True r(1) show ?thesis
      by (simp add: in_touch_def flagged_def)
  next
    case False
    have "length (w @ v) \<le> 2 ^ 24" using s'(6) s2(3) Cons.prems(3) by simp
    from packet_receive_message [OF s'(5,7) m(1) r this] False obtain r1 cs1 where
      r1: "packet_receive_loop E r (map Data cs) = Some (Inr (fst m, r1, map Data cs1))" "in_touch E in_step s' r1"
        "contents (p_input r1) @ concat cs1 = v" "[] \<notin> set cs1" "contents (p_incoming_packet r1) = concat (map field_bytes (snd m))"
      by auto
    then obtain b where b: "get_fields r1 (snd m) = Inr (snd m, r1\<lparr>p_incoming_packet := b\<rparr>)" "small_buffer b" "contents b = []"
      using get_fields_ok [OF _ r1(5)] m(1) by (auto simp: in_touch_def message_ok_def)
    have "in_touch E in_step s' (r1\<lparr>p_incoming_packet := b\<rparr>)" using r1(2) b(2) by (simp add: in_touch_def packet_wf_def)
    from rec [OF this _ r1(4)] r1(1,3) b p(2) show ?thesis by auto
  qed
  with s' s2 show ?case by (intro exI [of _ s2] exI [of _ "w @ v"]) auto
qed

section \<open>Bringing up a connection\<close>

text \<open>What both programs do with this layer: connect, set the session key, and perhaps compress.\<close>

definition bring_up :: "('d, 'i, 'r) packet_env \<Rightarrow> ('d, 'i, 'r) packet_state \<Rightarrow> int \<Rightarrow> int \<Rightarrow> 'r \<Rightarrow> byte list \<Rightarrow> int \<Rightarrow>
    int option \<Rightarrow> bool \<Rightarrow> ('d, 'i, 'r) packet_state res" where
  "bring_up E s fd_in fd_out rnd key cipher level is_client =
     rbind (packet_set_connection E s fd_in fd_out rnd) (\<lambda>s.
     rbind (packet_set_encryption_key E s key cipher is_client) (\<lambda>s.
     case level of None \<Rightarrow> Inr s | Some l \<Rightarrow> packet_start_compression E s l))"

lemma packet_set_connection_ok:
  "\<exists>s. packet_set_connection E (packet_statics d i r0) fd_in fd_out r = Inr s \<and> packet_wf s \<and> p_max_packet_size s = 256000 \<and>
     p_attack_detector s = detector_init \<and> \<not> p_compression s \<and> p_initialized s \<and> contents (p_output s) = [] \<and> contents (p_input s) = [] \<and>
     contents (p_incoming_packet s) = []"
  by (simp add: packet_set_connection_def packet_statics_def packet_set_interactive_def cipher_set_key_def packet_wf_def Let_def)

text \<open>The keys for receiving and for sending.\<close>

definition direction_keys :: "byte list \<Rightarrow> int \<Rightarrow> bool \<Rightarrow> byte list \<times> byte list" where
  "direction_keys key cipher is_client =
     (let h = length key div 2; first = take h key; second = take h (drop h key)
      in if cipher = SSH_CIPHER_ARCFOUR then (if is_client then (first, second) else (second, first)) else (key, key))"

lemma direction_keys_cross: "direction_keys key cipher False = prod.swap (direction_keys key cipher True)"
  by (simp add: direction_keys_def Let_def)

lemma direction_keys_ok:
  assumes "2 \<le> length key" and "length key < 2 ^ 15"
  shows "0 < length (fst (direction_keys key cipher c)) \<and> length (fst (direction_keys key cipher c)) < 2 ^ 15 \<and>
     0 < length (snd (direction_keys key cipher c)) \<and> length (snd (direction_keys key cipher c)) < 2 ^ 15"
  using assms by (auto simp: direction_keys_def Let_def)

lemma bring_up_ok:
  assumes "available (e_cfg E) cipher" and "2 \<le> length key" and "length key < 2 ^ 15"
    and "case level of None \<Rightarrow> True | Some l \<Rightarrow> 1 \<le> l \<and> l \<le> 9"
  shows "\<exists>s. bring_up E (packet_statics d i r0) a b r key cipher level c = Inr s \<and> ready E s \<and> packet_wf s \<and>
     cipher_set_key (e_cfg E) cipher (fst (direction_keys key cipher c)) False = Inr (p_receive_context s) \<and>
     cipher_set_key (e_cfg E) cipher (snd (direction_keys key cipher c)) True = Inr (p_send_context s) \<and>
     p_attack_detector s = detector_init \<and> p_compression s = (level \<noteq> None) \<and> p_initialized s \<and>
     (\<forall>l. level = Some l \<longrightarrow> p_outgoing_stream s = e_deflate_init E l \<and> p_incoming_stream s = e_inflate_init E) \<and>
     contents (p_output s) = [] \<and> contents (p_input s) = [] \<and> contents (p_incoming_packet s) = []"
proof -
  let ?k = "direction_keys key cipher c"
  obtain rc where rc: "cipher_set_key (e_cfg E) cipher (fst ?k) False = Inr rc"
    using cipher_set_key_total [OF assms(1)] direction_keys_ok [OF assms(2,3), of cipher c] by blast
  obtain sc where sc: "cipher_set_key (e_cfg E) cipher (snd ?k) True = Inr sc"
    using cipher_set_key_total [OF assms(1)] direction_keys_ok [OF assms(2,3), of cipher c] by blast
  have keyed: "keyed (e_cfg E) sc" using cipher_set_key_keyed [OF sc] by simp
  have set: "packet_set_encryption_key E s key cipher c =
      Inr (s\<lparr>p_cipher_type := cipher, p_receive_context := rc, p_send_context := sc\<rparr>)" for s
    using rc sc by (simp add: packet_set_encryption_key_def direction_keys_def Let_def split: if_splits)
  obtain s0 where s0: "packet_set_connection E (packet_statics d i r0) a b r = Inr s0" "packet_wf s0" "p_max_packet_size s0 = 256000"
     "p_attack_detector s0 = detector_init" "\<not> p_compression s0" "p_initialized s0" "contents (p_output s0) = []" "contents (p_input s0) = []"
     "contents (p_incoming_packet s0) = []" using packet_set_connection_ok by metis
  show ?thesis
  proof (cases level)
    case None
    with rc sc keyed s0 show ?thesis by (simp add: bring_up_def set ready_def packet_wf_def)
  next
    case (Some l)
    with rc sc keyed assms(4) s0 show ?thesis
      by (simp add: bring_up_def set packet_start_compression_def buffer_compress_init_def ready_def packet_wf_def)
  qed
qed

text \<open>An environment for examples: a host with four ciphers, and a codec that stores.\<close>

definition demo_env :: "bool \<Rightarrow> (unit, unit, byte) packet_env" where
  "demo_env little =
     \<lparr>e_cfg = \<lparr>with_none = True, with_idea = True, with_des = False, with_arcfour = True, with_blowfish = True\<rparr>,
      e_little_endian = little, e_deflate = store_deflate, e_inflate = store_inflate, e_deflate_init = \<lambda>_. (), e_inflate_init = (),
      e_random = \<lambda>r. (r, r + 3)\<rparr>"

lemma demo_available: "available (e_cfg (demo_env little)) c \<longleftrightarrow> c \<in> {0, 1, 3, 5, 6}"
  by (auto simp: available_def demo_env_def)

lemma demo_streams: "zlib_streams (e_deflate (demo_env little)) (e_inflate (demo_env little)) (\<lambda>_ _. True)"
  by (simp add: demo_env_def store_streams)

lemma demo_bring_up:
  "\<exists>c. bring_up (demo_env True) (packet_statics () () 0) 3 3 7 (replicate 32 5) 5 (Some 6) True = Inr c \<and> p_compression c"
  using bring_up_ok [of "demo_env True" 5 "replicate 32 5" "Some 6" "()" "()" 0 3 3 7 True] by (auto simp: demo_available)

section \<open>Properties\<close>



text \<open>Bringing up a connection leaves the two ends in agreement, for both directions at once: with any
compiled-in cipher, any key of 2 to 32767 bytes and any legal compression level, the client's sending
state matches the server's receiving state and the other way round (arcfour with separate halves of
the key), so that the conversation theorem applies.\<close>

theorem session_in_agreement:
  assumes "available (e_cfg E) cipher" and "2 \<le> length key" and "length key < 2 ^ 15"
    and "case level of None \<Rightarrow> True | Some l \<Rightarrow> 1 \<le> l \<and> l \<le> 9 \<and> in_step (e_deflate_init E l) (e_inflate_init E)"
  shows "\<exists>c s. bring_up E (packet_statics d i r) a b rc key cipher level True = Inr c \<and>
     bring_up E (packet_statics d i r) a' b' rs key cipher level False = Inr s \<and>
     in_touch E in_step c s \<and> in_touch E in_step s c \<and> ready E c \<and> ready E s \<and>
     (cipher = SSH_CIPHER_ARCFOUR \<longrightarrow> (\<exists>n. direction_keys key cipher True = (take n key, take n (drop n key)) \<and> n = length key div 2))"
proof -
  have l: "case level of None \<Rightarrow> True | Some l \<Rightarrow> 1 \<le> l \<and> l \<le> 9" using assms(4) by (auto split: option.splits)
  obtain c where c: "bring_up E (packet_statics d i r) a b rc key cipher level True = Inr c" "ready E c" "packet_wf c"
     "cipher_set_key (e_cfg E) cipher (fst (direction_keys key cipher True)) False = Inr (p_receive_context c)"
     "cipher_set_key (e_cfg E) cipher (snd (direction_keys key cipher True)) True = Inr (p_send_context c)"
     "p_attack_detector c = detector_init" "p_compression c = (level \<noteq> None)"
     "\<forall>l. level = Some l \<longrightarrow> p_outgoing_stream c = e_deflate_init E l \<and> p_incoming_stream c = e_inflate_init E"
    using bring_up_ok [OF assms(1-3) l] by blast
  obtain s where s: "bring_up E (packet_statics d i r) a' b' rs key cipher level False = Inr s" "ready E s" "packet_wf s"
     "cipher_set_key (e_cfg E) cipher (fst (direction_keys key cipher False)) False = Inr (p_receive_context s)"
     "cipher_set_key (e_cfg E) cipher (snd (direction_keys key cipher False)) True = Inr (p_send_context s)"
     "p_attack_detector s = detector_init" "p_compression s = (level \<noteq> None)"
     "\<forall>l. level = Some l \<longrightarrow> p_outgoing_stream s = e_deflate_init E l \<and> p_incoming_stream s = e_inflate_init E"
    using bring_up_ok [OF assms(1-3) l] by blast
  have "p_receive_context s = p_send_context c" "p_receive_context c = p_send_context s"
    using c(4,5) s(4,5) by (simp_all add: direction_keys_cross cipher_set_key_direction)
  with c s assms(4) show ?thesis
    by (auto simp: in_touch_def ready_def detector_init_wf direction_keys_def Let_def split: option.splits)
qed

lemma session_in_agreement_witness:
  "\<exists>c s. bring_up (demo_env True) (packet_statics () () 0) 3 3 7 (replicate 32 5) 5 (Some 6) True = Inr c \<and>
    bring_up (demo_env True) (packet_statics () () 0) 4 4 8 (replicate 32 5) 5 (Some 6) False = Inr s \<and>
    p_send_context c = p_receive_context s \<and> p_send_context s = p_receive_context c \<and> p_compression s = p_compression c"
proof -
  obtain c s where "bring_up (demo_env True) (packet_statics () () 0) 3 3 7 (replicate 32 5) 5 (Some 6) True = Inr c"
    "bring_up (demo_env True) (packet_statics () () 0) 4 4 8 (replicate 32 5) 5 (Some 6) False = Inr s"
    "in_touch (demo_env True) (\<lambda>_ _. True) c s" "in_touch (demo_env True) (\<lambda>_ _. True) s c"
    using session_in_agreement [where E = "demo_env True" and cipher = 5 and key = "replicate 32 5" and level = "Some 6" and
      in_step = "\<lambda>_ _. True" and d = "()" and i = "()" and r = 0 and a = 3 and b = 3 and rc = 7 and a' = 4 and b' = 4 and rs = 8]
    by (simp add: demo_available) blast
  then show ?thesis unfolding in_touch_def by metis
qed

end
