(* ===== verification/PacketLife.thy ===== *)
theory PacketLife
  imports Peers
begin

text \<open>
  Progress of the packet layer: writing delivers what was queued, reading returns, and the two ways in
  which a connection ends.
\<close>

section \<open>Writing\<close>

lemma packet_write_poll_ok:
  assumes wf: "packet_wf s" and n: "0 < n" and ne: "contents (p_output s) \<noteq> []"
  shows "\<exists>b. packet_write_poll s (Written n) = Inr (s\<lparr>p_output := b, p_wire := p_wire s @ take n (contents (p_output s))\<rparr>) \<and>
     small_buffer b \<and> contents b = drop n (contents (p_output s))"
proof -
  let ?c = "contents (p_output s)" and ?k = "min n (length (contents (p_output s)))"
  have small: "small_buffer (p_output s)" using wf by (simp add: packet_wf_def)
  then have bound: "length ?c < 2 ^ 27" using buffer_wfD(3) [of "p_output s"] by (simp add: small_buffer_def buffer_wf_def, linarith)
  have len: "unat (buffer_len (p_output s)) = length ?c" by (rule small_len [OF small])
  have u: "unat (of_nat ?k :: u32) = ?k" using bound by (intro unat_of_nat_small) simp
  have pos: "sint (buffer_len (p_output s)) > 0"
    unfolding small_len_eq [OF small] using bound ne by (subst sint_of_nat_small) simp_all
  obtain b where b: "buffer_consume (p_output s) (of_nat ?k) = Inr b" "small_buffer b" "contents b = drop ?k ?c"
    using small_consume [OF small, of "of_nat ?k"] u by auto
  have "mem_read (buffer_ptr (p_output s)) 0 ?k = Inr (take ?k ?c)" using small_read [OF small, of 0 ?k] by simp
  moreover have "take ?k ?c = take n ?c" "drop ?k ?c = drop n ?c" by (simp_all add: min_def)
  ultimately show ?thesis using b n pos by (intro exI [of _ b]) (simp add: packet_write_poll_def len)
qed

fun progress :: "write_result list \<Rightarrow> nat" where
  "progress [] = 0"
| "progress (Written n # ws) = n + progress ws"
| "progress (w # ws) = progress ws"

fun write_ok :: "write_result \<Rightarrow> bool" where
  "write_ok (Written n) = (0 < n)"
| "write_ok Write_again = True"
| "write_ok Write_failed = False"

lemma have_data_iff: "packet_wf s \<Longrightarrow> packet_have_data_to_write s \<longleftrightarrow> contents (p_output s) \<noteq> []"
  by (metis length_0_conv packet_have_data_to_write_def packet_wf_def small_len unat_eq_0)

lemma packet_write_again: "packet_write_poll s Write_again = Inr s"
  by (simp add: packet_write_poll_def)

lemma packet_write_loop_delivers:
  "packet_wf s \<Longrightarrow> list_all write_ok ws \<Longrightarrow> length (contents (p_output s)) \<le> progress ws \<Longrightarrow>
   \<exists>b. packet_write_loop s ws = Some (Inr (s\<lparr>p_output := b, p_wire := p_wire s @ contents (p_output s)\<rparr>)) \<and> small_buffer b \<and> contents b = []"
proof (induction ws arbitrary: s)
  case Nil
  then show ?case by (auto simp: have_data_iff packet_wf_def intro!: exI [of _ "p_output s"])
next
  case (Cons w ws)
  show ?case
  proof (cases "contents (p_output s) = []")
    case True
    with Cons.prems(1) show ?thesis by (auto simp: have_data_iff packet_wf_def intro!: exI [of _ "p_output s"])
  next
    case ne: False
    show ?thesis
    proof (cases w)
      case (Written n)
      with packet_write_poll_ok [OF Cons.prems(1) _ ne, of n] Cons.prems(2) obtain b where
        b: "packet_write_poll s w = Inr (s\<lparr>p_output := b, p_wire := p_wire s @ take n (contents (p_output s))\<rparr>)"
          "small_buffer b" "contents b = drop n (contents (p_output s))" by auto
      with Cons.IH [of "s\<lparr>p_output := b, p_wire := p_wire s @ take n (contents (p_output s))\<rparr>"] Cons.prems Written ne
      show ?thesis by (auto simp: have_data_iff packet_wf_def)
    next
      case Write_again
      with Cons.IH [of s] Cons.prems ne show ?thesis by (simp add: have_data_iff packet_write_again)
    next
      case Write_failed
      with Cons.prems show ?thesis by simp
    qed
  qed
qed

lemma write_wait_loop: "ws \<noteq> [] \<Longrightarrow> packet_have_data_to_write s \<Longrightarrow> packet_write_wait s ws = packet_write_loop s ws"
  by (cases ws) (simp_all add: packet_write_wait_def)

lemma write_wait_delivers:
  assumes "packet_wf s" and "list_all write_ok ws" and "length (contents (p_output s)) \<le> progress ws"
  shows "\<exists>b. packet_write_wait s ws = Some (Inr (s\<lparr>p_output := b, p_wire := p_wire s @ contents (p_output s)\<rparr>)) \<and>
     small_buffer b \<and> contents b = []"
proof (cases "contents (p_output s) = []")
  case True
  have "packet_write_poll s w = Inr s" for w
    using True assms(1) by (simp add: packet_write_poll_def packet_wf_def small_len_eq)
  moreover have "packet_write_loop s vs = Some (Inr s)" for vs using True assms(1) by (cases vs) (simp_all add: have_data_iff)
  ultimately have "packet_write_wait s ws = Some (Inr s)"
    using True assms(1) by (cases ws) (simp_all add: packet_write_wait_def have_data_iff)
  with True assms(1) show ?thesis by (intro exI [of _ "p_output s"]) (simp add: packet_wf_def)
next
  case False
  then have "ws \<noteq> []" using assms(3) by auto
  with False assms packet_write_loop_delivers [OF assms] show ?thesis by (simp add: write_wait_loop have_data_iff)
qed

section \<open>Reading returns\<close>

lemma packet_take_input:
  assumes "packet_take E s len padded_len = Inr s'" and small: "small_buffer (p_input s)"
  shows "small_buffer (p_input s') \<and> length (contents (p_input s')) < length (contents (p_input s))"
proof -
  from assms(1) obtain in1 in2 where c: "buffer_consume (p_input s) 4 = Inr in1" "buffer_consume in1 padded_len = Inr in2" "p_input s' = in2"
    by (auto simp: packet_take_def rbind_eq_Inr Let_def)
  have consume: "small_buffer b' \<and> unat n \<le> length (contents b) \<and> length (contents b') = length (contents b) - unat n"
    if "buffer_consume b n = Inr b'" "small_buffer b" for b b' n
  proof (cases "unat n \<le> length (contents b)")
    case True
    with small_consume [OF that(2) True] that(1) show ?thesis by auto
  next
    case False
    with buffer_consume_short [of b n] that show ?thesis by (simp add: small_buffer_def)
  qed
  from consume [OF c(1) small] have 1: "small_buffer in1" "4 \<le> length (contents (p_input s))"
    "length (contents in1) = length (contents (p_input s)) - 4" by auto
  from consume [OF c(2) 1(1)] 1 c(3) show ?thesis by auto
qed

lemma packet_read_once_input:
  assumes "packet_read_once E s = Inr (None, s')" and "small_buffer (p_input s)"
  shows "small_buffer (p_input s') \<and> length (contents (p_input s')) < length (contents (p_input s))"
proof -
  define U where "U = (\<lambda>s. if p_compression s then packet_uncompress E s else Inr s)"
  then have U: "(if p_compression t then packet_uncompress E t else Inr t) = U t" for t by simp
  obtain len padded s1 s2 where "packet_take E s len padded = Inr s1" "U s1 = Inr s2" "packet_dispatch s2 = Inr (None, s')"
    using assms(1) by (auto simp: packet_read_once_def rbind_eq_Inr Let_def U split: if_splits)
  moreover from this have "p_input s2 = p_input s1"
    by (auto simp: U_def packet_uncompress_def rbind_eq_Inr split: if_splits)
  moreover have "p_input s' = p_input s2"
    using calculation(3) by (auto simp: packet_dispatch_def packet_get_string_def rbind_eq_Inr Let_def split: if_splits)
  ultimately show ?thesis using packet_take_input [OF _ assms(2)] by simp
qed

lemma packet_read_loop_total: "small_buffer (p_input s) \<Longrightarrow> packet_read_loop E s \<noteq> None"
proof (induction "length (contents (p_input s))" arbitrary: s rule: less_induct)
  case less
  show ?case
  proof (cases "packet_read_once E s")
    case (Inl e)
    then show ?thesis by (simp add: packet_read_loop.simps [of E s])
  next
    case (Inr p)
    obtain t s' where p: "p = (t, s')" by fastforce
    show ?thesis
    proof (cases t)
      case None
      with Inr p packet_read_once_input [OF _ less.prems] less.hyps show ?thesis
        by (simp add: packet_read_loop.simps [of E s])
    next
      case (Some type)
      with Inr p show ?thesis by (simp add: packet_read_loop.simps [of E s])
    qed
  qed
qed

section \<open>Disconnecting\<close>

lemma packet_dispatch_disconnect:
  assumes "packet_wf r" and "contents (p_incoming_packet r) = payload (SSH_MSG_DISCONNECT, [F_string str])" and "length str \<le> 256 * 1024"
  shows "packet_dispatch r = Inl (Fatal (shown str))"
proof -
  obtain b where b: "buffer_get (p_incoming_packet r) 1 = Inr ([1], b)" "small_buffer b" "contents b = field_bytes (F_string str)"
    using small_get [of "p_incoming_packet r" 1] assms(1,2) by (auto simp: packet_wf_def payload_def)
  have "packet_wf (r\<lparr>p_incoming_packet := b\<rparr>)" using assms(1) b(2) by (simp add: packet_wf_def)
  from get_field_ok [OF this, of "F_string str" "[]"] b(3) assms(3) obtain b2 where
    "packet_get_string (r\<lparr>p_incoming_packet := b\<rparr>) = Inr (str, r\<lparr>p_incoming_packet := b2\<rparr>)" by (auto simp: rbind_eq_Inr)
  with b(1) show ?thesis by (simp add: packet_dispatch_def Let_def)
qed

section \<open>Properties\<close>



text \<open>Reading never hangs on what has already arrived: for every well-formed input buffer, whatever bytes it holds,
the loop of \<^verbatim>\<open>packet_read_poll\<close> ends, since each ignored message takes bytes off the input.\<close>

theorem packet_read_poll_returns:
  assumes "small_buffer (p_input s)" shows "\<exists>r. packet_read_loop E s = Some r \<and> packet_read_poll E s = r"
  using packet_read_loop_total [OF assms, of E] by (auto simp: packet_read_poll_def)

lemma packet_read_poll_returns_witness:
  "\<exists>r. packet_read_loop (demo_env True) ((packet_statics () () 0)\<lparr>p_input := buffer_init\<rparr>) = Some r"
  using packet_read_poll_returns [of "(packet_statics () () 0)\<lparr>p_input := buffer_init\<rparr>" "demo_env True"] by auto

text \<open>C36: A disconnect is heard. What \<^verbatim>\<open>packet_disconnect\<close> writes, with any text, makes the peer's next
\<^verbatim>\<open>packet_read_poll\<close> stop with that text (the first 900 characters before a NUL) as its error, and
the sender's packet layer is closed; unless the attack detector fires first.\<close>

theorem packet_disconnect_heard:
  assumes "ready E s" and "in_touch E in_step s r" and "contents (p_output s) = []" and "p_initialized s"
    and "contents (p_incoming_packet r) = []" and "list_all write_ok ws" and "260000 \<le> progress ws"
    and "p_compression s \<longrightarrow> zlib_streams (e_deflate E) (e_inflate E) in_step"
  shows "\<exists>s' w. packet_disconnect E s msg ws = Some (Inr s') \<and> \<not> p_initialized s' \<and> p_wire s' = p_wire s @ w \<and>
     (contents (p_input r) = w \<longrightarrow>
        packet_read_poll E r = Inl (if flagged E (p_receive_context r) (drop 4 w)
          then Disconnect ''crc32 compensation attack: network attack detected'' else Fatal (shown (take 1023 msg))))"
proof -
  let ?m = "(SSH_MSG_DISCONNECT, [F_string (take 1023 msg)])"
  have len: "length (payload ?m) \<le> 250000" by (simp add: payload_def)
  have z: "p_compression s \<Longrightarrow> zlib_streams (e_deflate E) (e_inflate E) in_step" "p_compression s \<Longrightarrow> \<exists>i. in_step (p_outgoing_stream s) i"
    using assms(2,8) by (auto simp: in_touch_def)
  obtain w s1 where s1: "send_message E s ?m = Inr s1" "ready E s1" "same_settings s s1" "contents (p_output s1) = w"
    "carried E in_step s s1 w (payload ?m)" "length w \<le> 260000"
    using send_message_ok [OF assms(1) len _ z] assms(3) by auto
  obtain b where b: "packet_write_wait s1 ws = Some (Inr (s1\<lparr>p_output := b, p_wire := p_wire s1 @ w\<rparr>))"
    using write_wait_delivers [of s1 ws] s1 assms(6,7) by (auto simp: ready_def)
  have "packet_disconnect E s msg ws = Some (Inr (snd (packet_close (s1\<lparr>p_output := b, p_wire := p_wire s1 @ w\<rparr>))))"
    using s1(1) b by (simp add: packet_disconnect_def send_message_def rbind_assoc)
  moreover have "p_wire s1 = p_wire s" using s1(3) by (simp add: same_settings_def)
  moreover have "packet_read_poll E r = Inl (if flagged E (p_receive_context r) (drop 4 w)
          then Disconnect ''crc32 compensation attack: network attack detected'' else Fatal (shown (take 1023 msg)))"
    if w: "contents (p_input r) = w"
  proof (cases "flagged E (p_receive_context r) (drop 4 w)")
    case True
    with s1(5) assms(2,5) w show ?thesis by (simp add: carried_def packet_read_poll_def packet_read_loop.simps [of E r])
  next
    case False
    with s1(5) assms(2,5) w obtain r1 where r1: "packet_read_once E r = packet_dispatch r1" "in_touch E in_step s1 r1"
      "contents (p_incoming_packet r1) = payload ?m" unfolding carried_def by (metis append_Nil2)
    have "packet_dispatch r1 = Inl (Fatal (shown (take 1023 msg)))"
      using packet_dispatch_disconnect [OF _ r1(3)] r1(2) by (simp add: in_touch_def)
    with r1(1) False show ?thesis by (simp add: packet_read_poll_def packet_read_loop.simps [of E r])
  qed
  ultimately show ?thesis by (intro exI [of _ "snd (packet_close (s1\<lparr>p_output := b, p_wire := p_wire s1 @ w\<rparr>))"] exI [of _ w])
    (simp add: packet_close_def)
qed

lemma packet_disconnect_heard_witness:
  "\<exists>s s' w. bring_up (demo_env True) (packet_statics () () 0) 3 3 7 (replicate 32 5) 0 None True = Inr s \<and>
     packet_disconnect (demo_env True) s (replicate 3 65) [Write_again, Written 300000] = Some (Inr s') \<and> p_wire s' = p_wire s @ w"
proof -
  obtain s where s: "bring_up (demo_env True) (packet_statics () () 0) 3 3 7 (replicate 32 5) 0 None True = Inr s" "ready (demo_env True) s"
    "cipher_set_key (e_cfg (demo_env True)) 0 (fst (direction_keys (replicate 32 5) 0 True)) False = Inr (p_receive_context s)"
    "cipher_set_key (e_cfg (demo_env True)) 0 (snd (direction_keys (replicate 32 5) 0 True)) True = Inr (p_send_context s)"
    "p_attack_detector s = detector_init" "\<not> p_compression s" "p_initialized s"
    "contents (p_output s) = []" "contents (p_input s) = []" "contents (p_incoming_packet s) = []"
    using bring_up_ok [of "demo_env True" 0 "replicate 32 5" None "()" "()" 0 3 3 7 True] by (auto simp: demo_available)
  have "p_receive_context s = p_send_context s" using s(3,4) by (simp add: direction_keys_def cipher_set_key_direction)
  with s have "in_touch (demo_env True) (\<lambda>_ _. True) s s" by (simp add: in_touch_def ready_def detector_init_wf)
  from packet_disconnect_heard [OF s(2) this s(8,7,10), of "[Write_again, Written 300000]" "replicate 3 65"] s(1,6) show ?thesis by auto
qed

text \<open>A message of type 0 is taken for \<^verbatim>\<open>SSH_MSG_NONE\<close>: a peer that sends one makes \<^verbatim>\<open>packet_read\<close> wait for the
network although the next message is complete in the input buffer, where the next
\<^verbatim>\<open>packet_read_poll\<close> would find it.\<close>

theorem type_zero_message_stalls:
  assumes "ready E s" and "in_touch E in_step s r" and "contents (p_output s) = []" and "c_type (p_send_context s) = SSH_CIPHER_NONE"
    and "contents (p_incoming_packet r) = []" and "message_ok m"
    and "p_compression s \<longrightarrow> zlib_streams (e_deflate E) (e_inflate E) in_step"
  shows "\<exists>s'. send_all E s [(0, []), m] = Inr s' \<and>
     (contents (p_input r) = contents (p_output s') \<longrightarrow>
        packet_receive_loop E r [] = None \<and>
        (\<exists>r1 r2. packet_read_poll E r = Inr (SSH_MSG_NONE, r1) \<and> packet_read_poll E r1 = Inr (fst m, r2)))"
proof -
  let ?z = "(0, []) :: message"
  have len: "length (payload ?z) \<le> 250000" "length (payload m) \<le> 250000" using assms(6) by (simp_all add: payload_def message_ok_def)
  have z: "p_compression s \<Longrightarrow> zlib_streams (e_deflate E) (e_inflate E) in_step" "p_compression s \<Longrightarrow> \<exists>i. in_step (p_outgoing_stream s) i"
    using assms(2,7) by (auto simp: in_touch_def)
  obtain w s1 where s1: "send_message E s ?z = Inr s1" "ready E s1" "same_settings s s1" "contents (p_output s1) = w"
    "carried E in_step s s1 w (payload ?z)" "length w \<le> 260000" "p_compression s \<longrightarrow> (\<exists>i. in_step (p_outgoing_stream s1) i)"
    using send_message_ok [OF assms(1) len(1) _ z] assms(3) by auto
  obtain v s2 where s2: "send_message E s1 m = Inr s2" "contents (p_output s2) = w @ v" "carried E in_step s1 s2 v (payload m)"
    using send_message_ok [OF s1(2) len(2), of in_step] s1 z by (auto simp: same_settings_def)
  have none: "\<not> flagged E cc buf" if "c_type cc = 0" for cc buf using that by (simp add: flagged_def)
  have "packet_receive_loop E r [] = None \<and>
        (\<exists>r1 r2. packet_read_poll E r = Inr (SSH_MSG_NONE, r1) \<and> packet_read_poll E r1 = Inr (fst m, r2))"
    if inp: "contents (p_input r) = w @ v"
  proof -
    have "\<not> flagged E (p_receive_context r) (drop 4 w)" using assms(2,4) by (intro none) (simp add: in_touch_def)
    with s1(5) assms(2,5) inp obtain r0 where r0: "packet_read_once E r = packet_dispatch r0" "in_touch E in_step s1 r0"
      "contents (p_input r0) = v" "contents (p_incoming_packet r0) = payload ?z" unfolding carried_def by metis
    obtain b where b: "buffer_get (p_incoming_packet r0) 1 = Inr ([0], b)" "small_buffer b" "contents b = []"
      using small_get [of "p_incoming_packet r0" 1] r0(2,4) by (auto simp: in_touch_def packet_wf_def payload_def)
    let ?r1 = "r0\<lparr>p_incoming_packet := b\<rparr>"
    have poll: "packet_read_poll E r = Inr (SSH_MSG_NONE, ?r1)"
      using b(1) r0(1) by (simp add: packet_read_poll_def packet_read_loop.simps [of E r] packet_dispatch_def Let_def)
    have t: "in_touch E in_step s1 ?r1" using r0(2) b(2) by (simp add: in_touch_def packet_wf_def)
    moreover have "\<not> flagged E (p_receive_context ?r1) (drop 4 v)"
      using t s1(3) assms(4) by (intro none) (simp add: in_touch_def same_settings_def)
    ultimately obtain r2 where "packet_read_poll E ?r1 = Inr (fst m, r2)"
      using packet_read_message [OF s2(3) assms(6), of ?r1 "[]"] r0(3) b(3) by auto
    with poll show ?thesis by (simp add: packet_receive_loop.simps [of E r])
  qed
  with s1(1) s2(1,2) show ?thesis by simp
qed

lemma type_zero_message_stalls_witness:
  "\<exists>s s'. bring_up (demo_env True) (packet_statics () () 0) 3 3 7 (replicate 32 5) 0 None True = Inr s \<and>
     send_all (demo_env True) s [(0, []), (2, [F_int 7])] = Inr s'"
proof -
  obtain s where s: "bring_up (demo_env True) (packet_statics () () 0) 3 3 7 (replicate 32 5) 0 None True = Inr s" "ready (demo_env True) s"
    "cipher_set_key (e_cfg (demo_env True)) 0 (fst (direction_keys (replicate 32 5) 0 True)) False = Inr (p_receive_context s)"
    "cipher_set_key (e_cfg (demo_env True)) 0 (snd (direction_keys (replicate 32 5) 0 True)) True = Inr (p_send_context s)"
    "p_attack_detector s = detector_init" "\<not> p_compression s"
    "contents (p_output s) = []" "contents (p_incoming_packet s) = []"
    using bring_up_ok [of "demo_env True" 0 "replicate 32 5" None "()" "()" 0 3 3 7 True] by (auto simp: demo_available)
  have c: "c_type (p_send_context s) = 0" using cipher_set_key_keyed [OF s(4)] by simp
  have "p_receive_context s = p_send_context s" using s(3,4) by (simp add: direction_keys_def cipher_set_key_direction)
  with s have t: "in_touch (demo_env True) (\<lambda>_ _. True) s s" by (simp add: in_touch_def ready_def detector_init_wf)
  have "message_ok (2, [F_int 7])" by (simp add: message_ok_def payload_def)
  from type_zero_message_stalls [OF s(2) t s(7) c s(8) this] s(1,6) show ?thesis by auto
qed

text \<open>C37: The longest packet that the length check of \<^verbatim>\<open>packet_read_poll\<close> lets pass, 256 kilobytes, is too long for the
attack detector by one block: on an encrypted connection it stops the program with a failed assertion
instead of the disconnect that a longer one gets.\<close>

theorem longest_packet_aborts:
  assumes "packet_wf r" and "contents (p_input r) = PUT_32BIT (256 * 1024) @ dest @ rest" and "length dest = 262152"
    and "contents (p_incoming_packet r) = []" and "c_type (p_receive_context r) \<noteq> SSH_CIPHER_NONE"
  shows "packet_read_poll E r = Inl (Assertion ''len <= SSH_MAXBLOCKS * SSH_BLOCKSIZE'')"
proof -
  obtain body :: "byte list" where body: "length body = 262140" using Ex_list_of_length by blast
  have inp: "contents (p_input r) = frame body dest @ rest" using assms(2) by (simp add: frame_def body)
  have small: "small_buffer (p_input r)" using assms(1) by (simp add: packet_wf_def)
  have dec: "packet_decrypt E (p_attack_detector r) (p_receive_context r) dest = Inl (Assertion ''len <= SSH_MAXBLOCKS * SSH_BLOCKSIZE'')"
    using assms(3,5) by (simp add: packet_decrypt_def detect_attack_def Let_def)
  have rd: "mem_read (buffer_ptr (p_input r)) 0 4 = Inr (PUT_32BIT (256 * 1024))"
    using small_read [OF small, of 0 4] by (simp add: assms(2))
  have ub: "unat (buffer_len (p_input r)) = 262156 + length rest" by (simp add: small_len [OF small] assms(2,3))
  have pl: "(256 * 1024 + 8 :: u32) AND NOT 7 = of_nat (length dest)" by (simp add: assms(3))
  have l: "(of_nat (length dest) :: u32) = 262152" by (simp add: assms(3))
  have checks: "((256 * 1024 :: u32) < 1 + 2 + 2 \<or> (256 * 1024 :: u32) > 256 * 1024) = False" "(buffer_len (p_input r) < 4 + 8) = False"
    "(buffer_len (p_input r) < 4 + of_nat (length dest)) = False"
    unfolding l by (simp_all add: word_less_nat_alt ub)
  have "packet_read_once E r = Inl (Assertion ''len <= SSH_MAXBLOCKS * SSH_BLOCKSIZE'')"
    using packet_take_refused [OF assms(1) inp assms(4) _ dec, of "256 * 1024"] assms(3)
    unfolding packet_read_once_def Let_def rd rbind_simps GET_PUT_32BIT checks pl if_False by simp
  then show ?thesis by (simp add: packet_read_poll_def packet_read_loop.simps [of E r])
qed

lemma longest_packet_aborts_witness:
  "\<exists>dest. length dest = 262152 \<and> packet_read_poll (demo_env True) ((packet_statics () () 0)
     \<lparr>p_receive_context := \<lparr>c_type = 3, c_u = U_None\<rparr>, p_output := buffer_init, p_outgoing_packet := buffer_init,
      p_incoming_packet := buffer_init,
      p_input := \<lparr>b_buf = PUT_32BIT (256 * 1024) @ dest @ [0], b_alloc = 262157, b_offset = 0, b_end = 262156\<rparr>\<rparr>) =
     Inl (Assertion ''len <= SSH_MAXBLOCKS * SSH_BLOCKSIZE'')"
proof -
  obtain dest :: "byte list" where d: "length dest = 262152" using Ex_list_of_length by blast
  let ?r = "(packet_statics () () 0) \<lparr>p_receive_context := \<lparr>c_type = 3, c_u = U_None\<rparr>, p_output := buffer_init, p_outgoing_packet := buffer_init,
      p_incoming_packet := buffer_init,
      p_input := \<lparr>b_buf = PUT_32BIT (256 * 1024) @ dest @ [0], b_alloc = 262157, b_offset = 0, b_end = 262156\<rparr>\<rparr>"
  have c: "\<not> p_compression (packet_statics () () 0)" by (simp add: packet_statics_def Let_def)
  have "packet_wf ?r" by (simp add: packet_wf_def c) (simp add: small_buffer_def buffer_wf_def d)
  moreover have "contents (p_input ?r) = PUT_32BIT (256 * 1024) @ dest @ []" by (simp add: contents_def d)
  ultimately have "packet_read_poll (demo_env True) ?r = Inl (Assertion ''len <= SSH_MAXBLOCKS * SSH_BLOCKSIZE'')"
    by (rule longest_packet_aborts [OF _ _ d]) simp_all
  with d show ?thesis by blast
qed

end
