(* ===== verification/Channels.thy ===== *)
theory Channels
  imports Peers
begin

text \<open>
  \<^verbatim>\<open>newchannels.c\<close>: forwarded connections. The static variables are the record \<open>channel_state\<close>; a
  \<^verbatim>\<open>Channel *\<close> into the array is an index. The buffers of a channel are byte queues, which the simulation
  of theory \<open>Buffer\<close> justifies. A packet that is sent is appended to \<open>c_sent\<close> as a message of theory
  \<open>Peers\<close>; the incoming packet is a byte queue from which the handlers take their arguments and which
  they return; what is done to sockets is recorded in \<open>c_io\<close>. The answers of the operating system are
  arguments.
\<close>

section \<open>State\<close>

datatype channel_type = FREE | X11_LISTENER | PORT_LISTENER | OPENING | OPEN | X11_OPEN | AUTH_LISTENER

abbreviation (input) "STATUS_INPUT_SOCKET_CLOSED \<equiv> 0x0001 :: u32"
abbreviation (input) "STATUS_OUTPUT_SOCKET_CLOSED \<equiv> 0x0002 :: u32"
abbreviation (input) "STATUS_EOF_SENT \<equiv> 0x0004 :: u32"
abbreviation (input) "STATUS_EOF_RECEIVED \<equiv> 0x0008 :: u32"
abbreviation (input) "STATUS_CLOSE_SENT \<equiv> 0x0010 :: u32"
abbreviation (input) "STATUS_CLOSE_RECEIVED \<equiv> 0x0020 :: u32"
abbreviation (input) "STATUS_KLUDGE_A \<equiv> 0x0040 :: u32"
abbreviation (input) "STATUS_KLUDGE_B \<equiv> 0x0080 :: u32"
abbreviation (input) "STATUS_TERMINATE \<equiv> 0x003f :: u32"

abbreviation (input) "SSH_SMSG_FAILURE \<equiv> 15 :: nat"
abbreviation (input) "SSH_SMSG_SUCCESS \<equiv> 14 :: nat"
abbreviation (input) "SSH_MSG_CHANNEL_OPEN_CONFIRMATION \<equiv> 21 :: nat"
abbreviation (input) "SSH_MSG_CHANNEL_OPEN_FAILURE \<equiv> 22 :: nat"
abbreviation (input) "SSH_MSG_CHANNEL_DATA \<equiv> 23 :: nat"
abbreviation (input) "SSH_MSG_CHANNEL_INPUT_EOF \<equiv> 24 :: nat"
abbreviation (input) "SSH_MSG_CHANNEL_OUTPUT_CLOSED \<equiv> 25 :: nat"
abbreviation (input) "SSH_MSG_CHANNEL_CLOSE_CONFIRMATION \<equiv> 25 :: nat"
abbreviation (input) "SSH_SMSG_X11_OPEN \<equiv> 27 :: nat"
abbreviation (input) "SSH_CMSG_PORT_FORWARD_REQUEST \<equiv> 28 :: nat"
abbreviation (input) "SSH_MSG_PORT_OPEN \<equiv> 29 :: nat"
abbreviation (input) "SSH_CMSG_AGENT_REQUEST_FORWARDING \<equiv> 30 :: nat"
abbreviation (input) "SSH_SMSG_AGENT_OPEN \<equiv> 31 :: nat"
abbreviation (input) "SSH_CMSG_X11_REQUEST_FORWARDING \<equiv> 34 :: nat"
abbreviation (input) "SSH_MAX_FORWARDS_PER_DIRECTION \<equiv> 100 :: nat"

record Channel =
  ch_type :: channel_type
  ch_sock :: int
  ch_remote_id :: u32
  ch_local_id :: nat
  ch_status_flags :: u32
  ch_input :: "byte list"
  ch_output :: "byte list"
  ch_path :: "byte list"
  ch_host_port :: u32
  ch_listening_port :: u32
  ch_remote_name :: "byte list option"
  ch_is_x_connection :: bool

text \<open>What is done to sockets: \<open>Shutdown fd how\<close>, \<open>Close fd\<close>, and \<open>Wrote fd bytes\<close>.\<close>

datatype io_event = Shutdown int nat | Close int | Wrote int "byte list"

text \<open>
  \<open>c_old\<close> is the bit of \<^verbatim>\<open>emulation_information\<close> for the old channel protocol; \<open>c_max_packet\<close> and
  \<open>c_interactive\<close> are what \<^verbatim>\<open>packet_max_size\<close> and \<^verbatim>\<open>packet_is_interactive\<close> answer.
  \<^verbatim>\<open>channels_alloc\<close> is the length of \<open>c_channels\<close>.
\<close>

record channel_state =
  c_channels :: "Channel list"
  c_used :: nat
  c_max_fd :: int
  c_auth_socket_name :: "string option"
  c_auth_socket_dir_name :: "string option"
  c_x11_saved_proto :: "byte list option"
  c_x11_saved_data :: "byte list"
  c_x11_fake_data :: "byte list"
  c_permitted_opens :: "(byte list \<times> u32) list"
  c_all_opens_permitted :: bool
  c_x11_forwarding_permitted :: bool
  c_auth_forwarding_permitted :: bool
  c_have_hostname_in_open :: bool
  c_old :: bool
  c_max_packet :: nat
  c_interactive :: bool
  c_sent :: "message list"
  c_io :: "io_event list"

definition channel_statics :: "bool \<Rightarrow> nat \<Rightarrow> bool \<Rightarrow> channel_state" where
  "channel_statics old max_packet interactive =
     \<lparr>c_channels = [], c_used = 0, c_max_fd = 0, c_auth_socket_name = None, c_auth_socket_dir_name = None,
      c_x11_saved_proto = None, c_x11_saved_data = [], c_x11_fake_data = [], c_permitted_opens = [],
      c_all_opens_permitted = False, c_x11_forwarding_permitted = False, c_auth_forwarding_permitted = False,
      c_have_hostname_in_open = False, c_old = old, c_max_packet = max_packet, c_interactive = interactive,
      c_sent = [], c_io = []\<rparr>"

abbreviation chan :: "channel_state \<Rightarrow> nat \<Rightarrow> Channel" where
  "chan s i \<equiv> c_channels s ! i"

definition on_chan :: "(Channel \<Rightarrow> Channel) \<Rightarrow> nat \<Rightarrow> channel_state \<Rightarrow> channel_state" where
  "on_chan f i s = s\<lparr>c_channels := (c_channels s)[i := f (c_channels s ! i)]\<rparr>"

definition send :: "nat \<Rightarrow> field list \<Rightarrow> channel_state \<Rightarrow> channel_state" where
  "send type fs s = s\<lparr>c_sent := c_sent s @ [(type, fs)]\<rparr>"

definition event :: "io_event \<Rightarrow> channel_state \<Rightarrow> channel_state" where
  "event e s = s\<lparr>c_io := c_io s @ [e]\<rparr>"

definition flag :: "u32 \<Rightarrow> Channel \<Rightarrow> bool" where
  "flag m c \<longleftrightarrow> ch_status_flags c AND m \<noteq> 0"

definition set_flag :: "u32 \<Rightarrow> Channel \<Rightarrow> Channel" where
  "set_flag m c = c\<lparr>ch_status_flags := ch_status_flags c OR m\<rparr>"

section \<open>The array of channels\<close>

definition channel_set_options :: "channel_state \<Rightarrow> bool \<Rightarrow> channel_state" where
  "channel_set_options s hostname_in_open = s\<lparr>c_have_hostname_in_open := hostname_in_open\<rparr>"

definition channel_permit_all_opens :: "channel_state \<Rightarrow> channel_state" where
  "channel_permit_all_opens s = s\<lparr>c_all_opens_permitted := True\<rparr>"

text \<open>A slot of fresh memory: only the type is set; the rest stands for whatever the memory holds.\<close>

definition free_slot :: Channel where
  "free_slot = \<lparr>ch_type = FREE, ch_sock = 0, ch_remote_id = 0, ch_local_id = 0, ch_status_flags = 0, ch_input = [], ch_output = [],
      ch_path = [], ch_host_port = 0, ch_listening_port = 0, ch_remote_name = None, ch_is_x_connection = False\<rparr>"

fun first_free :: "Channel list \<Rightarrow> nat \<Rightarrow> nat option" where
  "first_free [] i = None"
| "first_free (c # cs) i = (if ch_type c = FREE then Some i else first_free cs (i + 1))"

definition channel_allocate :: "channel_state \<Rightarrow> channel_type \<Rightarrow> int \<Rightarrow> byte list \<Rightarrow> (nat \<times> channel_state) res" where
  "channel_allocate s type sock remote_name =
     (let s = (if sock > c_max_fd s then s\<lparr>c_max_fd := sock\<rparr> else s);
          s = (if c_channels s = [] then s\<lparr>c_channels := replicate 10 free_slot\<rparr> else s);
          (i, s) = (if c_used s = length (c_channels s) then (c_used s, s\<lparr>c_channels := c_channels s @ replicate 10 free_slot\<rparr>)
                    else (0, s))
      in case first_free (drop i (c_channels s)) i of
           None \<Rightarrow> Inl (Fatal ''Internal bug in channel_allocate.'')
         | Some i \<Rightarrow> Inr (i, on_chan (\<lambda>c. c\<lparr>ch_type := type, ch_sock := sock, ch_remote_id := -1, ch_local_id := i,
              ch_status_flags := 0, ch_input := [], ch_output := [], ch_remote_name := Some remote_name,
              ch_is_x_connection := False\<rparr>) i (s\<lparr>c_used := c_used s + 1\<rparr>)))"

definition channel_free :: "channel_state \<Rightarrow> nat \<Rightarrow> channel_state res" where
  "channel_free s channel =
     rbind (ensure (channel < length (c_channels s) \<and> ch_type (chan s channel) \<noteq> FREE)
              (Assertion ''channel >= 0 && channel < channels_alloc && channels[channel].type != SSH_CHANNEL_FREE'')) (\<lambda>_.
     Inr (on_chan (\<lambda>c. c\<lparr>ch_type := FREE, ch_input := [], ch_output := [], ch_remote_name := None\<rparr>) channel
            (event (Close (ch_sock (chan s channel))) (s\<lparr>c_used := c_used s - 1\<rparr>))))"

section \<open>Closing a channel\<close>

definition channel_check_termination :: "channel_state \<Rightarrow> nat \<Rightarrow> channel_state res" where
  "channel_check_termination s i =
     (let ch = chan s i
      in if ch_status_flags ch AND STATUS_TERMINATE = STATUS_TERMINATE then
           if c_old s \<and> \<not> flag STATUS_KLUDGE_A ch then
             Inr (on_chan (\<lambda>c. c\<lparr>ch_status_flags := ch_status_flags c AND NOT (STATUS_CLOSE_RECEIVED OR STATUS_EOF_RECEIVED)\<rparr>) i s)
           else
             channel_free (if c_old s \<and> flag STATUS_KLUDGE_B ch
                           then send SSH_MSG_CHANNEL_CLOSE_CONFIRMATION [F_int (ch_remote_id ch)] s else s) (ch_local_id ch)
         else Inr s)"

definition channel_send_ieof :: "channel_state \<Rightarrow> nat \<Rightarrow> channel_state res" where
  "channel_send_ieof s i =
     (if flag STATUS_EOF_SENT (chan s i) then Inr s
      else let s = on_chan (set_flag STATUS_EOF_SENT) i s;
               s = send SSH_MSG_CHANNEL_INPUT_EOF [F_int (ch_remote_id (chan s i))] s;
               s = (if c_old s then on_chan (set_flag STATUS_CLOSE_SENT) i s else s)
           in channel_check_termination s i)"

definition channel_send_oclosed :: "channel_state \<Rightarrow> nat \<Rightarrow> channel_state res" where
  "channel_send_oclosed s i =
     (if flag STATUS_CLOSE_SENT (chan s i) then Inr s
      else let s = on_chan (set_flag STATUS_CLOSE_SENT) i s;
               s = send SSH_MSG_CHANNEL_OUTPUT_CLOSED [F_int (ch_remote_id (chan s i))] s
           in channel_check_termination s i)"

text \<open>
  With the old protocol the two functions call each other; the flags that they set first end the
  recursion, so that three levels are enough.
\<close>

fun close_input :: "nat \<Rightarrow> channel_state \<Rightarrow> nat \<Rightarrow> channel_state res"
  and close_output :: "nat \<Rightarrow> channel_state \<Rightarrow> nat \<Rightarrow> channel_state res" where
  "close_input 0 s i = Inl (Diverges ''channel_close_input'')"
| "close_input (Suc n) s i =
     (if flag STATUS_INPUT_SOCKET_CLOSED (chan s i) then Inr s
      else let s = event (Shutdown (ch_sock (chan s i)) 0) (on_chan (set_flag STATUS_INPUT_SOCKET_CLOSED) i s)
           in rbind (if ch_type (chan s i) \<noteq> OPEN then channel_send_ieof s i else Inr s) (\<lambda>s.
              if c_old s then close_output n s i else Inr s))"
| "close_output 0 s i = Inl (Diverges ''channel_close_output'')"
| "close_output (Suc n) s i =
     (if flag STATUS_OUTPUT_SOCKET_CLOSED (chan s i) then Inr s
      else let s = event (Shutdown (ch_sock (chan s i)) 1) (on_chan (set_flag STATUS_OUTPUT_SOCKET_CLOSED) i s);
               s = on_chan (\<lambda>c. c\<lparr>ch_output := []\<rparr>) i s
           in if c_old s then close_input n s i else channel_send_oclosed s i)"

definition channel_close_input :: "channel_state \<Rightarrow> nat \<Rightarrow> channel_state res" where
  "channel_close_input = close_input 3"

definition channel_close_output :: "channel_state \<Rightarrow> nat \<Rightarrow> channel_state res" where
  "channel_close_output = close_output 3"

definition channel_receive_ieof :: "channel_state \<Rightarrow> nat \<Rightarrow> channel_state res" where
  "channel_receive_ieof s i =
     (if flag STATUS_EOF_RECEIVED (chan s i) then Inl (Disconnect ''Received double input eof.'')
      else let s = on_chan (set_flag STATUS_EOF_RECEIVED) i s
           in rbind (if ch_is_x_connection (chan s i) then channel_close_input s i else Inr s) (\<lambda>s.
              rbind (if ch_type (chan s i) \<noteq> OPEN then channel_close_output s i else Inr s) (\<lambda>s.
              channel_check_termination s i)))"

definition channel_receive_oclosed :: "channel_state \<Rightarrow> nat \<Rightarrow> channel_state res" where
  "channel_receive_oclosed s i =
     (if flag STATUS_CLOSE_RECEIVED (chan s i) then Inl (Disconnect ''Received double close.'')
      else let s = on_chan (\<lambda>c. (set_flag STATUS_CLOSE_RECEIVED c)\<lparr>ch_input := []\<rparr>) i s
           in rbind (channel_close_input s i) (\<lambda>s. channel_check_termination s i))"

text \<open>The channel number that begins a message, checked against the array.\<close>

definition take_channel :: "(Channel \<Rightarrow> bool) \<Rightarrow> string \<Rightarrow> channel_state \<Rightarrow> byte list \<Rightarrow> (nat \<times> byte list) res" where
  "take_channel ok complaint s q =
     rbind (bytes_get_int q) (\<lambda>(v, q).
     let channel = sint v
     in if channel < 0 \<or> channel \<ge> int (length (c_channels s)) \<or> \<not> ok (chan s (nat channel))
        then Inl (Disconnect complaint) else Inr (nat channel, q))"

definition channel_ieof :: "channel_state \<Rightarrow> byte list \<Rightarrow> (byte list \<times> channel_state) res" where
  "channel_ieof s q =
     rbind (take_channel (\<lambda>c. ch_type c \<noteq> FREE) ''Received ieof for nonexistent channel'' s q) (\<lambda>(channel, q).
     rbind (channel_receive_ieof s channel) (\<lambda>s. Inr (q, s)))"

definition channel_oclosed :: "channel_state \<Rightarrow> byte list \<Rightarrow> (byte list \<times> channel_state) res" where
  "channel_oclosed s q =
     rbind (take_channel (\<lambda>c. ch_type c \<noteq> FREE) ''Received oclosed for nonexistent channel'' s q) (\<lambda>(channel, q).
     rbind (channel_receive_oclosed s channel) (\<lambda>s. Inr (q, s)))"

definition channel_emulated_close :: "channel_state \<Rightarrow> bool \<Rightarrow> byte list \<Rightarrow> (byte list \<times> channel_state) res" where
  "channel_emulated_close s set_a q =
     rbind (take_channel (\<lambda>c. ch_type c \<noteq> FREE) ''Received emulated_close for nonexistent channel'' s q) (\<lambda>(channel, q).
     let s = on_chan (set_flag (if set_a then STATUS_KLUDGE_A else STATUS_KLUDGE_B)) channel s
     in rbind (channel_receive_ieof s channel) (\<lambda>s.
        rbind (channel_receive_oclosed s channel) (\<lambda>s. Inr (q, s))))"

definition channel_input_close_confirmation :: "channel_state \<Rightarrow> byte list \<Rightarrow> (byte list \<times> channel_state) res" where
  "channel_input_close_confirmation s q = (if c_old s then channel_emulated_close s True q else channel_oclosed s q)"

definition channel_input_close :: "channel_state \<Rightarrow> byte list \<Rightarrow> (byte list \<times> channel_state) res" where
  "channel_input_close s q = (if c_old s then channel_emulated_close s False q else channel_ieof s q)"

section \<open>The main loop\<close>

text \<open>
  The first packet of an X11 connection whose authentication is spoofed: it is incomplete, or its
  authentication does not match the fake data, or it does and the real data takes its place.
\<close>

datatype x11_verdict = X11_wait | X11_reject | X11_accept "byte list"

definition pad4 :: "nat \<Rightarrow> nat" where
  "pad4 n = (n + 3) div 4 * 4"

definition x11_lengths :: "byte list \<Rightarrow> (nat \<times> nat) option" where
  "x11_lengths ucp =
     (if ucp ! 0 = 0x42 then Some (256 * unat (ucp ! 6) + unat (ucp ! 7), 256 * unat (ucp ! 8) + unat (ucp ! 9))
      else if ucp ! 0 = 0x6c then Some (unat (ucp ! 6) + 256 * unat (ucp ! 7), unat (ucp ! 8) + 256 * unat (ucp ! 9))
      else None)"

definition x11_check :: "channel_state \<Rightarrow> byte list \<Rightarrow> x11_verdict res" where
  "x11_check s ucp =
     (if length ucp < 12 then Inr X11_wait else
      case x11_lengths ucp of
        None \<Rightarrow> Inr X11_reject
      | Some (proto_len, data_len) \<Rightarrow>
          if length ucp < 12 + pad4 proto_len + pad4 data_len then Inr X11_wait
          else case c_x11_saved_proto s of
                 None \<Rightarrow> Inl (Undefined ''strlen(NULL)'')
               | Some proto \<Rightarrow>
                   if take proto_len (drop 12 ucp) \<noteq> proto then Inr X11_reject
                   else if take data_len (drop (12 + pad4 proto_len) ucp) \<noteq> c_x11_fake_data s then Inr X11_reject
                   else rbind (ensure (length (c_x11_fake_data s) = length (c_x11_saved_data s))
                                 (Assertion ''x11_fake_data_len == x11_saved_data_len'')) (\<lambda>_.
                        Inr (X11_accept (splice ucp (12 + pad4 proto_len) (c_x11_saved_data s)))))"

text \<open>One channel before \<^verbatim>\<open>select\<close>: the descriptors it wants to read and to write.\<close>

definition prepare_open :: "channel_state \<Rightarrow> nat \<Rightarrow> (int list \<times> int list \<times> channel_state) res" where
  "prepare_open s i =
     (let ch = chan s i;
          rd = (if length (ch_input ch) < c_max_packet s div 2 \<and> \<not> flag STATUS_INPUT_SOCKET_CLOSED ch then [ch_sock ch] else [])
      in if flag STATUS_OUTPUT_SOCKET_CLOSED ch then Inr (rd, [], s)
         else if ch_output ch \<noteq> [] then Inr (rd, [ch_sock ch], s)
         else if flag STATUS_EOF_RECEIVED ch then rbind (channel_close_output s i) (\<lambda>s. Inr (rd, [], s))
         else Inr (rd, [], s))"

definition prepare_channel :: "channel_state \<Rightarrow> nat \<Rightarrow> (int list \<times> int list \<times> channel_state) res" where
  "prepare_channel s i =
     (case ch_type (chan s i) of
        X11_LISTENER \<Rightarrow> Inr ([ch_sock (chan s i)], [], s)
      | PORT_LISTENER \<Rightarrow> Inr ([ch_sock (chan s i)], [], s)
      | AUTH_LISTENER \<Rightarrow> Inr ([ch_sock (chan s i)], [], s)
      | OPEN \<Rightarrow> prepare_open s i
      | X11_OPEN \<Rightarrow>
          rbind (x11_check s (ch_output (chan s i))) (\<lambda>v.
          case v of
            X11_wait \<Rightarrow> Inr ([], [], s)
          | X11_accept ucp \<Rightarrow> prepare_open (on_chan (\<lambda>c. c\<lparr>ch_output := ucp, ch_type := OPEN\<rparr>) i s) i
          | X11_reject \<Rightarrow>
              rbind (channel_close_input (on_chan (\<lambda>c. c\<lparr>ch_type := OPEN, ch_input := [], ch_output := []\<rparr>) i s) i) (\<lambda>s.
              rbind (channel_close_output s i) (\<lambda>s. Inr ([], [], s))))
      | FREE \<Rightarrow> Inr ([], [], s)
      | OPENING \<Rightarrow> Inr ([], [], s))"

fun prepare_loop :: "channel_state \<Rightarrow> nat list \<Rightarrow> (int list \<times> int list \<times> channel_state) res" where
  "prepare_loop s [] = Inr ([], [], s)"
| "prepare_loop s (i # is) =
     rbind (prepare_channel s i) (\<lambda>(rd, wr, s).
     rbind (prepare_loop s is) (\<lambda>(rd', wr', s). Inr (rd @ rd', wr @ wr', s)))"

definition channel_prepare_select :: "channel_state \<Rightarrow> (int list \<times> int list \<times> channel_state) res" where
  "channel_prepare_select s = prepare_loop s [0..<length (c_channels s)]"

text \<open>
  The outcome of \<^verbatim>\<open>accept\<close>: a new socket with the text that describes the connection, which
  \<^verbatim>\<open>tcp_wrappers\<close> may refuse; there is then a debug message if such messages are sent at all.
\<close>

datatype accept_result = Accepted int "byte list" | Refused int "byte list option" | Accept_failed

record select_env =
  os_readable :: "int \<Rightarrow> bool"
  os_writable :: "int \<Rightarrow> bool"
  os_accept :: "int \<Rightarrow> accept_result"
  os_read :: "int \<Rightarrow> read_result"
  os_write :: "int \<Rightarrow> write_result"

definition refuse_connection :: "channel_state \<Rightarrow> int \<Rightarrow> byte list option \<Rightarrow> channel_state" where
  "refuse_connection s newsock msg =
     event (Close newsock) (event (Shutdown newsock 2)
       (case msg of None \<Rightarrow> s | Some str \<Rightarrow> send SSH_MSG_DEBUG [F_string str] s))"

text \<open>
  A listener with a connection. \<open>ch\<close> is a pointer into the array: after \<^verbatim>\<open>channel_allocate\<close> has
  moved the array, its fields cannot be read.
\<close>

definition accept_x11 :: "select_env \<Rightarrow> channel_state \<Rightarrow> nat \<Rightarrow> channel_state res" where
  "accept_x11 e s i =
     (case os_accept e (ch_sock (chan s i)) of
        Accept_failed \<Rightarrow> Inr s
      | Refused newsock msg \<Rightarrow> Inr (refuse_connection s newsock msg)
      | Accepted newsock buf \<Rightarrow>
          rbind (channel_allocate s OPENING newsock buf) (\<lambda>(newch, s).
          Inr (send SSH_SMSG_X11_OPEN ([F_int (of_nat newch)] @ (if c_have_hostname_in_open s then [F_string buf] else []))
                 (on_chan (\<lambda>c. c\<lparr>ch_is_x_connection := True\<rparr>) newch s))))"

definition accept_port :: "select_env \<Rightarrow> channel_state \<Rightarrow> nat \<Rightarrow> channel_state res" where
  "accept_port e s i =
     (case os_accept e (ch_sock (chan s i)) of
        Accept_failed \<Rightarrow> Inr s
      | Refused newsock msg \<Rightarrow> Inr (refuse_connection s newsock msg)
      | Accepted newsock buf \<Rightarrow>
          rbind (channel_allocate s OPENING newsock buf) (\<lambda>(newch, s').
          if length (c_channels s') \<noteq> length (c_channels s) then Inl (Undefined ''ch points into the array that realloc freed'')
          else Inr (send SSH_MSG_PORT_OPEN ([F_int (of_nat newch), F_string (ch_path (chan s' i)), F_int (ch_host_port (chan s' i))] @
                      (if c_have_hostname_in_open s' then [F_string buf] else [])) s')))"

definition accept_agent :: "select_env \<Rightarrow> channel_state \<Rightarrow> nat \<Rightarrow> channel_state res" where
  "accept_agent e s i =
     (case os_accept e (ch_sock (chan s i)) of
        Accept_failed \<Rightarrow> Inr s
      | Refused newsock msg \<Rightarrow> Inr s
      | Accepted newsock buf \<Rightarrow>
          rbind (channel_allocate s OPENING newsock (map (\<lambda>c. of_nat (of_char c)) ''Forwarded agent connection'')) (\<lambda>(newch, s).
          Inr (send SSH_SMSG_AGENT_OPEN [F_int (of_nat newch)] s)))"

text \<open>Reading from the socket of an open channel; \<open>False\<close> means that the input was closed, which skips the writing.\<close>

definition channel_read :: "select_env \<Rightarrow> channel_state \<Rightarrow> nat \<Rightarrow> (bool \<times> channel_state) res" where
  "channel_read e s i =
     (if \<not> os_readable e (ch_sock (chan s i)) then Inr (True, s)
      else case os_read e (ch_sock (chan s i)) of
             Read_again \<Rightarrow> Inr (True, s)
           | Read_failed \<Rightarrow> rbind (channel_close_input s i) (\<lambda>s. Inr (False, s))
           | Data buf \<Rightarrow>
               let buf = take (min 16384 (c_max_packet s div 4)) buf
               in if buf = [] then rbind (channel_close_input s i) (\<lambda>s. Inr (False, s))
                  else Inr (True, on_chan (\<lambda>c. c\<lparr>ch_input := ch_input c @ buf\<rparr>) i s))"

definition channel_write :: "select_env \<Rightarrow> channel_state \<Rightarrow> nat \<Rightarrow> channel_state res" where
  "channel_write e s i =
     (let ch = chan s i
      in if \<not> os_writable e (ch_sock ch) \<or> ch_output ch = [] then Inr s
         else case os_write e (ch_sock ch) of
                Write_again \<Rightarrow> Inr s
              | Write_failed \<Rightarrow> channel_close_output s i
              | Written n \<Rightarrow>
                  if n = 0 then channel_close_output s i
                  else Inr (on_chan (\<lambda>c. c\<lparr>ch_output := drop n (ch_output c)\<rparr>) i
                              (event (Wrote (ch_sock ch) (take n (ch_output ch))) s)))"

definition after_channel :: "select_env \<Rightarrow> channel_state \<Rightarrow> nat \<Rightarrow> channel_state res" where
  "after_channel e s i =
     (case ch_type (chan s i) of
        X11_LISTENER \<Rightarrow> if os_readable e (ch_sock (chan s i)) then accept_x11 e s i else Inr s
      | PORT_LISTENER \<Rightarrow> if os_readable e (ch_sock (chan s i)) then accept_port e s i else Inr s
      | AUTH_LISTENER \<Rightarrow> if os_readable e (ch_sock (chan s i)) then accept_agent e s i else Inr s
      | OPEN \<Rightarrow> rbind (channel_read e s i) (\<lambda>(go_on, s). if go_on then channel_write e s i else Inr s)
      | X11_OPEN \<Rightarrow> Inr s
      | FREE \<Rightarrow> Inr s
      | OPENING \<Rightarrow> Inr s)"

text \<open>Slots that the loop itself adds hold channels that wait for confirmation, which the loop passes over.\<close>

fun after_loop :: "select_env \<Rightarrow> channel_state \<Rightarrow> nat list \<Rightarrow> channel_state res" where
  "after_loop e s [] = Inr s"
| "after_loop e s (i # is) = rbind (after_channel e s i) (\<lambda>s. after_loop e s is)"

definition channel_after_select :: "select_env \<Rightarrow> channel_state \<Rightarrow> channel_state res" where
  "channel_after_select e s = after_loop e s [0..<length (c_channels s)]"

text \<open>\<open>may_send\<close> is what \<^verbatim>\<open>packet_not_very_much_data_to_write\<close> answers after the packets sent so far.\<close>

definition output_channel :: "channel_state \<Rightarrow> nat \<Rightarrow> channel_state res" where
  "output_channel s i =
     (let ch = chan s i
      in if ch_type ch \<noteq> OPEN then Inr s
         else if ch_input ch \<noteq> [] then
           (let len = (if c_interactive s then min (length (ch_input ch)) 512
                       else min (min (length (ch_input ch)) 8192) (c_max_packet s div 2))
            in Inr (on_chan (\<lambda>c. c\<lparr>ch_input := drop len (ch_input c)\<rparr>) i
                      (send SSH_MSG_CHANNEL_DATA [F_int (ch_remote_id ch), F_string (take len (ch_input ch))] s)))
         else if ch_status_flags ch AND (STATUS_INPUT_SOCKET_CLOSED OR STATUS_EOF_SENT) = STATUS_INPUT_SOCKET_CLOSED
         then channel_send_ieof s i else Inr s)"

fun output_loop :: "(message list \<Rightarrow> bool) \<Rightarrow> channel_state \<Rightarrow> nat list \<Rightarrow> channel_state res" where
  "output_loop may_send s [] = Inr s"
| "output_loop may_send s (i # is) =
     (if may_send (c_sent s) then rbind (output_channel s i) (\<lambda>s. output_loop may_send s is) else Inr s)"

definition channel_output_poll :: "(message list \<Rightarrow> bool) \<Rightarrow> channel_state \<Rightarrow> channel_state res" where
  "channel_output_poll may_send s = output_loop may_send s [0..<length (c_channels s)]"

definition channel_input_data :: "channel_state \<Rightarrow> byte list \<Rightarrow> (byte list \<times> channel_state) res" where
  "channel_input_data s q =
     rbind (take_channel (\<lambda>c. ch_type c \<noteq> FREE) ''Received data for nonexistent channel'' s q) (\<lambda>(channel, q).
     if ch_type (chan s channel) \<noteq> OPEN \<and> ch_type (chan s channel) \<noteq> X11_OPEN then Inr ([], s)
     else if flag STATUS_EOF_RECEIVED (chan s channel) then Inl (Disconnect ''Other party sent data after eof for channel'')
     else if \<not> flag STATUS_OUTPUT_SOCKET_CLOSED (chan s channel) then
       rbind (bytes_get_string q) (\<lambda>(data, q). Inr (q, on_chan (\<lambda>c. c\<lparr>ch_output := ch_output c @ data\<rparr>) channel s))
     else Inr ([], s))"

definition channel_not_very_much_buffered_data :: "channel_state \<Rightarrow> bool" where
  "channel_not_very_much_buffered_data s = True"

section \<open>Opening\<close>

definition channel_input_open_confirmation :: "channel_state \<Rightarrow> byte list \<Rightarrow> (byte list \<times> channel_state) res" where
  "channel_input_open_confirmation s q =
     rbind (take_channel (\<lambda>c. ch_type c = OPENING) ''Received open confirmation for non-opening channel'' s q) (\<lambda>(channel, q).
     rbind (bytes_get_int q) (\<lambda>(remote_channel, q).
     Inr (q, on_chan (\<lambda>c. c\<lparr>ch_remote_id := remote_channel, ch_type := OPEN\<rparr>) channel s)))"

definition channel_input_open_failure :: "channel_state \<Rightarrow> byte list \<Rightarrow> (byte list \<times> channel_state) res" where
  "channel_input_open_failure s q =
     rbind (take_channel (\<lambda>c. ch_type c = OPENING) ''Received open failure for non-opening channel'' s q) (\<lambda>(channel, q).
     rbind (channel_free s channel) (\<lambda>s. Inr (q, s)))"

text \<open>The files that are removed, and the state.\<close>

definition auth_delete_socket :: "channel_state \<Rightarrow> string list \<times> channel_state" where
  "auth_delete_socket s =
     ((case c_auth_socket_name s of None \<Rightarrow> [] | Some f \<Rightarrow> [f]) @ (case c_auth_socket_dir_name s of None \<Rightarrow> [] | Some d \<Rightarrow> [d]),
      s\<lparr>c_auth_socket_name := None, c_auth_socket_dir_name := None\<rparr>)"

fun stop_loop :: "channel_state \<Rightarrow> nat list \<Rightarrow> channel_state res" where
  "stop_loop s [] = Inr s"
| "stop_loop s (i # is) =
     rbind (case ch_type (chan s i) of
              AUTH_LISTENER \<Rightarrow> Inr (snd (auth_delete_socket s))
            | PORT_LISTENER \<Rightarrow> channel_free (event (Close (ch_sock (chan s i))) s) i
            | X11_LISTENER \<Rightarrow> channel_free (event (Close (ch_sock (chan s i))) s) i
            | _ \<Rightarrow> Inr s) (\<lambda>s. stop_loop s is)"

definition channel_stop_listening :: "channel_state \<Rightarrow> channel_state res" where
  "channel_stop_listening s = stop_loop s [0..<length (c_channels s)]"

definition channel_close_all :: "channel_state \<Rightarrow> channel_state" where
  "channel_close_all s =
     foldl (\<lambda>s c. if ch_type c \<noteq> FREE then event (Close (ch_sock c)) s else s) s (c_channels s)"

definition channel_max_fd :: "channel_state \<Rightarrow> int" where
  "channel_max_fd s = c_max_fd s"

definition live :: "Channel \<Rightarrow> bool" where
  "live c \<longleftrightarrow> ch_type c = OPENING \<or> ch_type c = OPEN \<or> ch_type c = X11_OPEN"

definition channel_still_open :: "channel_state \<Rightarrow> bool" where
  "channel_still_open s = list_ex live (c_channels s)"

text \<open>The text for the user; a missing name is printed as the C library prints a null pointer.\<close>

definition ascii :: "string \<Rightarrow> byte list" where
  "ascii str = map (\<lambda>c. of_nat (of_char c)) str"

definition channel_open_message :: "channel_state \<Rightarrow> byte list" where
  "channel_open_message s =
     ascii ''The following connections are open:'' @ [13, 10] @
     concat (map (\<lambda>c. ascii ''  '' @ take 300 (case ch_remote_name c of Some n \<Rightarrow> n | None \<Rightarrow> ascii ''(null)'') @ [13, 10])
       (filter live (c_channels s)))"

text \<open>A C string in a received byte string ends at the first NUL.\<close>

definition c_str :: "byte list \<Rightarrow> byte list" where
  "c_str str = takeWhile (\<lambda>b. b \<noteq> 0) str"

text \<open>\<open>listen_on port any\<close>: the listening socket, or the message of the system call that failed.\<close>

definition channel_request_local_forwarding :: "(u32 \<Rightarrow> bool \<Rightarrow> string + int) \<Rightarrow> channel_state \<Rightarrow> u32 \<Rightarrow> byte list \<Rightarrow> u32 \<Rightarrow> bool \<Rightarrow>
    channel_state res" where
  "channel_request_local_forwarding listen_on s port host host_port gatewayports =
     (if length host > 200 - 1 then Inl (Disconnect ''Forward host name too long.'')
      else case listen_on port gatewayports of
             Inl msg \<Rightarrow> Inl (Disconnect msg)
           | Inr sock \<Rightarrow>
               rbind (channel_allocate s PORT_LISTENER sock (ascii ''port listener'')) (\<lambda>(ch, s).
               Inr (on_chan (\<lambda>c. c\<lparr>ch_path := host, ch_host_port := host_port, ch_listening_port := port\<rparr>) ch s)))"

text \<open>The request, and the reply of type \<open>type\<close>.\<close>

definition channel_request_remote_forwarding :: "channel_state \<Rightarrow> u32 \<Rightarrow> byte list \<Rightarrow> u32 \<Rightarrow> nat \<Rightarrow> channel_state res" where
  "channel_request_remote_forwarding s port host remote_port type =
     (let s = send SSH_CMSG_PORT_FORWARD_REQUEST [F_int port, F_string host, F_int remote_port] s
      in if type = SSH_SMSG_FAILURE then Inr s
         else if type \<noteq> SSH_SMSG_SUCCESS then Inl (Disconnect ''Protocol error: expected packet type'')
         else if length (c_permitted_opens s) \<ge> SSH_MAX_FORWARDS_PER_DIRECTION
         then Inl (Fatal ''channel_request_remote_forwarding: too many forwards'')
         else Inr (s\<lparr>c_permitted_opens := c_permitted_opens s @ [(host, remote_port)]\<rparr>))"

definition channel_input_port_forward_request :: "(u32 \<Rightarrow> bool \<Rightarrow> string + int) \<Rightarrow> channel_state \<Rightarrow> bool \<Rightarrow> byte list \<Rightarrow>
    (byte list \<times> channel_state) res" where
  "channel_input_port_forward_request listen_on s is_root q =
     rbind (bytes_get_int q) (\<lambda>(port, q).
     rbind (bytes_get_string q) (\<lambda>(hostname, q).
     rbind (bytes_get_int q) (\<lambda>(host_port, q).
     let hostname = c_str hostname
     in if length hostname > 255 then Inl (Disconnect ''Requested forwarding hostname too long'')
        else if (sint port < 1024 \<or> sint port > 65535) \<and> \<not> is_root
        then Inl (Disconnect ''Requested forwarding of port but user is not root.'')
        else rbind (channel_request_local_forwarding listen_on s port hostname host_port True) (\<lambda>s. Inr (q, s)))))"

definition open_failure :: "u32 \<Rightarrow> channel_state \<Rightarrow> channel_state" where
  "open_failure remote_channel s = send SSH_MSG_CHANNEL_OPEN_FAILURE [F_int remote_channel] s"

definition open_confirmation :: "u32 \<Rightarrow> nat \<Rightarrow> channel_state \<Rightarrow> channel_state" where
  "open_confirmation remote_channel newch s =
     send SSH_MSG_CHANNEL_OPEN_CONFIRMATION [F_int remote_channel, F_int (of_nat newch)]
       (on_chan (\<lambda>c. c\<lparr>ch_remote_id := remote_channel\<rparr>) newch s)"

text \<open>The name of the originator that ends an open request, if both sides support it.\<close>

definition get_originator :: "channel_state \<Rightarrow> byte list \<Rightarrow> (byte list \<times> byte list) res" where
  "get_originator s q =
     (if c_have_hostname_in_open s then rbind (bytes_get_string q) (\<lambda>(n, q). Inr (c_str n, q))
      else Inr (ascii ''unknown (remote did not supply name)'', q))"

text \<open>
  The permission check, the connection and the reply. \<open>connect_to host port\<close> resolves and connects;
  \<open>None\<close> if that fails. The first result lists the addresses tried.
\<close>

definition open_port :: "(byte list \<Rightarrow> u32 \<Rightarrow> int option) \<Rightarrow> channel_state \<Rightarrow> u32 \<Rightarrow> byte list \<Rightarrow> u32 \<Rightarrow> byte list \<Rightarrow>
    ((byte list \<times> u32) list \<times> channel_state) res" where
  "open_port connect_to s remote_channel host host_port originator_string =
     (if \<not> c_all_opens_permitted s \<and> (host, host_port) \<notin> set (c_permitted_opens s)
      then Inr ([], open_failure remote_channel s)
      else case connect_to host host_port of
             None \<Rightarrow> Inr ([(host, host_port)], open_failure remote_channel s)
           | Some sock \<Rightarrow>
               rbind (channel_allocate s OPEN sock originator_string) (\<lambda>(newch, s).
               Inr ([(host, host_port)], open_confirmation remote_channel newch s)))"

definition channel_input_port_open :: "(byte list \<Rightarrow> u32 \<Rightarrow> int option) \<Rightarrow> channel_state \<Rightarrow> byte list \<Rightarrow>
    ((byte list \<times> u32) list \<times> byte list \<times> channel_state) res" where
  "channel_input_port_open connect_to s q =
     rbind (bytes_get_int q) (\<lambda>(remote_channel, q).
     rbind (bytes_get_string q) (\<lambda>(host, q).
     if length (c_str host) > 255 then Inl (Disconnect ''Requested forwarding hostname too long'')
     else
     rbind (bytes_get_int q) (\<lambda>(host_port, q).
     rbind (get_originator s q) (\<lambda>(originator_string, q).
     rbind (open_port connect_to s remote_channel (c_str host) host_port originator_string) (\<lambda>(tried, s).
     Inr (tried, q, s))))))"

definition auth_request_forwarding :: "channel_state \<Rightarrow> channel_state" where
  "auth_request_forwarding s = (send SSH_CMSG_AGENT_REQUEST_FORWARDING [] s)\<lparr>c_auth_forwarding_permitted := True\<rparr>"

definition auth_get_socket_name :: "channel_state \<Rightarrow> string option" where
  "auth_get_socket_name s = c_auth_socket_name s"

text \<open>\<open>agent\<close> is the connection to the local agent, if there is one.\<close>

definition auth_input_open_request :: "int option \<Rightarrow> channel_state \<Rightarrow> byte list \<Rightarrow> (byte list \<times> channel_state) res" where
  "auth_input_open_request agent s q =
     rbind (bytes_get_int q) (\<lambda>(remote_channel, q).
     if \<not> c_auth_forwarding_permitted s then Inr (q, open_failure remote_channel s)
     else case agent of
            None \<Rightarrow> Inr (q, open_failure remote_channel s)
          | Some sock \<Rightarrow>
              rbind (channel_allocate s OPEN sock (ascii ''authentication agent connection'')) (\<lambda>(newch, s).
              Inr (q, open_confirmation remote_channel newch s)))"

end
