(* ===== verification/Forwarding.thy ===== *)
theory Forwarding
  imports Channels
begin

text \<open>
  The parts of \<^verbatim>\<open>newchannels.c\<close> that set up forwarding of X11 and of the authentication agent. The
  environment (\<^verbatim>\<open>DISPLAY\<close>, host name, outcomes of system calls) is given by arguments.
\<close>

section \<open>Numbers in text\<close>

fun dec_nat :: "nat \<Rightarrow> byte list" where
  "dec_nat n = (if n < 10 then [of_nat (48 + n)] else dec_nat (n div 10) @ [of_nat (48 + n mod 10)])"

declare dec_nat.simps [simp del]

definition dec_int :: "int \<Rightarrow> byte list" where
  "dec_int n = (if n < 0 then 45 # dec_nat (nat (- n)) else dec_nat (nat n))"

definition is_space :: "byte \<Rightarrow> bool" where
  "is_space b \<longleftrightarrow> b = 32 \<or> 9 \<le> b \<and> b \<le> 13"

definition is_digit :: "byte \<Rightarrow> bool" where
  "is_digit b \<longleftrightarrow> 48 \<le> b \<and> b \<le> 57"

text \<open>\<^verbatim>\<open>sscanf\<close> with \<^verbatim>\<open>%d\<close>: white space, a sign, and at least one digit; \<^verbatim>\<open>None\<close> if there is no number.\<close>

definition scan_d :: "byte list \<Rightarrow> int option" where
  "scan_d str =
     (let str = dropWhile is_space str;
          (neg, str) = (case str of [] \<Rightarrow> (False, []) | b # bs \<Rightarrow> if b = 45 then (True, bs) else if b = 43 then (False, bs) else (False, str));
          ds = takeWhile is_digit str;
          v = foldl (\<lambda>a d. 10 * a + int (unat (d - 48))) 0 ds
      in if ds = [] then None else Some (if neg then - v else v))"

text \<open>\<^verbatim>\<open>atoi\<close> is 0 where there is no number.\<close>

definition atoi :: "byte list \<Rightarrow> int" where
  "atoi str = (case scan_d str of None \<Rightarrow> 0 | Some v \<Rightarrow> v)"

definition hex_digit :: "byte \<Rightarrow> nat option" where
  "hex_digit b =
     (if 48 \<le> b \<and> b \<le> 57 then Some (unat (b - 48))
      else if 97 \<le> b \<and> b \<le> 102 then Some (unat (b - 87))
      else if 65 \<le> b \<and> b \<le> 70 then Some (unat (b - 55)) else None)"

text \<open>
  \<^verbatim>\<open>sscanf\<close> with \<^verbatim>\<open>%2x\<close>: white space, then at most two characters, the first of which may be a sign.
\<close>

definition scan_2x :: "byte list \<Rightarrow> byte option" where
  "scan_2x str =
     (let str = take 2 (dropWhile is_space str)
      in case str of
           [] \<Rightarrow> None
         | b # bs \<Rightarrow>
             if b = 43 \<or> b = 45 then
               (case bs of [] \<Rightarrow> None
                | d # _ \<Rightarrow> map_option (\<lambda>v. if b = 45 then - of_nat v else of_nat v) (hex_digit d))
             else (case hex_digit b of
                     None \<Rightarrow> None
                   | Some h \<Rightarrow> (case bs of [] \<Rightarrow> Some (of_nat h)
                                | d # _ \<Rightarrow> (case hex_digit d of None \<Rightarrow> Some (of_nat h) | Some l \<Rightarrow> Some (of_nat (16 * h + l))))))"

definition hex_char :: "nat \<Rightarrow> byte" where
  "hex_char n = (if n < 10 then of_nat (48 + n) else of_nat (87 + n))"

definition hex_02x :: "byte \<Rightarrow> byte list" where
  "hex_02x b = [hex_char (unat b div 16), hex_char (unat b mod 16)]"

text \<open>\<^verbatim>\<open>strchr\<close> and \<^verbatim>\<open>strrchr\<close>: the text from the first or after the last occurrence.\<close>

definition str_chr :: "byte \<Rightarrow> byte list \<Rightarrow> byte list option" where
  "str_chr c str = (if c \<in> set str then Some (dropWhile (\<lambda>b. b \<noteq> c) str) else None)"

definition after_last :: "byte \<Rightarrow> byte list \<Rightarrow> byte list" where
  "after_last c str = rev (takeWhile (\<lambda>b. b \<noteq> c) (rev str))"

section \<open>X11\<close>

datatype bind_result = No_socket | Bind_failed int | Bound int

abbreviation (input) "MAX_DISPLAYS \<equiv> 1000 :: int"

function display_loop :: "(int \<Rightarrow> bind_result) \<Rightarrow> channel_state \<Rightarrow> int \<Rightarrow> (int \<times> int) option \<times> channel_state" where
  "display_loop os_bind s display_number =
     (if display_number < MAX_DISPLAYS then
        (case os_bind (6000 + display_number) of
           No_socket \<Rightarrow> (None, s)
         | Bind_failed sock \<Rightarrow> display_loop os_bind (event (Close sock) (event (Shutdown sock 2) s)) (display_number + 1)
         | Bound sock \<Rightarrow> (Some (display_number, sock), s))
      else (None, s))"
  by pat_completeness auto
termination by (relation "measure (\<lambda>(_, _, d). nat (MAX_DISPLAYS - d))") auto

declare display_loop.simps [simp del]

text \<open>The value for \<^verbatim>\<open>DISPLAY\<close>, if a display could be created.\<close>

definition x11_create_display_inet :: "(int \<Rightarrow> bind_result) \<Rightarrow> (int \<Rightarrow> bool) \<Rightarrow> byte list \<Rightarrow> int \<Rightarrow> channel_state \<Rightarrow> int \<Rightarrow>
    (byte list option \<times> channel_state) res" where
  "x11_create_display_inet os_bind os_listen hostname x11_display_offset s screen_number =
     (case display_loop os_bind s x11_display_offset of
        (None, s) \<Rightarrow> Inr (None, s)
      | (Some (display_number, sock), s) \<Rightarrow>
          if \<not> os_listen sock then Inr (None, event (Close sock) (event (Shutdown sock 2) s))
          else let buf = take 400 hostname @ [58] @ dec_int display_number @ [46] @ dec_int screen_number
               in rbind (channel_allocate s X11_LISTENER sock (ascii ''X11 inet listener'')) (\<lambda>(_, s).
                  Inr (Some (take 511 buf), s)))"

text \<open>How the real display is reached, by the value of \<^verbatim>\<open>DISPLAY\<close>.\<close>

datatype x11_target = Unix_display int | Inet_display "byte list" int

definition x11_target_of :: "byte list \<Rightarrow> x11_target option" where
  "x11_target_of display =
     (if take 5 display = ascii ''unix:'' \<or> (display \<noteq> [] \<and> hd display = 58) then
        map_option Unix_display (scan_d (after_last 58 display))
      else (case str_chr 58 (take 254 display) of
              None \<Rightarrow> None
            | Some cp \<Rightarrow> map_option (\<lambda>d. Inet_display (takeWhile (\<lambda>b. b \<noteq> 58) (take 254 display)) (6000 + d)) (scan_d (tl cp))))"

text \<open>\<open>connect_x target\<close> is the connected socket; the first result lists the targets tried.\<close>

definition x11_input_open :: "byte list option \<Rightarrow> (x11_target \<Rightarrow> int option) \<Rightarrow> channel_state \<Rightarrow> byte list \<Rightarrow>
    (x11_target list \<times> byte list \<times> channel_state) res" where
  "x11_input_open display connect_x s q =
     rbind (bytes_get_int q) (\<lambda>(remote_channel, q).
     rbind (get_originator s q) (\<lambda>(remote_host, q).
     if \<not> c_x11_forwarding_permitted s then Inr ([], q, open_failure remote_channel s)
     else case display of
            None \<Rightarrow> Inr ([], q, open_failure remote_channel s)
          | Some display \<Rightarrow>
              (case x11_target_of display of
                 None \<Rightarrow> Inr ([], q, open_failure remote_channel s)
               | Some target \<Rightarrow>
                   (case connect_x target of
                      None \<Rightarrow> Inr ([target], q, open_failure remote_channel s)
                    | Some sock \<Rightarrow>
                        rbind (channel_allocate s (if c_x11_saved_proto s = None then OPEN else X11_OPEN) sock remote_host) (\<lambda>(newch, s).
                        Inr ([target], q, open_confirmation remote_channel newch (on_chan (\<lambda>c. c\<lparr>ch_is_x_connection := True\<rparr>) newch s)))))))"

text \<open>The authentication data: real bytes from the hexadecimal string, and a random byte for each.\<close>

fun x11_fake :: "('r \<Rightarrow> byte \<times> 'r) \<Rightarrow> 'r \<Rightarrow> byte list \<Rightarrow> nat list \<Rightarrow> (byte list \<times> byte list \<times> 'r) res" where
  "x11_fake rnd r str [] = Inr ([], [], r)"
| "x11_fake rnd r str (i # is) =
     (case scan_2x (drop (2 * i) str) of
        None \<Rightarrow> Inl (Fatal ''x11_request_forwarding: bad authentication data'')
      | Some v \<Rightarrow>
          let (b, r) = rnd r
          in rbind (x11_fake rnd r str is) (\<lambda>(vs, bs, r). Inr (v # vs, b # bs, r)))"

definition x11_screen_number :: "byte list option \<Rightarrow> int" where
  "x11_screen_number display =
     (case display of None \<Rightarrow> 0
      | Some d \<Rightarrow> (case str_chr 58 d of None \<Rightarrow> 0
                   | Some cp \<Rightarrow> (case str_chr 46 cp of None \<Rightarrow> 0 | Some cp \<Rightarrow> atoi (tl cp))))"

definition x11_request_forwarding_with_spoofing :: "('r \<Rightarrow> byte \<times> 'r) \<Rightarrow> byte list option \<Rightarrow> channel_state \<Rightarrow> 'r \<Rightarrow>
    byte list \<Rightarrow> byte list \<Rightarrow> ('r \<times> channel_state) res" where
  "x11_request_forwarding_with_spoofing rnd display s state proto str =
     (let data_len = length str div 2
      in rbind (x11_fake rnd state str [0..<data_len]) (\<lambda>(saved, fake, state).
         let s = s\<lparr>c_x11_saved_proto := Some proto, c_x11_saved_data := saved, c_x11_fake_data := fake\<rparr>;
             s = send SSH_CMSG_X11_REQUEST_FORWARDING
                   [F_string proto, F_string (concat (map hex_02x fake)), F_int (word_of_int (x11_screen_number display))] s
         in Inr (state, s\<lparr>c_x11_forwarding_permitted := True\<rparr>)))"

section \<open>The agent's socket\<close>

record file_stat =
  st_uid :: nat
  st_mode :: u32
  st_dev :: nat
  st_ino :: nat

datatype lstat_result = Found file_stat | Missing | Lstat_failed

text \<open>What the system calls answer, in the order in which they are made.\<close>

record agent_env =
  ag_user :: string
  ag_uid :: nat
  ag_pid :: int
  ag_parent :: "file_stat option"
  ag_lstat :: lstat_result
  ag_mkdir :: bool
  ag_lstat_created :: "file_stat option"
  ag_dot :: "file_stat option"
  ag_dotdot :: "file_stat option"
  ag_socket :: "int option"
  ag_bind :: bool
  ag_chown :: bool
  ag_listen :: bool

definition dec_string :: "int \<Rightarrow> string" where
  "dec_string n = map (\<lambda>b. char_of (unat b)) (dec_int n)"

definition same_file :: "file_stat \<Rightarrow> file_stat \<Rightarrow> bool" where
  "same_file a b \<longleftrightarrow> st_dev a = st_dev b \<and> st_ino a = st_ino b"

text \<open>
  The directory checks: \<open>Some (created, st)\<close> when the per-user directory, whose status is \<open>st\<close>, may be
  used, \<open>None\<close> when forwarding is refused. Failures are reported with debug messages, which are left out.
\<close>

definition agent_directory :: "agent_env \<Rightarrow> (bool \<times> file_stat) option res" where
  "agent_directory e =
     (case ag_lstat e of
        Lstat_failed \<Rightarrow> Inr None
      | Missing \<Rightarrow>
          if ag_mkdir e then
            (case ag_lstat_created e of None \<Rightarrow> Inl (Undefined ''uninitialised stat'') | Some st \<Rightarrow> Inr (Some (True, st)))
          else Inr None
      | Found st \<Rightarrow> if st_uid st \<noteq> ag_uid e \<or> st_mode st AND 0x3f \<noteq> 0 then Inr None else Inr (Some (False, st)))"

definition agent_checks :: "agent_env \<Rightarrow> bool option res" where
  "agent_checks e =
     (case ag_parent e of
        None \<Rightarrow> Inr None
      | Some parent_st \<Rightarrow>
          rbind (agent_directory e) (\<lambda>d.
          case d of
            None \<Rightarrow> Inr None
          | Some (created, st) \<Rightarrow>
              (case ag_dot e of
                 None \<Rightarrow> Inr None
               | Some st2 \<Rightarrow>
                   if \<not> same_file st st2 then Inr None
                   else (case ag_dotdot e of
                           None \<Rightarrow> Inr None
                         | Some st \<Rightarrow>
                             if st_mode st AND 0x200 = 0 then Inr None
                             else if \<not> same_file st parent_st then Inr None else Inr (Some created)))))"

definition agent_listener :: "agent_env \<Rightarrow> bool \<Rightarrow> string \<Rightarrow> channel_state \<Rightarrow> (bool \<times> channel_state) res" where
  "agent_listener e created path s =
     (case ag_socket e of
        None \<Rightarrow> Inl (Disconnect ''Agent socket creation failed'')
      | Some sock \<Rightarrow>
          if \<not> ag_bind e then Inl (Disconnect ''Agent socket bind failed'')
          else if created \<and> \<not> ag_chown e then Inl (Disconnect ''Agent socket directory chown failed'')
          else if \<not> ag_listen e then Inl (Disconnect ''Agent socket listen failed'')
          else rbind (channel_allocate (s\<lparr>c_auth_socket_name := Some path\<rparr>) AUTH_LISTENER sock (ascii ''auth socket'')) (\<lambda>(newch, s).
               Inr (True, on_chan (\<lambda>c. c\<lparr>ch_path := ascii path\<rparr>) newch s)))"

definition agent_names :: "agent_env \<Rightarrow> string \<times> string" where
  "agent_names e = (''/tmp/ssh-'' @ take 50 (ag_user e), ''ssh-'' @ dec_string (ag_pid e) @ ''-agent'')"

text \<open>The name up to the last slash.\<close>

definition parent_name :: "string \<Rightarrow> string" where
  "parent_name dir = rev (tl (dropWhile (\<lambda>c. c \<noteq> CHR ''/'') (rev dir)))"

text \<open>When the parent directory cannot be examined, the name is left cut at the slash.\<close>

definition auth_input_request_forwarding :: "agent_env \<Rightarrow> channel_state \<Rightarrow> (bool \<times> channel_state) res" where
  "auth_input_request_forwarding e s =
     (if auth_get_socket_name s \<noteq> None then Inl (Fatal ''Protocol error: authentication forwarding requested twice.'')
      else
      let (dir, name) = agent_names e;
          s = s\<lparr>c_auth_socket_name := Some name, c_auth_socket_dir_name := Some dir\<rparr>
      in rbind (agent_checks e) (\<lambda>ok.
         case ok of
           None \<Rightarrow> Inr (False, if ag_parent e = None then s\<lparr>c_auth_socket_dir_name := Some (parent_name dir)\<rparr> else s)
         | Some created \<Rightarrow> agent_listener e created (dir @ ''/'' @ name) s))"

end
