(* ===== verification/ChannelInv.thy ===== *)
theory ChannelInv
  imports Forwarding
begin

text \<open>
  The invariant of the channel array, kept by every operation of \<^verbatim>\<open>newchannels.c\<close> with the new protocol:
  the use count is right, the flags fit together, data that may no longer be sent or written is gone,
  and no terminated channel stays allocated.
\<close>

section \<open>Status flags\<close>

lemma and_eq_0_or: "((f OR m) AND d = 0) \<longleftrightarrow> f AND d = 0 \<and> m AND d = 0" for f :: u32
  by (simp add: and.commute [of _ d] bit.conj_disj_distrib or_eq_0_iff)

lemma flag_set: "flag d (set_flag m c) \<longleftrightarrow> flag d c \<or> m AND d \<noteq> 0"
  by (simp add: flag_def set_flag_def and_eq_0_or)

lemma flag_bit:
  "flag STATUS_INPUT_SOCKET_CLOSED c = bit (ch_status_flags c) 0"
  "flag STATUS_OUTPUT_SOCKET_CLOSED c = bit (ch_status_flags c) 1"
  "flag STATUS_EOF_SENT c = bit (ch_status_flags c) 2"
  "flag STATUS_EOF_RECEIVED c = bit (ch_status_flags c) 3"
  "flag STATUS_CLOSE_SENT c = bit (ch_status_flags c) 4"
  "flag STATUS_CLOSE_RECEIVED c = bit (ch_status_flags c) 5"
proof -
  have *: "flag (push_bit n 1) c = bit (ch_status_flags c) n" if "n < 32" for n
    unfolding flag_def by (rule bit_iff_and_push_bit_not_eq_0 [symmetric])
  show "flag STATUS_INPUT_SOCKET_CLOSED c = bit (ch_status_flags c) 0" using * [of 0] by simp
  show "flag STATUS_OUTPUT_SOCKET_CLOSED c = bit (ch_status_flags c) 1" using * [of 1] by simp
  show "flag STATUS_EOF_SENT c = bit (ch_status_flags c) 2" using * [of 2] by simp
  show "flag STATUS_EOF_RECEIVED c = bit (ch_status_flags c) 3" using * [of 3] by simp
  show "flag STATUS_CLOSE_SENT c = bit (ch_status_flags c) 4" using * [of 4] by simp
  show "flag STATUS_CLOSE_RECEIVED c = bit (ch_status_flags c) 5" using * [of 5] by simp
qed

definition terminated :: "Channel \<Rightarrow> bool" where
  "terminated c \<longleftrightarrow> flag STATUS_INPUT_SOCKET_CLOSED c \<and> flag STATUS_OUTPUT_SOCKET_CLOSED c \<and> flag STATUS_EOF_SENT c \<and>
     flag STATUS_EOF_RECEIVED c \<and> flag STATUS_CLOSE_SENT c \<and> flag STATUS_CLOSE_RECEIVED c"

lemma terminate_iff: "ch_status_flags c AND STATUS_TERMINATE = STATUS_TERMINATE \<longleftrightarrow> terminated c"
proof -
  have m: "(0x3f :: u32) = mask 6" by (simp add: mask_eq_exp_minus_1)
  have "w AND mask 6 = mask 6 \<longleftrightarrow> (\<forall>n<6. bit w n)" for w :: u32
  proof
    assume "w AND mask 6 = mask 6"
    then have *: "bit (w AND mask 6) n = bit (mask 6 :: u32) n" for n by simp
    have "bit w n" if "n < 6" for n
    proof -
      have "n < 32" using that by simp
      with * [of n] that show ?thesis by (simp add: bit_and_iff bit_mask_iff)
    qed
    then show "\<forall>n<6. bit w n" by blast
  qed (auto simp: bit_eq_iff bit_simps)
  also have "(\<forall>n<6. bit w n) \<longleftrightarrow> bit w 0 \<and> bit w 1 \<and> bit w 2 \<and> bit w 3 \<and> bit w 4 \<and> bit w 5" for w :: u32
    by (simp add: numeral_eq_Suc All_less_Suc conj_ac)
  finally show ?thesis by (simp only: m terminated_def flag_bit)
qed

lemma eof_due_iff:
  "ch_status_flags c AND (STATUS_INPUT_SOCKET_CLOSED OR STATUS_EOF_SENT) = STATUS_INPUT_SOCKET_CLOSED \<longleftrightarrow>
     flag STATUS_INPUT_SOCKET_CLOSED c \<and> \<not> flag STATUS_EOF_SENT c"
proof -
  have "w AND push_bit n 1 = push_bit n (of_bool (bit w n))" for w :: u32 and n
    by (rule bit_word_eqI) (simp only: bit_push_bit_iff bit_and_iff bit_1_iff bit_of_bool_iff, auto)
  from this [of _ 0] this [of _ 2]
  have a: "w AND 1 = (if bit w 0 then 1 else 0)" "w AND 4 = (if bit w 2 then 4 else 0)" for w :: u32 by simp_all
  have "w AND 5 = (w AND 1) OR (w AND 4)" for w :: u32
    using bit.conj_disj_distrib [of w 1 4] by simp
  with a have "w AND 5 = 1 \<longleftrightarrow> bit w 0 \<and> \<not> bit w 2" for w :: u32 by simp
  then show ?thesis unfolding flag_bit by simp
qed

section \<open>The invariant\<close>

definition chan_inv :: "nat \<Rightarrow> Channel \<Rightarrow> bool" where
  "chan_inv i c \<longleftrightarrow>
     (ch_type c \<noteq> FREE \<longrightarrow>
        ch_local_id c = i \<and>
        (flag STATUS_EOF_SENT c \<longrightarrow> flag STATUS_INPUT_SOCKET_CLOSED c \<and> ch_input c = []) \<and>
        (flag STATUS_CLOSE_SENT c \<longrightarrow> flag STATUS_OUTPUT_SOCKET_CLOSED c) \<and>
        (flag STATUS_OUTPUT_SOCKET_CLOSED c \<longrightarrow> ch_output c = []) \<and>
        (flag STATUS_CLOSE_RECEIVED c \<longrightarrow> ch_input c = []) \<and>
        (ch_type c \<noteq> OPEN \<longrightarrow> ch_input c = []) \<and>
        (ch_type c \<noteq> OPEN \<and> ch_type c \<noteq> X11_OPEN \<longrightarrow> ch_output c = []))"

definition stable :: "Channel \<Rightarrow> bool" where
  "stable c \<longleftrightarrow> (ch_type c \<noteq> FREE \<longrightarrow> \<not> terminated c \<and> (flag STATUS_CLOSE_RECEIVED c \<longrightarrow> flag STATUS_INPUT_SOCKET_CLOSED c))"

definition in_use :: "Channel list \<Rightarrow> nat" where
  "in_use cs = length (filter (\<lambda>c. ch_type c \<noteq> FREE) cs)"

text \<open>The channels in \<open>K\<close> are in the middle of an operation.\<close>

definition inv_except :: "nat set \<Rightarrow> channel_state \<Rightarrow> bool" where
  "inv_except K s \<longleftrightarrow> \<not> c_old s \<and> c_used s = in_use (c_channels s) \<and>
     (\<forall>j<length (c_channels s). chan_inv j (chan s j) \<and> (j \<notin> K \<longrightarrow> stable (chan s j)))"

abbreviation channels_wf :: "channel_state \<Rightarrow> bool" where
  "channels_wf \<equiv> inv_except {}"

lemma on_chan_simps [simp]:
  "length (c_channels (on_chan f i s)) = length (c_channels s)"
  "c_old (on_chan f i s) = c_old s" "c_used (on_chan f i s) = c_used s" "c_sent (on_chan f i s) = c_sent s"
  "c_max_packet (on_chan f i s) = c_max_packet s" "c_interactive (on_chan f i s) = c_interactive s"
  "c_x11_saved_proto (on_chan f i s) = c_x11_saved_proto s" "c_io (on_chan f i s) = c_io s"
  by (simp_all add: on_chan_def)

lemma chan_on_chan: "i < length (c_channels s) \<Longrightarrow> chan (on_chan f i s) j = (if j = i then f (chan s i) else chan s j)"
  by (simp add: on_chan_def nth_list_update)

lemma chan_on_chan_same [simp]: "i < length (c_channels s) \<Longrightarrow> chan (on_chan f i s) i = f (chan s i)"
  by (simp add: chan_on_chan)

lemma send_event_simps [simp]:
  "c_channels (send t fs s) = c_channels s" "c_old (send t fs s) = c_old s" "c_used (send t fs s) = c_used s"
  "c_channels (event e s) = c_channels s" "c_old (event e s) = c_old s" "c_used (event e s) = c_used s"
  "c_sent (event e s) = c_sent s" "c_sent (send t fs s) = c_sent s @ [(t, fs)]" "c_io (send t fs s) = c_io s"
  "c_io (event e s) = c_io s @ [e]"
  by (simp_all add: send_def event_def)

lemma inv_send_event [simp]: "inv_except K (send t fs s) = inv_except K s" "inv_except K (event e s) = inv_except K s"
  by (simp_all add: inv_except_def)

lemma set_flag_simps [simp]:
  "ch_type (set_flag m c) = ch_type c" "ch_local_id (set_flag m c) = ch_local_id c" "ch_input (set_flag m c) = ch_input c"
  "ch_output (set_flag m c) = ch_output c" "ch_sock (set_flag m c) = ch_sock c" "ch_remote_id (set_flag m c) = ch_remote_id c"
  "ch_is_x_connection (set_flag m c) = ch_is_x_connection c"
  by (simp_all add: set_flag_def)

lemma flag_update [simp]:
  "flag m (c\<lparr>ch_input := a\<rparr>) = flag m c" "flag m (c\<lparr>ch_output := b\<rparr>) = flag m c" "flag m (c\<lparr>ch_type := t\<rparr>) = flag m c"
  "flag m (c\<lparr>ch_remote_id := r\<rparr>) = flag m c" "flag m (c\<lparr>ch_is_x_connection := x\<rparr>) = flag m c"
  "flag m (c\<lparr>ch_remote_name := n\<rparr>) = flag m c" "flag m (c\<lparr>ch_path := p\<rparr>) = flag m c"
  "flag m (c\<lparr>ch_host_port := hp\<rparr>) = flag m c" "flag m (c\<lparr>ch_listening_port := lp\<rparr>) = flag m c"
  by (simp_all add: flag_def)

lemma in_use_update:
  "i < length cs \<Longrightarrow> in_use (cs[i := c]) + of_bool (ch_type (cs ! i) \<noteq> FREE) = in_use cs + of_bool (ch_type c \<noteq> FREE)"
proof (induction cs arbitrary: i)
  case (Cons d cs)
  then show ?case by (cases i) (auto simp: in_use_def)
qed simp

text \<open>An update of one channel keeps the invariant if the new channel does.\<close>

lemma inv_on_chan:
  assumes "inv_except K s" and "i < length (c_channels s)" and "ch_type (f (chan s i)) = FREE \<longleftrightarrow> ch_type (chan s i) = FREE"
    and "chan_inv i (f (chan s i))" and "i \<in> K' \<or> stable (f (chan s i))" and "K \<subseteq> insert i K'"
  shows "inv_except K' (on_chan f i s)"
proof -
  have "in_use (c_channels (on_chan f i s)) = in_use (c_channels s)"
    using in_use_update [OF assms(2), of "f (chan s i)"] assms(3) by (simp add: on_chan_def of_bool_def split: if_splits)
  with assms show ?thesis by (auto simp: inv_except_def chan_on_chan)
qed

lemma inv_weaken: "inv_except K s \<Longrightarrow> K \<subseteq> K' \<Longrightarrow> inv_except K' s"
  by (auto simp: inv_except_def)

lemma inv_free:
  assumes "inv_except K s" and "channel_free s i = Inr s'"
  shows "inv_except (K - {i}) s' \<and> i < length (c_channels s) \<and> ch_type (chan s i) \<noteq> FREE"
proof -
  have i: "i < length (c_channels s)" "ch_type (chan s i) \<noteq> FREE" using assms(2) by (simp_all add: channel_free_def rbind_eq_Inr ensure_def split: if_splits)
  let ?f = "\<lambda>c. c\<lparr>ch_type := FREE, ch_input := [], ch_output := [], ch_remote_name := None\<rparr>"
  have s': "s' = on_chan ?f i (event (Close (ch_sock (chan s i))) (s\<lparr>c_used := c_used s - 1\<rparr>))"
    using assms(2) i by (simp add: channel_free_def)
  have u: "in_use ((c_channels s)[i := ?f (chan s i)]) + 1 = in_use (c_channels s)"
    using in_use_update [OF i(1), of "?f (chan s i)"] i(2) by simp
  have "c_used s' = in_use (c_channels s')" using u assms(1) by (simp add: s' on_chan_def event_def inv_except_def)
  moreover have "\<not> c_old s'" using assms(1) by (simp add: s' inv_except_def)
  moreover have "chan_inv j (chan s' j) \<and> (j \<notin> K - {i} \<longrightarrow> stable (chan s' j))" if "j < length (c_channels s')" for j
    using assms(1) that i by (auto simp: s' inv_except_def chan_on_chan chan_inv_def stable_def)
  ultimately show ?thesis using i unfolding inv_except_def by blast
qed

section \<open>Closing keeps the invariant\<close>

text \<open>What the closing operations on channel \<open>i\<close> leave alone.\<close>

text \<open>What was written to a socket.\<close>

fun written :: "int \<Rightarrow> io_event list \<Rightarrow> byte list" where
  "written fd [] = []"
| "written fd (Wrote f bs # es) = (if f = fd then bs else []) @ written fd es"
| "written fd (Shutdown f h # es) = written fd es"
| "written fd (Close f # es) = written fd es"

lemma written_append [simp]: "written fd (xs @ ys) = written fd xs @ written fd ys"
  by (induction fd xs rule: written.induct) simp_all

definition closes :: "nat \<Rightarrow> channel_state \<Rightarrow> channel_state \<Rightarrow> bool" where
  "closes i s s' \<longleftrightarrow> length (c_channels s') = length (c_channels s) \<and> (\<forall>j. j \<noteq> i \<longrightarrow> chan s' j = chan s j) \<and>
     ch_local_id (chan s' i) = ch_local_id (chan s i) \<and> ch_is_x_connection (chan s' i) = ch_is_x_connection (chan s i) \<and>
     ch_sock (chan s' i) = ch_sock (chan s i) \<and> ch_remote_id (chan s' i) = ch_remote_id (chan s i) \<and>
     (\<forall>fd. written fd (c_io s') = written fd (c_io s)) \<and>
     (\<forall>m. flag m (chan s i) \<longrightarrow> flag m (chan s' i)) \<and>
     flag STATUS_CLOSE_RECEIVED (chan s' i) = flag STATUS_CLOSE_RECEIVED (chan s i) \<and> (ch_type (chan s' i) = ch_type (chan s i) \<or> ch_type (chan s' i) = FREE)"

lemma closes_refl [simp]: "closes i s s"
  by (simp add: closes_def)

lemma closes_trans: "closes i s t \<Longrightarrow> closes i t u \<Longrightarrow> closes i s u"
  by (auto simp: closes_def)

lemma closes_free: "channel_free s i = Inr s' \<Longrightarrow> closes i s s'"
  by (auto simp: channel_free_def rbind_eq_Inr ensure_def closes_def chan_on_chan split: if_splits)

lemma check_termination_new:
  "\<not> c_old s \<Longrightarrow> channel_check_termination s i = (if terminated (chan s i) then channel_free s (ch_local_id (chan s i)) else Inr s)"
  by (simp only: channel_check_termination_def Let_def terminate_iff simp_thms if_False)

lemma inv_check_termination:
  assumes "inv_except {i} s" and "i < length (c_channels s)" and "ch_local_id (chan s i) = i"
    and "channel_check_termination s i = Inr s'"
  shows "inv_except {i} s' \<and> closes i s s' \<and>
     ((flag STATUS_CLOSE_RECEIVED (chan s i) \<longrightarrow> flag STATUS_INPUT_SOCKET_CLOSED (chan s i)) \<longrightarrow> channels_wf s')"
proof (cases "terminated (chan s i)")
  case True
  with assms have free: "channel_free s i = Inr s'" by (simp add: check_termination_new inv_except_def)
  from inv_free [OF assms(1) free] closes_free [OF free] show ?thesis by (auto intro: inv_weaken)
next
  case False
  with assms have "s' = s" by (simp add: check_termination_new inv_except_def)
  with False assms(1,2) show ?thesis by (auto simp: inv_except_def stable_def)
qed

lemma inv_send_ieof:
  assumes "inv_except {i} s" and "i < length (c_channels s)" and "ch_local_id (chan s i) = i"
    and "flag STATUS_INPUT_SOCKET_CLOSED (chan s i)" and "ch_type (chan s i) \<noteq> FREE \<longrightarrow> ch_input (chan s i) = []"
    and "channel_send_ieof s i = Inr s'"
  shows "inv_except {i} s' \<and> closes i s s' \<and> flag STATUS_EOF_SENT (chan s' i) \<and>
     (\<not> flag STATUS_EOF_SENT (chan s i) \<longrightarrow> channels_wf s')"
proof (cases "flag STATUS_EOF_SENT (chan s i)")
  case True
  with assms show ?thesis by (simp add: channel_send_ieof_def)
next
  case False
  let ?t = "send SSH_MSG_CHANNEL_INPUT_EOF [F_int (ch_remote_id (chan s i))] (on_chan (set_flag STATUS_EOF_SENT) i s)"
  have "inv_except {i} (on_chan (set_flag STATUS_EOF_SENT) i s)"
    by (rule inv_on_chan [OF assms(1,2)]) (use assms in \<open>auto simp: inv_except_def chan_inv_def flag_set\<close>)
  then have t: "inv_except {i} ?t" by simp
  have c: "closes i s ?t" using assms(2) by (simp add: closes_def chan_on_chan flag_set)
  have "channel_check_termination ?t i = Inr s'" using assms(1,2,6) False by (simp add: channel_send_ieof_def Let_def inv_except_def)
  from inv_check_termination [OF t _ _ this] assms(2-4) have "inv_except {i} s'" "closes i ?t s'" "channels_wf s'"
    by (simp_all add: flag_set)
  moreover have "flag STATUS_EOF_SENT (chan ?t i)" using assms(2) by (simp add: flag_set)
  ultimately show ?thesis using c closes_trans by (meson closes_def)
qed

lemma inv_send_oclosed:
  assumes "inv_except {i} s" and "i < length (c_channels s)" and "ch_local_id (chan s i) = i"
    and "flag STATUS_OUTPUT_SOCKET_CLOSED (chan s i)"
    and "channel_send_oclosed s i = Inr s'"
  shows "inv_except {i} s' \<and> closes i s s' \<and> flag STATUS_CLOSE_SENT (chan s' i) \<and>
     (\<not> flag STATUS_CLOSE_SENT (chan s i) \<longrightarrow>
      (flag STATUS_CLOSE_RECEIVED (chan s i) \<longrightarrow> flag STATUS_INPUT_SOCKET_CLOSED (chan s i)) \<longrightarrow> channels_wf s')"
proof (cases "flag STATUS_CLOSE_SENT (chan s i)")
  case True
  with assms show ?thesis by (simp add: channel_send_oclosed_def)
next
  case False
  let ?t = "send SSH_MSG_CHANNEL_OUTPUT_CLOSED [F_int (ch_remote_id (chan s i))] (on_chan (set_flag STATUS_CLOSE_SENT) i s)"
  have "inv_except {i} (on_chan (set_flag STATUS_CLOSE_SENT) i s)"
    by (rule inv_on_chan [OF assms(1,2)]) (use assms in \<open>auto simp: inv_except_def chan_inv_def flag_set\<close>)
  then have t: "inv_except {i} ?t" by simp
  have c: "closes i s ?t" using assms(2) by (simp add: closes_def chan_on_chan flag_set)
  have "channel_check_termination ?t i = Inr s'" using assms(1,2,5) False by (simp add: channel_send_oclosed_def Let_def)
  from inv_check_termination [OF t _ _ this] assms(2,3) have "inv_except {i} s'" "closes i ?t s'"
    "(flag STATUS_CLOSE_RECEIVED (chan s i) \<longrightarrow> flag STATUS_INPUT_SOCKET_CLOSED (chan s i)) \<longrightarrow> channels_wf s'"
    by (simp_all add: flag_set)
  moreover have "flag STATUS_CLOSE_SENT (chan ?t i)" using assms(2) by (simp add: flag_set)
  ultimately show ?thesis using c closes_trans by (meson closes_def)
qed

lemma inv_except_free: "inv_except {i} s \<Longrightarrow> ch_type (chan s i) = FREE \<Longrightarrow> channels_wf s"
  by (auto simp: inv_except_def stable_def)

text \<open>With the new protocol the two functions do not call each other.\<close>

lemma close_input_new:
  "\<not> c_old s \<Longrightarrow> channel_close_input s i =
     (if flag STATUS_INPUT_SOCKET_CLOSED (chan s i) then Inr s
      else let s = event (Shutdown (ch_sock (chan s i)) 0) (on_chan (set_flag STATUS_INPUT_SOCKET_CLOSED) i s)
           in if ch_type (chan s i) \<noteq> OPEN then channel_send_ieof s i else Inr s)"
proof -
  assume new: "\<not> c_old s"
  have keep: "channel_send_ieof t j = Inr t' \<Longrightarrow> \<not> c_old t \<Longrightarrow> \<not> c_old t'" for t t' j
    by (auto simp: channel_send_ieof_def channel_check_termination_def channel_free_def rbind_eq_Inr Let_def split: if_splits)
  have "rbind (channel_send_ieof t j) (\<lambda>u. if c_old u then f u else Inr u) = channel_send_ieof t j" if "\<not> c_old t" for t j f
    using keep [of t j] that by (cases "channel_send_ieof t j") auto
  with new show ?thesis by (simp add: channel_close_input_def numeral_3_eq_3 Let_def)
qed

lemma close_output_new:
  "\<not> c_old s \<Longrightarrow> channel_close_output s i =
     (if flag STATUS_OUTPUT_SOCKET_CLOSED (chan s i) then Inr s
      else channel_send_oclosed (on_chan (\<lambda>c. c\<lparr>ch_output := []\<rparr>) i
             (event (Shutdown (ch_sock (chan s i)) 1) (on_chan (set_flag STATUS_OUTPUT_SOCKET_CLOSED) i s))) i)"
  by (simp add: channel_close_output_def numeral_3_eq_3 Let_def)

lemma inv_close_input:
  assumes "inv_except {i} s" and "i < length (c_channels s)" and "ch_local_id (chan s i) = i"
    and "channel_close_input s i = Inr s'"
  shows "inv_except {i} s' \<and> closes i s s' \<and> flag STATUS_INPUT_SOCKET_CLOSED (chan s' i) \<and> (channels_wf s \<longrightarrow> channels_wf s')"
proof (cases "flag STATUS_INPUT_SOCKET_CLOSED (chan s i)")
  case True
  with assms show ?thesis by (simp add: close_input_new inv_except_def)
next
  case False
  have new: "\<not> c_old s" using assms(1) by (simp add: inv_except_def)
  let ?t = "event (Shutdown (ch_sock (chan s i)) 0) (on_chan (set_flag STATUS_INPUT_SOCKET_CLOSED) i s)"
  have "inv_except {i} (on_chan (set_flag STATUS_INPUT_SOCKET_CLOSED) i s)"
    by (rule inv_on_chan [OF assms(1,2)]) (use assms(1,2) in \<open>auto simp: inv_except_def chan_inv_def flag_set\<close>)
  then have t: "inv_except {i} ?t" by simp
  have c: "closes i s ?t" and f: "flag STATUS_INPUT_SOCKET_CLOSED (chan ?t i)"
    using assms(2) by (simp_all add: closes_def chan_on_chan flag_set)
  show ?thesis
  proof (cases "ch_type (chan s i) = OPEN")
    case True
    with assms(2,4) new False have s': "s' = ?t" by (simp add: close_input_new Let_def)
    have "channels_wf (on_chan (set_flag STATUS_INPUT_SOCKET_CLOSED) i s)" if "channels_wf s"
      by (rule inv_on_chan [OF that assms(2)])
        (use that assms(2) False True in \<open>auto simp: inv_except_def chan_inv_def stable_def terminated_def flag_set\<close>)
    then show ?thesis unfolding s' using t c f by simp
  next
    case nopen: False
    have "ch_type (chan ?t i) \<noteq> FREE \<longrightarrow> ch_input (chan ?t i) = []"
      using assms(1,2) nopen by (auto simp: inv_except_def chan_inv_def)
    from inv_send_ieof [OF t _ _ f this] assms(2,3,4) new False nopen
    have s': "inv_except {i} s' \<and> closes i ?t s' \<and> (\<not> flag STATUS_EOF_SENT (chan ?t i) \<longrightarrow> channels_wf s')"
      by (simp add: close_input_new Let_def)
    moreover have "ch_type (chan s i) \<noteq> FREE \<Longrightarrow> \<not> flag STATUS_EOF_SENT (chan ?t i)"
      using assms(1,2) False by (auto simp: inv_except_def chan_inv_def flag_set)
    moreover have "channels_wf s'" if "channels_wf s" "ch_type (chan s i) = FREE"
      using inv_except_free [of i s'] s' that c by (auto simp: closes_def)
    ultimately show ?thesis using c f closes_trans by (meson closes_def)
  qed
qed

lemma inv_close_output:
  assumes "inv_except {i} s" and "i < length (c_channels s)" and "ch_local_id (chan s i) = i"
    and "channel_close_output s i = Inr s'"
  shows "inv_except {i} s' \<and> closes i s s' \<and> flag STATUS_OUTPUT_SOCKET_CLOSED (chan s' i) \<and> (channels_wf s \<longrightarrow> channels_wf s')"
proof (cases "flag STATUS_OUTPUT_SOCKET_CLOSED (chan s i)")
  case True
  with assms show ?thesis by (simp add: close_output_new inv_except_def)
next
  case False
  have new: "\<not> c_old s" using assms(1) by (simp add: inv_except_def)
  let ?f = "\<lambda>c. (set_flag STATUS_OUTPUT_SOCKET_CLOSED c)\<lparr>ch_output := []\<rparr>"
  let ?t = "on_chan (\<lambda>c. c\<lparr>ch_output := []\<rparr>) i
     (event (Shutdown (ch_sock (chan s i)) 1) (on_chan (set_flag STATUS_OUTPUT_SOCKET_CLOSED) i s))"
  have eq: "?t = event (Shutdown (ch_sock (chan s i)) 1) (on_chan ?f i s)"
    using assms(2) by (simp add: on_chan_def event_def)
  have "inv_except {i} (on_chan ?f i s)"
    by (rule inv_on_chan [OF assms(1,2)]) (use assms(1,2) in \<open>auto simp: inv_except_def chan_inv_def flag_set\<close>)
  then have t: "inv_except {i} ?t" by (simp only: eq inv_send_event)
  have c: "closes i s ?t" and f: "flag STATUS_OUTPUT_SOCKET_CLOSED (chan ?t i)"
    using assms(2) by (simp_all add: eq closes_def chan_on_chan flag_set)
  from inv_send_oclosed [OF t _ _ f] assms(2,3,4) new False
  have s': "inv_except {i} s' \<and> closes i ?t s' \<and> (\<not> flag STATUS_CLOSE_SENT (chan ?t i) \<longrightarrow>
      (flag STATUS_CLOSE_RECEIVED (chan ?t i) \<longrightarrow> flag STATUS_INPUT_SOCKET_CLOSED (chan ?t i)) \<longrightarrow> channels_wf s')"
    by (simp add: close_output_new)
  moreover have "ch_type (chan s i) \<noteq> FREE \<Longrightarrow> \<not> flag STATUS_CLOSE_SENT (chan ?t i)"
    using assms(1,2) False by (auto simp: inv_except_def chan_inv_def flag_set)
  moreover have "channels_wf s \<Longrightarrow> ch_type (chan s i) \<noteq> FREE \<Longrightarrow>
      flag STATUS_CLOSE_RECEIVED (chan ?t i) \<longrightarrow> flag STATUS_INPUT_SOCKET_CLOSED (chan ?t i)"
    using assms(2) by (auto simp: inv_except_def stable_def flag_set)
  moreover have "channels_wf s'" if "channels_wf s" "ch_type (chan s i) = FREE"
    using inv_except_free [of i s'] s' that c by (auto simp: closes_def)
  ultimately show ?thesis using c f closes_trans by (meson closes_def)
qed

lemma receive_ieof_closes:
  assumes wf: "channels_wf s" and i: "i < length (c_channels s)" "ch_type (chan s i) \<noteq> FREE" and r: "channel_receive_ieof s i = Inr s'"
  shows "channels_wf s' \<and> closes i (on_chan (set_flag STATUS_EOF_RECEIVED) i s) s'"
proof -
  let ?t = "on_chan (set_flag STATUS_EOF_RECEIVED) i s"
  have cr: "flag STATUS_CLOSE_RECEIVED (chan s i) \<longrightarrow> flag STATUS_INPUT_SOCKET_CLOSED (chan s i)"
    and id: "ch_local_id (chan s i) = i" using wf i by (auto simp: inv_except_def stable_def chan_inv_def)
  have t: "inv_except {i} ?t"
    by (rule inv_on_chan [OF wf i(1)]) (use wf i in \<open>auto simp: inv_except_def chan_inv_def flag_set\<close>)
  have idt: "ch_local_id (chan ?t i) = i" "i < length (c_channels ?t)" using i(1) id by simp_all
  have crt: "flag STATUS_CLOSE_RECEIVED (chan ?t i) \<longrightarrow> flag STATUS_INPUT_SOCKET_CLOSED (chan ?t i)"
    using cr i(1) by (simp add: flag_set)
  obtain u where u: "(if ch_is_x_connection (chan ?t i) then channel_close_input ?t i else Inr ?t) = Inr u"
    and r2: "rbind (if ch_type (chan u i) \<noteq> OPEN then channel_close_output u i else Inr u) (\<lambda>s. channel_check_termination s i) = Inr s'"
    using r i(1) by (simp only: channel_receive_ieof_def Let_def rbind_eq_Inr split: if_split_asm) auto
  have u': "inv_except {i} u" "closes i ?t u"
    using u inv_close_input [OF t idt(2,1)] t by (auto split: if_splits)
  then have idu: "i < length (c_channels u)" "ch_local_id (chan u i) = i" using idt by (simp_all add: closes_def)
  obtain v where v: "(if ch_type (chan u i) \<noteq> OPEN then channel_close_output u i else Inr u) = Inr v" "channel_check_termination v i = Inr s'"
    using r2 by (auto simp: rbind_eq_Inr)
  have v': "inv_except {i} v" "closes i u v"
    using v(1) inv_close_output [OF u'(1) idu] u' by (auto split: if_splits)
  then have idv: "i < length (c_channels v)" "ch_local_id (chan v i) = i" using idu by (simp_all add: closes_def)
  have tv: "closes i ?t v" using closes_trans [OF u'(2) v'(2)] .
  then have "flag STATUS_CLOSE_RECEIVED (chan v i) \<longrightarrow> flag STATUS_INPUT_SOCKET_CLOSED (chan v i)"
    using crt unfolding closes_def by blast
  with inv_check_termination [OF v'(1) idv v(2)] closes_trans [OF tv] show ?thesis by blast
qed

lemma receive_oclosed_closes:
  assumes wf: "channels_wf s" and i: "i < length (c_channels s)" "ch_type (chan s i) \<noteq> FREE" and r: "channel_receive_oclosed s i = Inr s'"
  shows "channels_wf s' \<and> closes i (on_chan (\<lambda>c. (set_flag STATUS_CLOSE_RECEIVED c)\<lparr>ch_input := []\<rparr>) i s) s'"
proof -
  let ?t = "on_chan (\<lambda>c. (set_flag STATUS_CLOSE_RECEIVED c)\<lparr>ch_input := []\<rparr>) i s"
  have id: "ch_local_id (chan s i) = i" using wf i by (auto simp: inv_except_def chan_inv_def)
  have t: "inv_except {i} ?t"
    by (rule inv_on_chan [OF wf i(1)]) (use wf i in \<open>auto simp: inv_except_def chan_inv_def flag_set\<close>)
  have idt: "i < length (c_channels ?t)" "ch_local_id (chan ?t i) = i" using i(1) id by simp_all
  obtain u where u: "channel_close_input ?t i = Inr u" "channel_check_termination u i = Inr s'"
    using r by (auto simp: channel_receive_oclosed_def Let_def rbind_eq_Inr split: if_split_asm)
  from inv_close_input [OF t idt u(1)] have u': "inv_except {i} u" "closes i ?t u" "flag STATUS_INPUT_SOCKET_CLOSED (chan u i)"
    by simp_all
  then have "i < length (c_channels u)" "ch_local_id (chan u i) = i" using idt by (simp_all add: closes_def)
  from inv_check_termination [OF u'(1) this u(2)] u'(2,3) closes_trans show ?thesis by blast
qed

lemmas inv_receive_ieof = receive_ieof_closes [THEN conjunct1]
lemmas inv_receive_oclosed = receive_oclosed_closes [THEN conjunct1]

section \<open>The operations keep the invariant\<close>

lemma take_channel_ok:
  "take_channel ok complaint s q = Inr (i, q') \<Longrightarrow> i < length (c_channels s) \<and> ok (chan s i)"
  by (auto simp: take_channel_def rbind_eq_Inr Let_def nat_less_iff split: if_splits)

lemma first_free_Some:
  "first_free cs k = Some i \<Longrightarrow> k \<le> i \<and> i - k < length cs \<and> ch_type (cs ! (i - k)) = FREE \<and> (\<forall>j<i - k. ch_type (cs ! j) \<noteq> FREE)"
proof (induction cs arbitrary: k)
  case (Cons c cs)
  show ?case
  proof (cases "ch_type c = FREE")
    case True
    with Cons.prems show ?thesis by simp
  next
    case False
    with Cons have r: "k + 1 \<le> i \<and> i - (k + 1) < length cs \<and> ch_type (cs ! (i - (k + 1))) = FREE \<and>
        (\<forall>j<i - (k + 1). ch_type (cs ! j) \<noteq> FREE)" by simp
    then have "k < i" by simp
    then have "i - k = Suc (i - (k + 1))" by simp
    with r False show ?thesis by (auto simp: less_Suc_eq_0_disj)
  qed
qed simp

lemma first_free_None: "first_free cs k = None \<Longrightarrow> in_use cs = length cs"
  by (induction cs arbitrary: k) (auto simp: in_use_def split: if_splits)

lemma in_use_le: "in_use cs \<le> length cs"
  by (simp add: in_use_def)

lemma in_use_append: "in_use (cs @ replicate n free_slot) = in_use cs"
  by (simp add: in_use_def free_slot_def)

text \<open>The array in which \<^verbatim>\<open>channel_allocate\<close> searches.\<close>

definition room_made :: "Channel list \<Rightarrow> nat \<Rightarrow> Channel list" where
  "room_made cs used = (if cs = [] \<or> used = length cs then cs @ replicate 10 free_slot else cs)"

definition new_channel :: "channel_type \<Rightarrow> int \<Rightarrow> byte list \<Rightarrow> nat \<Rightarrow> Channel \<Rightarrow> Channel" where
  "new_channel type sock name i c = c\<lparr>ch_type := type, ch_sock := sock, ch_remote_id := -1, ch_local_id := i,
      ch_status_flags := 0, ch_input := [], ch_output := [], ch_remote_name := Some name, ch_is_x_connection := False\<rparr>"

lemma channel_allocate_ok:
  assumes wf: "channels_wf s"
  shows "\<exists>i s'. channel_allocate s type sock name = Inr (i, s') \<and> i < length (room_made (c_channels s) (c_used s)) \<and>
     ch_type (room_made (c_channels s) (c_used s) ! i) = FREE \<and>
     (\<forall>j<i. ch_type (room_made (c_channels s) (c_used s) ! j) \<noteq> FREE) \<and>
     s' = s\<lparr>c_max_fd := max (c_max_fd s) sock, c_used := c_used s + 1,
       c_channels := (room_made (c_channels s) (c_used s))[i := new_channel type sock name i (room_made (c_channels s) (c_used s) ! i)]\<rparr>"
proof -
  let ?cs = "room_made (c_channels s) (c_used s)" and ?k = "if c_channels s \<noteq> [] \<and> c_used s = length (c_channels s) then c_used s else 0"
  have used: "c_used s = in_use (c_channels s)" using wf by (simp add: inv_except_def)
  have inuse: "in_use ?cs = c_used s" "c_used s < length ?cs"
    using used in_use_le [of "c_channels s"] by (auto simp: room_made_def in_use_append)
  have "first_free (drop ?k ?cs) ?k \<noteq> None"
  proof
    assume none: "first_free (drop ?k ?cs) ?k = None"
    show False
    proof (cases "c_channels s \<noteq> [] \<and> c_used s = length (c_channels s)")
      case True
      then have "drop ?k ?cs = replicate 10 free_slot" by (simp add: room_made_def)
      with none show False by (simp add: free_slot_def numeral_eq_Suc split: if_splits)
    next
      case False
      with first_free_None [OF none] inuse show False by simp
    qed
  qed
  then obtain i where i: "first_free (drop ?k ?cs) ?k = Some i" by blast
  from first_free_Some [OF i] have k: "?k \<le> i" "i < length ?cs" "ch_type (?cs ! i) = FREE"
    "\<forall>j<i - ?k. ch_type (?cs ! (?k + j)) \<noteq> FREE" by auto
  have "ch_type (?cs ! j) \<noteq> FREE" if j: "j < i" for j
  proof (cases "?k \<le> j")
    case True
    with k(4) j have "ch_type (?cs ! (?k + (j - ?k))) \<noteq> FREE" by (metis diff_less_mono)
    with True show ?thesis by simp
  next
    case False
    then have full: "c_channels s \<noteq> []" "c_used s = length (c_channels s)" "j < length (c_channels s)" by (auto split: if_splits)
    have "in_use cs = length cs \<Longrightarrow> j < length cs \<Longrightarrow> ch_type (cs ! j) \<noteq> FREE" for cs
      using length_filter_less [of "cs ! j" cs "\<lambda>c. ch_type c \<noteq> FREE"] by (auto simp: in_use_def)
    with full used show ?thesis by (simp add: room_made_def nth_append)
  qed
  moreover have "channel_allocate s type sock name = Inr (i, s\<lparr>c_max_fd := max (c_max_fd s) sock, c_used := c_used s + 1,
       c_channels := ?cs[i := new_channel type sock name i (?cs ! i)]\<rparr>)"
  proof -
    define t where "t = (if sock > c_max_fd s then s\<lparr>c_max_fd := sock\<rparr> else s)"
    have t: "t = s\<lparr>c_max_fd := max (c_max_fd s) sock\<rparr>" by (simp add: t_def max_def)
    consider "c_channels s = []" | "c_channels s \<noteq> []" "c_used s = length (c_channels s)"
      | "c_channels s \<noteq> []" "c_used s \<noteq> length (c_channels s)" by blast
    then show ?thesis
    proof cases
      case 1
      then have "c_used s = 0" using used by (simp add: in_use_def)
      with 1 i show ?thesis unfolding channel_allocate_def t_def [symmetric] Let_def t
        by (simp add: room_made_def on_chan_def new_channel_def)
    next
      case 2
      with i show ?thesis unfolding channel_allocate_def t_def [symmetric] Let_def t
        by (simp add: room_made_def on_chan_def new_channel_def)
    next
      case 3
      with i show ?thesis unfolding channel_allocate_def t_def [symmetric] Let_def t
        by (simp add: room_made_def on_chan_def new_channel_def)
    qed
  qed
  ultimately show ?thesis using k by blast
qed

lemma room_made_nth:
  "j < length (room_made cs n) \<Longrightarrow> room_made cs n ! j = (if j < length cs then cs ! j else free_slot)"
  by (auto simp: room_made_def nth_append nth_Cons')

lemma length_room_made: "length cs \<le> length (room_made cs n)"
  by (simp add: room_made_def)

lemma channel_allocate_facts:
  assumes wf: "channels_wf s" and a: "channel_allocate s type sock name = Inr (i, s')" and type: "type \<noteq> FREE"
  shows "channels_wf s'" and "i < length (c_channels s')" and "length (c_channels s) \<le> length (c_channels s')"
    and "ch_type (chan s' i) = type" "ch_status_flags (chan s' i) = 0" "ch_input (chan s' i) = []" "ch_output (chan s' i) = []"
    and "ch_local_id (chan s' i) = i" "ch_sock (chan s' i) = sock"
    and "j < length (c_channels s) \<Longrightarrow> j \<noteq> i \<Longrightarrow> chan s' j = chan s j"
    and "j < length (c_channels s') \<Longrightarrow> length (c_channels s) \<le> j \<Longrightarrow> j \<noteq> i \<Longrightarrow> ch_type (chan s' j) = FREE"
    and "i < length (c_channels s) \<Longrightarrow> ch_type (chan s i) = FREE"
    and "c_sent s' = c_sent s" "c_io s' = c_io s" "c_old s' = c_old s" "c_max_packet s' = c_max_packet s"
proof -
  let ?cs = "room_made (c_channels s) (c_used s)"
  from channel_allocate_ok [OF wf, of type sock name] a have i: "i < length ?cs" "ch_type (?cs ! i) = FREE" and
    s': "s' = s\<lparr>c_max_fd := max (c_max_fd s) sock, c_used := c_used s + 1,
       c_channels := ?cs[i := new_channel type sock name i (?cs ! i)]\<rparr>" by auto
  have l: "length (c_channels s') = length ?cs" by (simp add: s')
  show "i < length (c_channels s')" "length (c_channels s) \<le> length (c_channels s')" using i l length_room_made by simp_all
  show new: "ch_type (chan s' i) = type" "ch_status_flags (chan s' i) = 0" "ch_input (chan s' i) = []" "ch_output (chan s' i) = []"
     "ch_local_id (chan s' i) = i" "ch_sock (chan s' i) = sock" using i by (simp_all add: s' new_channel_def)
  show other: "chan s' j = chan s j" if "j < length (c_channels s)" "j \<noteq> i" for j
    using that length_room_made [of "c_channels s" "c_used s"] by (simp add: s' room_made_nth)
  show fresh: "ch_type (chan s' j) = FREE" if "j < length (c_channels s')" "length (c_channels s) \<le> j" "j \<noteq> i" for j
    using that l by (simp add: s' room_made_nth free_slot_def)
  show free: "ch_type (chan s i) = FREE" if "i < length (c_channels s)" using that i by (simp add: room_made_nth)
  show "c_sent s' = c_sent s" "c_io s' = c_io s" "c_old s' = c_old s" "c_max_packet s' = c_max_packet s" by (simp_all add: s')
  have "in_use ?cs = c_used s" using wf by (auto simp: inv_except_def room_made_def in_use_append)
  then have "c_used s' = in_use (c_channels s')"
    using in_use_update [OF i(1), of "new_channel type sock name i (?cs ! i)"] i(2) type by (simp add: s' new_channel_def)
  moreover have "\<not> c_old s'" using wf by (simp add: s' inv_except_def)
  moreover have "chan_inv k (chan s' k) \<and> stable (chan s' k)" if k: "k < length (c_channels s')" for k
  proof (cases "k = i")
    case True
    then show ?thesis using new by (simp add: chan_inv_def stable_def terminated_def flag_def)
  next
    case False
    show ?thesis
    proof (cases "k < length (c_channels s)")
      case True
      with other [OF True False] wf show ?thesis by (simp add: inv_except_def)
    next
      case False
      with fresh [OF k] \<open>k \<noteq> i\<close> show ?thesis by (simp add: chan_inv_def stable_def)
    qed
  qed
  ultimately show "channels_wf s'" by (simp add: inv_except_def)
qed

text \<open>Updates that change no flag and no type.\<close>

lemma inv_plain_update:
  assumes "channels_wf s" and "i < length (c_channels s)" and "ch_type (f (chan s i)) = ch_type (chan s i)"
    and "ch_status_flags (f (chan s i)) = ch_status_flags (chan s i)" and "ch_local_id (f (chan s i)) = ch_local_id (chan s i)"
    and "ch_input (f (chan s i)) = ch_input (chan s i)" and "ch_output (f (chan s i)) = ch_output (chan s i)"
  shows "channels_wf (on_chan f i s)"
proof -
  have fl: "flag m (f (chan s i)) = flag m (chan s i)" for m using assms(4) by (simp add: flag_def)
  then have "stable (f (chan s i)) = stable (chan s i)" "chan_inv i (f (chan s i)) = chan_inv i (chan s i)"
    using assms by (simp_all add: stable_def chan_inv_def terminated_def)
  with assms(1,2,3) show ?thesis by (intro inv_on_chan [OF assms(1,2)]) (auto simp: inv_except_def)
qed

lemma inv_open_confirmation: "channels_wf s \<Longrightarrow> i < length (c_channels s) \<Longrightarrow> channels_wf (open_confirmation r i s)"
  unfolding open_confirmation_def inv_send_event by (rule inv_plain_update) simp_all

lemma inv_open_failure [simp]: "inv_except K (open_failure r s) = inv_except K s"
  by (simp add: open_failure_def)

lemma inv_close:
  assumes "channels_wf s" and "i < length (c_channels s)" and "ch_type (chan s i) \<noteq> FREE"
  shows "channel_close_input s i = Inr s' \<Longrightarrow> channels_wf s'" and "channel_close_output s i = Inr s' \<Longrightarrow> channels_wf s'"
proof -
  have id: "ch_local_id (chan s i) = i" using assms by (auto simp: inv_except_def chan_inv_def)
  have w: "inv_except {i} s" by (rule inv_weaken [OF assms(1)]) simp
  show "channels_wf s'" if "channel_close_input s i = Inr s'" using inv_close_input [OF w assms(2) id that] assms(1) by simp
  show "channels_wf s'" if "channel_close_output s i = Inr s'" using inv_close_output [OF w assms(2) id that] assms(1) by simp
qed

lemma inv_prepare_open:
  assumes "channels_wf s" and "i < length (c_channels s)" and "ch_type (chan s i) \<noteq> FREE" and "prepare_open s i = Inr (rd, wr, s')"
  shows "channels_wf s'"
  using assms inv_close(2) [OF assms(1-3)] by (auto simp: prepare_open_def Let_def rbind_eq_Inr split: if_splits)

lemma inv_prepare_channel:
  assumes wf: "channels_wf s" and i: "i < length (c_channels s)" and p: "prepare_channel s i = Inr (rd, wr, s')"
  shows "channels_wf s'"
proof (cases "ch_type (chan s i) = X11_OPEN")
  case False
  with assms inv_prepare_open [OF wf i, of rd wr s'] show ?thesis by (cases "ch_type (chan s i)") (auto simp: prepare_channel_def)
next
  case True
  have c: "chan_inv i (chan s i)" "stable (chan s i)" using wf i by (auto simp: inv_except_def)
  obtain v where v: "x11_check s (ch_output (chan s i)) = Inr v" using p True by (auto simp: prepare_channel_def rbind_eq_Inr)
  show ?thesis
  proof (cases v)
    case X11_wait
    with v p True wf show ?thesis by (simp add: prepare_channel_def)
  next
    case X11_reject
    let ?t = "on_chan (\<lambda>c. c\<lparr>ch_type := OPEN, ch_input := [], ch_output := []\<rparr>) i s"
    have t: "channels_wf ?t"
      by (rule inv_on_chan [OF wf i]) (use c True in \<open>auto simp: chan_inv_def stable_def terminated_def flag_def\<close>)
    obtain u where u: "channel_close_input ?t i = Inr u" "channel_close_output u i = Inr s'"
      using v p True X11_reject by (auto simp: prepare_channel_def rbind_eq_Inr)
    have "channels_wf u" using inv_close(1) [OF t _ _ u(1)] i by simp
    moreover have "i < length (c_channels u)" "ch_local_id (chan u i) = i"
      using inv_close_input [OF inv_weaken [OF t] _ _ u(1)] i c True by (auto simp: closes_def chan_inv_def)
    ultimately show ?thesis using inv_close_output [OF inv_weaken _ _ u(2)] by blast
  next
    case (X11_accept ucp)
    have o: "flag STATUS_OUTPUT_SOCKET_CLOSED (chan s i) \<longrightarrow> False"
    proof
      assume "flag STATUS_OUTPUT_SOCKET_CLOSED (chan s i)"
      with c True have "ch_output (chan s i) = []" by (simp add: chan_inv_def)
      with v X11_accept show False by (simp add: x11_check_def)
    qed
    let ?t = "on_chan (\<lambda>c. c\<lparr>ch_output := ucp, ch_type := OPEN\<rparr>) i s"
    have t: "channels_wf ?t"
      by (rule inv_on_chan [OF wf i]) (use c True o in \<open>auto simp: chan_inv_def stable_def terminated_def flag_def\<close>)
    from inv_prepare_open [OF t, of i rd wr s'] v p True X11_accept i show ?thesis by (simp add: prepare_channel_def)
  qed
qed

lemma prepare_open_length:
  assumes "channels_wf s" and "i < length (c_channels s)" and "ch_type (chan s i) \<noteq> FREE" and "prepare_open s i = Inr (rd, wr, s')"
  shows "closes i s s'"
proof -
  have "ch_local_id (chan s i) = i" using assms by (auto simp: inv_except_def chan_inv_def)
  with inv_close_output [OF inv_weaken [OF assms(1)] assms(2), of s'] assms(4) show ?thesis
    by (auto simp: prepare_open_def Let_def rbind_eq_Inr split: if_splits)
qed

lemma prepare_channel_frame:
  assumes wf: "channels_wf s" and i: "i < length (c_channels s)" and p: "prepare_channel s i = Inr (rd, wr, s')"
  shows "length (c_channels s') = length (c_channels s) \<and> (\<forall>j. j \<noteq> i \<longrightarrow> chan s' j = chan s j)"
proof (cases "ch_type (chan s i) = X11_OPEN")
  case False
  with p prepare_open_length [OF wf i, of rd wr s'] show ?thesis
    by (cases "ch_type (chan s i)") (auto simp: prepare_channel_def closes_def)
next
  case True
  have c: "chan_inv i (chan s i)" "stable (chan s i)" using wf i by (auto simp: inv_except_def)
  obtain v where v: "x11_check s (ch_output (chan s i)) = Inr v" using p True by (auto simp: prepare_channel_def rbind_eq_Inr)
  show ?thesis
  proof (cases v)
    case X11_wait
    with v p True show ?thesis by (simp add: prepare_channel_def)
  next
    case X11_reject
    let ?t = "on_chan (\<lambda>c. c\<lparr>ch_type := OPEN, ch_input := [], ch_output := []\<rparr>) i s"
    have t: "channels_wf ?t"
      by (rule inv_on_chan [OF wf i]) (use c True in \<open>auto simp: chan_inv_def stable_def terminated_def flag_def\<close>)
    obtain u where u: "channel_close_input ?t i = Inr u" "channel_close_output u i = Inr s'"
      using v p True X11_reject by (auto simp: prepare_channel_def rbind_eq_Inr)
    have cu: "inv_except {i} u" "closes i ?t u"
      using inv_close_input [OF inv_weaken [OF t] _ _ u(1)] i c True by (auto simp: chan_inv_def)
    then have "i < length (c_channels u)" "ch_local_id (chan u i) = i" using i c True by (auto simp: closes_def chan_inv_def)
    from inv_close_output [OF cu(1) this u(2)] have "closes i u s'" by simp
    with cu(2) i show ?thesis by (auto simp: closes_def chan_on_chan)
  next
    case (X11_accept ucp)
    have o: "\<not> flag STATUS_OUTPUT_SOCKET_CLOSED (chan s i)"
    proof
      assume "flag STATUS_OUTPUT_SOCKET_CLOSED (chan s i)"
      with c True have "ch_output (chan s i) = []" by (simp add: chan_inv_def)
      with v X11_accept show False by (simp add: x11_check_def)
    qed
    let ?t = "on_chan (\<lambda>c. c\<lparr>ch_output := ucp, ch_type := OPEN\<rparr>) i s"
    have t: "channels_wf ?t"
      by (rule inv_on_chan [OF wf i]) (use c True o in \<open>auto simp: chan_inv_def stable_def terminated_def flag_def\<close>)
    from prepare_open_length [OF t, of i rd wr s'] v p True X11_accept i show ?thesis
      by (auto simp: prepare_channel_def closes_def chan_on_chan)
  qed
qed

lemma inv_prepare_loop:
  "channels_wf s \<Longrightarrow> \<forall>i\<in>set is. i < length (c_channels s) \<Longrightarrow> prepare_loop s is = Inr (rd, wr, s') \<Longrightarrow> channels_wf s'"
proof (induction "is" arbitrary: s rd wr)
  case (Cons i "is")
  then obtain r1 w1 t r2 w2 where "prepare_channel s i = Inr (r1, w1, t)" "prepare_loop t is = Inr (r2, w2, s')"
    by (auto simp: rbind_eq_Inr)
  with Cons inv_prepare_channel [of s i r1 w1 t] prepare_channel_frame [of s i r1 w1 t] show ?case by auto
qed simp

text \<open>\<^verbatim>\<open>select\<close> reports a descriptor as readable only if it was asked about it.\<close>

definition selects :: "select_env \<Rightarrow> channel_state \<Rightarrow> bool" where
  "selects e s \<longleftrightarrow> (\<forall>i<length (c_channels s). ch_type (chan s i) = OPEN \<longrightarrow> flag STATUS_INPUT_SOCKET_CLOSED (chan s i) \<longrightarrow>
     \<not> os_readable e (ch_sock (chan s i)))"

lemma inv_refuse [simp]: "inv_except K (refuse_connection s newsock msg) = inv_except K s"
  by (simp add: refuse_connection_def split: option.splits)

lemma inv_accept:
  assumes wf: "channels_wf s"
  shows "accept_x11 e s i = Inr s' \<Longrightarrow> channels_wf s'" and "accept_port e s i = Inr s' \<Longrightarrow> channels_wf s'"
    and "accept_agent e s i = Inr s' \<Longrightarrow> channels_wf s'"
proof -
  have new: "channels_wf t \<and> n < length (c_channels t)" if "channel_allocate s OPENING fd buf = Inr (n, t)" for fd buf n t
    using channel_allocate_facts(1,2) [OF wf that] by simp
  with wf show "accept_x11 e s i = Inr s' \<Longrightarrow> channels_wf s'"
    by (auto simp: accept_x11_def rbind_eq_Inr split: accept_result.splits intro!: inv_plain_update)
  from new wf show "accept_port e s i = Inr s' \<Longrightarrow> channels_wf s'"
    by (auto simp: accept_port_def rbind_eq_Inr split: accept_result.splits if_splits)
  from new wf show "accept_agent e s i = Inr s' \<Longrightarrow> channels_wf s'"
    by (auto simp: accept_agent_def rbind_eq_Inr split: accept_result.splits)
qed

lemma inv_channel_read:
  assumes wf: "channels_wf s" and i: "i < length (c_channels s)" "ch_type (chan s i) = OPEN" and r: "channel_read e s i = Inr (b, s')"
    and sel: "flag STATUS_INPUT_SOCKET_CLOSED (chan s i) \<longrightarrow> \<not> os_readable e (ch_sock (chan s i))"
  shows "channels_wf s' \<and> (b \<longrightarrow> length (c_channels s') = length (c_channels s) \<and> ch_type (chan s' i) = OPEN)"
proof (cases "\<exists>buf. os_readable e (ch_sock (chan s i)) \<and> os_read e (ch_sock (chan s i)) = Data buf \<and> take (min 16384 (c_max_packet s div 4)) buf \<noteq> []")
  case True
  then obtain buf where buf: "os_readable e (ch_sock (chan s i))" "os_read e (ch_sock (chan s i)) = Data buf"
    "take (min 16384 (c_max_packet s div 4)) buf \<noteq> []" by blast
  let ?new = "take (min 16384 (c_max_packet s div 4)) buf"
  have b: "s' = on_chan (\<lambda>c. c\<lparr>ch_input := ch_input c @ ?new\<rparr>) i s" "b" "os_readable e (ch_sock (chan s i))"
    using r buf unfolding channel_read_def Let_def by (simp_all only: if_False read_result.case not_True_eq_False) simp_all
  have c: "chan_inv i (chan s i)" "stable (chan s i)" using wf i by (auto simp: inv_except_def)
  have "channels_wf s'" unfolding b(1)
    by (rule inv_on_chan [OF wf i(1)]) (use c i sel b(3) in \<open>auto simp: chan_inv_def stable_def terminated_def\<close>)
  with b i show ?thesis by simp
next
  case False
  with r wf i inv_close(1) [OF wf i(1), of s'] show ?thesis
    by (auto simp: channel_read_def Let_def rbind_eq_Inr split: if_splits read_result.splits)
qed

lemma inv_channel_write:
  assumes wf: "channels_wf s" and i: "i < length (c_channels s)" "ch_type (chan s i) = OPEN" and r: "channel_write e s i = Inr s'"
  shows "channels_wf s'"
proof (cases "\<exists>n. os_writable e (ch_sock (chan s i)) \<and> ch_output (chan s i) \<noteq> [] \<and> os_write e (ch_sock (chan s i)) = Written n \<and> n \<noteq> 0")
  case True
  then obtain n where b: "s' = on_chan (\<lambda>c. c\<lparr>ch_output := drop n (ch_output c)\<rparr>) i (event (Wrote (ch_sock (chan s i)) (take n (ch_output (chan s i)))) s)"
    using r by (auto simp: channel_write_def Let_def)
  have c: "chan_inv i (chan s i)" "stable (chan s i)" using wf i by (auto simp: inv_except_def)
  show ?thesis unfolding b
    by (rule inv_on_chan) (use wf c i in \<open>auto simp: chan_inv_def stable_def terminated_def\<close>)
next
  case False
  with r wf i inv_close(2) [OF wf i(1), of s'] show ?thesis
    by (auto simp: channel_write_def Let_def rbind_eq_Inr split: if_splits write_result.splits)
qed

lemma inv_after_channel:
  assumes wf: "channels_wf s" and i: "i < length (c_channels s)" and r: "after_channel e s i = Inr s'"
    and sel: "ch_type (chan s i) = OPEN \<longrightarrow> flag STATUS_INPUT_SOCKET_CLOSED (chan s i) \<longrightarrow> \<not> os_readable e (ch_sock (chan s i))"
  shows "channels_wf s'"
proof (cases "ch_type (chan s i) = OPEN")
  case False
  with r wf inv_accept [OF wf] show ?thesis by (cases "ch_type (chan s i)") (auto simp: after_channel_def split: if_splits)
next
  case True
  then obtain b t where t: "channel_read e s i = Inr (b, t)" "(if b then channel_write e t i else Inr t) = Inr s'"
    using r by (auto simp: after_channel_def rbind_eq_Inr)
  with inv_channel_read [OF wf i True t(1)] sel True inv_channel_write [of t i e s'] i show ?thesis by (auto split: if_splits)
qed

text \<open>The loop after \<^verbatim>\<open>select\<close> opens no channel and leaves the other open ones alone.\<close>

definition keeps_open :: "nat set \<Rightarrow> channel_state \<Rightarrow> channel_state \<Rightarrow> bool" where
  "keeps_open K s t \<longleftrightarrow> length (c_channels s) \<le> length (c_channels t) \<and>
     (\<forall>j<length (c_channels s). j \<notin> K \<longrightarrow>
        (ch_type (chan s j) = OPEN \<longrightarrow> chan t j = chan s j) \<and> (ch_type (chan t j) = OPEN \<longrightarrow> ch_type (chan s j) = OPEN))"

lemma keeps_openD:
  assumes "keeps_open K s t"
  shows "length (c_channels s) \<le> length (c_channels t)"
    and "j < length (c_channels s) \<Longrightarrow> j \<notin> K \<Longrightarrow> ch_type (chan s j) = OPEN \<Longrightarrow> chan t j = chan s j"
    and "j < length (c_channels s) \<Longrightarrow> j \<notin> K \<Longrightarrow> ch_type (chan t j) = OPEN \<Longrightarrow> ch_type (chan s j) = OPEN"
  using assms unfolding keeps_open_def by blast+

lemma keeps_openI:
  assumes "length (c_channels s) \<le> length (c_channels t)"
    and "\<And>j. j < length (c_channels s) \<Longrightarrow> j \<notin> K \<Longrightarrow> ch_type (chan s j) = OPEN \<Longrightarrow> chan t j = chan s j"
    and "\<And>j. j < length (c_channels s) \<Longrightarrow> j \<notin> K \<Longrightarrow> ch_type (chan t j) = OPEN \<Longrightarrow> ch_type (chan s j) = OPEN"
  shows "keeps_open K s t"
  using assms unfolding keeps_open_def by blast

lemma keeps_open_allocate:
  assumes wf: "channels_wf s" and a: "channel_allocate s OPENING fd buf = Inr (n, t)"
  shows "keeps_open K s t"
proof -
  note f = channel_allocate_facts [OF wf a]
  have "(ch_type (chan s j) = OPEN \<longrightarrow> chan t j = chan s j) \<and> (ch_type (chan t j) = OPEN \<longrightarrow> ch_type (chan s j) = OPEN)"
    if "j < length (c_channels s)" for j
    using that f(4,12) f(10) [of j] by (cases "j = n") auto
  then show ?thesis using f(3) by (intro keeps_openI) blast+
qed

lemma keeps_open_simps [simp]:
  "keeps_open K s (send ty fs t) = keeps_open K s t" "keeps_open K s (event ev t) = keeps_open K s t" "keeps_open K s s"
  by (simp_all add: keeps_open_def)

lemma keeps_open_trans:
  assumes k: "keeps_open K s t" and l: "keeps_open K t u"
  shows "keeps_open K s u"
proof (rule keeps_openI)
  show "length (c_channels s) \<le> length (c_channels u)" using keeps_openD(1) [OF k] keeps_openD(1) [OF l] by simp
  fix j assume j: "j < length (c_channels s)" "j \<notin> K"
  then have jt: "j < length (c_channels t)" using keeps_openD(1) [OF k] by simp
  show "chan u j = chan s j" if "ch_type (chan s j) = OPEN"
    using keeps_openD(2) [OF k j that] keeps_openD(2) [OF l jt j(2)] that by simp
  show "ch_type (chan s j) = OPEN" if "ch_type (chan u j) = OPEN"
    using keeps_openD(3) [OF k j] keeps_openD(3) [OF l jt j(2) that] by blast
qed

lemma keeps_open_on_chan:
  assumes k: "keeps_open K s t" and n: "n < length (c_channels t)" and type: "ch_type (chan t n) \<noteq> OPEN" "ch_type (f (chan t n)) \<noteq> OPEN"
  shows "keeps_open K s (on_chan f n t)"
proof (rule keeps_openI)
  show "length (c_channels s) \<le> length (c_channels (on_chan f n t))" using keeps_openD(1) [OF k] by simp
  fix j assume j: "j < length (c_channels s)" "j \<notin> K"
  show "chan (on_chan f n t) j = chan s j" if "ch_type (chan s j) = OPEN"
    using keeps_openD(2) [OF k j that] type(1) that by (cases "j = n") (simp_all add: chan_on_chan n)
  show "ch_type (chan s j) = OPEN" if "ch_type (chan (on_chan f n t) j) = OPEN"
    using keeps_openD(3) [OF k j] type(2) that by (cases "j = n") (simp_all add: chan_on_chan n)
qed

lemma keeps_open_own: "n < length (c_channels s) \<Longrightarrow> keeps_open {n} s (on_chan f n s)"
  by (rule keeps_openI) (simp_all add: chan_on_chan)

lemma keeps_open_refuse [simp]: "keeps_open K s (refuse_connection s k msg)"
  by (simp add: refuse_connection_def split: option.splits)

lemma keeps_open_accept:
  assumes wf: "channels_wf s"
  shows "accept_x11 e s i = Inr s' \<Longrightarrow> keeps_open K s s'" and "accept_port e s i = Inr s' \<Longrightarrow> keeps_open K s s'"
    and "accept_agent e s i = Inr s' \<Longrightarrow> keeps_open K s s'"
proof -
  have new: "keeps_open K s t \<and> n < length (c_channels t) \<and> ch_type (chan t n) = OPENING"
    if a: "channel_allocate s OPENING fd buf = Inr (n, t)" for fd buf n t
    using keeps_open_allocate [OF wf a] channel_allocate_facts(2,4) [OF wf a] by simp
  show "accept_x11 e s i = Inr s' \<Longrightarrow> keeps_open K s s'"
  proof (cases "os_accept e (ch_sock (chan s i))")
    case (Accepted fd buf)
    assume "accept_x11 e s i = Inr s'"
    with Accepted obtain n t where a: "channel_allocate s OPENING fd buf = Inr (n, t)"
      and s': "s' = send SSH_SMSG_X11_OPEN ([F_int (of_nat n)] @ (if c_have_hostname_in_open t then [F_string buf] else []))
                 (on_chan (\<lambda>c. c\<lparr>ch_is_x_connection := True\<rparr>) n t)" by (auto simp: accept_x11_def rbind_eq_Inr)
    show ?thesis unfolding s' keeps_open_simps by (rule keeps_open_on_chan) (use new [OF a] in simp_all)
  qed (auto simp: accept_x11_def)
  show "accept_port e s i = Inr s' \<Longrightarrow> keeps_open K s s'"
  proof (cases "os_accept e (ch_sock (chan s i))")
    case (Accepted fd buf)
    assume "accept_port e s i = Inr s'"
    with Accepted obtain n t fs where "channel_allocate s OPENING fd buf = Inr (n, t)" "s' = send SSH_MSG_PORT_OPEN fs t"
      by (auto simp: accept_port_def rbind_eq_Inr split: if_splits)
    with new show ?thesis by simp
  qed (auto simp: accept_port_def)
  show "accept_agent e s i = Inr s' \<Longrightarrow> keeps_open K s s'"
  proof (cases "os_accept e (ch_sock (chan s i))")
    case (Accepted fd buf)
    assume "accept_agent e s i = Inr s'"
    with Accepted obtain name n t fs where "channel_allocate s OPENING fd name = Inr (n, t)" "s' = send SSH_SMSG_AGENT_OPEN fs t"
      by (auto simp: accept_agent_def rbind_eq_Inr)
    with new show ?thesis by simp
  qed (auto simp: accept_agent_def)
qed

lemma close_frame:
  assumes "channels_wf s" and "i < length (c_channels s)" and "ch_type (chan s i) \<noteq> FREE"
    and "channel_close_input s i = Inr s' \<or> channel_close_output s i = Inr s'"
  shows "closes i s s'"
proof -
  have id: "ch_local_id (chan s i) = i" using assms by (auto simp: inv_except_def chan_inv_def)
  have w: "inv_except {i} s" by (rule inv_weaken [OF assms(1)]) simp
  from assms(4) show ?thesis using inv_close_input [OF w assms(2) id] inv_close_output [OF w assms(2) id] by blast
qed

lemma keeps_open_closes: "closes i s s' \<Longrightarrow> keeps_open {i} s s'"
  by (auto simp: closes_def keeps_open_def)

lemma keeps_open_read:
  assumes "channels_wf s" and "i < length (c_channels s)" and "ch_type (chan s i) = OPEN" and "channel_read e s i = Inr (b, s')"
  shows "closes i s s' \<or> (\<exists>buf. s' = on_chan (\<lambda>c. c\<lparr>ch_input := ch_input c @ buf\<rparr>) i s)"
  using assms(4) close_frame [OF assms(1,2)] assms(3)
  by (auto simp: channel_read_def Let_def rbind_eq_Inr split: if_splits read_result.splits)

lemma keeps_open_write:
  assumes "channels_wf s" and "i < length (c_channels s)" and "ch_type (chan s i) = OPEN" and "channel_write e s i = Inr s'"
  shows "keeps_open {i} s s'"
proof -
  have "keeps_open {i} s (on_chan f i (event ev s))" for f ev
    using assms(2) by (intro keeps_openI) (simp_all add: chan_on_chan)
  with assms(4) close_frame [OF assms(1,2), THEN keeps_open_closes] assms(3) show ?thesis
    by (auto simp: channel_write_def Let_def rbind_eq_Inr split: if_splits write_result.splits)
qed

lemma keeps_open_after:
  assumes wf: "channels_wf s" and i: "i < length (c_channels s)" and r: "after_channel e s i = Inr s'"
    and sel: "ch_type (chan s i) = OPEN \<longrightarrow> flag STATUS_INPUT_SOCKET_CLOSED (chan s i) \<longrightarrow> \<not> os_readable e (ch_sock (chan s i))"
  shows "keeps_open {i} s s'"
proof (cases "ch_type (chan s i) = OPEN")
  case False
  with r keeps_open_accept [OF wf] show ?thesis by (cases "ch_type (chan s i)") (auto simp: after_channel_def split: if_splits)
next
  case True
  then obtain b t where t: "channel_read e s i = Inr (b, t)" "(if b then channel_write e t i else Inr t) = Inr s'"
    using r by (auto simp: after_channel_def rbind_eq_Inr)
  from inv_channel_read [OF wf i True t(1)] sel True
  have wt: "channels_wf t" "b \<Longrightarrow> length (c_channels t) = length (c_channels s) \<and> ch_type (chan t i) = OPEN" by blast+
  have k: "keeps_open {i} s t" using keeps_open_read [OF wf i True t(1)] keeps_open_closes keeps_open_own [OF i] by blast
  have "b \<Longrightarrow> keeps_open {i} t s'" using keeps_open_write [OF wt(1)] wt(2) t(2) i by auto
  with k t(2) keeps_open_trans show ?thesis by (cases b) auto
qed

lemma inv_after_loop:
  "channels_wf s \<Longrightarrow> distinct is \<Longrightarrow> \<forall>i\<in>set is. i < length (c_channels s) \<Longrightarrow>
   \<forall>i\<in>set is. ch_type (chan s i) = OPEN \<longrightarrow> flag STATUS_INPUT_SOCKET_CLOSED (chan s i) \<longrightarrow> \<not> os_readable e (ch_sock (chan s i)) \<Longrightarrow>
   after_loop e s is = Inr s' \<Longrightarrow> channels_wf s'"
proof (induction "is" arbitrary: s)
  case (Cons i "is")
  then obtain t where t: "after_channel e s i = Inr t" "after_loop e t is = Inr s'" by (auto simp: rbind_eq_Inr)
  have i: "i < length (c_channels s)" using Cons.prems(3) by simp
  have "channels_wf t" using inv_after_channel [OF Cons.prems(1) i t(1)] Cons.prems(4) by simp
  moreover have k: "keeps_open {i} s t" using keeps_open_after [OF Cons.prems(1) i t(1)] Cons.prems(4) by simp
  moreover have "\<forall>j\<in>set is. ch_type (chan t j) = OPEN \<longrightarrow> flag STATUS_INPUT_SOCKET_CLOSED (chan t j) \<longrightarrow> \<not> os_readable e (ch_sock (chan t j))"
  proof (intro ballI impI)
    fix j assume j: "j \<in> set is" "ch_type (chan t j) = OPEN" "flag STATUS_INPUT_SOCKET_CLOSED (chan t j)"
    have "j < length (c_channels s)" "j \<notin> {i}" using j(1) Cons.prems(2,3) by auto
    from keeps_openD(2,3) [OF k this] j Cons.prems(4) show "\<not> os_readable e (ch_sock (chan t j))" by simp
  qed
  moreover have "\<forall>j\<in>set is. j < length (c_channels t)" using keeps_openD(1) [OF k] Cons.prems(3) by auto
  ultimately show ?case using Cons.IH [of t] Cons.prems(2) t(2) by simp
qed simp

end
