(* ===== verification/ChannelRun.thy ===== *)
theory ChannelRun
  imports ChannelInv
begin

text \<open>
  Runs of the channel layer: the steps that a program can make with \<^verbatim>\<open>newchannels.c\<close>, and what holds in
  every reachable state.
\<close>

section \<open>The remaining operations keep the invariant\<close>

lemma inv_output_channel:
  assumes wf: "channels_wf s" and i: "i < length (c_channels s)" and r: "output_channel s i = Inr s'"
  shows "channels_wf s' \<and> length (c_channels s') = length (c_channels s)"
proof (cases "ch_type (chan s i) = OPEN")
  case False
  with r wf show ?thesis by (simp add: output_channel_def Let_def)
next
  case True
  have c: "chan_inv i (chan s i)" "stable (chan s i)" using wf i by (auto simp: inv_except_def)
  show ?thesis
  proof (cases "ch_input (chan s i) = []")
    case False
    then obtain n fs where s': "s' = on_chan (\<lambda>c. c\<lparr>ch_input := drop n (ch_input c)\<rparr>) i (send SSH_MSG_CHANNEL_DATA fs s)"
      using r True by (auto simp: output_channel_def Let_def)
    have "channels_wf s'" unfolding s'
      by (rule inv_on_chan) (use wf c i True in \<open>auto simp: chan_inv_def stable_def terminated_def\<close>)
    then show ?thesis by (simp add: s')
  next
    case empty: True
    show ?thesis
    proof (cases "flag STATUS_INPUT_SOCKET_CLOSED (chan s i) \<and> \<not> flag STATUS_EOF_SENT (chan s i)")
      case True
      then have "channel_send_ieof s i = Inr s'" using r \<open>ch_type (chan s i) = OPEN\<close> empty
        unfolding output_channel_def Let_def eof_due_iff by simp
      moreover have "inv_except {i} s" by (rule inv_weaken [OF wf]) simp
      ultimately show ?thesis using inv_send_ieof [OF _ i, of s'] c True empty \<open>ch_type (chan s i) = OPEN\<close>
        by (simp add: chan_inv_def closes_def)
    next
      case False
      then have "s' = s" using r True empty unfolding output_channel_def Let_def eof_due_iff by (simp split: if_splits)
      with wf show ?thesis by simp
    qed
  qed
qed

lemma inv_output_loop:
  "channels_wf s \<Longrightarrow> \<forall>i\<in>set is. i < length (c_channels s) \<Longrightarrow> output_loop may_send s is = Inr s' \<Longrightarrow> channels_wf s'"
proof (induction "is" arbitrary: s)
  case (Cons i "is")
  show ?case
  proof (cases "may_send (c_sent s)")
    case True
    with Cons.prems(3) obtain t where t: "output_channel s i = Inr t" "output_loop may_send t is = Inr s'" by (auto simp: rbind_eq_Inr)
    have "i < length (c_channels s)" using Cons.prems(2) by simp
    from inv_output_channel [OF Cons.prems(1) this t(1)] Cons.IH [of t] Cons.prems(2) t(2) show ?thesis by simp
  next
    case False
    with Cons.prems show ?thesis by simp
  qed
qed simp

lemma inv_input_data:
  assumes wf: "channels_wf s" and r: "channel_input_data s q = Inr (q', s')"
  shows "channels_wf s'"
proof -
  obtain i q1 where t: "take_channel (\<lambda>c. ch_type c \<noteq> FREE) ''Received data for nonexistent channel'' s q = Inr (i, q1)"
    using r by (auto simp: channel_input_data_def rbind_eq_Inr)
  from take_channel_ok [OF t] have i: "i < length (c_channels s)" "ch_type (chan s i) \<noteq> FREE" by simp_all
  have c: "chan_inv i (chan s i)" "stable (chan s i)" using wf i by (auto simp: inv_except_def)
  show ?thesis
  proof (cases "(ch_type (chan s i) = OPEN \<or> ch_type (chan s i) = X11_OPEN) \<and> \<not> flag STATUS_OUTPUT_SOCKET_CLOSED (chan s i)")
    case True
    then obtain d where s': "s' = on_chan (\<lambda>c. c\<lparr>ch_output := ch_output c @ d\<rparr>) i s"
      using r t by (auto simp: channel_input_data_def rbind_eq_Inr split: if_splits)
    show ?thesis unfolding s'
      by (rule inv_on_chan) (use wf c i True in \<open>auto simp: chan_inv_def stable_def terminated_def\<close>)
  next
    case False
    with r t wf show ?thesis by (auto simp: channel_input_data_def split: if_splits)
  qed
qed

lemma inv_ieof: "channels_wf s \<Longrightarrow> channel_ieof s q = Inr (q', s') \<Longrightarrow> channels_wf s'"
  using inv_receive_ieof by (auto simp: channel_ieof_def rbind_eq_Inr dest!: take_channel_ok)

lemma inv_oclosed: "channels_wf s \<Longrightarrow> channel_oclosed s q = Inr (q', s') \<Longrightarrow> channels_wf s'"
  using inv_receive_oclosed by (auto simp: channel_oclosed_def rbind_eq_Inr dest!: take_channel_ok)

lemma inv_input_open_confirmation:
  assumes wf: "channels_wf s" and r: "channel_input_open_confirmation s q = Inr (q', s')"
  shows "channels_wf s'"
proof -
  obtain i q1 v where t: "take_channel (\<lambda>c. ch_type c = OPENING) ''Received open confirmation for non-opening channel'' s q = Inr (i, q1)"
    and s': "s' = on_chan (\<lambda>c. c\<lparr>ch_remote_id := v, ch_type := OPEN\<rparr>) i s"
    using r by (auto simp: channel_input_open_confirmation_def rbind_eq_Inr)
  from take_channel_ok [OF t] have i: "i < length (c_channels s)" "ch_type (chan s i) = OPENING" by simp_all
  have c: "chan_inv i (chan s i)" "stable (chan s i)" using wf i by (auto simp: inv_except_def)
  show ?thesis unfolding s'
    by (rule inv_on_chan) (use wf c i in \<open>auto simp: chan_inv_def stable_def terminated_def\<close>)
qed

lemma inv_input_open_failure:
  assumes wf: "channels_wf s" and r: "channel_input_open_failure s q = Inr (q', s')"
  shows "channels_wf s'"
  using r inv_free [OF wf] by (auto simp: channel_input_open_failure_def rbind_eq_Inr)

lemma inv_stop_loop: "channels_wf s \<Longrightarrow> stop_loop s is = Inr s' \<Longrightarrow> channels_wf s'"
proof (induction "is" arbitrary: s)
  case (Cons i "is")
  have auth: "channels_wf (snd (auth_delete_socket s))" using Cons.prems(1) by (simp add: auth_delete_socket_def inv_except_def)
  obtain t where t: "(case ch_type (chan s i) of AUTH_LISTENER \<Rightarrow> Inr (snd (auth_delete_socket s))
       | PORT_LISTENER \<Rightarrow> channel_free (event (Close (ch_sock (chan s i))) s) i
       | X11_LISTENER \<Rightarrow> channel_free (event (Close (ch_sock (chan s i))) s) i | _ \<Rightarrow> Inr s) = Inr t" "stop_loop t is = Inr s'"
    using Cons.prems(2) by (auto simp: rbind_eq_Inr)
  have "channels_wf t" using t(1) auth Cons.prems(1) inv_free [of "{}" "event (Close (ch_sock (chan s i))) s" i t]
    by (auto split: channel_type.splits)
  with Cons.IH t(2) show ?case by blast
qed simp

lemma inv_request_local_forwarding:
  assumes wf: "channels_wf s" and r: "channel_request_local_forwarding listen_on s port host hp g = Inr s'"
  shows "channels_wf s'"
proof -
  obtain sock i t where a: "channel_allocate s PORT_LISTENER sock (ascii ''port listener'') = Inr (i, t)"
    and s': "s' = on_chan (\<lambda>c. c\<lparr>ch_path := host, ch_host_port := hp, ch_listening_port := port\<rparr>) i t"
    using r by (auto simp: channel_request_local_forwarding_def rbind_eq_Inr split: if_splits sum.splits)
  show ?thesis unfolding s' using channel_allocate_facts(1,2) [OF wf a] by (intro inv_plain_update) simp_all
qed

lemma inv_open_new:
  assumes wf: "channels_wf s" and a: "channel_allocate s type sock name = Inr (i, t)" and "type \<noteq> FREE"
  shows "channels_wf (open_confirmation r i t)" and "channels_wf (open_confirmation r i (on_chan (\<lambda>c. c\<lparr>ch_is_x_connection := True\<rparr>) i t))"
proof -
  note f = channel_allocate_facts(1,2) [OF wf a assms(3)]
  then show "channels_wf (open_confirmation r i t)" by (rule inv_open_confirmation)
  show "channels_wf (open_confirmation r i (on_chan (\<lambda>c. c\<lparr>ch_is_x_connection := True\<rparr>) i t))"
    by (intro inv_open_confirmation inv_plain_update) (use f in simp_all)
qed

lemma inv_input_port_open: "channels_wf s \<Longrightarrow> channel_input_port_open connect_to s q = Inr (tried, q', s') \<Longrightarrow> channels_wf s'"
  by (auto simp: channel_input_port_open_def open_port_def rbind_eq_Inr split: if_splits option.splits dest: inv_open_new(1))

lemma inv_auth_input_open_request: "channels_wf s \<Longrightarrow> auth_input_open_request agent s q = Inr (q', s') \<Longrightarrow> channels_wf s'"
  by (auto simp: auth_input_open_request_def rbind_eq_Inr split: if_splits option.splits dest: inv_open_new(1))

lemma inv_x11_input_open: "channels_wf s \<Longrightarrow> x11_input_open display connect_x s q = Inr (tried, q', s') \<Longrightarrow> channels_wf s'"
  by (auto simp: x11_input_open_def rbind_eq_Inr split: if_splits option.splits dest: inv_open_new(2))

lemma display_loop_channels: "display_loop os_bind s d = (r, s') \<Longrightarrow> inv_except K s' = inv_except K s"
proof (induction os_bind s d rule: display_loop.induct)
  case (1 os_bind s d)
  show ?case
  proof (cases "d < MAX_DISPLAYS")
    case False
    with "1.prems" show ?thesis by (simp add: display_loop.simps [of os_bind s d])
  next
    case True
    show ?thesis
    proof (cases "os_bind (6000 + d)")
      case (Bind_failed sock)
      with True "1.IH" [OF True Bind_failed] "1.prems" show ?thesis by (simp add: display_loop.simps [of os_bind s d])
    qed (use True "1.prems" in \<open>auto simp: display_loop.simps [of os_bind s d]\<close>)
  qed
qed

lemma inv_x11_create_display_inet:
  assumes wf: "channels_wf s" and r: "x11_create_display_inet os_bind os_listen hostname off s screen = Inr (d, s')"
  shows "channels_wf s'"
proof -
  obtain dl t where l: "display_loop os_bind s off = (dl, t)" by fastforce
  have t: "channels_wf t" using display_loop_channels [OF l] wf by simp
  show ?thesis
  proof (cases dl)
    case None
    with r l t show ?thesis by (simp add: x11_create_display_inet_def)
  next
    case (Some p)
    obtain n sock where p: "p = (n, sock)" by fastforce
    show ?thesis
    proof (cases "os_listen sock")
      case False
      with r l t Some p show ?thesis by (auto simp: x11_create_display_inet_def)
    next
      case True
      with r l Some p obtain i where "channel_allocate t X11_LISTENER sock (ascii ''X11 inet listener'') = Inr (i, s')"
        by (auto simp: x11_create_display_inet_def rbind_eq_Inr Let_def)
      from channel_allocate_facts(1) [OF t this] show ?thesis by simp
    qed
  qed
qed

lemma inv_agent_listener:
  assumes wf: "channels_wf s" and r: "agent_listener e created path s = Inr (ok, s')"
  shows "channels_wf s'"
proof -
  have w: "channels_wf (s\<lparr>c_auth_socket_name := Some path\<rparr>)" using wf by (simp add: inv_except_def)
  from r obtain sock i t where a: "channel_allocate (s\<lparr>c_auth_socket_name := Some path\<rparr>) AUTH_LISTENER sock (ascii ''auth socket'') = Inr (i, t)"
    and s': "s' = on_chan (\<lambda>c. c\<lparr>ch_path := ascii path\<rparr>) i t"
    by (auto simp: agent_listener_def rbind_eq_Inr split: if_splits option.splits)
  show ?thesis unfolding s' using channel_allocate_facts(1,2) [OF w a] by (intro inv_plain_update) simp_all
qed

lemma inv_auth_input_request_forwarding:
  assumes wf: "channels_wf s" and r: "auth_input_request_forwarding e s = Inr (ok, s')"
  shows "channels_wf s'"
proof -
  obtain dir name where n: "agent_names e = (dir, name)" by fastforce
  have w: "channels_wf (s\<lparr>c_auth_socket_name := Some name, c_auth_socket_dir_name := Some dir\<rparr>)"
    "channels_wf (s\<lparr>c_auth_socket_name := Some name, c_auth_socket_dir_name := Some (parent_name dir)\<rparr>)" using wf by (simp_all add: inv_except_def)
  from r n obtain c where "agent_checks e = Inr c"
    by (auto simp: auth_input_request_forwarding_def rbind_eq_Inr Let_def split: if_splits)
  with r n w show ?thesis
    by (auto simp: auth_input_request_forwarding_def Let_def split: if_splits option.splits dest: inv_agent_listener)
qed

end
