(* ===== verification/ChannelSystem.thy ===== *)
theory ChannelSystem
  imports ChannelRun
begin

text \<open>
  The steps that a program can make with \<^verbatim>\<open>newchannels.c\<close> in the new protocol, the states that they
  reach, and what each state and each answer to the other side guarantees.
\<close>

section \<open>Steps\<close>

inductive channel_step :: "channel_state \<Rightarrow> channel_state \<Rightarrow> bool" where
  prepare: "channel_prepare_select s = Inr (rd, wr, t) \<Longrightarrow> channel_step s t"
| after: "selects e s \<Longrightarrow> channel_after_select e s = Inr t \<Longrightarrow> channel_step s t"
| poll: "channel_output_poll may_send s = Inr t \<Longrightarrow> channel_step s t"
| data: "channel_input_data s q = Inr (q', t) \<Longrightarrow> channel_step s t"
| close: "channel_input_close s q = Inr (q', t) \<Longrightarrow> channel_step s t"
| close_confirmation: "channel_input_close_confirmation s q = Inr (q', t) \<Longrightarrow> channel_step s t"
| confirmation: "channel_input_open_confirmation s q = Inr (q', t) \<Longrightarrow> channel_step s t"
| failure: "channel_input_open_failure s q = Inr (q', t) \<Longrightarrow> channel_step s t"
| stop: "channel_stop_listening s = Inr t \<Longrightarrow> channel_step s t"
| options: "channel_step s (channel_set_options s b)"
| permit: "channel_step s (channel_permit_all_opens s)"
| local_forwarding: "channel_request_local_forwarding listen_on s port host host_port g = Inr t \<Longrightarrow> channel_step s t"
| remote_forwarding: "channel_request_remote_forwarding s port host remote_port type = Inr t \<Longrightarrow> channel_step s t"
| forward_request: "channel_input_port_forward_request listen_on s is_root q = Inr (q', t) \<Longrightarrow> channel_step s t"
| port_open: "channel_input_port_open connect_to s q = Inr (tried, q', t) \<Longrightarrow> channel_step s t"
| x11_display: "x11_create_display_inet os_bind os_listen hostname offset s screen = Inr (display, t) \<Longrightarrow> channel_step s t"
| x11_open: "x11_input_open display connect_x s q = Inr (targets, q', t) \<Longrightarrow> channel_step s t"
| x11_request: "x11_request_forwarding_with_spoofing (rnd :: nat \<Rightarrow> byte \<times> nat) display s r proto str = Inr (r', t) \<Longrightarrow> channel_step s t"
| agent_request: "channel_step s (auth_request_forwarding s)"
| agent_requested: "auth_input_request_forwarding env s = Inr (ok, t) \<Longrightarrow> channel_step s t"
| agent_open: "auth_input_open_request agent s q = Inr (q', t) \<Longrightarrow> channel_step s t"
| agent_delete: "channel_step s (snd (auth_delete_socket s))"

inductive channels_reachable :: "channel_state \<Rightarrow> bool" where
  start: "channels_reachable (channel_statics False max_packet interactive)"
| step: "channels_reachable s \<Longrightarrow> channel_step s t \<Longrightarrow> channels_reachable t"

lemma inv_statics: "channels_wf (channel_statics False max_packet interactive)"
  by (simp add: inv_except_def channel_statics_def in_use_def)

lemma inv_new_protocol: "inv_except K s \<Longrightarrow> \<not> c_old s"
  by (simp add: inv_except_def)

lemma inv_same_array:
  "c_old t = c_old s \<Longrightarrow> c_used t = c_used s \<Longrightarrow> c_channels t = c_channels s \<Longrightarrow> inv_except K t = inv_except K s"
  by (simp add: inv_except_def)

lemma channel_step_wf: "channel_step s t \<Longrightarrow> channels_wf s \<Longrightarrow> channels_wf t"
proof (induction rule: channel_step.induct)
  case (prepare s rd wr t)
  then show ?case using inv_prepare_loop [of s "[0..<length (c_channels s)]" rd wr t]
    by (auto simp: channel_prepare_select_def)
next
  case (after e s t)
  then show ?case using inv_after_loop [of s "[0..<length (c_channels s)]" e t]
    by (auto simp: channel_after_select_def selects_def)
next
  case (poll may_send s t)
  then show ?case using inv_output_loop [of s "[0..<length (c_channels s)]" may_send t]
    by (auto simp: channel_output_poll_def)
next
  case (data s q q' t)
  then show ?case using inv_input_data by blast
next
  case (close s q q' t)
  then show ?case using inv_ieof inv_new_protocol by (auto simp: channel_input_close_def)
next
  case (close_confirmation s q q' t)
  then show ?case using inv_oclosed inv_new_protocol by (auto simp: channel_input_close_confirmation_def)
next
  case (confirmation s q q' t)
  then show ?case using inv_input_open_confirmation by blast
next
  case (failure s q q' t)
  then show ?case using inv_input_open_failure by blast
next
  case (stop s t)
  then show ?case using inv_stop_loop by (auto simp: channel_stop_listening_def)
next
  case (local_forwarding listen_on s port host host_port g t)
  then show ?case using inv_request_local_forwarding by blast
next
  case (remote_forwarding s port host remote_port type t)
  then show ?case by (auto simp: channel_request_remote_forwarding_def Let_def send_def inv_except_def split: if_splits)
next
  case (forward_request listen_on s is_root q q' t)
  then show ?case using inv_request_local_forwarding
    by (auto simp: channel_input_port_forward_request_def rbind_eq_Inr Let_def split: if_splits)
next
  case (port_open connect_to s q tried q' t)
  then show ?case using inv_input_port_open by blast
next
  case (x11_display os_bind os_listen hostname offset s screen display t)
  then show ?case using inv_x11_create_display_inet by blast
next
  case (x11_open display connect_x s q targets q' t)
  then show ?case using inv_x11_input_open by blast
next
  case (x11_request rnd display s r proto str r' t)
  then show ?case
    by (auto simp: x11_request_forwarding_with_spoofing_def rbind_eq_Inr Let_def send_def inv_except_def)
next
  case (agent_requested env s ok t)
  then show ?case using inv_auth_input_request_forwarding by blast
next
  case (agent_open agent s q q' t)
  then show ?case using inv_auth_input_open_request by blast
qed (simp_all add: inv_except_def channel_set_options_def channel_permit_all_opens_def auth_request_forwarding_def
      auth_delete_socket_def send_def)

lemma channels_reachable_wf: "channels_reachable s \<Longrightarrow> channels_wf s"
  by (induction rule: channels_reachable.induct) (auto intro: inv_statics channel_step_wf)

text \<open>C7: In every state that the channel layer can reach with the new protocol the array of channels is well
  formed: the use count is exact, a channel that has sent its end of file has an empty input buffer and a closed input, one
  whose output is closed has an empty output buffer, no channel that both sides have finished with stays allocated;
  and a new channel can always be allocated, in a slot that was free.\<close>

theorem channel_layer_stays_well_formed:
  assumes "channels_reachable s"
  shows "channels_wf s \<and>
    (\<forall>type sock name. \<exists>i t. channel_allocate s type sock name = Inr (i, t) \<and>
       (i < length (c_channels s) \<longrightarrow> ch_type (chan s i) = FREE) \<and> ch_type (chan t i) = type \<and> ch_local_id (chan t i) = i)"
proof -
  have wf: "channels_wf s" using channels_reachable_wf [OF assms] .
  have "\<exists>i t. channel_allocate s type sock name = Inr (i, t) \<and>
       (i < length (c_channels s) \<longrightarrow> ch_type (chan s i) = FREE) \<and> ch_type (chan t i) = type \<and> ch_local_id (chan t i) = i"
    for type sock name
    using channel_allocate_ok [OF wf, of type sock name] by (auto simp: room_made_nth new_channel_def)
  with wf show ?thesis by blast
qed

section \<open>What is sent\<close>

datatype field_kind = K_char | K_int | K_string | K_mp

fun kind_of :: "field \<Rightarrow> field_kind" where
  "kind_of (F_char _) = K_char"
| "kind_of (F_int _) = K_int"
| "kind_of (F_string _) = K_string"
| "kind_of (F_mp _) = K_mp"

text \<open>The protocol's table: the fields of each message of the channel layer.\<close>

definition message_kinds :: "(nat \<times> field_kind list) list" where
  "message_kinds =
     [(SSH_MSG_CHANNEL_OPEN_CONFIRMATION, [K_int, K_int]), (SSH_MSG_CHANNEL_OPEN_FAILURE, [K_int]),
      (SSH_MSG_CHANNEL_DATA, [K_int, K_string]), (SSH_MSG_CHANNEL_INPUT_EOF, [K_int]), (SSH_MSG_CHANNEL_OUTPUT_CLOSED, [K_int]),
      (SSH_SMSG_X11_OPEN, [K_int]), (SSH_SMSG_X11_OPEN, [K_int, K_string]),
      (SSH_CMSG_PORT_FORWARD_REQUEST, [K_int, K_string, K_int]),
      (SSH_MSG_PORT_OPEN, [K_int, K_string, K_int]), (SSH_MSG_PORT_OPEN, [K_int, K_string, K_int, K_string]),
      (SSH_CMSG_AGENT_REQUEST_FORWARDING, []), (SSH_SMSG_AGENT_OPEN, [K_int]),
      (SSH_CMSG_X11_REQUEST_FORWARDING, [K_string, K_string, K_int]), (SSH_MSG_DEBUG, [K_string])]"

definition well_typed :: "message \<Rightarrow> bool" where
  "well_typed m \<longleftrightarrow> (fst m, map kind_of (snd m)) \<in> set message_kinds \<and>
     (fst m = SSH_MSG_CHANNEL_DATA \<longrightarrow> length (field_bytes (snd m ! 1)) \<le> 4 + 8192)"

text \<open>An operation that only adds well-typed messages and leaves the permissions alone.\<close>

definition sends :: "channel_state \<Rightarrow> channel_state \<Rightarrow> bool" where
  "sends s t \<longleftrightarrow> (\<exists>ms. c_sent t = c_sent s @ ms \<and> list_all well_typed ms) \<and>
     c_permitted_opens t = c_permitted_opens s \<and> c_all_opens_permitted t = c_all_opens_permitted s"

named_theorems sending

lemma sends_refl [simp]: "sends s s"
  by (simp add: sends_def)

lemma sends_trans: "sends s t \<Longrightarrow> sends t u \<Longrightarrow> sends s u"
  by (force simp: sends_def)

lemma sends_same [sending]:
  "c_sent t = c_sent s \<Longrightarrow> c_permitted_opens t = c_permitted_opens s \<Longrightarrow> c_all_opens_permitted t = c_all_opens_permitted s \<Longrightarrow> sends s t"
  by (simp add: sends_def)

lemma sends_simps [simp]:
  "sends s (on_chan f i t) = sends s t" "sends s (event ev t) = sends s t"
  "sends (on_chan f i s) t = sends s t" "sends (event ev s) t = sends s t"
  by (simp_all add: sends_def on_chan_def event_def)

lemma sends_update [simp]:
  "sends (s\<lparr>c_channels := cs\<rparr>) t = sends s t" "sends (s\<lparr>c_used := n\<rparr>) t = sends s t"
  "sends (s\<lparr>c_auth_socket_name := name\<rparr>) t = sends s t" "sends (s\<lparr>c_auth_socket_dir_name := name\<rparr>) t = sends s t"
  "sends s (t\<lparr>c_auth_socket_name := name\<rparr>) = sends s t" "sends s (t\<lparr>c_auth_socket_dir_name := name\<rparr>) = sends s t"
  by (simp_all add: sends_def)

lemma sends_send [simp]: "well_typed (type, fs) \<Longrightarrow> sends s t \<Longrightarrow> sends s (send type fs t)"
  by (force simp: sends_def send_def)

lemma sends_send_first: "well_typed (type, fs) \<Longrightarrow> sends (send type fs s) t \<Longrightarrow> sends s t"
  by (force simp: sends_def send_def)

lemma channel_allocate_sends: "channel_allocate s type sock name = Inr (i, t) \<Longrightarrow> sends s t"
  by (auto simp: channel_allocate_def Let_def sends_def on_chan_def split: if_splits option.splits)

lemma channel_free_sends: "channel_free s i = Inr t \<Longrightarrow> sends s t"
  by (auto simp: channel_free_def rbind_eq_Inr sends_def on_chan_def event_def)

lemma well_typed_ints [simp]:
  "well_typed (SSH_MSG_CHANNEL_INPUT_EOF, [F_int v])" "well_typed (SSH_MSG_CHANNEL_OUTPUT_CLOSED, [F_int v])"
  "well_typed (SSH_MSG_CHANNEL_OPEN_FAILURE, [F_int v])" "well_typed (SSH_MSG_CHANNEL_OPEN_CONFIRMATION, [F_int v, F_int w])"
  "well_typed (SSH_SMSG_AGENT_OPEN, [F_int v])" "well_typed (SSH_CMSG_AGENT_REQUEST_FORWARDING, [])"
  "well_typed (SSH_SMSG_X11_OPEN, [F_int v])" "well_typed (SSH_SMSG_X11_OPEN, [F_int v, F_string a])"
  "well_typed (SSH_MSG_PORT_OPEN, [F_int v, F_string a, F_int w])" "well_typed (SSH_MSG_PORT_OPEN, [F_int v, F_string a, F_int w, F_string b])"
  "well_typed (SSH_MSG_DEBUG, [F_string a])" "well_typed (SSH_CMSG_PORT_FORWARD_REQUEST, [F_int v, F_string a, F_int w])"
  "well_typed (SSH_CMSG_X11_REQUEST_FORWARDING, [F_string a, F_string b, F_int v])"
  "well_typed (SSH_MSG_CHANNEL_DATA, [F_int v, F_string a]) \<longleftrightarrow> length a \<le> 8192"
  by (simp_all add: well_typed_def message_kinds_def)

lemmas sends_first = sends_send_first [OF well_typed_ints(1)] sends_send_first [OF well_typed_ints(2)]

lemma check_termination_sends: "channel_check_termination s i = Inr t \<Longrightarrow> sends s t"
  by (auto simp: channel_check_termination_def Let_def split: if_splits dest!: channel_free_sends sends_first)

lemma send_ieof_sends: "channel_send_ieof s i = Inr t \<Longrightarrow> sends s t"
  by (auto simp: channel_send_ieof_def Let_def split: if_splits dest!: check_termination_sends sends_first)

lemma send_oclosed_sends: "channel_send_oclosed s i = Inr t \<Longrightarrow> sends s t"
  by (auto simp: channel_send_oclosed_def Let_def split: if_splits dest!: check_termination_sends sends_first)

lemma close_sends: "close_input n s i = Inr t \<Longrightarrow> sends s t" "close_output m s' j = Inr t' \<Longrightarrow> sends s' t'"
proof (induction n s i and m s' j arbitrary: t and t' rule: close_input_close_output.induct)
  case (2 n s i)
  let ?u = "event (Shutdown (ch_sock (chan s i)) 0) (on_chan (set_flag STATUS_INPUT_SOCKET_CLOSED) i s)"
  show ?case
  proof (cases "flag STATUS_INPUT_SOCKET_CLOSED (chan s i)")
    case False
    with 2(2) obtain v where v: "(if ch_type (chan ?u i) \<noteq> OPEN then channel_send_ieof ?u i else Inr ?u) = Inr v"
      "(if c_old v then close_output n v i else Inr v) = Inr t" by (auto simp: Let_def rbind_eq_Inr)
    have "sends ?u v" using v(1) send_ieof_sends [of ?u i v] by (auto split: if_splits)
    moreover have "sends v t" using v 2(1) [OF False refl v(1)] by (auto split: if_splits)
    ultimately show ?thesis using sends_trans by auto
  qed (use 2 in simp)
qed (auto simp: Let_def split: if_splits dest!: send_oclosed_sends)

lemma close_input_sends: "channel_close_input s i = Inr t \<Longrightarrow> sends s t"
  and close_output_sends: "channel_close_output s i = Inr t \<Longrightarrow> sends s t"
  by (simp_all add: channel_close_input_def channel_close_output_def close_sends)

lemma receive_sends:
  "channel_receive_ieof s i = Inr t \<Longrightarrow> sends s t" "channel_receive_oclosed s i = Inr t \<Longrightarrow> sends s t"
proof -
  show "channel_receive_ieof s i = Inr t \<Longrightarrow> sends s t"
    by (auto simp: channel_receive_ieof_def Let_def rbind_eq_Inr split: if_splits
        dest!: close_input_sends close_output_sends check_termination_sends intro: sends_trans)
  show "channel_receive_oclosed s i = Inr t \<Longrightarrow> sends s t"
    by (auto simp: channel_receive_oclosed_def Let_def rbind_eq_Inr split: if_splits
        dest!: close_input_sends check_termination_sends intro: sends_trans)
qed

lemma prepare_sends: "prepare_channel s i = Inr (rd, wr, t) \<Longrightarrow> sends s t"
proof -
  have p: "prepare_open s i = Inr (rd, wr, t) \<Longrightarrow> sends s t" for s
    by (auto simp: prepare_open_def Let_def rbind_eq_Inr split: if_splits dest!: close_output_sends)
  assume r: "prepare_channel s i = Inr (rd, wr, t)"
  show "sends s t"
  proof (cases "ch_type (chan s i) = X11_OPEN")
    case True
    with r obtain v where "x11_check s (ch_output (chan s i)) = Inr v" by (auto simp: prepare_channel_def rbind_eq_Inr)
    with True r show ?thesis
      by (cases v) (auto simp: prepare_channel_def rbind_eq_Inr dest!: p close_input_sends close_output_sends intro: sends_trans)
  next
    case False
    with r show ?thesis by (cases "ch_type (chan s i)") (auto simp: prepare_channel_def dest!: p)
  qed
qed

lemma prepare_loop_sends: "prepare_loop s is = Inr (rd, wr, t) \<Longrightarrow> sends s t"
  by (induction "is" arbitrary: s rd wr) (auto simp: rbind_eq_Inr dest: prepare_sends intro: sends_trans)

lemma refuse_sends [simp]: "sends s (refuse_connection s k msg)"
  by (simp add: refuse_connection_def split: option.splits)

lemma accept_sends:
  "accept_x11 e s i = Inr t \<Longrightarrow> sends s t" "accept_port e s i = Inr t \<Longrightarrow> sends s t" "accept_agent e s i = Inr t \<Longrightarrow> sends s t"
  by (auto simp: accept_x11_def accept_port_def accept_agent_def rbind_eq_Inr split: accept_result.splits if_splits
      dest!: channel_allocate_sends)

lemma read_write_sends:
  "channel_read e s i = Inr (b, t) \<Longrightarrow> sends s t" "channel_write e s i = Inr t \<Longrightarrow> sends s t"
  by (auto simp: channel_read_def channel_write_def Let_def rbind_eq_Inr split: if_splits read_result.splits write_result.splits
      dest!: close_input_sends close_output_sends)

lemma after_sends: "after_channel e s i = Inr t \<Longrightarrow> sends s t"
  by (auto simp: after_channel_def rbind_eq_Inr split: channel_type.splits if_splits
      dest!: accept_sends read_write_sends intro: sends_trans)

lemma after_loop_sends: "after_loop e s is = Inr t \<Longrightarrow> sends s t"
  by (induction "is" arbitrary: s) (auto simp: rbind_eq_Inr dest: after_sends intro: sends_trans)

lemma output_sends: "output_channel s i = Inr t \<Longrightarrow> sends s t"
  by (auto simp: output_channel_def Let_def split: if_splits dest!: send_ieof_sends)

lemma output_loop_sends: "output_loop may_send s is = Inr t \<Longrightarrow> sends s t"
  by (induction "is" arbitrary: s) (auto simp: rbind_eq_Inr split: if_splits dest: output_sends intro: sends_trans)

lemma input_sends:
  "channel_input_data s q = Inr (q', t) \<Longrightarrow> sends s t"
  "channel_input_close s q = Inr (q', t) \<Longrightarrow> sends s t"
  "channel_input_close_confirmation s q = Inr (q', t) \<Longrightarrow> sends s t"
  "channel_input_open_confirmation s q = Inr (q', t) \<Longrightarrow> sends s t"
  "channel_input_open_failure s q = Inr (q', t) \<Longrightarrow> sends s t"
proof -
  have e: "channel_emulated_close s a q = Inr (q', t) \<Longrightarrow> sends s t" for a
    by (auto simp: channel_emulated_close_def Let_def rbind_eq_Inr dest!: receive_sends intro: sends_trans)
  have c: "channel_ieof s q = Inr (q', t) \<Longrightarrow> sends s t" "channel_oclosed s q = Inr (q', t) \<Longrightarrow> sends s t"
    by (auto simp: channel_ieof_def channel_oclosed_def rbind_eq_Inr dest!: receive_sends)
  show "channel_input_close s q = Inr (q', t) \<Longrightarrow> sends s t" "channel_input_close_confirmation s q = Inr (q', t) \<Longrightarrow> sends s t"
    using e c by (auto simp: channel_input_close_def channel_input_close_confirmation_def split: if_splits)
  show "channel_input_data s q = Inr (q', t) \<Longrightarrow> sends s t"
    by (auto simp: channel_input_data_def rbind_eq_Inr split: if_splits)
  show "channel_input_open_confirmation s q = Inr (q', t) \<Longrightarrow> sends s t"
    by (auto simp: channel_input_open_confirmation_def rbind_eq_Inr)
  show "channel_input_open_failure s q = Inr (q', t) \<Longrightarrow> sends s t"
    by (auto simp: channel_input_open_failure_def rbind_eq_Inr dest!: channel_free_sends)
qed

lemma stop_loop_sends: "stop_loop s is = Inr t \<Longrightarrow> sends s t"
proof (induction "is" arbitrary: s)
  case (Cons i "is")
  have "sends s (snd (auth_delete_socket s))" by (simp add: auth_delete_socket_def sends_def)
  then show ?case using Cons.prems Cons.IH
    by (auto simp: rbind_eq_Inr split: channel_type.splits dest!: channel_free_sends intro: sends_trans)
qed simp

lemma open_confirmation_sends [simp]: "sends s (open_confirmation r i t) = sends s (send SSH_MSG_CHANNEL_OPEN_CONFIRMATION [F_int r, F_int (of_nat i)] t)"
  by (simp add: open_confirmation_def sends_def send_def on_chan_def)

lemma open_failure_sends [simp]: "sends s (open_failure r s)"
  by (simp add: open_failure_def)

lemma open_sends:
  "channel_input_port_open connect_to s q = Inr (tried, q', t) \<Longrightarrow> sends s t"
  "x11_input_open display connect_x s q = Inr (targets, q', t) \<Longrightarrow> sends s t"
  "auth_input_open_request agent s q = Inr (q', t) \<Longrightarrow> sends s t"
  by (auto simp: channel_input_port_open_def open_port_def x11_input_open_def auth_input_open_request_def rbind_eq_Inr Let_def
      split: if_splits option.splits dest!: channel_allocate_sends)

lemma local_forwarding_sends: "channel_request_local_forwarding listen_on s port host host_port g = Inr t \<Longrightarrow> sends s t"
  by (auto simp: channel_request_local_forwarding_def rbind_eq_Inr split: if_splits sum.splits dest!: channel_allocate_sends)

lemma display_loop_sends: "display_loop os_bind s d = (r, t) \<Longrightarrow> sends s t"
proof (induction os_bind s d rule: display_loop.induct)
  case (1 os_bind s d)
  then show ?case by (subst (asm) display_loop.simps) (auto split: if_splits bind_result.splits)
qed

lemma x11_display_sends: "x11_create_display_inet os_bind os_listen hostname offset s screen = Inr (display, t) \<Longrightarrow> sends s t"
  by (auto simp: x11_create_display_inet_def rbind_eq_Inr Let_def split: prod.splits option.splits if_splits
      dest!: display_loop_sends channel_allocate_sends intro: sends_trans)

lemma x11_request_sends: "x11_request_forwarding_with_spoofing rnd display s r proto str = Inr (r', t) \<Longrightarrow> sends s t"
  by (auto simp: x11_request_forwarding_with_spoofing_def rbind_eq_Inr Let_def sends_def send_def)

lemma agent_listener_sends: "agent_listener e created path s = Inr (ok, t) \<Longrightarrow> sends s t"
  by (auto simp: agent_listener_def rbind_eq_Inr split: if_splits option.splits dest!: channel_allocate_sends)

lemma agent_requested_sends: "auth_input_request_forwarding e s = Inr (ok, t) \<Longrightarrow> sends s t"
proof -
  assume r: "auth_input_request_forwarding e s = Inr (ok, t)"
  obtain dir name where n: "agent_names e = (dir, name)" by fastforce
  from r n obtain c where "agent_checks e = Inr c"
    by (auto simp: auth_input_request_forwarding_def rbind_eq_Inr Let_def split: if_splits)
  with r n show ?thesis
    by (auto simp: auth_input_request_forwarding_def Let_def split: if_splits option.splits dest!: agent_listener_sends)
qed

text \<open>The two steps that change the permissions.\<close>

definition asked_for :: "channel_state \<Rightarrow> byte list \<Rightarrow> u32 \<Rightarrow> bool" where
  "asked_for s host port \<longleftrightarrow> (\<exists>listen_port. (SSH_CMSG_PORT_FORWARD_REQUEST, [F_int listen_port, F_string host, F_int port]) \<in> set (c_sent s))"

definition sent_ok :: "channel_state \<Rightarrow> bool" where
  "sent_ok s \<longleftrightarrow> list_all well_typed (c_sent s) \<and> length (c_permitted_opens s) \<le> SSH_MAX_FORWARDS_PER_DIRECTION \<and>
     (\<forall>(host, port)\<in>set (c_permitted_opens s). asked_for s host port)"

lemma sent_ok_sends: "sends s t \<Longrightarrow> sent_ok s \<Longrightarrow> sent_ok t"
  unfolding sent_ok_def sends_def asked_for_def by fastforce

lemma sent_ok_remote_forwarding:
  assumes "sent_ok s" and "channel_request_remote_forwarding s port host remote_port type = Inr t"
  shows "sent_ok t"
proof -
  let ?u = "send SSH_CMSG_PORT_FORWARD_REQUEST [F_int port, F_string host, F_int remote_port] s"
  have u: "sent_ok ?u" by (rule sent_ok_sends [OF _ assms(1)]) simp
  have a: "asked_for ?u host remote_port" by (auto simp: asked_for_def send_def)
  have "t = ?u \<or> length (c_permitted_opens ?u) < SSH_MAX_FORWARDS_PER_DIRECTION \<and>
      t = ?u\<lparr>c_permitted_opens := c_permitted_opens ?u @ [(host, remote_port)]\<rparr>"
    using assms(2) by (auto simp: channel_request_remote_forwarding_def Let_def split: if_splits)
  with u a show ?thesis by (auto simp: sent_ok_def asked_for_def)
qed

lemma channel_step_sent_ok: "channel_step s t \<Longrightarrow> sent_ok s \<Longrightarrow> sent_ok t"
proof (induction rule: channel_step.induct)
  case (remote_forwarding s port host remote_port type t)
  then show ?case using sent_ok_remote_forwarding by blast
next
  case (permit s)
  then show ?case by (simp add: sent_ok_def asked_for_def channel_permit_all_opens_def)
next
  case (forward_request listen_on s is_root q q' t)
  then have "sends s t" by (auto simp: channel_input_port_forward_request_def rbind_eq_Inr Let_def split: if_splits dest!: local_forwarding_sends)
  with forward_request show ?case using sent_ok_sends by blast
next
  case (stop s t)
  then show ?case using sent_ok_sends stop_loop_sends unfolding channel_stop_listening_def by blast
next
  case (prepare s rd wr t)
  then show ?case using sent_ok_sends prepare_loop_sends unfolding channel_prepare_select_def by blast
next
  case (after e s t)
  then show ?case using sent_ok_sends after_loop_sends unfolding channel_after_select_def by blast
next
  case (poll may_send s t)
  then show ?case using sent_ok_sends output_loop_sends unfolding channel_output_poll_def by blast
next
  case (options s b)
  then show ?case by (simp add: sent_ok_def asked_for_def channel_set_options_def)
next
  case (agent_request s)
  then have "sends s (auth_request_forwarding s)" by (simp add: auth_request_forwarding_def sends_def send_def)
  with agent_request show ?case using sent_ok_sends by blast
next
  case (agent_delete s)
  then show ?case by (simp add: sent_ok_def asked_for_def auth_delete_socket_def)
qed (auto intro: sent_ok_sends input_sends open_sends local_forwarding_sends x11_display_sends x11_request_sends agent_requested_sends)

lemma channels_reachable_sent_ok: "channels_reachable s \<Longrightarrow> sent_ok s"
proof (induction rule: channels_reachable.induct)
  case (start max_packet interactive)
  show ?case by (simp add: sent_ok_def channel_statics_def)
qed (rule channel_step_sent_ok)



end
