(* ===== verification/ChannelSafety.thy ===== *)
theory ChannelSafety
  imports ChannelSystem
begin

text \<open>
  Forwarding under attack: the spoofed authentication of X11 connections, the directory of the agent's
  socket, and three ways in which the other side or a user of a forwarded port brings the program down.
\<close>

section \<open>Closing before a channel is open\<close>

lemma bytes_get_int_field [simp]: "bytes_get_int (PUT_32BIT v @ q) = Inr (v, q)"
  by (simp add: bytes_get_int_def get_int_via_def bytes_get_def)

lemma bytes_get_string_field [simp]:
  "length str \<le> 256 * 1024 \<Longrightarrow> bytes_get_string (PUT_32BIT (of_nat (length str)) @ str @ q) = Inr (str, q)"
  by (simp add: bytes_get_string_def get_string_via_def get_int_via_def bytes_get_def unat_of_nat word_less_nat_alt)

lemma take_channel_number:
  assumes "i < length (c_channels s)" and "i < 2 ^ 31" and "ok (chan s i)"
  shows "take_channel ok complaint s (PUT_32BIT (of_nat i) @ q) = Inr (i, q)"
proof -
  have "sint (of_nat i :: u32) = int i" using assms(2) by (simp add: signed_of_nat signed_take_bit_int_eq_self)
  with assms show ?thesis by (simp add: take_channel_def)
qed

lemma channel_free_twice:
  "\<not> (channel < length (c_channels s) \<and> ch_type (chan s channel) \<noteq> FREE) \<Longrightarrow> channel_free s channel =
    Inl (Assertion ''channel >= 0 && channel < channels_alloc && channels[channel].type != SSH_CHANNEL_FREE'')"
  unfolding channel_free_def by (simp del: de_Morgan_conj)

lemma oclosed_before_open:
  assumes new: "\<not> c_old s" and i: "i < length (c_channels s)" and type: "ch_type (chan s i) \<noteq> OPEN"
    and flags: "ch_status_flags (chan s i) = 0"
  shows "\<exists>t. channel_receive_oclosed s i = Inr t \<and> \<not> c_old t \<and> length (c_channels t) = length (c_channels s) \<and>
     chan t i = (chan s i)\<lparr>ch_status_flags := 0x25, ch_input := []\<rparr>"
  using assms by (simp add: channel_receive_oclosed_def close_input_new channel_send_ieof_def channel_check_termination_def
      Let_def flag_def set_flag_def)

lemma ieof_after_oclosed:
  assumes new: "\<not> c_old s" and i: "i < length (c_channels s)" and type: "ch_type (chan s i) \<noteq> OPEN" "ch_type (chan s i) \<noteq> FREE"
    and flags: "ch_status_flags (chan s i) = 0x25" and id: "ch_local_id (chan s i) = i"
  shows "channel_receive_ieof s i =
    Inl (Assertion ''channel >= 0 && channel < channels_alloc && channels[channel].type != SSH_CHANNEL_FREE'')"
proof -
  let ?s1 = "on_chan (set_flag STATUS_EOF_RECEIVED) i s"
  have f1: "ch_status_flags (chan ?s1 i) = 0x2d" using i flags by (simp add: set_flag_def)
  have in1: "(if ch_is_x_connection (chan ?s1 i) then channel_close_input ?s1 i else Inr ?s1) = Inr ?s1"
    using f1 new by (simp add: close_input_new flag_def)
  obtain u where u: "channel_close_output ?s1 i = Inr u" "\<not> c_old u" "length (c_channels u) = length (c_channels s)"
    "ch_type (chan u i) = FREE" "ch_status_flags (chan u i) = 0x3f" "ch_local_id (chan u i) = i"
    using assms by (simp add: close_output_new channel_send_oclosed_def channel_check_termination_def channel_free_def
        Let_def flag_def set_flag_def)
  have "channel_check_termination u i = channel_free u i" using u by (simp add: channel_check_termination_def)
  also have "\<dots> = Inl (Assertion ''channel >= 0 && channel < channels_alloc && channels[channel].type != SSH_CHANNEL_FREE'')"
    by (rule channel_free_twice) (simp add: u)
  finally have last: "channel_check_termination u i =
     Inl (Assertion ''channel >= 0 && channel < channels_alloc && channels[channel].type != SSH_CHANNEL_FREE'')" .
  have "\<not> flag STATUS_EOF_RECEIVED (chan s i)" using flags by (simp add: flag_def)
  then show ?thesis unfolding channel_receive_ieof_def Let_def in1 rbind_simps
    using i type(1) u(1) last by simp
qed

text \<open>The other side brings the program down by closing, in both directions, a channel that is not yet open (one that waits
  for its confirmation, or an X11 connection whose first packet has not come): output closed, then input end of file makes
  \<^verbatim>\<open>channel_receive_ieof\<close> free the channel and then check it for termination again, and the second
  \<^verbatim>\<open>channel_free\<close> fails its assertion.\<close>

theorem closing_an_unopened_channel_aborts:
  assumes wf: "channels_wf s" and i: "i < length (c_channels s)" "i < 2 ^ 31"
    and type: "ch_type (chan s i) = OPENING \<or> ch_type (chan s i) = X11_OPEN" and flags: "ch_status_flags (chan s i) = 0"
  shows "rbind (channel_input_close_confirmation s (concat (map field_bytes [F_int (of_nat i)])))
      (\<lambda>(_, s). channel_input_close s (concat (map field_bytes [F_int (of_nat i)]))) =
    Inl (Assertion ''channel >= 0 && channel < channels_alloc && channels[channel].type != SSH_CHANNEL_FREE'')"
proof -
  have new: "\<not> c_old s" and id: "ch_local_id (chan s i) = i" using wf i type by (auto simp: inv_except_def chan_inv_def)
  obtain t where t: "channel_receive_oclosed s i = Inr t" "\<not> c_old t" "length (c_channels t) = length (c_channels s)"
     "chan t i = (chan s i)\<lparr>ch_status_flags := 0x25, ch_input := []\<rparr>"
    using oclosed_before_open [OF new i(1) _ flags] type by auto
  have "channel_receive_ieof t i = Inl (Assertion ''channel >= 0 && channel < channels_alloc && channels[channel].type != SSH_CHANNEL_FREE'')"
    by (rule ieof_after_oclosed) (use t i(1) type id in auto)
  with t take_channel_number [of i s _ _ "[]"] take_channel_number [of i t _ _ "[]"] i type new show ?thesis
    by (auto simp: channel_input_close_confirmation_def channel_oclosed_def channel_input_close_def channel_ieof_def)
qed

section \<open>A port listener and the growth of the array\<close>

text \<open>A connection to a forwarded port is announced to the other side with the host and port of the listener and the number of
  a new channel that waits for confirmation, if a slot is free. If the array is full, \<^verbatim>\<open>channel_allocate\<close> moves it,
  and the branch then reads the path of the listener through a pointer into the freed array.\<close>

theorem port_connection_when_array_full:
  assumes wf: "channels_wf s" and i: "i < length (c_channels s)" "ch_type (chan s i) = PORT_LISTENER"
    and os: "os_readable e (ch_sock (chan s i))" "os_accept e (ch_sock (chan s i)) = Accepted newsock buf"
  shows "if c_used s = length (c_channels s)
     then after_channel e s i = Inl (Undefined ''ch points into the array that realloc freed'')
     else \<exists>n t. after_channel e s i = Inr t \<and> n < length (c_channels s) \<and> ch_type (chan s n) = FREE \<and>
       ch_type (chan t n) = OPENING \<and> ch_sock (chan t n) = newsock \<and>
       c_sent t = c_sent s @ [(SSH_MSG_PORT_OPEN, [F_int (of_nat n), F_string (ch_path (chan s i)), F_int (ch_host_port (chan s i))] @
         (if c_have_hostname_in_open s then [F_string buf] else []))]"
proof -
  let ?cs = "room_made (c_channels s) (c_used s)"
  obtain n t where a: "channel_allocate s OPENING newsock buf = Inr (n, t)" "n < length ?cs" "ch_type (?cs ! n) = FREE"
    and t: "t = s\<lparr>c_max_fd := max (c_max_fd s) newsock, c_used := c_used s + 1,
       c_channels := ?cs[n := new_channel OPENING newsock buf n (?cs ! n)]\<rparr>"
    using channel_allocate_ok [OF wf, of OPENING newsock buf] by blast
  have r: "after_channel e s i = (if length (c_channels t) \<noteq> length (c_channels s)
      then Inl (Undefined ''ch points into the array that realloc freed'')
      else Inr (send SSH_MSG_PORT_OPEN ([F_int (of_nat n), F_string (ch_path (chan t i)), F_int (ch_host_port (chan t i))] @
                      (if c_have_hostname_in_open t then [F_string buf] else [])) t))"
    using i os a by (simp add: after_channel_def accept_port_def)
  have len: "length (c_channels t) = length ?cs" by (simp add: t)
  show ?thesis
  proof (cases "c_used s = length (c_channels s)")
    case True
    then have "length ?cs \<noteq> length (c_channels s)" by (simp add: room_made_def)
    with r True len show ?thesis by simp
  next
    case False
    then have cs: "?cs = c_channels s" using i(1) by (auto simp: room_made_def)
    have "n \<noteq> i" using a(3) cs i(2) by auto
    with r len cs have "after_channel e s i = Inr (send SSH_MSG_PORT_OPEN ([F_int (of_nat n), F_string (ch_path (chan s i)), F_int (ch_host_port (chan s i))] @
                      (if c_have_hostname_in_open s then [F_string buf] else [])) t)" by (simp add: t)
    with False a cs show ?thesis by (auto simp: t new_channel_def send_def)
  qed
qed

section \<open>The agent's socket\<close>

text \<open>A directory that the user made and nobody else can enter, or a new one.\<close>

definition private_directory :: "agent_env \<Rightarrow> file_stat \<Rightarrow> bool" where
  "private_directory e st \<longleftrightarrow>
     (case ag_lstat e of
        Found found \<Rightarrow> found = st \<and> st_uid st = ag_uid e \<and> st_mode st AND 0x3f = 0
      | Missing \<Rightarrow> ag_mkdir e \<and> ag_lstat_created e = Some st
      | Lstat_failed \<Rightarrow> False)"

lemma agent_directory_pass:
  "agent_directory e = Inr (Some (created, st)) \<Longrightarrow> private_directory e st \<and> (created \<longleftrightarrow> ag_lstat e = Missing)"
  by (cases "ag_lstat e"; cases "ag_lstat_created e") (auto simp: agent_directory_def private_directory_def split: if_splits)

lemma agent_checks_pass:
  assumes "agent_checks e = Inr (Some created)"
  shows "\<exists>parent st here up. ag_parent e = Some parent \<and> private_directory e st \<and> (created \<longleftrightarrow> ag_lstat e = Missing) \<and>
     ag_dot e = Some here \<and> same_file st here \<and> ag_dotdot e = Some up \<and> same_file up parent \<and> st_mode up AND 0x200 \<noteq> 0"
proof -
  obtain parent where p: "ag_parent e = Some parent" using assms by (cases "ag_parent e") (auto simp: agent_checks_def)
  with assms obtain d where d: "agent_directory e = Inr d" by (auto simp: agent_checks_def rbind_eq_Inr)
  with assms p obtain c st where c: "d = Some (c, st)" by (cases d) (auto simp: agent_checks_def)
  obtain here where h: "ag_dot e = Some here" using assms p d c by (cases "ag_dot e") (auto simp: agent_checks_def)
  obtain up where u: "ag_dotdot e = Some up" using assms p d c h by (cases "ag_dotdot e") (auto simp: agent_checks_def split: if_splits)
  from assms p d c h u have "c = created" "same_file st here" "same_file up parent" "st_mode up AND 0x200 \<noteq> 0"
    by (auto simp: agent_checks_def split: if_splits)
  with p h u d c agent_directory_pass show ?thesis by blast
qed

lemma agent_listener_ok:
  assumes wf: "channels_wf s" and r: "agent_listener e created path s = Inr (ok, t)"
  shows "ok \<and> c_auth_socket_name t = Some path \<and>
    (\<exists>sock n. ag_socket e = Some sock \<and> ag_bind e \<and> ag_listen e \<and> (created \<longrightarrow> ag_chown e) \<and> n < length (c_channels t) \<and>
       ch_type (chan t n) = AUTH_LISTENER \<and> ch_sock (chan t n) = sock \<and> ch_path (chan t n) = ascii path)"
proof -
  let ?s = "s\<lparr>c_auth_socket_name := Some path\<rparr>"
  have w: "channels_wf ?s" using wf by (simp add: inv_except_def)
  from r obtain sock n u where e: "ag_socket e = Some sock" "ag_bind e" "ag_listen e" "created \<longrightarrow> ag_chown e" "ok"
    and a: "channel_allocate ?s AUTH_LISTENER sock (ascii ''auth socket'') = Inr (n, u)"
    and t: "t = on_chan (\<lambda>c. c\<lparr>ch_path := ascii path\<rparr>) n u"
    by (auto simp: agent_listener_def rbind_eq_Inr split: if_splits option.splits)
  have "c_auth_socket_name u = Some path"
    using a by (auto simp: channel_allocate_def Let_def on_chan_def split: if_splits option.splits)
  with e channel_allocate_facts [OF w a] show ?thesis by (auto simp: t on_chan_def)
qed

text \<open>C18: The agent's socket is made only in a directory that the check found private and in its place: it is new, or the user's own
  and closed to all others; the program stands in that directory and not behind a link; its parent is sticky and the one that was
  named. If forwarding is refused no channel is made. In both cases the socket's name is set, so that any later request by
  the client is fatal.\<close>

theorem agent_socket_only_in_private_directory:
  assumes wf: "channels_wf s" and r: "auth_input_request_forwarding e s = Inr (ok, t)"
  shows "(if ok then
       (\<exists>parent st here up sock n. ag_parent e = Some parent \<and> private_directory e st \<and>
          ag_dot e = Some here \<and> same_file st here \<and> ag_dotdot e = Some up \<and> same_file up parent \<and> st_mode up AND 0x200 \<noteq> 0 \<and>
          ag_socket e = Some sock \<and> ag_bind e \<and> ag_listen e \<and> (ag_lstat e = Missing \<longrightarrow> ag_chown e) \<and> n < length (c_channels t) \<and>
          ch_type (chan t n) = AUTH_LISTENER \<and> ch_sock (chan t n) = sock)
     else c_channels t = c_channels s) \<and>
    auth_input_request_forwarding e' t = Inl (Fatal ''Protocol error: authentication forwarding requested twice.'')"
proof -
  obtain dir name where n: "agent_names e = (dir, name)" by fastforce
  let ?s = "s\<lparr>c_auth_socket_name := Some name, c_auth_socket_dir_name := Some dir\<rparr>"
  have w: "channels_wf ?s" using wf by (simp add: inv_except_def)
  have again: "c_auth_socket_name t \<noteq> None \<Longrightarrow>
      auth_input_request_forwarding e' t = Inl (Fatal ''Protocol error: authentication forwarding requested twice.'')"
    by (simp add: auth_input_request_forwarding_def auth_get_socket_name_def)
  from r n obtain c where c: "agent_checks e = Inr c"
    by (auto simp: auth_input_request_forwarding_def rbind_eq_Inr Let_def split: if_splits)
  show ?thesis
  proof (cases c)
    case None
    with r n c have "\<not> ok \<and> c_channels t = c_channels s \<and> c_auth_socket_name t = Some name"
      by (auto simp: auth_input_request_forwarding_def Let_def split: if_splits)
    with again show ?thesis by simp
  next
    case (Some created)
    with r n c have "agent_listener e created (dir @ ''/'' @ name) ?s = Inr (ok, t)"
      by (auto simp: auth_input_request_forwarding_def Let_def split: if_splits)
    from agent_listener_ok [OF w this] agent_checks_pass [of e created] c Some again show ?thesis by simp blast
  qed
qed

section \<open>Spoofed X11 authentication\<close>

text \<open>
  The first packet of an X11 client: a header of twelve bytes that gives the lengths, the name of the
  authentication protocol and the authentication data, both padded to a multiple of four bytes.
\<close>

definition x11_first_packet :: "byte list \<Rightarrow> byte list \<Rightarrow> byte list \<Rightarrow> byte list \<Rightarrow> byte list \<Rightarrow> byte list \<Rightarrow> bool" where
  "x11_first_packet ucp hdr proto pad data rest \<longleftrightarrow>
     ucp = hdr @ proto @ pad @ data @ rest \<and> length hdr = 12 \<and> x11_lengths hdr = Some (length proto, length data) \<and>
     length (proto @ pad) = pad4 (length proto) \<and> pad4 (length data) \<le> length (data @ rest)"

lemma pad4_ge: "n \<le> pad4 n"
  by (simp add: pad4_def)

lemma x11_lengths_append: "length hdr = 12 \<Longrightarrow> x11_lengths (hdr @ xs) = x11_lengths hdr"
  by (simp add: x11_lengths_def nth_append)

lemma x11_accepts:
  assumes saved: "c_x11_saved_proto s = Some proto" "length (c_x11_fake_data s) = length (c_x11_saved_data s)"
    and p: "x11_first_packet ucp hdr proto pad (c_x11_fake_data s) rest"
  shows "x11_check s ucp = Inr (X11_accept (hdr @ proto @ pad @ c_x11_saved_data s @ rest))"
proof -
  have l: "length hdr = 12" "length proto + length pad = pad4 (length proto)" "x11_lengths ucp = Some (length proto, length (c_x11_fake_data s))"
    "pad4 (length (c_x11_fake_data s)) \<le> length (c_x11_fake_data s) + length rest"
    using p x11_lengths_append by (auto simp: x11_first_packet_def)
  have u: "ucp = hdr @ proto @ pad @ c_x11_fake_data s @ rest" using p by (simp add: x11_first_packet_def)
  have "drop (12 + pad4 (length proto)) ucp = c_x11_fake_data s @ rest" "take (12 + pad4 (length proto)) ucp = hdr @ proto @ pad"
    using l(1,2) by (simp_all add: u flip: l(2))
  moreover have "drop 12 ucp = proto @ pad @ c_x11_fake_data s @ rest" using l(1) by (simp add: u)
  moreover have "12 \<le> length ucp" "12 + pad4 (length proto) + pad4 (length (c_x11_fake_data s)) \<le> length ucp"
    using l by (simp_all add: u)
  ultimately show ?thesis using saved l(3)
    by (simp add: x11_check_def splice_def drop_drop [symmetric] add.commute [of _ "length (c_x11_saved_data s)"] del: drop_drop)
qed

lemma x11_accept_only:
  assumes saved: "c_x11_saved_proto s = Some proto" and v: "x11_check s ucp = Inr (X11_accept ucp')"
  shows "\<exists>hdr pad rest. x11_first_packet ucp hdr proto pad (c_x11_fake_data s) rest"
proof -
  from v saved obtain pl dl where l: "12 \<le> length ucp" "x11_lengths ucp = Some (pl, dl)" "12 + pad4 pl + pad4 dl \<le> length ucp"
    "take pl (drop 12 ucp) = proto" "take dl (drop (12 + pad4 pl) ucp) = c_x11_fake_data s"
    by (auto simp: x11_check_def split: if_splits option.splits)
  let ?hdr = "take 12 ucp" and ?pad = "take (pad4 pl - pl) (drop (12 + pl) ucp)" and ?rest = "drop (12 + pad4 pl + dl) ucp"
  have len: "length proto = pl" "length (c_x11_fake_data s) = dl"
    using l(3-5) pad4_ge [of pl] pad4_ge [of dl] by (auto simp flip: l(4,5))
  have "proto @ ?pad @ c_x11_fake_data s @ ?rest = drop 12 ucp"
  proof -
    have "c_x11_fake_data s @ ?rest = drop (12 + pad4 pl) ucp"
      using l(5) append_take_drop_id [of dl "drop (12 + pad4 pl) ucp"] by (simp add: add.commute add.left_commute)
    moreover have "?pad @ drop (12 + pad4 pl) ucp = drop (12 + pl) ucp"
      using append_take_drop_id [of "pad4 pl - pl" "drop (12 + pl) ucp"] pad4_ge [of pl] by (simp add: add.commute)
    moreover have "proto @ drop (12 + pl) ucp = drop 12 ucp"
      using l(4) append_take_drop_id [of pl "drop 12 ucp"] by (simp add: add.commute)
    ultimately show ?thesis by simp
  qed
  then have u: "ucp = ?hdr @ proto @ ?pad @ c_x11_fake_data s @ ?rest" by (metis append_take_drop_id)
  have "x11_lengths ?hdr = Some (pl, dl)" using l(1,2) x11_lengths_append [of ?hdr "drop 12 ucp"] by simp
  moreover have "length ?hdr = 12" "length (proto @ ?pad) = pad4 pl" "pad4 dl \<le> length (c_x11_fake_data s @ ?rest)"
    using l(1,3) len pad4_ge [of pl] pad4_ge [of dl] by auto
  ultimately have "x11_first_packet ucp ?hdr proto ?pad (c_x11_fake_data s) ?rest"
    unfolding x11_first_packet_def using u len by simp
  then show ?thesis by blast
qed

lemma close_output_total:
  assumes new: "\<not> c_old s" and i: "i < length (c_channels s)" and c: "ch_type (chan s i) \<noteq> FREE" "ch_local_id (chan s i) = i"
    "ch_input (chan s i) = []" "ch_output (chan s i) = []"
  shows "\<exists>t. channel_close_output s i = Inr t \<and> ch_input (chan t i) = [] \<and> ch_output (chan t i) = [] \<and>
     (ch_type (chan t i) = FREE \<or> flag STATUS_OUTPUT_SOCKET_CLOSED (chan t i)) \<and>
     (ch_type (chan t i) = FREE \<or> (flag STATUS_INPUT_SOCKET_CLOSED (chan s i) \<longrightarrow> flag STATUS_INPUT_SOCKET_CLOSED (chan t i)))"
  using assms by (auto simp: close_output_new channel_send_oclosed_def check_termination_new channel_free_def Let_def flag_set)

lemma close_input_open:
  assumes "\<not> c_old s" and "i < length (c_channels s)" and "ch_type (chan s i) = OPEN"
  shows "\<exists>t. channel_close_input s i = Inr t \<and> \<not> c_old t \<and> length (c_channels t) = length (c_channels s) \<and>
     flag STATUS_INPUT_SOCKET_CLOSED (chan t i) \<and> ch_type (chan t i) = OPEN \<and> ch_local_id (chan t i) = ch_local_id (chan s i) \<and>
     ch_input (chan t i) = ch_input (chan s i) \<and> ch_output (chan t i) = ch_output (chan s i)"
  using assms by (simp add: close_input_new Let_def flag_set)

lemma x11_check_total:
  assumes "c_x11_saved_proto s = Some proto" and "length (c_x11_fake_data s) = length (c_x11_saved_data s)"
  shows "\<exists>v. x11_check s ucp = Inr v"
  using assms by (auto simp: x11_check_def split: option.splits)

text \<open>C17: The spoofed authentication of X11 connections: the real authentication data reaches a channel to the X server in exactly
  one way. While the first packet is incomplete nothing happens. If it names the saved protocol and carries the fake data, the
  real data takes their place, the rest of the packet is kept, and the channel is open. Otherwise what came is thrown away, and the
  channel is closed in both directions.\<close>

theorem x11_real_data_only_for_fake_data:
  assumes wf: "channels_wf s" and i: "i < length (c_channels s)" "ch_type (chan s i) = X11_OPEN"
    and saved: "c_x11_saved_proto s = Some proto" "length (c_x11_fake_data s) = length (c_x11_saved_data s)"
  shows "\<exists>rd wr t. prepare_channel s i = Inr (rd, wr, t) \<and>
     (if \<exists>hdr pad rest. x11_first_packet (ch_output (chan s i)) hdr proto pad (c_x11_fake_data s) rest
      then \<exists>hdr pad rest. x11_first_packet (ch_output (chan s i)) hdr proto pad (c_x11_fake_data s) rest \<and>
         t = on_chan (\<lambda>c. c\<lparr>ch_output := hdr @ proto @ pad @ c_x11_saved_data s @ rest, ch_type := OPEN\<rparr>) i s
      else t = s \<and> rd = [] \<and> wr = [] \<or>
        ch_input (chan t i) = [] \<and> ch_output (chan t i) = [] \<and>
        (ch_type (chan t i) = FREE \<or> flag STATUS_INPUT_SOCKET_CLOSED (chan t i) \<and> flag STATUS_OUTPUT_SOCKET_CLOSED (chan t i)))"
proof -
  let ?ucp = "ch_output (chan s i)"
  have new: "\<not> c_old s" and inv: "chan_inv i (chan s i)" using wf i by (auto simp: inv_except_def)
  obtain v where v: "x11_check s ?ucp = Inr v" using x11_check_total [OF saved] by blast
  show ?thesis
  proof (cases "\<exists>hdr pad rest. x11_first_packet ?ucp hdr proto pad (c_x11_fake_data s) rest")
    case True
    then obtain hdr pad rest where p: "x11_first_packet ?ucp hdr proto pad (c_x11_fake_data s) rest" by blast
    let ?t = "on_chan (\<lambda>c. c\<lparr>ch_output := hdr @ proto @ pad @ c_x11_saved_data s @ rest, ch_type := OPEN\<rparr>) i s"
    have "hdr \<noteq> []" "?ucp \<noteq> []" using p by (auto simp: x11_first_packet_def)
    with inv i have "\<not> flag STATUS_OUTPUT_SOCKET_CLOSED (chan ?t i)" "ch_output (chan ?t i) \<noteq> []" by (auto simp: chan_inv_def)
    then have "\<exists>rd wr. prepare_open ?t i = Inr (rd, wr, ?t)" by (simp add: prepare_open_def Let_def)
    then obtain rd wr where "prepare_channel s i = Inr (rd, wr, ?t)"
      using i(2) x11_accepts [OF saved p] by (auto simp: prepare_channel_def)
    with True p show ?thesis by auto
  next
    case False
    then have nacc: "v \<noteq> X11_accept ucp'" for ucp' using x11_accept_only [OF saved(1)] v by blast
    show ?thesis
    proof (cases v)
      case X11_wait
      with v i have "prepare_channel s i = Inr ([], [], s)" by (simp add: prepare_channel_def)
      with False show ?thesis by auto
    next
      case X11_reject
      let ?u = "on_chan (\<lambda>c. c\<lparr>ch_type := OPEN, ch_input := [], ch_output := []\<rparr>) i s"
      obtain w where w: "channel_close_input ?u i = Inr w" "\<not> c_old w" "length (c_channels w) = length (c_channels s)"
        "ch_type (chan w i) = OPEN" "ch_local_id (chan w i) = i" "ch_input (chan w i) = []" "ch_output (chan w i) = []"
        "flag STATUS_INPUT_SOCKET_CLOSED (chan w i)"
        using close_input_open [of ?u i] i new inv by (auto simp: chan_inv_def)
      from close_output_total [of w i] w i obtain t where t: "channel_close_output w i = Inr t" "ch_input (chan t i) = []"
        "ch_output (chan t i) = []" "ch_type (chan t i) = FREE \<or> flag STATUS_INPUT_SOCKET_CLOSED (chan t i) \<and> flag STATUS_OUTPUT_SOCKET_CLOSED (chan t i)"
        by auto
      have "prepare_channel s i = Inr ([], [], t)" using i(2) v X11_reject w(1) t(1) by (simp add: prepare_channel_def)
      with False t show ?thesis by auto
    next
      case (X11_accept ucp')
      with nacc show ?thesis by blast
    qed
  qed
qed

end
