(* ===== verification/ChannelDemo.thy ===== *)
theory ChannelDemo
  imports ChannelSafety
begin

text \<open>Concrete states of the channel layer, on which the theorems about it are evaluated.\<close>

section \<open>A granted forwarding\<close>

text \<open>A client that asked for its host \<open>db\<close>, port 5432, and the state after the other side opened it.\<close>

definition result_of :: "'a res \<Rightarrow> 'a \<Rightarrow> 'a" where
  "result_of r x = (case r of Inl _ \<Rightarrow> x | Inr y \<Rightarrow> y)"

definition demo_asked :: channel_state where
  "demo_asked = result_of (channel_request_remote_forwarding (channel_statics False 256000 False) 8080 [100, 98] 5432 SSH_SMSG_SUCCESS)
     (channel_statics False 256000 False)"

definition demo_opened :: channel_state where
  "demo_opened = snd (snd (result_of (channel_input_port_open (\<lambda>_ _. Some 7) demo_asked
     (concat (map field_bytes [F_int 9, F_string [100, 98], F_int 5432]))) ([], [], demo_asked)))"

lemma demo_asked_eq: "channel_request_remote_forwarding (channel_statics False 256000 False) 8080 [100, 98] 5432 SSH_SMSG_SUCCESS = Inr demo_asked"
  by (simp add: demo_asked_def result_of_def channel_request_remote_forwarding_def Let_def send_def channel_statics_def)

lemma port_open_fields:
  assumes "length host \<le> 255" and "0 \<notin> set host" and "\<not> c_have_hostname_in_open s"
  shows "channel_input_port_open connect_to s (concat (map field_bytes [F_int rc, F_string host, F_int port])) =
    rbind (open_port connect_to s rc host port (ascii ''unknown (remote did not supply name)'')) (\<lambda>(tried, s). Inr (tried, [], s))"
proof -
  have "c_str host = host" using assms(2) by (auto simp: c_str_def takeWhile_eq_all_conv)
  with assms(1,3) bytes_get_string_field [of host "PUT_32BIT port"] bytes_get_int_field [of port "[]"] show ?thesis
    by (simp add: channel_input_port_open_def get_originator_def)
qed

lemma demo_allocate:
  "channel_allocate (channel_statics False n b\<lparr>c_sent := ms, c_permitted_opens := ps\<rparr>) type sock name =
    Inr (0, channel_statics False n b\<lparr>c_sent := ms, c_permitted_opens := ps, c_max_fd := max 0 sock, c_used := 1,
      c_channels := new_channel type sock name 0 free_slot # replicate 9 free_slot\<rparr>)"
  by (simp add: channel_allocate_def Let_def channel_statics_def on_chan_def new_channel_def free_slot_def numeral_eq_Suc max_def)

lemma demo_opened_eq:
  "channel_input_port_open (\<lambda>_ _. Some 7) demo_asked (concat (map field_bytes [F_int 9, F_string [100, 98], F_int 5432])) =
    Inr ([([100, 98], 5432)], [], demo_opened)"
proof -
  have asked: "demo_asked = channel_statics False 256000 False\<lparr>c_sent := [(SSH_CMSG_PORT_FORWARD_REQUEST, [F_int 8080, F_string [100, 98], F_int 5432])],
      c_permitted_opens := [([100, 98], 5432)]\<rparr>"
    by (simp add: demo_asked_def result_of_def channel_request_remote_forwarding_def Let_def send_def channel_statics_def)
  have "\<exists>t. open_port (\<lambda>_ _. Some 7) demo_asked 9 [100, 98] 5432 name = Inr ([([100, 98], 5432)], t)" for name
    unfolding asked open_port_def by (simp add: demo_allocate)
  then obtain t where o: "open_port (\<lambda>_ _. Some 7) demo_asked 9 [100, 98] 5432 (ascii ''unknown (remote did not supply name)'') =
      Inr ([([100, 98], 5432)], t)" by blast
  have h: "\<not> c_have_hostname_in_open demo_asked" by (simp add: asked channel_statics_def)
  have e: "channel_input_port_open (\<lambda>_ _. Some 7) demo_asked (concat (map field_bytes [F_int 9, F_string [100, 98], F_int 5432])) =
    rbind (open_port (\<lambda>_ _. Some 7) demo_asked 9 [100, 98] 5432 (ascii ''unknown (remote did not supply name)'')) (\<lambda>(tried, s). Inr (tried, [], s))"
    by (rule port_open_fields) (use h in simp_all)
  have "channel_input_port_open (\<lambda>_ _. Some 7) demo_asked (concat (map field_bytes [F_int 9, F_string [100, 98], F_int 5432])) =
    Inr ([([100, 98], 5432)], [], t)" unfolding e o by simp
  then show ?thesis by (simp add: demo_opened_def result_of_def del: list.map concat.simps)
qed

lemma demo_asked_reachable: "channels_reachable demo_asked"
  by (rule channels_reachable.step [OF channels_reachable.start channel_step.remote_forwarding [OF demo_asked_eq]])

lemma demo_opened_reachable: "channels_reachable demo_opened"
  by (rule channels_reachable.step [OF demo_asked_reachable channel_step.port_open [OF demo_opened_eq]])

theorem channel_layer_stays_well_formed_witness:
  "channels_wf demo_opened \<and> (\<exists>i t. channel_allocate demo_opened PORT_LISTENER 4 [] = Inr (i, t) \<and>
     (i < length (c_channels demo_opened) \<longrightarrow> ch_type (chan demo_opened i) = FREE) \<and> ch_type (chan t i) = PORT_LISTENER \<and> ch_local_id (chan t i) = i)"
  using channel_layer_stays_well_formed [OF demo_opened_reachable] by blast



section \<open>Closing, listening, spoofing\<close>

definition demo_channel :: "channel_type \<Rightarrow> Channel" where
  "demo_channel type = new_channel type 5 [] 0 free_slot"

definition demo_one :: "Channel \<Rightarrow> channel_state" where
  "demo_one c = (channel_statics False 256000 False)\<lparr>c_used := 1, c_channels := [c]\<rparr>"

lemma demo_one_wf: "type \<noteq> FREE \<Longrightarrow> (type = X11_OPEN \<or> out = []) \<Longrightarrow> channels_wf (demo_one ((demo_channel type)\<lparr>ch_output := out, ch_path := path\<rparr>))"
  by (auto simp: demo_one_def demo_channel_def inv_except_def channel_statics_def in_use_def new_channel_def chan_inv_def stable_def
      terminated_def flag_def)

theorem closing_an_unopened_channel_aborts_witness:
  "\<exists>s. ch_type (chan s 0) = OPENING \<and> rbind (channel_input_close_confirmation s (concat (map field_bytes [F_int (of_nat 0)])))
      (\<lambda>(_, s). channel_input_close s (concat (map field_bytes [F_int (of_nat 0)]))) =
    Inl (Assertion ''channel >= 0 && channel < channels_alloc && channels[channel].type != SSH_CHANNEL_FREE'')"
proof -
  let ?s = "demo_one ((demo_channel OPENING)\<lparr>ch_output := [], ch_path := []\<rparr>)"
  have c: "ch_type (chan ?s 0) = OPENING" "ch_status_flags (chan ?s 0) = 0" "0 < length (c_channels ?s)"
    by (simp_all add: demo_one_def demo_channel_def new_channel_def)
  have "channels_wf ?s" by (rule demo_one_wf) simp_all
  from closing_an_unopened_channel_aborts [OF this c(3) _ disjI1 [OF c(1)] c(2)] c(1) show ?thesis by (intro exI [of _ ?s]) simp
qed

definition demo_env :: select_env where
  "demo_env = \<lparr>os_readable = (\<lambda>_. True), os_writable = (\<lambda>_. True), os_accept = (\<lambda>_. Accepted 8 [65]),
     os_read = (\<lambda>_. Read_again), os_write = (\<lambda>_. Write_again)\<rparr>"

theorem port_connection_when_array_full_witness:
  "\<exists>s. length (c_channels s) = 1 \<and> after_channel demo_env s 0 = Inl (Undefined ''ch points into the array that realloc freed'')"
proof -
  let ?s = "demo_one ((demo_channel PORT_LISTENER)\<lparr>ch_output := [], ch_path := [100, 98]\<rparr>)"
  have c: "0 < length (c_channels ?s)" "ch_type (chan ?s 0) = PORT_LISTENER" "c_used ?s = length (c_channels ?s)"
    by (simp_all add: demo_one_def demo_channel_def new_channel_def)
  have "channels_wf ?s" by (rule demo_one_wf) simp_all
  from port_connection_when_array_full [OF this c(1,2), of demo_env 8 "[65]"] c(3) show ?thesis
    by (intro exI [of _ ?s]) (simp add: demo_env_def demo_one_def)
qed

definition demo_agent :: agent_env where
  "demo_agent = \<lparr>ag_user = ''u'', ag_uid = 100, ag_pid = 42, ag_parent = Some \<lparr>st_uid = 0, st_mode = 0x3ff, st_dev = 1, st_ino = 2\<rparr>,
     ag_lstat = Found \<lparr>st_uid = 100, st_mode = 0x1c0, st_dev = 1, st_ino = 9\<rparr>, ag_mkdir = False, ag_lstat_created = None,
     ag_dot = Some \<lparr>st_uid = 100, st_mode = 0x1c0, st_dev = 1, st_ino = 9\<rparr>,
     ag_dotdot = Some \<lparr>st_uid = 0, st_mode = 0x3ff, st_dev = 1, st_ino = 2\<rparr>, ag_socket = Some 6, ag_bind = True, ag_chown = True, ag_listen = True\<rparr>"

theorem agent_socket_only_in_private_directory_witness:
  "\<exists>t n. auth_input_request_forwarding demo_agent (channel_statics False 256000 False) = Inr (True, t) \<and>
     n < length (c_channels t) \<and> ch_type (chan t n) = AUTH_LISTENER \<and> ch_sock (chan t n) = 6"
proof -
  let ?s = "channel_statics False 256000 False"
  obtain dir name where n: "agent_names demo_agent = (dir, name)" by fastforce
  have c: "agent_checks demo_agent = Inr (Some False)"
    by (simp add: agent_checks_def agent_directory_def demo_agent_def same_file_def)
  have w: "channels_wf (?s\<lparr>c_auth_socket_dir_name := b, c_auth_socket_name := a\<rparr>)" for a b
    using inv_statics [of 256000 False] by (simp add: inv_except_def)
  have "\<exists>t. agent_listener demo_agent False path (?s\<lparr>c_auth_socket_name := a, c_auth_socket_dir_name := b\<rparr>) = Inr (True, t)" for path a b
    using channel_allocate_ok [OF w, of "Some path" b AUTH_LISTENER 6 "ascii ''auth socket''"]
    by (auto simp: agent_listener_def demo_agent_def)
  then obtain t where "agent_listener demo_agent False (dir @ ''/'' @ name)
      (?s\<lparr>c_auth_socket_name := Some name, c_auth_socket_dir_name := Some dir\<rparr>) = Inr (True, t)" by blast
  moreover have "auth_get_socket_name ?s = None" by (simp add: auth_get_socket_name_def channel_statics_def)
  ultimately have "auth_input_request_forwarding demo_agent ?s = Inr (True, t)"
    using n c by (simp add: auth_input_request_forwarding_def Let_def)
  with agent_socket_only_in_private_directory [OF inv_statics this] show ?thesis by (auto simp: demo_agent_def)
qed

theorem x11_real_data_only_for_fake_data_witness:
  "\<exists>s rd wr t. ch_type (chan s 0) = X11_OPEN \<and> c_x11_fake_data s = [1, 2] \<and> prepare_channel s 0 = Inr (rd, wr, t) \<and>
     ch_type (chan t 0) = OPEN \<and> ch_output (chan t 0) = [0x42, 0, 0, 11, 0, 0, 0, 4, 0, 2, 0, 0] @ [77, 73, 84, 45] @ [3, 4] @ [0, 0]"
proof -
  let ?hdr = "[0x42, 0, 0, 11, 0, 0, 0, 4, 0, 2, 0, 0]" and ?proto = "[77, 73, 84, 45]"
  let ?s = "(demo_one ((demo_channel X11_OPEN)\<lparr>ch_output := ?hdr @ ?proto @ [] @ [1, 2] @ [0, 0], ch_path := []\<rparr>))
    \<lparr>c_x11_saved_proto := Some ?proto, c_x11_saved_data := [3, 4], c_x11_fake_data := [1, 2]\<rparr>"
  have c: "0 < length (c_channels ?s)" "ch_type (chan ?s 0) = X11_OPEN" "c_x11_saved_proto ?s = Some ?proto"
    "length (c_x11_fake_data ?s) = length (c_x11_saved_data ?s)" "c_x11_fake_data ?s = [1, 2]" "c_x11_saved_data ?s = [3, 4]"
    by (simp_all add: demo_one_def demo_channel_def new_channel_def)
  have "channels_wf (demo_one ((demo_channel X11_OPEN)\<lparr>ch_output := ?hdr @ ?proto @ [] @ [1, 2] @ [0, 0], ch_path := []\<rparr>))"
    by (rule demo_one_wf) simp_all
  then have w: "channels_wf ?s" by (simp add: inv_except_def)
  have out: "ch_output (chan ?s 0) = ?hdr @ ?proto @ [] @ [1, 2] @ [0, 0]" by (simp add: demo_one_def)
  have first: "x11_first_packet (ch_output (chan ?s 0)) ?hdr ?proto [] (c_x11_fake_data ?s) [0, 0]"
    unfolding out x11_first_packet_def by (simp add: demo_one_def x11_lengths_def pad4_def)
  have only: "hdr = ?hdr \<and> pad = [] \<and> rest = [0, 0]"
    if "x11_first_packet (ch_output (chan ?s 0)) hdr ?proto pad (c_x11_fake_data ?s) rest" for hdr pad rest
  proof -
    have "length hdr = 12" "length pad = 0" "?hdr @ ?proto @ [] @ [1, 2] @ [0, 0] = hdr @ ?proto @ pad @ [1, 2] @ rest"
      using that unfolding out x11_first_packet_def by (simp_all add: c(5) pad4_def)
    moreover from this have "hdr = take 12 (?hdr @ ?proto @ [] @ [1, 2] @ [0, 0])" "rest = drop 18 (?hdr @ ?proto @ [] @ [1, 2] @ [0, 0])"
      by simp_all
    ultimately show ?thesis by simp
  qed
  have ex: "\<exists>hdr pad rest. x11_first_packet (ch_output (chan ?s 0)) hdr ?proto pad (c_x11_fake_data ?s) rest"
    using first by blast
  note x11_real_data_only_for_fake_data [OF w c(1-4), unfolded if_P [OF ex]]
  then obtain rd wr t hdr pad rest where t: "prepare_channel ?s 0 = Inr (rd, wr, t)"
    "x11_first_packet (ch_output (chan ?s 0)) hdr ?proto pad (c_x11_fake_data ?s) rest"
    "t = on_chan (\<lambda>c. c\<lparr>ch_output := hdr @ ?proto @ pad @ c_x11_saved_data ?s @ rest, ch_type := OPEN\<rparr>) 0 ?s" by blast
  from only [OF t(2)] t(3) c(1,6) have "ch_type (chan t 0) = OPEN \<and> ch_output (chan t 0) = ?hdr @ ?proto @ [3, 4] @ [0, 0]" by simp
  with c(2,5) t(1) show ?thesis by blast
qed

end
