(* ===== verification/ChannelPipe.thy ===== *)
theory ChannelPipe
  imports ChannelDemo
begin

text \<open>
  A forwarded connection from end to end: the channel layers of both sides with the messages under way
  between them. The bytes read from the socket at one side are an abstract queue, of which the socket at
  the other side, its output buffer, the messages and the input buffer hold consecutive parts.
\<close>

section \<open>Two channel layers and what is under way\<close>

text \<open>
  Channel \<open>i\<close> of the near side sends to channel \<open>j\<close> of the far side. \<open>p_taken\<close> is what the near side has
  read from the socket of its channel. The packet layer delivers every message unchanged and in order
  (theory \<open>Peers\<close>), so that the messages under way are a list.
\<close>

record pipe =
  p_near :: channel_state
  p_far :: channel_state
  p_under_way :: "message list"
  p_taken :: "byte list"

definition message_body :: "field list \<Rightarrow> byte list" where
  "message_body fs = concat (map field_bytes fs)"

text \<open>What \<^verbatim>\<open>channel_after_select\<close> reads from the socket of a channel.\<close>

definition bytes_read :: "select_env \<Rightarrow> channel_state \<Rightarrow> nat \<Rightarrow> byte list" where
  "bytes_read e s i =
     (if ch_type (chan s i) = OPEN \<and> os_readable e (ch_sock (chan s i))
      then case os_read e (ch_sock (chan s i)) of Data buf \<Rightarrow> take (min 16384 (c_max_packet s div 4)) buf | _ \<Rightarrow> []
      else [])"

definition new_messages :: "channel_state \<Rightarrow> channel_state \<Rightarrow> message list" where
  "new_messages s t = drop (length (c_sent s)) (c_sent t)"

text \<open>A channel that still carries data to its socket.\<close>

definition carries :: "nat \<Rightarrow> channel_state \<Rightarrow> bool" where
  "carries j s \<longleftrightarrow> j < length (c_channels s) \<and> ch_type (chan s j) = OPEN \<and> \<not> flag STATUS_OUTPUT_SOCKET_CLOSED (chan s j)"

definition selects_channel :: "select_env \<Rightarrow> channel_state \<Rightarrow> nat \<Rightarrow> bool" where
  "selects_channel e s k \<longleftrightarrow> k < length (c_channels s) \<and>
     (ch_type (chan s k) = OPEN \<longrightarrow> flag STATUS_INPUT_SOCKET_CLOSED (chan s k) \<longrightarrow> \<not> os_readable e (ch_sock (chan s k)))"

text \<open>
  The steps: either side serves a channel after \<^verbatim>\<open>select\<close>, the near side sends what is buffered, the
  far side takes a message, or prepares a channel for \<^verbatim>\<open>select\<close>. Messages that open further channels are passed over.
  The steps go on as long as the near channel is open and the far one carries data.
\<close>

inductive pipe_step :: "nat \<Rightarrow> nat \<Rightarrow> pipe \<Rightarrow> pipe \<Rightarrow> bool" for i j where
  near_socket: "selects_channel e (p_near p) k \<Longrightarrow> after_channel e (p_near p) k = Inr s \<Longrightarrow> ch_type (chan s i) = OPEN \<Longrightarrow>
     pipe_step i j p (p\<lparr>p_near := s, p_under_way := p_under_way p @ new_messages (p_near p) s,
       p_taken := p_taken p @ (if k = i then bytes_read e (p_near p) i else [])\<rparr>)"
| near_output: "k < length (c_channels (p_near p)) \<Longrightarrow> output_channel (p_near p) k = Inr s \<Longrightarrow> ch_type (chan s i) = OPEN \<Longrightarrow>
     pipe_step i j p (p\<lparr>p_near := s, p_under_way := p_under_way p @ new_messages (p_near p) s\<rparr>)"
| far_data: "p_under_way p = (SSH_MSG_CHANNEL_DATA, fs) # ms \<Longrightarrow> channel_input_data (p_far p) (message_body fs) = Inr (q, s) \<Longrightarrow> carries j s \<Longrightarrow>
     pipe_step i j p (p\<lparr>p_far := s, p_under_way := ms\<rparr>)"
| far_eof: "p_under_way p = (SSH_MSG_CHANNEL_INPUT_EOF, fs) # ms \<Longrightarrow> channel_input_close (p_far p) (message_body fs) = Inr (q, s) \<Longrightarrow> carries j s \<Longrightarrow>
     pipe_step i j p (p\<lparr>p_far := s, p_under_way := ms\<rparr>)"
| far_closed: "p_under_way p = (SSH_MSG_CHANNEL_OUTPUT_CLOSED, fs) # ms \<Longrightarrow>
     channel_input_close_confirmation (p_far p) (message_body fs) = Inr (q, s) \<Longrightarrow> carries j s \<Longrightarrow>
     pipe_step i j p (p\<lparr>p_far := s, p_under_way := ms\<rparr>)"
| far_other: "p_under_way p = (type, fs) # ms \<Longrightarrow>
     type \<notin> {SSH_MSG_CHANNEL_DATA, SSH_MSG_CHANNEL_INPUT_EOF, SSH_MSG_CHANNEL_OUTPUT_CLOSED} \<Longrightarrow> pipe_step i j p (p\<lparr>p_under_way := ms\<rparr>)"
| far_socket: "selects_channel e (p_far p) k \<Longrightarrow> after_channel e (p_far p) k = Inr s \<Longrightarrow> carries j s \<Longrightarrow> pipe_step i j p (p\<lparr>p_far := s\<rparr>)"
| far_prepare: "k < length (c_channels (p_far p)) \<Longrightarrow> ch_type (chan (p_far p) k) \<noteq> X11_OPEN \<Longrightarrow>
     prepare_channel (p_far p) k = Inr (rd, wr, s) \<Longrightarrow> carries j s \<Longrightarrow> pipe_step i j p (p\<lparr>p_far := s\<rparr>)"

text \<open>A connection just set up: nothing is buffered, and no other open channel has the same peer or socket.\<close>

definition pipe_start :: "nat \<Rightarrow> nat \<Rightarrow> pipe \<Rightarrow> bool" where
  "pipe_start i j p \<longleftrightarrow> channels_wf (p_near p) \<and> channels_wf (p_far p) \<and> j < 2 ^ 31 \<and>
     i < length (c_channels (p_near p)) \<and> ch_type (chan (p_near p) i) = OPEN \<and> ch_status_flags (chan (p_near p) i) = 0 \<and>
     ch_input (chan (p_near p) i) = [] \<and> ch_remote_id (chan (p_near p) i) = of_nat j \<and>
     (\<forall>k<length (c_channels (p_near p)). k \<noteq> i \<longrightarrow> ch_type (chan (p_near p) k) = OPEN \<longrightarrow> ch_remote_id (chan (p_near p) k) \<noteq> of_nat j) \<and>
     j < length (c_channels (p_far p)) \<and> ch_type (chan (p_far p) j) = OPEN \<and> ch_status_flags (chan (p_far p) j) = 0 \<and>
     ch_output (chan (p_far p) j) = [] \<and>
     (\<forall>k<length (c_channels (p_far p)). k \<noteq> j \<longrightarrow> ch_type (chan (p_far p) k) = OPEN \<longrightarrow> ch_sock (chan (p_far p) k) \<noteq> ch_sock (chan (p_far p) j)) \<and>
     p_under_way p = [] \<and> p_taken p = written (ch_sock (chan (p_far p) j)) (c_io (p_far p))"

text \<open>The data under way to channel \<open>j\<close>.\<close>

fun data_to :: "nat \<Rightarrow> message \<Rightarrow> byte list" where
  "data_to j (type, fs) = (case fs of [F_int v, F_string d] \<Rightarrow> if type = SSH_MSG_CHANNEL_DATA \<and> v = of_nat j then d else [] | _ \<Rightarrow> [])"

definition in_transit :: "nat \<Rightarrow> message list \<Rightarrow> byte list" where
  "in_transit j ms = concat (map (data_to j) ms)"

definition eof_to :: "nat \<Rightarrow> message" where
  "eof_to j = (SSH_MSG_CHANNEL_INPUT_EOF, [F_int (of_nat j)])"

lemma in_transit_simps [simp]:
  "in_transit j [] = []" "in_transit j (m # ms) = data_to j m @ in_transit j ms" "in_transit j (ms @ ns) = in_transit j ms @ in_transit j ns"
  by (simp_all add: in_transit_def)

section \<open>The invariant\<close>

text \<open>At most one end of file, and no data after it; \<open>r\<close> says that it has already been received.\<close>

fun ordered :: "nat \<Rightarrow> bool \<Rightarrow> message list \<Rightarrow> bool" where
  "ordered j r [] = True"
| "ordered j r (m # ms) = (if m = eof_to j then \<not> r \<and> ordered j True ms else (r \<longrightarrow> data_to j m = []) \<and> ordered j r ms)"

lemma ordered_append:
  "ordered j r ms \<Longrightarrow> \<forall>m\<in>set ns. data_to j m = [] \<and> m \<noteq> eof_to j \<Longrightarrow> ordered j r (ms @ ns)"
proof (induction ms arbitrary: r)
  case Nil
  then show ?case by (induction ns) auto
qed auto

lemma ordered_snoc:
  "ordered j r ms \<Longrightarrow> \<not> r \<Longrightarrow> eof_to j \<notin> set ms \<Longrightarrow> ordered j r (ms @ [m])"
  by (induction ms) (auto split: if_splits)

lemma ordered_received: "ordered j True ms \<Longrightarrow> in_transit j ms = [] \<and> eof_to j \<notin> set ms"
  by (induction ms) (auto split: if_splits)

definition pipe_inv :: "nat \<Rightarrow> nat \<Rightarrow> pipe \<Rightarrow> bool" where
  "pipe_inv i j p \<longleftrightarrow> channels_wf (p_near p) \<and> channels_wf (p_far p) \<and> j < 2 ^ 31 \<and>
     i < length (c_channels (p_near p)) \<and> ch_type (chan (p_near p) i) = OPEN \<and> ch_remote_id (chan (p_near p) i) = of_nat j \<and>
     (\<forall>k<length (c_channels (p_near p)). k \<noteq> i \<longrightarrow> ch_type (chan (p_near p) k) = OPEN \<longrightarrow> ch_remote_id (chan (p_near p) k) \<noteq> of_nat j) \<and>
     carries j (p_far p) \<and>
     (\<forall>k<length (c_channels (p_far p)). k \<noteq> j \<longrightarrow> ch_type (chan (p_far p) k) = OPEN \<longrightarrow> ch_sock (chan (p_far p) k) \<noteq> ch_sock (chan (p_far p) j)) \<and>
     list_all well_typed (p_under_way p) \<and>
     p_taken p = written (ch_sock (chan (p_far p) j)) (c_io (p_far p)) @ ch_output (chan (p_far p) j) @ in_transit j (p_under_way p) @
       ch_input (chan (p_near p) i) \<and>
     ordered j (flag STATUS_EOF_RECEIVED (chan (p_far p) j)) (p_under_way p) \<and>
     (flag STATUS_EOF_RECEIVED (chan (p_far p) j) \<or> eof_to j \<in> set (p_under_way p) \<longrightarrow> flag STATUS_EOF_SENT (chan (p_near p) i))"

lemma pipe_start_inv: "pipe_start i j p \<Longrightarrow> pipe_inv i j p"
  by (simp add: pipe_start_def pipe_inv_def carries_def flag_def)

section \<open>What the operations leave alone\<close>

text \<open>Serving channel \<open>k\<close> opens no channel, renames none, and leaves the other open ones as they are.\<close>

definition steady :: "nat \<Rightarrow> channel_state \<Rightarrow> channel_state \<Rightarrow> bool" where
  "steady k s t \<longleftrightarrow> length (c_channels s) \<le> length (c_channels t) \<and>
     (\<forall>x<length (c_channels t). ch_type (chan t x) = OPEN \<longrightarrow> x < length (c_channels s) \<and> ch_type (chan s x) = OPEN \<and>
        ch_remote_id (chan t x) = ch_remote_id (chan s x) \<and> ch_sock (chan t x) = ch_sock (chan s x)) \<and>
     (\<forall>x<length (c_channels s). x \<noteq> k \<longrightarrow> ch_type (chan s x) = OPEN \<longrightarrow> chan t x = chan s x)"

lemma steadyD:
  assumes "steady k s t"
  shows "length (c_channels s) \<le> length (c_channels t)"
    and "x < length (c_channels t) \<Longrightarrow> ch_type (chan t x) = OPEN \<Longrightarrow> x < length (c_channels s) \<and> ch_type (chan s x) = OPEN \<and>
        ch_remote_id (chan t x) = ch_remote_id (chan s x) \<and> ch_sock (chan t x) = ch_sock (chan s x)"
    and "x < length (c_channels s) \<Longrightarrow> x \<noteq> k \<Longrightarrow> ch_type (chan s x) = OPEN \<Longrightarrow> chan t x = chan s x"
  using assms unfolding steady_def by blast+

lemma steadyI:
  assumes "length (c_channels s) \<le> length (c_channels t)"
    and "\<And>x. x < length (c_channels t) \<Longrightarrow> ch_type (chan t x) = OPEN \<Longrightarrow> x < length (c_channels s) \<and> ch_type (chan s x) = OPEN \<and>
        ch_remote_id (chan t x) = ch_remote_id (chan s x) \<and> ch_sock (chan t x) = ch_sock (chan s x)"
    and "\<And>x. x < length (c_channels s) \<Longrightarrow> x \<noteq> k \<Longrightarrow> ch_type (chan s x) = OPEN \<Longrightarrow> chan t x = chan s x"
  shows "steady k s t"
  using assms unfolding steady_def by blast

lemma steady_refl [simp]: "steady k s s"
  by (simp add: steady_def)

lemma steady_trans:
  assumes a: "steady k s t" and b: "steady k t u"
  shows "steady k s u"
proof (rule steadyI)
  show "length (c_channels s) \<le> length (c_channels u)" using steadyD(1) [OF a] steadyD(1) [OF b] by simp
  show "x < length (c_channels s) \<and> ch_type (chan s x) = OPEN \<and> ch_remote_id (chan u x) = ch_remote_id (chan s x) \<and>
      ch_sock (chan u x) = ch_sock (chan s x)" if "x < length (c_channels u)" "ch_type (chan u x) = OPEN" for x
    using steadyD(2) [OF b that] steadyD(2) [OF a, of x] by simp
  show "chan u x = chan s x" if x: "x < length (c_channels s)" "x \<noteq> k" "ch_type (chan s x) = OPEN" for x
  proof -
    have "chan t x = chan s x" by (rule steadyD(3) [OF a x])
    moreover have "chan u x = chan t x" by (rule steadyD(3) [OF b]) (use x steadyD(1) [OF a] calculation in simp_all)
    ultimately show ?thesis by simp
  qed
qed

lemma steady_closes: "closes k s t \<Longrightarrow> steady k s t"
  unfolding closes_def by (rule steadyI) (simp, metis channel_type.distinct(7), simp)

lemma steady_simps [simp]:
  "steady k s (send ty fs t) = steady k s t" "steady k s (event ev t) = steady k s t"
  by (simp_all add: steady_def)

lemma steady_on_chan:
  assumes a: "steady k s t" and k: "k < length (c_channels t)" and f: "ch_type (f (chan t k)) = ch_type (chan t k)"
    "ch_remote_id (f (chan t k)) = ch_remote_id (chan t k)" "ch_sock (f (chan t k)) = ch_sock (chan t k)"
  shows "steady k s (on_chan f k t)"
proof (rule steadyI)
  show "length (c_channels s) \<le> length (c_channels (on_chan f k t))" using steadyD(1) [OF a] by simp
  show "x < length (c_channels s) \<and> ch_type (chan s x) = OPEN \<and> ch_remote_id (chan (on_chan f k t) x) = ch_remote_id (chan s x) \<and>
      ch_sock (chan (on_chan f k t) x) = ch_sock (chan s x)"
    if "x < length (c_channels (on_chan f k t))" "ch_type (chan (on_chan f k t) x) = OPEN" for x
    using that steadyD(2) [OF a, of x] f k by (cases "x = k") (simp_all add: chan_on_chan)
  show "chan (on_chan f k t) x = chan s x" if "x < length (c_channels s)" "x \<noteq> k" "ch_type (chan s x) = OPEN" for x
    using steadyD(3) [OF a that] that k by (simp add: chan_on_chan)
qed

lemma steady_allocate:
  assumes wf: "channels_wf s" and a: "channel_allocate s OPENING fd buf = Inr (n, t)"
  shows "steady k s t \<and> n < length (c_channels t) \<and> ch_type (chan t n) = OPENING \<and> c_sent t = c_sent s \<and> c_io t = c_io s"
proof -
  note f = channel_allocate_facts [OF wf a, simplified]
  have "x = n \<or> x < length (c_channels s) \<or> ch_type (chan t x) = FREE" if "x < length (c_channels t)" for x
    using f(11) [of x] that by fastforce
  then have "steady k s t" using f(3,4,10,12) by (intro steadyI) (force, metis channel_type.distinct(31) channel_type.distinct(7), metis channel_type.distinct(7))
  with f show ?thesis by simp
qed

text \<open>Nothing written to a socket, and neither data nor end of file sent.\<close>

definition no_data :: "channel_state \<Rightarrow> channel_state \<Rightarrow> bool" where
  "no_data s t \<longleftrightarrow> (\<exists>ms. c_sent t = c_sent s @ ms \<and> (\<forall>m\<in>set ms. fst m \<noteq> SSH_MSG_CHANNEL_DATA \<and> fst m \<noteq> SSH_MSG_CHANNEL_INPUT_EOF))"

definition silent :: "channel_state \<Rightarrow> channel_state \<Rightarrow> bool" where
  "silent s t \<longleftrightarrow> (\<forall>fd. written fd (c_io t) = written fd (c_io s)) \<and> no_data s t"

lemma no_data_refl [simp]: "no_data s s"
  by (simp add: no_data_def)

lemma silent_refl [simp]: "silent s s"
  by (simp add: silent_def)

lemma no_data_trans: "no_data s t \<Longrightarrow> no_data t u \<Longrightarrow> no_data s u"
  unfolding no_data_def by force

lemma silent_trans: "silent s t \<Longrightarrow> silent t u \<Longrightarrow> silent s u"
  unfolding silent_def using no_data_trans by auto

lemma silent_simps [simp]:
  "silent s (on_chan f k t) = silent s t"
  "silent s (event (Shutdown fd h) t) = silent s t" "silent s (event (Close fd) t) = silent s t"
  "ty \<noteq> SSH_MSG_CHANNEL_DATA \<Longrightarrow> ty \<noteq> SSH_MSG_CHANNEL_INPUT_EOF \<Longrightarrow> silent s t \<Longrightarrow> silent s (send ty fs t)"
  by (auto simp: silent_def no_data_def)

lemma silent_same: "c_sent t = c_sent s \<Longrightarrow> c_io t = c_io s \<Longrightarrow> silent s t"
  by (simp add: silent_def no_data_def)

lemma refuse_quiet [simp]: "silent s (refuse_connection s fd msg)" "steady k s (refuse_connection s fd msg)"
  by (simp_all add: refuse_connection_def split: option.splits)

lemma accept_quiet:
  assumes wf: "channels_wf s"
  shows "accept_x11 e s i = Inr t \<Longrightarrow> steady k s t \<and> silent s t" and "accept_port e s i = Inr t \<Longrightarrow> steady k s t \<and> silent s t"
    and "accept_agent e s i = Inr t \<Longrightarrow> steady k s t \<and> silent s t"
proof -
  have x: "steady k s (on_chan (\<lambda>c. c\<lparr>ch_is_x_connection := True\<rparr>) n u)" if a: "channel_allocate s OPENING fd buf = Inr (n, u)" for n u fd buf
  proof (rule steadyI)
    note st = steady_allocate [OF wf a, of k]
    show "length (c_channels s) \<le> length (c_channels (on_chan (\<lambda>c. c\<lparr>ch_is_x_connection := True\<rparr>) n u))" using st by (simp add: steady_def)
    show "x < length (c_channels s) \<and> ch_type (chan s x) = OPEN \<and> ch_remote_id (chan (on_chan (\<lambda>c. c\<lparr>ch_is_x_connection := True\<rparr>) n u) x) = ch_remote_id (chan s x) \<and>
      ch_sock (chan (on_chan (\<lambda>c. c\<lparr>ch_is_x_connection := True\<rparr>) n u) x) = ch_sock (chan s x)"
      if "x < length (c_channels (on_chan (\<lambda>c. c\<lparr>ch_is_x_connection := True\<rparr>) n u))"
        "ch_type (chan (on_chan (\<lambda>c. c\<lparr>ch_is_x_connection := True\<rparr>) n u) x) = OPEN" for x
      using that st steadyD(2) [of k s u x] by (cases "x = n") (simp_all add: chan_on_chan)
    show "chan (on_chan (\<lambda>c. c\<lparr>ch_is_x_connection := True\<rparr>) n u) x = chan s x" if "x < length (c_channels s)" "x \<noteq> k" "ch_type (chan s x) = OPEN" for x
      using that st steadyD(3) [of k s u x] by (cases "x = n") (auto simp: chan_on_chan)
  qed
  note q = steady_allocate [OF wf, of _ _ _ _ k]
  show "accept_x11 e s i = Inr t \<Longrightarrow> steady k s t \<and> silent s t"
    using x q by (auto simp: accept_x11_def rbind_eq_Inr silent_same split: accept_result.splits)
  show "accept_port e s i = Inr t \<Longrightarrow> steady k s t \<and> silent s t"
    using q by (auto simp: accept_port_def rbind_eq_Inr silent_same split: accept_result.splits if_splits)
  show "accept_agent e s i = Inr t \<Longrightarrow> steady k s t \<and> silent s t"
    using q by (auto simp: accept_agent_def rbind_eq_Inr silent_same split: accept_result.splits)
qed

lemma close_input_open_eq:
  "\<not> c_old s \<Longrightarrow> i < length (c_channels s) \<Longrightarrow> ch_type (chan s i) = OPEN \<Longrightarrow> channel_close_input s i =
     Inr (if flag STATUS_INPUT_SOCKET_CLOSED (chan s i) then s
          else event (Shutdown (ch_sock (chan s i)) 0) (on_chan (set_flag STATUS_INPUT_SOCKET_CLOSED) i s))"
  by (simp add: close_input_new Let_def)

lemma channel_free_eq:
  "channel_free s i = Inr t \<Longrightarrow> t = on_chan (\<lambda>c. c\<lparr>ch_type := FREE, ch_input := [], ch_output := [], ch_remote_name := None\<rparr>) i
            (event (Close (ch_sock (chan s i))) (s\<lparr>c_used := c_used s - 1\<rparr>)) \<and> i < length (c_channels s)"
  by (auto simp: channel_free_def rbind_eq_Inr ensure_def split: if_splits)

lemma channel_free_quiet: "channel_free s i = Inr t \<Longrightarrow> silent s t \<and> ch_type (chan t i) = FREE"
  using channel_free_eq [of s i t] by (auto simp: silent_def no_data_def)

lemma check_termination_quiet:
  "\<not> c_old s \<Longrightarrow> ch_local_id (chan s i) = i \<Longrightarrow> channel_check_termination s i = Inr t \<Longrightarrow>
   silent s t \<and> (t = s \<or> ch_type (chan t i) = FREE)"
  using channel_free_quiet by (auto simp: check_termination_new split: if_splits)

lemma close_output_open:
  assumes new: "\<not> c_old s" and i: "i < length (c_channels s)" "ch_local_id (chan s i) = i" and r: "channel_close_output s i = Inr t"
  shows "silent s t \<and> (ch_type (chan t i) = FREE \<or> flag STATUS_OUTPUT_SOCKET_CLOSED (chan t i) \<and> ch_input (chan t i) = ch_input (chan s i) \<and>
     (flag STATUS_EOF_SENT (chan t i) \<longleftrightarrow> flag STATUS_EOF_SENT (chan s i)))"
proof (cases "flag STATUS_OUTPUT_SOCKET_CLOSED (chan s i)")
  case True
  with r new show ?thesis by (simp add: close_output_new)
next
  case False
  let ?u = "on_chan (\<lambda>c. c\<lparr>ch_output := []\<rparr>) i (event (Shutdown (ch_sock (chan s i)) 1) (on_chan (set_flag STATUS_OUTPUT_SOCKET_CLOSED) i s))"
  let ?v = "send SSH_MSG_CHANNEL_OUTPUT_CLOSED [F_int (ch_remote_id (chan (on_chan (set_flag STATUS_CLOSE_SENT) i ?u) i))] (on_chan (set_flag STATUS_CLOSE_SENT) i ?u)"
  have u: "silent s ?u" by simp
  have "t = ?u \<or> channel_check_termination ?v i = Inr t"
    using r new False by (simp add: close_output_new channel_send_oclosed_def Let_def split: if_splits)
  moreover have "silent s ?v" by simp
  moreover have "channel_check_termination ?v i = Inr t \<Longrightarrow> silent ?v t \<and> (t = ?v \<or> ch_type (chan t i) = FREE)"
    by (rule check_termination_quiet) (use new i in simp_all)
  ultimately show ?thesis using u i silent_trans [of s ?v t] by (auto simp: flag_set)
qed

section \<open>Serving a channel after select\<close>

lemma channel_read_effect:
  assumes wf: "channels_wf s" and k: "ch_type (chan s k) = OPEN" and sel: "selects_channel e s k" and r: "channel_read e s k = Inr (b, u)"
  shows "steady k s u \<and> silent s u \<and> channels_wf u \<and> length (c_channels u) = length (c_channels s) \<and> ch_type (chan u k) = OPEN \<and>
     ch_input (chan u k) = ch_input (chan s k) @ bytes_read e s k \<and> ch_output (chan u k) = ch_output (chan s k) \<and> ch_sock (chan u k) = ch_sock (chan s k) \<and>
     (flag STATUS_EOF_SENT (chan u k) \<longleftrightarrow> flag STATUS_EOF_SENT (chan s k)) \<and>
     (flag STATUS_EOF_RECEIVED (chan u k) \<longleftrightarrow> flag STATUS_EOF_RECEIVED (chan s k))"
proof -
  have i: "k < length (c_channels s)" and new: "\<not> c_old s" using sel wf by (simp_all add: selects_channel_def inv_except_def)
  have w: "channels_wf u" using inv_channel_read [OF wf i k r] sel k by (auto simp: selects_channel_def)
  let ?eof = "event (Shutdown (ch_sock (chan s k)) 0) (on_chan (set_flag STATUS_INPUT_SOCKET_CLOSED) k s)"
  have "u = s \<and> bytes_read e s k = [] \<or> u = ?eof \<and> bytes_read e s k = [] \<or>
     u = on_chan (\<lambda>c. c\<lparr>ch_input := ch_input c @ bytes_read e s k\<rparr>) k s"
    using r k close_input_open_eq [OF new i k]
    by (auto simp: channel_read_def bytes_read_def Let_def split: if_splits read_result.splits)
  moreover have "steady k s ?eof" "steady k s (on_chan (\<lambda>c. c\<lparr>ch_input := ch_input c @ bs\<rparr>) k s)" for bs
    using i by (auto intro: steady_on_chan)
  ultimately show ?thesis using w k i by (auto simp: flag_set)
qed

lemma channel_write_effect:
  assumes wf: "channels_wf s" and k: "ch_type (chan s k) = OPEN" "k < length (c_channels s)" and r: "channel_write e s k = Inr t"
  shows "steady k s t \<and> no_data s t \<and> (\<forall>fd. fd \<noteq> ch_sock (chan s k) \<longrightarrow> written fd (c_io t) = written fd (c_io s)) \<and>
     (ch_type (chan t k) = OPEN \<longrightarrow> ch_input (chan t k) = ch_input (chan s k) \<and> (flag STATUS_EOF_SENT (chan t k) \<longleftrightarrow> flag STATUS_EOF_SENT (chan s k))) \<and>
     (carries k t \<longrightarrow> written (ch_sock (chan s k)) (c_io t) @ ch_output (chan t k) = written (ch_sock (chan s k)) (c_io s) @ ch_output (chan s k) \<and>
        (flag STATUS_EOF_RECEIVED (chan t k) \<longleftrightarrow> flag STATUS_EOF_RECEIVED (chan s k)))"
proof (cases "channel_close_output s k = Inr t")
  case True
  have id: "ch_local_id (chan s k) = k" and new: "\<not> c_old s" using wf k by (auto simp: inv_except_def chan_inv_def)
  have "steady k s t" by (rule steady_closes [OF close_frame [OF wf k(2)]]) (use k True in auto)
  with close_output_open [OF new k(2) id True] show ?thesis by (auto simp: silent_def carries_def)
next
  case False
  then have "t = s \<or> (\<exists>n. t = on_chan (\<lambda>c. c\<lparr>ch_output := drop n (ch_output c)\<rparr>) k (event (Wrote (ch_sock (chan s k)) (take n (ch_output (chan s k)))) s))"
    using r by (auto simp: channel_write_def Let_def split: if_splits write_result.splits)
  moreover have "steady k s (on_chan (\<lambda>c. c\<lparr>ch_output := drop n (ch_output c)\<rparr>) k (event ev s))" for n ev
    using k by (intro steady_on_chan) simp_all
  moreover have "no_data s (on_chan (\<lambda>c. c\<lparr>ch_output := drop n (ch_output c)\<rparr>) k (event ev s))" for n ev
    by (simp add: no_data_def)
  ultimately show ?thesis using k by auto
qed

lemma after_channel_effect:
  assumes wf: "channels_wf s" and sel: "selects_channel e s k" and r: "after_channel e s k = Inr t"
  shows "channels_wf t \<and> steady k s t \<and> no_data s t \<and>
     (\<forall>fd. ch_type (chan s k) \<noteq> OPEN \<or> fd \<noteq> ch_sock (chan s k) \<longrightarrow> written fd (c_io t) = written fd (c_io s)) \<and>
     (ch_type (chan s k) = OPEN \<longrightarrow> ch_type (chan t k) = OPEN \<longrightarrow> ch_input (chan t k) = ch_input (chan s k) @ bytes_read e s k \<and>
        (flag STATUS_EOF_SENT (chan t k) \<longleftrightarrow> flag STATUS_EOF_SENT (chan s k))) \<and>
     (ch_type (chan s k) = OPEN \<longrightarrow> carries k t \<longrightarrow>
        written (ch_sock (chan s k)) (c_io t) @ ch_output (chan t k) = written (ch_sock (chan s k)) (c_io s) @ ch_output (chan s k) \<and>
        (flag STATUS_EOF_RECEIVED (chan t k) \<longleftrightarrow> flag STATUS_EOF_RECEIVED (chan s k)))"
proof (cases "ch_type (chan s k) = OPEN")
  case False
  have "channels_wf t" using inv_after_channel [OF wf _ r] sel by (simp add: selects_channel_def)
  moreover have "steady k s t \<and> silent s t"
    using False r accept_quiet [OF wf, of e k t] by (cases "ch_type (chan s k)") (auto simp: after_channel_def split: if_splits)
  ultimately show ?thesis using False by (simp add: silent_def)
next
  case is_open: True
  have w: "channels_wf t" using inv_after_channel [OF wf _ r] sel by (simp add: selects_channel_def)
  obtain b u where u: "channel_read e s k = Inr (b, u)" "(if b then channel_write e u k else Inr u) = Inr t"
    using r is_open by (auto simp: after_channel_def rbind_eq_Inr)
  note rd = channel_read_effect [OF wf is_open sel u(1)]
  have k: "k < length (c_channels u)" using rd sel by (simp add: selects_channel_def)
  show ?thesis
  proof (cases b)
    case False
    with u rd w is_open show ?thesis by (simp add: silent_def)
  next
    case True
    have wr: "channels_wf u" "ch_type (chan u k) = OPEN" using rd by blast+
    have "channel_write e u k = Inr t" using u(2) True by simp
    from channel_write_effect [OF wr k this] rd w is_open steady_trans [of k s u t] no_data_trans [of s u t] show ?thesis
      by (simp add: silent_def)
  qed
qed

section \<open>Sending and receiving\<close>

lemma output_channel_effect:
  assumes wf: "channels_wf s" and k: "k < length (c_channels s)" and r: "output_channel s k = Inr t"
  shows "channels_wf t \<and> steady k s t \<and>
    (t = s \<or>
     ch_type (chan s k) = OPEN \<and>
     ((\<exists>n. c_sent t = c_sent s @ [(SSH_MSG_CHANNEL_DATA, [F_int (ch_remote_id (chan s k)), F_string (take n (ch_input (chan s k)))])] \<and>
        ch_input (chan s k) \<noteq> [] \<and> ch_input (chan t k) = drop n (ch_input (chan s k)) \<and> (flag STATUS_EOF_SENT (chan t k) \<longleftrightarrow> flag STATUS_EOF_SENT (chan s k))) \<or>
      c_sent t = c_sent s @ [(SSH_MSG_CHANNEL_INPUT_EOF, [F_int (ch_remote_id (chan s k))])] \<and> ch_input (chan s k) = [] \<and>
        \<not> flag STATUS_EOF_SENT (chan s k) \<and> (ch_type (chan t k) = FREE \<or> ch_input (chan t k) = [] \<and> flag STATUS_EOF_SENT (chan t k))))"
proof -
  have w: "channels_wf t" using inv_output_channel [OF wf k r] by simp
  show ?thesis
  proof (cases "ch_type (chan s k) = OPEN")
    case False
    with r w show ?thesis by (simp add: output_channel_def Let_def)
  next
    case is_open: True
    show ?thesis
    proof (cases "ch_input (chan s k) = []")
      case False
      then obtain n where t: "t = on_chan (\<lambda>c. c\<lparr>ch_input := drop n (ch_input c)\<rparr>) k
          (send SSH_MSG_CHANNEL_DATA [F_int (ch_remote_id (chan s k)), F_string (take n (ch_input (chan s k)))] s)"
        using r is_open by (auto simp: output_channel_def Let_def)
      have "steady k s t" unfolding t by (rule steady_on_chan) (use k in simp_all)
      with w t k is_open False show ?thesis by auto
    next
      case empty: True
      show ?thesis
      proof (cases "flag STATUS_INPUT_SOCKET_CLOSED (chan s k) \<and> \<not> flag STATUS_EOF_SENT (chan s k)")
        case False
        then have "t = s" using r is_open empty unfolding output_channel_def Let_def eof_due_iff by (simp split: if_splits)
        with wf show ?thesis by simp
      next
        case True
        then have e: "channel_send_ieof s k = Inr t" using r is_open empty unfolding output_channel_def Let_def eof_due_iff by simp
        have c: "chan_inv k (chan s k)" "\<not> c_old s" using wf k by (auto simp: inv_except_def)
        then have id: "ch_local_id (chan s k) = k" using is_open by (simp add: chan_inv_def)
        have "closes k s t" using inv_send_ieof [OF inv_weaken [OF wf] k id _ _ e] True empty by simp
        then have st: "steady k s t" by (rule steady_closes)
        let ?u = "send SSH_MSG_CHANNEL_INPUT_EOF [F_int (ch_remote_id (chan s k))] (on_chan (set_flag STATUS_EOF_SENT) k s)"
        have "channel_check_termination ?u k = Inr t" using e True c(2) k by (simp add: channel_send_ieof_def Let_def)
        then have "t = ?u \<or> channel_free ?u k = Inr t" using c(2) k id by (simp add: check_termination_new split: if_splits)
        then have "c_sent t = c_sent ?u \<and> (t = ?u \<or> ch_type (chan t k) = FREE)"
          using channel_free_quiet channel_free_eq [of ?u k t] by (auto simp: event_def on_chan_def)
        with st w is_open empty True k show ?thesis by (auto simp: flag_set)
      qed
    qed
  qed
qed

lemma take_channel_field:
  assumes "take_channel ok msg s (PUT_32BIT v @ q) = Inr (c, q')"
  shows "q' = q \<and> c < length (c_channels s) \<and> ok (chan s c) \<and> v = of_nat c \<and> c < 2 ^ 31"
proof -
  have "0 \<le> sint v \<Longrightarrow> nat (sint v) < 2 ^ 31" using sint_lt [of v] by (simp add: nat_less_iff)
  moreover have "0 \<le> sint v \<Longrightarrow> v = of_nat (nat (sint v))" by simp
  ultimately show ?thesis using assms by (auto simp: take_channel_def Let_def nat_less_iff split: if_splits)
qed

lemma channel_number_eq: "c < 2 ^ 31 \<Longrightarrow> j < 2 ^ 31 \<Longrightarrow> (of_nat c :: u32) = of_nat j \<longleftrightarrow> c = j"
  by (simp add: word_of_nat_eq_iff take_bit_nat_eq_self)

lemma receive_effect:
  assumes wf: "channels_wf s" and c: "c < length (c_channels s)" "ch_type (chan s c) \<noteq> FREE"
  shows "channel_receive_ieof s c = Inr t \<Longrightarrow> channels_wf t \<and> steady c s t \<and> (\<forall>fd. written fd (c_io t) = written fd (c_io s)) \<and>
      (ch_type (chan s c) = OPEN \<longrightarrow> ch_type (chan t c) = OPEN \<longrightarrow> \<not> flag STATUS_EOF_RECEIVED (chan s c) \<and>
         flag STATUS_EOF_RECEIVED (chan t c) \<and> ch_output (chan t c) = ch_output (chan s c))"
    and "channel_receive_oclosed s c = Inr t \<Longrightarrow> channels_wf t \<and> steady c s t \<and> (\<forall>fd. written fd (c_io t) = written fd (c_io s)) \<and>
      (ch_type (chan s c) = OPEN \<longrightarrow> ch_type (chan t c) = OPEN \<longrightarrow>
         (flag STATUS_EOF_RECEIVED (chan t c) \<longleftrightarrow> flag STATUS_EOF_RECEIVED (chan s c)) \<and> ch_output (chan t c) = ch_output (chan s c))"
proof -
  have new: "\<not> c_old s" and id: "ch_local_id (chan s c) = c" using wf c by (auto simp: inv_except_def chan_inv_def)
  have st: "steady c s u" "\<forall>fd. written fd (c_io u) = written fd (c_io s)"
    if "closes c (on_chan f c s) u" "\<And>x. ch_type (f x) = ch_type x \<and> ch_remote_id (f x) = ch_remote_id x \<and> ch_sock (f x) = ch_sock x" for f u
  proof -
    have "steady c s (on_chan f c s)" using c that(2) by (intro steady_on_chan) simp_all
    from steady_trans [OF this steady_closes [OF that(1)]] show "steady c s u" .
    show "\<forall>fd. written fd (c_io u) = written fd (c_io s)" using that(1) by (simp add: closes_def)
  qed
  have last: "u = v \<or> ch_type (chan v c) = FREE" if "channel_check_termination u c = Inr v" "\<not> c_old u" "ch_local_id (chan u c) = c" for u v
    using check_termination_quiet [OF that(2,3,1)] by auto
  show "channels_wf t \<and> steady c s t \<and> (\<forall>fd. written fd (c_io t) = written fd (c_io s)) \<and>
      (ch_type (chan s c) = OPEN \<longrightarrow> ch_type (chan t c) = OPEN \<longrightarrow> \<not> flag STATUS_EOF_RECEIVED (chan s c) \<and>
         flag STATUS_EOF_RECEIVED (chan t c) \<and> ch_output (chan t c) = ch_output (chan s c))" if r: "channel_receive_ieof s c = Inr t"
  proof -
    note f = receive_ieof_closes [OF wf c r]
    have n: "\<not> flag STATUS_EOF_RECEIVED (chan s c)" using r by (auto simp: channel_receive_ieof_def split: if_splits)
    have "flag STATUS_EOF_RECEIVED (chan t c) \<and> ch_output (chan t c) = ch_output (chan s c)"
      if o: "ch_type (chan s c) = OPEN" "ch_type (chan t c) = OPEN"
    proof -
      let ?s = "on_chan (set_flag STATUS_EOF_RECEIVED) c s"
      let ?e = "event (Shutdown (ch_sock (chan ?s c)) 0) (on_chan (set_flag STATUS_INPUT_SOCKET_CLOSED) c ?s)"
      obtain u where u: "u = ?s \<or> u = ?e" "channel_check_termination u c = Inr t"
        using r n o(1) c new close_input_open_eq [of ?s c] by (auto simp: channel_receive_ieof_def Let_def split: if_splits)
      with last [of u t] o new id c show ?thesis by (auto simp: flag_set)
    qed
    with f n st [OF conjunct2 [OF f]] show ?thesis by auto
  qed
  show "channels_wf t \<and> steady c s t \<and> (\<forall>fd. written fd (c_io t) = written fd (c_io s)) \<and>
      (ch_type (chan s c) = OPEN \<longrightarrow> ch_type (chan t c) = OPEN \<longrightarrow>
         (flag STATUS_EOF_RECEIVED (chan t c) \<longleftrightarrow> flag STATUS_EOF_RECEIVED (chan s c)) \<and> ch_output (chan t c) = ch_output (chan s c))"
    if r: "channel_receive_oclosed s c = Inr t"
  proof -
    note f = receive_oclosed_closes [OF wf c r]
    have "(flag STATUS_EOF_RECEIVED (chan t c) \<longleftrightarrow> flag STATUS_EOF_RECEIVED (chan s c)) \<and> ch_output (chan t c) = ch_output (chan s c)"
      if o: "ch_type (chan s c) = OPEN" "ch_type (chan t c) = OPEN"
    proof -
      let ?s = "on_chan (\<lambda>c. (set_flag STATUS_CLOSE_RECEIVED c)\<lparr>ch_input := []\<rparr>) c s"
      let ?e = "event (Shutdown (ch_sock (chan ?s c)) 0) (on_chan (set_flag STATUS_INPUT_SOCKET_CLOSED) c ?s)"
      obtain u where u: "u = ?s \<or> u = ?e" "channel_check_termination u c = Inr t"
        using r o(1) c new close_input_open_eq [of ?s c] by (auto simp: channel_receive_oclosed_def Let_def rbind_eq_Inr split: if_splits)
      with last [of u t] o new id c show ?thesis by (auto simp: flag_set)
    qed
    with f st [OF conjunct2 [OF f]] show ?thesis by auto
  qed
qed

lemma prepare_effect:
  assumes wf: "channels_wf s" and k: "k < length (c_channels s)" "ch_type (chan s k) \<noteq> X11_OPEN" and r: "prepare_channel s k = Inr (rd, wr, t)"
  shows "channels_wf t \<and> steady k s t \<and> (\<forall>fd. written fd (c_io t) = written fd (c_io s)) \<and>
     (t = s \<or> ch_type (chan s k) = OPEN \<and> ch_output (chan s k) = [] \<and> flag STATUS_EOF_RECEIVED (chan s k) \<and> \<not> carries k t)"
proof -
  have w: "channels_wf t" using inv_prepare_channel [OF wf k(1) r] .
  have "t = s \<or> ch_type (chan s k) = OPEN \<and> ch_output (chan s k) = [] \<and> flag STATUS_EOF_RECEIVED (chan s k) \<and> channel_close_output s k = Inr t"
    using r k(2) by (auto simp: prepare_channel_def prepare_open_def Let_def rbind_eq_Inr split: channel_type.split_asm if_splits)
  moreover have "steady k s t \<and> silent s t \<and> \<not> carries k t" if "channel_close_output s k = Inr t" "ch_type (chan s k) = OPEN"
  proof -
    have id: "ch_local_id (chan s k) = k" and new: "\<not> c_old s" using wf k(1) that(2) by (auto simp: inv_except_def chan_inv_def)
    have "steady k s t" by (rule steady_closes [OF close_frame [OF wf k(1)]]) (use that in auto)
    with close_output_open [OF new k(1) id that(1)] show ?thesis by (auto simp: carries_def)
  qed
  ultimately show ?thesis using w by (auto simp: silent_def)
qed

lemma input_data_effect:
  assumes wf: "channels_wf s" and d: "length d \<le> 8192" and r: "channel_input_data s (message_body [F_int v, F_string d]) = Inr (q, t)"
  shows "\<exists>c. v = of_nat c \<and> c < 2 ^ 31 \<and> channels_wf t \<and> steady c s t \<and> c_io t = c_io s \<and>
     (carries c s \<longrightarrow> \<not> flag STATUS_EOF_RECEIVED (chan s c) \<and> \<not> flag STATUS_EOF_RECEIVED (chan t c) \<and> ch_output (chan t c) = ch_output (chan s c) @ d)"
proof -
  have b: "message_body [F_int v, F_string d] = PUT_32BIT v @ PUT_32BIT (of_nat (length d)) @ d" by (simp add: message_body_def)
  have w: "channels_wf t" using inv_input_data [OF wf r] .
  obtain c q1 where t: "take_channel (\<lambda>c. ch_type c \<noteq> FREE) ''Received data for nonexistent channel'' s (PUT_32BIT v @ PUT_32BIT (of_nat (length d)) @ d) = Inr (c, q1)"
    using r unfolding b by (auto simp: channel_input_data_def rbind_eq_Inr)
  from take_channel_field [OF t] have c: "q1 = PUT_32BIT (of_nat (length d)) @ d" "c < length (c_channels s)" "v = of_nat c" "c < 2 ^ 31" by simp_all
  have g: "bytes_get_string q1 = Inr (d, [])" using bytes_get_string_field [of d "[]"] d c(1) by simp
  let ?t = "on_chan (\<lambda>c. c\<lparr>ch_output := ch_output c @ d\<rparr>) c s"
  have "(t = s \<and> \<not> carries c s) \<or> t = ?t \<and> \<not> flag STATUS_EOF_RECEIVED (chan s c)"
    using r g t c(2) unfolding b by (auto simp: channel_input_data_def carries_def split: if_splits)
  moreover have "steady c s ?t" using c(2) by (intro steady_on_chan) simp_all
  ultimately show ?thesis using w c by (intro exI [of _ c]) (auto simp: carries_def)
qed

lemma input_close_effect:
  assumes wf: "channels_wf s"
  shows "channel_input_close s (message_body [F_int v]) = Inr (q, t) \<Longrightarrow>
     \<exists>c. v = of_nat c \<and> c < 2 ^ 31 \<and> channels_wf t \<and> steady c s t \<and> (\<forall>fd. written fd (c_io t) = written fd (c_io s)) \<and>
       (ch_type (chan s c) = OPEN \<longrightarrow> ch_type (chan t c) = OPEN \<longrightarrow> \<not> flag STATUS_EOF_RECEIVED (chan s c) \<and>
         flag STATUS_EOF_RECEIVED (chan t c) \<and> ch_output (chan t c) = ch_output (chan s c))"
    and "channel_input_close_confirmation s (message_body [F_int v]) = Inr (q, t) \<Longrightarrow>
     \<exists>c. v = of_nat c \<and> c < 2 ^ 31 \<and> channels_wf t \<and> steady c s t \<and> (\<forall>fd. written fd (c_io t) = written fd (c_io s)) \<and>
       (ch_type (chan s c) = OPEN \<longrightarrow> ch_type (chan t c) = OPEN \<longrightarrow>
         (flag STATUS_EOF_RECEIVED (chan t c) \<longleftrightarrow> flag STATUS_EOF_RECEIVED (chan s c)) \<and> ch_output (chan t c) = ch_output (chan s c))"
proof -
  have b: "message_body [F_int v] = PUT_32BIT v @ []" by (simp add: message_body_def)
  have new: "\<not> c_old s" using wf by (simp add: inv_except_def)
  show "\<exists>c. v = of_nat c \<and> c < 2 ^ 31 \<and> channels_wf t \<and> steady c s t \<and> (\<forall>fd. written fd (c_io t) = written fd (c_io s)) \<and>
       (ch_type (chan s c) = OPEN \<longrightarrow> ch_type (chan t c) = OPEN \<longrightarrow> \<not> flag STATUS_EOF_RECEIVED (chan s c) \<and>
         flag STATUS_EOF_RECEIVED (chan t c) \<and> ch_output (chan t c) = ch_output (chan s c))"
    if r: "channel_input_close s (message_body [F_int v]) = Inr (q, t)"
  proof -
    obtain c q1 where t: "take_channel (\<lambda>c. ch_type c \<noteq> FREE) ''Received ieof for nonexistent channel'' s (PUT_32BIT v @ []) = Inr (c, q1)"
      and x: "channel_receive_ieof s c = Inr t"
      using r new unfolding b by (auto simp: channel_input_close_def channel_ieof_def rbind_eq_Inr)
    from take_channel_field [OF t] receive_effect(1) [OF wf _ _ x] show ?thesis by (intro exI [of _ c]) simp
  qed
  show "\<exists>c. v = of_nat c \<and> c < 2 ^ 31 \<and> channels_wf t \<and> steady c s t \<and> (\<forall>fd. written fd (c_io t) = written fd (c_io s)) \<and>
       (ch_type (chan s c) = OPEN \<longrightarrow> ch_type (chan t c) = OPEN \<longrightarrow>
         (flag STATUS_EOF_RECEIVED (chan t c) \<longleftrightarrow> flag STATUS_EOF_RECEIVED (chan s c)) \<and> ch_output (chan t c) = ch_output (chan s c))"
    if r: "channel_input_close_confirmation s (message_body [F_int v]) = Inr (q, t)"
  proof -
    obtain c q1 where t: "take_channel (\<lambda>c. ch_type c \<noteq> FREE) ''Received oclosed for nonexistent channel'' s (PUT_32BIT v @ []) = Inr (c, q1)"
      and x: "channel_receive_oclosed s c = Inr t"
      using r new unfolding b by (auto simp: channel_input_close_confirmation_def channel_oclosed_def rbind_eq_Inr)
    from take_channel_field [OF t] receive_effect(2) [OF wf _ _ x] show ?thesis by (intro exI [of _ c]) simp
  qed
qed

section \<open>The steps keep the invariant\<close>

lemma far_keeps:
  assumes inv: "pipe_inv i j p" and w: "channels_wf s" and st: "steady k (p_far p) s" and c: "carries j s" and ty: "list_all well_typed ms"
    and data: "written (ch_sock (chan (p_far p) j)) (c_io s) @ ch_output (chan s j) @ in_transit j ms =
      written (ch_sock (chan (p_far p) j)) (c_io (p_far p)) @ ch_output (chan (p_far p) j) @ in_transit j (p_under_way p)"
    and ord: "ordered j (flag STATUS_EOF_RECEIVED (chan s j)) ms"
    and eof: "flag STATUS_EOF_RECEIVED (chan s j) \<or> eof_to j \<in> set ms \<Longrightarrow> flag STATUS_EOF_RECEIVED (chan (p_far p) j) \<or> eof_to j \<in> set (p_under_way p)"
  shows "pipe_inv i j (p\<lparr>p_far := s, p_under_way := ms\<rparr>)"
proof -
  have sock: "ch_sock (chan s j) = ch_sock (chan (p_far p) j)" using steadyD(2) [OF st] c by (simp add: carries_def)
  have "\<forall>k<length (c_channels s). k \<noteq> j \<longrightarrow> ch_type (chan s k) = OPEN \<longrightarrow> ch_sock (chan s k) \<noteq> ch_sock (chan s j)"
    using steadyD(2) [OF st] inv sock by (auto simp: pipe_inv_def)
  moreover have "p_taken p = written (ch_sock (chan s j)) (c_io s) @ ch_output (chan s j) @ in_transit j ms @ ch_input (chan (p_near p) i)"
    using inv arg_cong [OF data, of "\<lambda>x. x @ ch_input (chan (p_near p) i)"] by (simp add: pipe_inv_def sock)
  moreover have "flag STATUS_EOF_RECEIVED (chan s j) \<or> eof_to j \<in> set ms \<longrightarrow> flag STATUS_EOF_SENT (chan (p_near p) i)"
    using inv eof by (auto simp: pipe_inv_def)
  ultimately show ?thesis using inv w c ty ord by (simp add: pipe_inv_def)
qed

lemma near_keeps:
  assumes inv: "pipe_inv i j p" and w: "channels_wf s" and st: "steady k (p_near p) s" and c: "ch_type (chan s i) = OPEN"
    and ty: "list_all well_typed ms"
    and data: "in_transit j ms @ ch_input (chan s i) = ch_input (chan (p_near p) i) @ bs"
    and ord: "ordered j (flag STATUS_EOF_RECEIVED (chan (p_far p) j)) (p_under_way p @ ms)"
    and eof: "flag STATUS_EOF_SENT (chan (p_near p) i) \<or> eof_to j \<in> set ms \<Longrightarrow> flag STATUS_EOF_SENT (chan s i)"
  shows "pipe_inv i j (p\<lparr>p_near := s, p_under_way := p_under_way p @ ms, p_taken := p_taken p @ bs\<rparr>)"
proof -
  have i: "i < length (c_channels s)" using steadyD(1) [OF st] inv by (simp add: pipe_inv_def)
  have "\<forall>k<length (c_channels s). k \<noteq> i \<longrightarrow> ch_type (chan s k) = OPEN \<longrightarrow> ch_remote_id (chan s k) \<noteq> of_nat j"
    using steadyD(2) [OF st] inv by (auto simp: pipe_inv_def)
  moreover have "ch_remote_id (chan s i) = of_nat j" using steadyD(2) [OF st i c] inv by (simp add: pipe_inv_def)
  ultimately show ?thesis using inv w i c ty data ord eof by (simp add: pipe_inv_def)
qed

lemma new_messages_append: "c_sent t = c_sent s @ ms \<Longrightarrow> new_messages s t = ms"
  by (simp add: new_messages_def)

lemma no_data_messages:
  assumes "no_data s t" and "sends s t"
  shows "list_all well_typed (new_messages s t) \<and> in_transit j (new_messages s t) = [] \<and>
     (\<forall>m\<in>set (new_messages s t). data_to j m = [] \<and> m \<noteq> eof_to j)"
proof -
  obtain ms where ms: "c_sent t = c_sent s @ ms" "\<forall>m\<in>set ms. fst m \<noteq> SSH_MSG_CHANNEL_DATA \<and> fst m \<noteq> SSH_MSG_CHANNEL_INPUT_EOF"
    using assms(1) by (auto simp: no_data_def)
  have "data_to j m = [] \<and> m \<noteq> eof_to j" if "m \<in> set ms" for m
    using ms(2) that by (cases m) (auto simp: eof_to_def split: list.split field.split)
  with ms(1) assms(2) show ?thesis by (auto simp: new_messages_append sends_def in_transit_def)
qed

lemma pipe_near_socket:
  assumes inv: "pipe_inv i j p" and sel: "selects_channel e (p_near p) k" and r: "after_channel e (p_near p) k = Inr s" and c: "ch_type (chan s i) = OPEN"
  shows "pipe_inv i j (p\<lparr>p_near := s, p_under_way := p_under_way p @ new_messages (p_near p) s,
       p_taken := p_taken p @ (if k = i then bytes_read e (p_near p) i else [])\<rparr>)"
proof -
  have wf: "channels_wf (p_near p)" and i: "i < length (c_channels (p_near p))" "ch_type (chan (p_near p) i) = OPEN"
    and ord: "ordered j (flag STATUS_EOF_RECEIVED (chan (p_far p) j)) (p_under_way p)" using inv by (simp_all add: pipe_inv_def)
  note a = after_channel_effect [OF wf sel r]
  have s: "sends (p_near p) s" using after_sends [OF r] .
  note m = no_data_messages [OF _ s, of j]
  have ch: "ch_input (chan s i) = ch_input (chan (p_near p) i) @ (if k = i then bytes_read e (p_near p) i else []) \<and>
     (flag STATUS_EOF_SENT (chan s i) \<longleftrightarrow> flag STATUS_EOF_SENT (chan (p_near p) i))"
    using a c i steadyD(3) [of k "p_near p" s i] by (cases "k = i") auto
  show ?thesis
    by (rule near_keeps [OF inv _ _ c]) (use a m ch ordered_append [OF ord] in auto)
qed

lemma pipe_near_output:
  assumes inv: "pipe_inv i j p" and k: "k < length (c_channels (p_near p))" and r: "output_channel (p_near p) k = Inr s" and c: "ch_type (chan s i) = OPEN"
  shows "pipe_inv i j (p\<lparr>p_near := s, p_under_way := p_under_way p @ new_messages (p_near p) s\<rparr>)"
proof -
  let ?s = "p_near p"
  have wf: "channels_wf ?s" and i: "i < length (c_channels ?s)" "ch_type (chan ?s i) = OPEN" "ch_remote_id (chan ?s i) = of_nat j"
    and ord: "ordered j (flag STATUS_EOF_RECEIVED (chan (p_far p) j)) (p_under_way p)"
    and eof: "flag STATUS_EOF_RECEIVED (chan (p_far p) j) \<or> eof_to j \<in> set (p_under_way p) \<Longrightarrow> flag STATUS_EOF_SENT (chan ?s i)"
    and other: "k \<noteq> i \<Longrightarrow> ch_type (chan ?s k) = OPEN \<Longrightarrow> ch_remote_id (chan ?s k) \<noteq> of_nat j"
    using inv k by (auto simp: pipe_inv_def)
  note a = output_channel_effect [OF wf k r]
  have ty: "list_all well_typed (new_messages ?s s)" using output_sends [OF r] by (auto simp: sends_def new_messages_def)
  have keep: "pipe_inv i j (p\<lparr>p_near := s, p_under_way := p_under_way p @ new_messages ?s s, p_taken := p_taken p @ []\<rparr>)"
  proof (cases "s = ?s")
    case True
    then have "new_messages ?s s = []" by (simp add: new_messages_def)
    with True inv show ?thesis by simp
  next
    case ne: False
    show ?thesis
    proof (cases "k = i")
      case False
      have "ch_type (chan ?s k) = OPEN" using a ne by blast
      then have q: "\<forall>m\<in>set (new_messages ?s s). data_to j m = [] \<and> m \<noteq> eof_to j"
        using a ne other [OF False] by (auto simp: new_messages_append eof_to_def)
      have "chan s i = chan ?s i" using a steadyD(3) [of k ?s s i] i False by auto
      moreover have "in_transit j (new_messages ?s s) = []" using q by (auto simp: in_transit_def)
      ultimately show ?thesis by (intro near_keeps [OF inv _ _ c ty]) (use a q ordered_append [OF ord q] in auto)
    next
      case True
      have "\<not> flag STATUS_EOF_SENT (chan ?s i)"
        using a ne True wf i by (auto simp: inv_except_def chan_inv_def)
      then have open_end: "\<not> flag STATUS_EOF_RECEIVED (chan (p_far p) j)" "eof_to j \<notin> set (p_under_way p)" using eof by blast+
      note snoc = ordered_snoc [OF ord open_end]
      have "(\<exists>n. new_messages ?s s = [(SSH_MSG_CHANNEL_DATA, [F_int (of_nat j), F_string (take n (ch_input (chan ?s i)))])] \<and>
          ch_input (chan s i) = drop n (ch_input (chan ?s i)) \<and> (flag STATUS_EOF_SENT (chan s i) \<longleftrightarrow> flag STATUS_EOF_SENT (chan ?s i))) \<or>
        new_messages ?s s = [eof_to j] \<and> ch_input (chan ?s i) = [] \<and> ch_input (chan s i) = [] \<and> flag STATUS_EOF_SENT (chan s i)"
        using a ne True i(3) c by (auto simp: new_messages_append eof_to_def)
      then show ?thesis
      proof (elim disjE exE conjE)
        fix n assume m: "new_messages ?s s = [(SSH_MSG_CHANNEL_DATA, [F_int (of_nat j), F_string (take n (ch_input (chan ?s i)))])]"
          "ch_input (chan s i) = drop n (ch_input (chan ?s i))" "flag STATUS_EOF_SENT (chan s i) \<longleftrightarrow> flag STATUS_EOF_SENT (chan ?s i)"
        show ?thesis
          by (rule near_keeps [OF inv _ conjunct1 [OF conjunct2 [OF a]] c ty]) (use a m snoc in \<open>simp_all add: eof_to_def\<close>)
      next
        assume m: "new_messages ?s s = [eof_to j]" "ch_input (chan ?s i) = []" "ch_input (chan s i) = []" "flag STATUS_EOF_SENT (chan s i)"
        have d: "data_to j (eof_to j) = []" by (simp add: eof_to_def)
        show ?thesis
          by (rule near_keeps [OF inv _ conjunct1 [OF conjunct2 [OF a]] c ty]) (use a m snoc d in simp_all)
      qed
    qed
  qed
  then show ?thesis by simp
qed

lemma typed_message:
  "well_typed (SSH_MSG_CHANNEL_DATA, fs) \<Longrightarrow> \<exists>v d. fs = [F_int v, F_string d] \<and> length d \<le> 8192"
  "well_typed (SSH_MSG_CHANNEL_INPUT_EOF, fs) \<Longrightarrow> \<exists>v. fs = [F_int v]"
  "well_typed (SSH_MSG_CHANNEL_OUTPUT_CLOSED, fs) \<Longrightarrow> \<exists>v. fs = [F_int v]"
proof -
  have k: "map kind_of fs = [K_int] \<Longrightarrow> \<exists>v. fs = [F_int v]" "map kind_of fs = [K_int, K_string] \<Longrightarrow> \<exists>v d. fs = [F_int v, F_string d]"
    by (cases fs; cases "hd fs"; cases "tl fs"; cases "hd (tl fs)"; auto)+
  show "well_typed (SSH_MSG_CHANNEL_INPUT_EOF, fs) \<Longrightarrow> \<exists>v. fs = [F_int v]"
    "well_typed (SSH_MSG_CHANNEL_OUTPUT_CLOSED, fs) \<Longrightarrow> \<exists>v. fs = [F_int v]"
    using k(1) by (auto simp: well_typed_def message_kinds_def)
  show "well_typed (SSH_MSG_CHANNEL_DATA, fs) \<Longrightarrow> \<exists>v d. fs = [F_int v, F_string d] \<and> length d \<le> 8192"
  proof -
    assume w: "well_typed (SSH_MSG_CHANNEL_DATA, fs)"
    then have "map kind_of fs = [K_int, K_string]" by (auto simp: well_typed_def message_kinds_def)
    from k(2) [OF this] w show ?thesis by auto
  qed
qed

lemma pipe_far_data:
  assumes inv: "pipe_inv i j p" and m: "p_under_way p = (SSH_MSG_CHANNEL_DATA, fs) # ms"
    and r: "channel_input_data (p_far p) (message_body fs) = Inr (q, s)" and c: "carries j s"
  shows "pipe_inv i j (p\<lparr>p_far := s, p_under_way := ms\<rparr>)"
proof -
  let ?s = "p_far p"
  have wf: "channels_wf ?s" and j: "carries j ?s" "j < 2 ^ 31" and ord: "ordered j (flag STATUS_EOF_RECEIVED (chan ?s j)) ((SSH_MSG_CHANNEL_DATA, fs) # ms)"
    and ty: "list_all well_typed ms" "well_typed (SSH_MSG_CHANNEL_DATA, fs)" using inv m by (simp_all add: pipe_inv_def del: ordered.simps)
  obtain v d where fs: "fs = [F_int v, F_string d]" "length d \<le> 8192" using typed_message(1) [OF ty(2)] by blast
  from input_data_effect [OF wf fs(2), of v q s] r fs(1) obtain k where k: "v = of_nat k" "k < 2 ^ 31" "channels_wf s" "steady k ?s s" "c_io s = c_io ?s"
    "carries k ?s \<Longrightarrow> \<not> flag STATUS_EOF_RECEIVED (chan ?s k) \<and> \<not> flag STATUS_EOF_RECEIVED (chan s k) \<and> ch_output (chan s k) = ch_output (chan ?s k) @ d"
    by blast
  have ch: "ch_output (chan s j) = ch_output (chan ?s j) @ (if k = j then d else []) \<and>
      (flag STATUS_EOF_RECEIVED (chan s j) \<longleftrightarrow> flag STATUS_EOF_RECEIVED (chan ?s j))"
    using k(6) j steadyD(3) [OF k(4), of j] by (cases "k = j") (auto simp: carries_def)
  have v: "v = of_nat j \<longleftrightarrow> k = j" using channel_number_eq [OF k(2) j(2)] k(1) by simp
  have e: "(SSH_MSG_CHANNEL_DATA, fs) \<noteq> eof_to j" by (simp add: eof_to_def)
  show ?thesis
    by (rule far_keeps [OF inv k(3,4) c ty(1)]) (use k(5) ch v fs(1) m e ord in auto)
qed

lemma pipe_far_eof:
  assumes inv: "pipe_inv i j p" and m: "p_under_way p = (SSH_MSG_CHANNEL_INPUT_EOF, fs) # ms"
    and r: "channel_input_close (p_far p) (message_body fs) = Inr (q, s)" and c: "carries j s"
  shows "pipe_inv i j (p\<lparr>p_far := s, p_under_way := ms\<rparr>)"
proof -
  let ?s = "p_far p"
  have wf: "channels_wf ?s" and j: "carries j ?s" "j < 2 ^ 31" and ord: "ordered j (flag STATUS_EOF_RECEIVED (chan ?s j)) ((SSH_MSG_CHANNEL_INPUT_EOF, fs) # ms)"
    and ty: "list_all well_typed ms" "well_typed (SSH_MSG_CHANNEL_INPUT_EOF, fs)" using inv m by (simp_all add: pipe_inv_def del: ordered.simps)
  obtain v where fs: "fs = [F_int v]" using typed_message(2) [OF ty(2)] by blast
  from input_close_effect(1) [OF wf, of v q s] r fs obtain k where k: "v = of_nat k" "k < 2 ^ 31" "channels_wf s" "steady k ?s s"
    "\<forall>fd. written fd (c_io s) = written fd (c_io ?s)"
    "ch_type (chan ?s k) = OPEN \<Longrightarrow> ch_type (chan s k) = OPEN \<Longrightarrow> \<not> flag STATUS_EOF_RECEIVED (chan ?s k) \<and>
         flag STATUS_EOF_RECEIVED (chan s k) \<and> ch_output (chan s k) = ch_output (chan ?s k)"
    by blast
  have v: "v = of_nat j \<longleftrightarrow> k = j" using channel_number_eq [OF k(2) j(2)] k(1) by simp
  have e: "(SSH_MSG_CHANNEL_INPUT_EOF, fs) = eof_to j \<longleftrightarrow> k = j" using v fs by (auto simp: eof_to_def)
  have d: "data_to j (SSH_MSG_CHANNEL_INPUT_EOF, fs) = []" using fs by simp
  have ch: "ch_output (chan s j) = ch_output (chan ?s j)" "flag STATUS_EOF_RECEIVED (chan s j) \<longleftrightarrow> k = j \<or> flag STATUS_EOF_RECEIVED (chan ?s j)"
    using k(6) j c steadyD(3) [OF k(4), of j] by (cases "k = j"; auto simp: carries_def)+
  have ord': "ordered j (flag STATUS_EOF_RECEIVED (chan s j)) ms" using ord ch(2) e by (cases "k = j") simp_all
  show ?thesis
    by (rule far_keeps [OF inv k(3,4) c ty(1) _ ord']) (use k(5) ch e d m in \<open>auto simp del: data_to.simps\<close>)
qed

lemma pipe_far_closed:
  assumes inv: "pipe_inv i j p" and m: "p_under_way p = (SSH_MSG_CHANNEL_OUTPUT_CLOSED, fs) # ms"
    and r: "channel_input_close_confirmation (p_far p) (message_body fs) = Inr (q, s)" and c: "carries j s"
  shows "pipe_inv i j (p\<lparr>p_far := s, p_under_way := ms\<rparr>)"
proof -
  let ?s = "p_far p"
  have wf: "channels_wf ?s" and j: "carries j ?s" "j < 2 ^ 31" and ord: "ordered j (flag STATUS_EOF_RECEIVED (chan ?s j)) ((SSH_MSG_CHANNEL_OUTPUT_CLOSED, fs) # ms)"
    and ty: "list_all well_typed ms" "well_typed (SSH_MSG_CHANNEL_OUTPUT_CLOSED, fs)" using inv m by (simp_all add: pipe_inv_def del: ordered.simps)
  obtain v where fs: "fs = [F_int v]" using typed_message(3) [OF ty(2)] by blast
  from input_close_effect(2) [OF wf, of v q s] r fs obtain k where k: "channels_wf s" "steady k ?s s"
    "\<forall>fd. written fd (c_io s) = written fd (c_io ?s)"
    "ch_type (chan ?s k) = OPEN \<Longrightarrow> ch_type (chan s k) = OPEN \<Longrightarrow>
         (flag STATUS_EOF_RECEIVED (chan s k) \<longleftrightarrow> flag STATUS_EOF_RECEIVED (chan ?s k)) \<and> ch_output (chan s k) = ch_output (chan ?s k)"
    by blast
  have e: "(SSH_MSG_CHANNEL_OUTPUT_CLOSED, fs) \<noteq> eof_to j" by (simp add: eof_to_def)
  have d: "data_to j (SSH_MSG_CHANNEL_OUTPUT_CLOSED, fs) = []" using fs by simp
  have ch: "ch_output (chan s j) = ch_output (chan ?s j)" "flag STATUS_EOF_RECEIVED (chan s j) \<longleftrightarrow> flag STATUS_EOF_RECEIVED (chan ?s j)"
    using k(4) j c steadyD(3) [OF k(2), of j] by (cases "k = j"; auto simp: carries_def)+
  have ord': "ordered j (flag STATUS_EOF_RECEIVED (chan s j)) ms" using ord ch(2) e d by (simp del: data_to.simps)
  show ?thesis
    by (rule far_keeps [OF inv k(1,2) c ty(1) _ ord']) (use k(3) ch e d m in \<open>auto simp del: data_to.simps\<close>)
qed

lemma pipe_far_other:
  assumes inv: "pipe_inv i j p" and m: "p_under_way p = (type, fs) # ms"
    and type: "type \<notin> {SSH_MSG_CHANNEL_DATA, SSH_MSG_CHANNEL_INPUT_EOF, SSH_MSG_CHANNEL_OUTPUT_CLOSED}"
  shows "pipe_inv i j (p\<lparr>p_under_way := ms\<rparr>)"
proof -
  let ?s = "p_far p"
  have d: "data_to j (type, fs) = []" "(type, fs) \<noteq> eof_to j" using type by (auto simp: eof_to_def split: list.split field.split)
  have wf: "channels_wf ?s" "carries j ?s" "list_all well_typed ms" and ord: "ordered j (flag STATUS_EOF_RECEIVED (chan ?s j)) ((type, fs) # ms)"
    using inv m by (simp_all add: pipe_inv_def del: ordered.simps data_to.simps)
  have "pipe_inv i j (p\<lparr>p_far := ?s, p_under_way := ms\<rparr>)"
    by (rule far_keeps [OF inv wf(1) steady_refl wf(2,3)]) (use ord d m in \<open>auto simp del: data_to.simps split: if_splits\<close>)
  then show ?thesis by simp
qed

lemma pipe_far_served:
  assumes inv: "pipe_inv i j p" and k: "k < length (c_channels (p_far p))" and w: "channels_wf s" and st: "steady k (p_far p) s" and c: "carries j s"
    and io: "\<forall>fd. ch_type (chan (p_far p) k) \<noteq> OPEN \<or> fd \<noteq> ch_sock (chan (p_far p) k) \<longrightarrow> written fd (c_io s) = written fd (c_io (p_far p))"
    and own: "k = j \<Longrightarrow> written (ch_sock (chan (p_far p) j)) (c_io s) @ ch_output (chan s j) = written (ch_sock (chan (p_far p) j)) (c_io (p_far p)) @ ch_output (chan (p_far p) j) \<and>
        (flag STATUS_EOF_RECEIVED (chan s j) \<longleftrightarrow> flag STATUS_EOF_RECEIVED (chan (p_far p) j))"
  shows "pipe_inv i j (p\<lparr>p_far := s\<rparr>)"
proof -
  let ?s = "p_far p"
  have j: "carries j ?s" "list_all well_typed (p_under_way p)" "ordered j (flag STATUS_EOF_RECEIVED (chan ?s j)) (p_under_way p)"
    and other: "k \<noteq> j \<Longrightarrow> ch_type (chan ?s k) = OPEN \<Longrightarrow> ch_sock (chan ?s k) \<noteq> ch_sock (chan ?s j)"
    using inv k by (simp_all add: pipe_inv_def)
  have e: "written (ch_sock (chan ?s j)) (c_io s) @ ch_output (chan s j) = written (ch_sock (chan ?s j)) (c_io ?s) @ ch_output (chan ?s j) \<and>
      (flag STATUS_EOF_RECEIVED (chan s j) \<longleftrightarrow> flag STATUS_EOF_RECEIVED (chan ?s j))"
  proof (cases "k = j")
    case False
    have "chan s j = chan ?s j" using steadyD(3) [OF st] j(1) False by (simp add: carries_def)
    moreover have "written (ch_sock (chan ?s j)) (c_io s) = written (ch_sock (chan ?s j)) (c_io ?s)" using io other [OF False] by metis
    ultimately show ?thesis by simp
  qed (use own in simp)
  have "pipe_inv i j (p\<lparr>p_far := s, p_under_way := p_under_way p\<rparr>)"
    by (rule far_keeps [OF inv w st c j(2)]) (use e j(3) in \<open>simp_all flip: append_assoc\<close>)
  then show ?thesis by simp
qed

lemma pipe_step_inv: "pipe_step i j p p' \<Longrightarrow> pipe_inv i j p \<Longrightarrow> pipe_inv i j p'"
proof (induction rule: pipe_step.induct)
  case (far_socket e p k s)
  have wf: "channels_wf (p_far p)" and j: "carries j (p_far p)" using far_socket.prems by (simp_all add: pipe_inv_def)
  note a = after_channel_effect [OF wf far_socket.hyps(1,2)]
  show ?case
    by (rule pipe_far_served [OF far_socket.prems _ _ _ far_socket.hyps(3)]) (use a far_socket.hyps(1,3) j in \<open>auto simp: selects_channel_def carries_def\<close>)
next
  case (far_prepare k p rd wr s)
  have wf: "channels_wf (p_far p)" using far_prepare.prems by (simp add: pipe_inv_def)
  note a = prepare_effect [OF wf far_prepare.hyps(1-3)]
  show ?case
    by (rule pipe_far_served [OF far_prepare.prems far_prepare.hyps(1) _ _ far_prepare.hyps(4)]) (use a far_prepare.hyps(4) in auto)
qed (blast intro: pipe_near_socket pipe_near_output pipe_far_data pipe_far_eof pipe_far_closed pipe_far_other)+

lemma pipe_run_inv:
  assumes "(pipe_step i j)\<^sup>*\<^sup>* p p'" and "pipe_start i j p"
  shows "pipe_inv i j p'"
  using assms by (induction rule: rtranclp_induct) (auto intro: pipe_start_inv pipe_step_inv)


section \<open>An example\<close>

text \<open>Three bytes are read, sent in one message, received, and two of them written.\<close>

definition pipe_demo :: pipe where
  "pipe_demo =
     \<lparr>p_near = demo_one ((demo_channel OPEN)\<lparr>ch_output := [], ch_path := [], ch_remote_id := 0\<rparr>),
      p_far = demo_one ((demo_channel OPEN)\<lparr>ch_output := [], ch_path := []\<rparr>), p_under_way = [], p_taken = []\<rparr>"

definition pipe_env :: select_env where
  "pipe_env = demo_env\<lparr>os_read := (\<lambda>_. Data [1, 2, 3]), os_write := (\<lambda>_. Written 2)\<rparr>"

definition pipe_env_write :: select_env where
  "pipe_env_write = demo_env\<lparr>os_write := (\<lambda>_. Written 2)\<rparr>"

lemma pipe_demo_start: "pipe_start 0 0 pipe_demo"
proof -
  have w: "channels_wf (demo_one ((demo_channel OPEN)\<lparr>ch_output := [], ch_path := []\<rparr>))" by (rule demo_one_wf) simp_all
  have "channels_wf (demo_one ((demo_channel OPEN)\<lparr>ch_output := [], ch_path := [], ch_remote_id := 0\<rparr>))"
    using w by (auto simp: demo_one_def inv_except_def in_use_def channel_statics_def chan_inv_def stable_def terminated_def flag_def demo_channel_def new_channel_def)
  with w show ?thesis
    by (simp add: pipe_start_def pipe_demo_def demo_one_def demo_channel_def new_channel_def channel_statics_def)
qed

lemma pipe_demo_run:
  "\<exists>p. (pipe_step 0 0)\<^sup>*\<^sup>* pipe_demo p \<and> p_taken p = [1, 2, 3] \<and> written 5 (c_io (p_far p)) = [1, 2] \<and> ch_sock (chan (p_far p) 0) = 5"
proof -
  define a where "a = p_near pipe_demo"
  define b where "b = p_far pipe_demo"
  define a1 where "a1 = on_chan (\<lambda>c. c\<lparr>ch_input := ch_input c @ [1, 2, 3]\<rparr>) 0 a"
  define a2 where "a2 = on_chan (\<lambda>c. c\<lparr>ch_input := drop 3 (ch_input c)\<rparr>) 0 (send SSH_MSG_CHANNEL_DATA [F_int 0, F_string [1, 2, 3]] a1)"
  define b1 where "b1 = on_chan (\<lambda>c. c\<lparr>ch_output := ch_output c @ [1, 2, 3]\<rparr>) 0 b"
  define b2 where "b2 = on_chan (\<lambda>c. c\<lparr>ch_output := drop 2 (ch_output c)\<rparr>) 0 (event (Wrote 5 [1, 2]) b1)"
  note d = a_def b_def pipe_demo_def demo_one_def demo_channel_def new_channel_def channel_statics_def
  have a: "c_channels a = [chan a 0]" "ch_type (chan a 0) = OPEN" "ch_status_flags (chan a 0) = 0" "ch_sock (chan a 0) = 5" "ch_remote_id (chan a 0) = 0"
    "ch_input (chan a 0) = []" "ch_output (chan a 0) = []" "c_max_packet a = 256000" "c_sent a = []" "\<not> c_interactive a" by (simp_all add: d)
  have b: "c_channels b = [chan b 0]" "ch_type (chan b 0) = OPEN" "ch_status_flags (chan b 0) = 0" "ch_sock (chan b 0) = 5"
    "ch_input (chan b 0) = []" "ch_output (chan b 0) = []" "c_io b = []" by (simp_all add: d)
  have l: "0 < length (c_channels a)" "0 < length (c_channels b)" using a(1) b(1) by (metis length_greater_0_conv list.distinct(1))+
  have s1: "after_channel pipe_env a 0 = Inr a1" "selects_channel pipe_env a 0" "bytes_read pipe_env a 0 = [1, 2, 3]" "new_messages a a1 = []"
    using a l by (simp_all add: after_channel_def channel_read_def channel_write_def pipe_env_def demo_env_def a1_def Let_def
        selects_channel_def flag_def bytes_read_def new_messages_def)
  have s2: "output_channel a1 0 = Inr a2" "new_messages a1 a2 = [(SSH_MSG_CHANNEL_DATA, [F_int 0, F_string [1, 2, 3]])]"
    using a l by (simp_all add: output_channel_def a1_def a2_def Let_def new_messages_def numeral_3_eq_3)
  have s3: "channel_input_data b (message_body [F_int 0, F_string [1, 2, 3]]) = Inr ([], b1)"
  proof -
    have t: "take_channel (\<lambda>c. ch_type c \<noteq> FREE) ''Received data for nonexistent channel'' b (message_body [F_int 0, F_string [1, 2, 3]]) =
        Inr (0, PUT_32BIT (of_nat (length [1 :: byte, 2, 3])) @ [1, 2, 3] @ [])"
      using take_channel_number [of 0 b "\<lambda>c. ch_type c \<noteq> FREE"] l b by (simp add: message_body_def)
    have g: "bytes_get_string (PUT_32BIT (of_nat (length [1 :: byte, 2, 3])) @ [1, 2, 3] @ []) = Inr ([1, 2, 3], [])"
      by (rule bytes_get_string_field) simp
    show ?thesis unfolding channel_input_data_def t rbind_simps prod.case g using b by (simp add: flag_def b1_def)
  qed
  have s4: "after_channel pipe_env_write b1 0 = Inr b2" "selects_channel pipe_env_write b1 0"
    using b l by (simp_all add: after_channel_def channel_read_def channel_write_def pipe_env_write_def demo_env_def b1_def b2_def Let_def
        selects_channel_def flag_def)
  have o: "ch_type (chan a1 0) = OPEN" "ch_type (chan a2 0) = OPEN" "carries 0 b1" "carries 0 b2"
    using a b l by (simp_all add: a1_def a2_def b1_def b2_def carries_def flag_def)
  let ?p1 = "pipe_demo\<lparr>p_near := a1, p_under_way := [], p_taken := [1, 2, 3]\<rparr>"
  let ?p2 = "?p1\<lparr>p_near := a2, p_under_way := [(SSH_MSG_CHANNEL_DATA, [F_int 0, F_string [1, 2, 3]])]\<rparr>"
  let ?p3 = "?p2\<lparr>p_far := b1, p_under_way := []\<rparr>" and ?p4 = "?p2\<lparr>p_far := b1, p_under_way := []\<rparr>\<lparr>p_far := b2\<rparr>"
  have e: "p_near pipe_demo = a" "p_far pipe_demo = b" "p_under_way pipe_demo = []" "p_taken pipe_demo = []"
    by (simp_all add: a_def b_def) (simp_all add: pipe_demo_def)
  have "pipe_step 0 0 pipe_demo ?p1" using pipe_step.near_socket [of pipe_env pipe_demo 0 a1 0 0] s1 o e by simp
  moreover have "pipe_step 0 0 ?p1 ?p2" using pipe_step.near_output [of 0 ?p1 a2 0 0] s2 o e l by (simp add: a1_def)
  moreover have "pipe_step 0 0 ?p2 ?p3" using pipe_step.far_data [of ?p2 "[F_int 0, F_string [1, 2, 3]]" "[]" "[]" b1 0 0] s3 o e by simp
  moreover have "pipe_step 0 0 ?p3 ?p4" using pipe_step.far_socket [of pipe_env_write ?p3 0 b2 0 0] s4 o e by simp
  ultimately have "(pipe_step 0 0)\<^sup>*\<^sup>* pipe_demo ?p4" by (meson rtranclp.rtrancl_refl rtranclp.rtrancl_into_rtrancl)
  moreover have "p_taken ?p4 = [1, 2, 3] \<and> written 5 (c_io (p_far ?p4)) = [1, 2] \<and> ch_sock (chan (p_far ?p4) 0) = 5"
    using b l by (simp add: b2_def b1_def)
  ultimately show ?thesis by blast
qed


end
