(* ===== verification/Randoms.thy ===== *)
theory Randoms
  imports Md5
begin

text \<open>
  \<^verbatim>\<open>randoms.c\<close>: the random pool. What the operating system answers (times, resource usage, the
  contents of files and the output of commands) is collected in the record \<open>noise\<close>, one for each
  call of \<^verbatim>\<open>random_acquire_light_environmental_noise\<close>; a source that was not compiled in is \<open>None\<close>.
  A file or command that cannot be read is \<open>None\<close> or an empty list.
\<close>

unbundle bit_operations_syntax

section \<open>The state\<close>

abbreviation RANDOM_STATE_BYTES :: nat where "RANDOM_STATE_BYTES \<equiv> 1024"

record RandomState =
  rs_state :: "byte list"
  rs_stir_key :: "byte list"
  rs_next_available_byte :: nat
  rs_add_position :: nat
  rs_last_dev_random_usage :: int

definition random_xor_noise :: "RandomState \<Rightarrow> nat \<Rightarrow> u32 \<Rightarrow> RandomState" where
  "random_xor_noise st i v =
     (let v = v XOR GET_32BIT (drop (4 * i) (rs_state st))
      in st\<lparr>rs_state := splice (rs_state st) (4 * i) (PUT_32BIT v)\<rparr>)"

section \<open>Stirring\<close>

text \<open>One pass over the pool, in blocks of 16 bytes: each is replaced by its encryption in CFB mode.\<close>

fun cfb_block :: "byte list \<Rightarrow> md5_state \<Rightarrow> byte list \<Rightarrow> md5_state" where
  "cfb_block key iv blk =
     (case MD5Transform iv key of (a, b, c, d) \<Rightarrow>
        (a XOR GET_32BIT blk, b XOR GET_32BIT (drop 4 blk), c XOR GET_32BIT (drop 8 blk), d XOR GET_32BIT (drop 12 blk)))"

fun put_iv :: "md5_state \<Rightarrow> byte list" where
  "put_iv (a, b, c, d) = PUT_32BIT a @ PUT_32BIT b @ PUT_32BIT c @ PUT_32BIT d"

fun cfb_pass :: "byte list \<Rightarrow> md5_state \<Rightarrow> nat \<Rightarrow> byte list \<Rightarrow> md5_state \<times> byte list" where
  "cfb_pass key iv 0 pool = (iv, pool)"
| "cfb_pass key iv (Suc n) pool =
     (let iv = cfb_block key iv (take 16 pool); (iv', rest) = cfb_pass key iv n (drop 16 pool)
      in (iv', put_iv iv @ rest))"

definition random_stir :: "RandomState \<Rightarrow> RandomState" where
  "random_stir st =
     (let p = rs_state st;
          iv = (GET_32BIT p, GET_32BIT (drop 4 p), GET_32BIT (drop 8 p), GET_32BIT (drop 12 p));
          (iv, p) = cfb_pass (rs_stir_key st) iv (RANDOM_STATE_BYTES div 16) p;
          key = take 64 p;
          (iv, p) = cfb_pass key iv (RANDOM_STATE_BYTES div 16) p
      in st\<lparr>rs_state := p, rs_stir_key := key, rs_add_position := 0, rs_next_available_byte := 64\<rparr>)"

section \<open>Adding noise\<close>

fun add_noise_from :: "RandomState \<Rightarrow> nat \<Rightarrow> byte list \<Rightarrow> nat \<times> RandomState" where
  "add_noise_from st pos [] = (pos, st)"
| "add_noise_from st pos (b # bs) =
     (let (pos, st) = (if RANDOM_STATE_BYTES \<le> pos then (0, random_stir st) else (pos, st))
      in add_noise_from (st\<lparr>rs_state := (rs_state st)[pos := rs_state st ! pos XOR b]\<rparr>) (pos + 1) bs)"

definition random_add_noise :: "RandomState \<Rightarrow> byte list \<Rightarrow> RandomState" where
  "random_add_noise st buf =
     (let (pos, st) = add_noise_from st (rs_add_position st) buf in st\<lparr>rs_add_position := pos\<rparr>)"

text \<open>The lines of a command's output, \<open>None\<close> when it cannot be run.\<close>

definition random_get_noise_from_command :: "RandomState \<Rightarrow> byte list list option \<Rightarrow> RandomState" where
  "random_get_noise_from_command st out =
     (case out of None \<Rightarrow> st | Some lines \<Rightarrow> foldl random_add_noise st lines)"

section \<open>Noise from the environment\<close>

record rusage =
  ru_utime_usec :: u32
  ru_stime_usec :: u32
  ru_maxrss :: u32
  ru_ixrss :: u32
  ru_idrss :: u32
  ru_minflt :: u32
  ru_majflt :: u32
  ru_nswap :: u32
  ru_inblock :: u32
  ru_oublock :: u32
  ru_msgsnd :: u32
  ru_msgrcv :: u32
  ru_nsignals :: u32
  ru_nvcsw :: u32
  ru_nivcsw :: u32

record tms =
  tm_result :: u32
  tm_utime :: u32
  tm_stime :: u32
  tm_cutime :: u32
  tm_cstime :: u32

record noise =
  n_time_check :: int
  n_time_usage :: int
  n_time_noise :: int
  n_dev_random :: "byte list"
  n_timeval :: "(u32 \<times> u32) option"
  n_clock :: "u32 option"
  n_times :: "tms option"
  n_rusage :: "(rusage \<times> rusage) option"
  n_pid :: u32
  n_ppid :: u32
  n_uid :: u32
  n_gid :: u32
  n_child_max :: "u32 option"
  n_clk_tck :: "u32 option"

definition xor_list :: "(nat \<times> u32) list \<Rightarrow> RandomState \<Rightarrow> RandomState" where
  "xor_list vs st = foldl (\<lambda>st (i, v). random_xor_noise st i v) st vs"

fun rusage_noise :: "rusage \<times> rusage \<Rightarrow> (nat \<times> u32) list" where
  "rusage_noise (ru, cru) =
     [(0, ru_utime_usec ru + ru_utime_usec cru),
      (2, ru_stime_usec ru + ru_stime_usec cru),
      (5, ru_maxrss ru + ru_maxrss cru),
      (6, ru_ixrss ru + ru_ixrss cru),
      (7, ru_idrss ru + ru_idrss cru),
      (8, ru_minflt ru + ru_minflt cru),
      (9, ru_majflt ru + ru_majflt cru),
      (10, ru_nswap ru + ru_nswap cru),
      (11, ru_inblock ru + ru_inblock cru),
      (12, ru_oublock ru + ru_oublock cru),
      (13, (ru_msgsnd ru XOR ru_msgrcv ru XOR ru_nsignals ru) + (ru_msgsnd cru XOR ru_msgrcv cru XOR ru_nsignals cru)),
      (14, ru_nvcsw ru + ru_nvcsw cru),
      (15, ru_nivcsw ru + ru_nivcsw cru)]"

text \<open>The values that are mixed into the pool after the time, with the indices of their words.\<close>

definition system_noise :: "noise \<Rightarrow> (nat \<times> u32) list" where
  "system_noise e =
     (case n_timeval e of None \<Rightarrow> []
      | Some (usec, sec) \<Rightarrow> [(0, usec), (1, sec)] @ (case n_clock e of None \<Rightarrow> [] | Some c \<Rightarrow> [(3, c)])) @
     (case n_times e of None \<Rightarrow> []
      | Some tm \<Rightarrow> [(2, tm_result tm),
          (4, tm_utime tm XOR push_bit 8 (tm_stime tm) XOR push_bit 16 (tm_cutime tm) XOR push_bit 24 (tm_cstime tm))]) @
     (case n_rusage e of None \<Rightarrow> [] | Some r \<Rightarrow> rusage_noise r) @
     [(11, n_pid e), (12, n_ppid e), (10, n_uid e), (10, push_bit 16 (n_gid e))] @
     (case n_child_max e of None \<Rightarrow> [] | Some v \<Rightarrow> [(13, push_bit 16 v)]) @
     (case n_clk_tck e of None \<Rightarrow> [] | Some v \<Rightarrow> [(14, push_bit 16 v)])"

text \<open>The word that the time is mixed into.\<close>

definition time_index :: "byte list \<Rightarrow> nat" where
  "time_index p = (unat (p ! 0) + 256 * unat (p ! 1)) mod (RANDOM_STATE_BYTES div 4)"

definition random_acquire_light_environmental_noise :: "noise \<Rightarrow> RandomState \<Rightarrow> RandomState" where
  "random_acquire_light_environmental_noise e st =
     (let st = random_stir st;
          st = (if n_time_check e - rs_last_dev_random_usage st > 5 * 60
                then let st = st\<lparr>rs_last_dev_random_usage := n_time_usage e\<rparr>
                     in if n_dev_random e \<noteq> [] then random_add_noise st (n_dev_random e) else st
                else st);
          st = random_xor_noise st (time_index (rs_state st)) (of_int (n_time_noise e));
          st = xor_list (system_noise e) st
      in random_stir st)"

text \<open>The commands, each with the time since the start before it is run; the first is always run.\<close>

fun noise_commands :: "(int \<times> byte list list option) list \<Rightarrow> RandomState \<Rightarrow> RandomState" where
  "noise_commands [] st = st"
| "noise_commands ((elapsed, out) # cs) st =
     noise_commands cs (if elapsed < 30 then random_get_noise_from_command st out else st)"

definition random_acquire_environmental_noise ::
  "byte list list option \<Rightarrow> (int \<times> byte list list option) list \<Rightarrow> noise \<Rightarrow> RandomState \<Rightarrow> RandomState" where
  "random_acquire_environmental_noise ps others e st =
     random_acquire_light_environmental_noise e (noise_commands others (random_get_noise_from_command st ps))"

section \<open>The generator\<close>

definition random_get_byte :: "noise \<Rightarrow> RandomState \<Rightarrow> (byte \<times> RandomState) res" where
  "random_get_byte e st =
     (let st = (if RANDOM_STATE_BYTES \<le> rs_next_available_byte st then random_acquire_light_environmental_noise e st else st)
      in rbind (ensure (rs_next_available_byte st < RANDOM_STATE_BYTES)
                  (Assertion ''state->next_available_byte < RANDOM_STATE_BYTES'')) (\<lambda>_.
         Inr (rs_state st ! rs_next_available_byte st, st\<lparr>rs_next_available_byte := rs_next_available_byte st + 1\<rparr>)))"

fun random_get_bytes :: "noise list \<Rightarrow> RandomState \<Rightarrow> (byte list \<times> RandomState) res" where
  "random_get_bytes [] st = Inr ([], st)"
| "random_get_bytes (e # es) st =
     rbind (random_get_byte e st) (\<lambda>(b, st).
     rbind (random_get_bytes es st) (\<lambda>(bs, st). Inr (b # bs, st)))"

text \<open>\<^verbatim>\<open>random_save\<close>: what is written to the file, if it can be created, and the new state.\<close>

definition random_save :: "noise \<Rightarrow> (nat \<Rightarrow> noise) \<Rightarrow> noise \<Rightarrow> RandomState \<Rightarrow> (byte list \<times> RandomState) res" where
  "random_save e es e' st =
     (let st = random_acquire_light_environmental_noise e (st\<lparr>rs_last_dev_random_usage := 0\<rparr>)
      in rbind (random_get_bytes (map es [0..<RANDOM_STATE_BYTES div 2]) st) (\<lambda>(buf, st).
         Inr (buf, random_acquire_light_environmental_noise e' st)))"

text \<open>
  \<^verbatim>\<open>random_initialize\<close>: the seed file is open (its handle, and what is read from it) or cannot be
  opened, and then the commands are run and a new file is saved. The key is what the memory holds.
\<close>

datatype seed_file =
    Seed (seed_handle: byte) (seed_bytes: "byte list")
  | No_seed "byte list list option" "(int \<times> byte list list option) list" noise noise "nat \<Rightarrow> noise" noise

definition random_initialize :: "byte list \<Rightarrow> byte list \<Rightarrow> seed_file \<Rightarrow> noise \<Rightarrow> RandomState res" where
  "random_initialize key filename seed e =
     (let st = \<lparr>rs_state = replicate RANDOM_STATE_BYTES 0, rs_stir_key = key, rs_next_available_byte = 64,
                rs_add_position = 0, rs_last_dev_random_usage = 0\<rparr>;
          st = random_add_noise st filename
      in rbind (case seed of
                  Seed uf buf \<Rightarrow>
                    let st = st\<lparr>rs_state := (rs_state st)[0 := rs_state st ! 0 + uf]\<rparr>
                    in Inr (if buf \<noteq> [] then random_add_noise st (take 8192 buf) else st)
                | No_seed ps others e1 e2 es e3 \<Rightarrow>
                    rbind (random_save e2 es e3 (random_acquire_environmental_noise ps others e1 st)) (\<lambda>(_, st). Inr st))
               (\<lambda>st. Inr (random_acquire_light_environmental_noise e st)))"

definition random_clear :: RandomState where
  "random_clear = \<lparr>rs_state = replicate RANDOM_STATE_BYTES 0, rs_stir_key = replicate 64 0, rs_next_available_byte = 0,
     rs_add_position = 0, rs_last_dev_random_usage = 0\<rparr>"

section \<open>The invariant of the pool\<close>

definition pool_ok :: "RandomState \<Rightarrow> bool" where
  "pool_ok st \<longleftrightarrow> length (rs_state st) = RANDOM_STATE_BYTES \<and> length (rs_stir_key st) = 64 \<and>
     64 \<le> rs_next_available_byte st \<and> rs_next_available_byte st \<le> RANDOM_STATE_BYTES \<and>
     rs_add_position st \<le> RANDOM_STATE_BYTES"

text \<open>A stirred pool: nothing of it was returned yet.\<close>

definition pool_fresh :: "RandomState \<Rightarrow> bool" where
  "pool_fresh st \<longleftrightarrow> pool_ok st \<and> rs_next_available_byte st = 64 \<and> rs_add_position st = 0"

lemma pool_fresh_ok: "pool_fresh st \<Longrightarrow> pool_ok st"
  by (simp add: pool_fresh_def)

lemma put_iv_length [simp]: "length (put_iv iv) = 16"
  by (cases iv) simp

lemma cfb_pass_length: "length pool = 16 * n \<Longrightarrow> length (snd (cfb_pass key iv n pool)) = 16 * n"
  by (induction n arbitrary: iv pool) (auto simp: Let_def split: prod.splits dest!: arg_cong [of "cfb_pass _ _ _ _" _ snd])

lemma cfb_pool_length:
  "cfb_pass key iv (RANDOM_STATE_BYTES div 16) pool = (iv', p) \<Longrightarrow> length pool = RANDOM_STATE_BYTES \<Longrightarrow> length p = RANDOM_STATE_BYTES"
  using cfb_pass_length [of pool 64 key iv] by simp

lemma random_stir_fresh:
  assumes "length (rs_state st) = RANDOM_STATE_BYTES" shows "pool_fresh (random_stir st)"
proof -
  let ?p = "rs_state st"
  obtain iv1 p1 where 1: "cfb_pass (rs_stir_key st) (GET_32BIT ?p, GET_32BIT (drop 4 ?p), GET_32BIT (drop 8 ?p), GET_32BIT (drop 12 ?p))
      (RANDOM_STATE_BYTES div 16) ?p = (iv1, p1)" by (rule prod.exhaust)
  obtain iv2 p2 where 2: "cfb_pass (take 64 p1) iv1 (RANDOM_STATE_BYTES div 16) p1 = (iv2, p2)" by (rule prod.exhaust)
  have "length p1 = RANDOM_STATE_BYTES" using cfb_pool_length [OF 1 assms] .
  moreover from this have "length p2 = RANDOM_STATE_BYTES" by (rule cfb_pool_length [OF 2])
  ultimately show ?thesis using 1 2 by (simp add: random_stir_def pool_fresh_def pool_ok_def)
qed

lemma random_xor_noise_ok:
  assumes "pool_ok st" "i < 256" shows "pool_ok (random_xor_noise st i v)"
  using assms by (simp add: random_xor_noise_def pool_ok_def Let_def)

lemma xor_list_ok: "pool_ok st \<Longrightarrow> \<forall>(i, v) \<in> set vs. i < 256 \<Longrightarrow> pool_ok (xor_list vs st)"
  by (induction vs arbitrary: st) (auto simp: xor_list_def random_xor_noise_ok)

lemma system_noise_indices: "\<forall>(i, v) \<in> set (system_noise e). i < 16"
  by (auto simp: system_noise_def split: option.splits)

lemma time_index_first_byte: "time_index p = unat (p ! 0)"
  using unat_lt2p [of "p ! 0"] by (simp add: time_index_def)

lemma add_noise_from_ok:
  assumes "pool_ok st" "pos \<le> RANDOM_STATE_BYTES" "add_noise_from st pos bs = (pos', st')"
  shows "pool_ok st' \<and> pos' \<le> RANDOM_STATE_BYTES"
  using assms
proof (induction bs arbitrary: st pos)
  case (Cons b bs)
  let ?q = "if RANDOM_STATE_BYTES \<le> pos then 0 else pos" and ?s = "if RANDOM_STATE_BYTES \<le> pos then random_stir st else st"
  have ok: "pool_ok ?s" using Cons.prems(1) random_stir_fresh by (auto simp: pool_ok_def pool_fresh_def)
  then have "pool_ok (?s\<lparr>rs_state := (rs_state ?s)[?q := rs_state ?s ! ?q XOR b]\<rparr>)" by (simp add: pool_ok_def)
  moreover have "?q + 1 \<le> RANDOM_STATE_BYTES" by simp
  moreover have "add_noise_from (?s\<lparr>rs_state := (rs_state ?s)[?q := rs_state ?s ! ?q XOR b]\<rparr>) (?q + 1) bs = (pos', st')"
    using Cons.prems(3) by (simp split: if_splits)
  ultimately show ?case by (rule Cons.IH)
qed simp

lemma random_add_noise_ok:
  assumes "pool_ok st" shows "pool_ok (random_add_noise st bs)"
proof -
  obtain pos st' where a: "add_noise_from st (rs_add_position st) bs = (pos, st')" by (rule prod.exhaust)
  then have "pool_ok st' \<and> pos \<le> RANDOM_STATE_BYTES"
    by (rule add_noise_from_ok [OF assms, rotated]) (use assms in \<open>simp add: pool_ok_def\<close>)
  then show ?thesis using a by (simp add: random_add_noise_def pool_ok_def)
qed

lemma random_get_noise_from_command_ok: "pool_ok st \<Longrightarrow> pool_ok (random_get_noise_from_command st out)"
proof -
  have "pool_ok (foldl random_add_noise st ls)" if "pool_ok st" for ls
    using that by (induction ls arbitrary: st) (simp_all add: random_add_noise_ok)
  then show "pool_ok st \<Longrightarrow> ?thesis" by (simp add: random_get_noise_from_command_def split: option.split)
qed

lemma random_acquire_light_fresh:
  assumes "length (rs_state st) = RANDOM_STATE_BYTES" shows "pool_fresh (random_acquire_light_environmental_noise e st)"
proof -
  let ?s0 = "random_stir st"
  let ?s1 = "if n_time_check e - rs_last_dev_random_usage ?s0 > 5 * 60
      then let st = ?s0\<lparr>rs_last_dev_random_usage := n_time_usage e\<rparr>
           in if n_dev_random e \<noteq> [] then random_add_noise st (n_dev_random e) else st
      else ?s0"
  have s0: "pool_ok ?s0" using random_stir_fresh [OF assms] by (rule pool_fresh_ok)
  then have "pool_ok (?s0\<lparr>rs_last_dev_random_usage := n_time_usage e\<rparr>)" by (simp add: pool_ok_def)
  then have s1: "pool_ok ?s1" using s0 by (simp add: Let_def random_add_noise_ok)
  have "time_index (rs_state ?s1) < 256" by (simp add: time_index_def)
  then have "pool_ok (random_xor_noise ?s1 (time_index (rs_state ?s1)) (of_int (n_time_noise e)))" by (rule random_xor_noise_ok [OF s1])
  moreover have "\<forall>(i, v) \<in> set (system_noise e). i < 256" using system_noise_indices [of e] by fastforce
  ultimately have "pool_ok (xor_list (system_noise e) (random_xor_noise ?s1 (time_index (rs_state ?s1)) (of_int (n_time_noise e))))"
    by (rule xor_list_ok)
  then show ?thesis
    unfolding random_acquire_light_environmental_noise_def Let_def by (intro random_stir_fresh) (simp only: pool_ok_def)
qed

lemma random_acquire_environmental_fresh:
  assumes "pool_ok st" shows "pool_fresh (random_acquire_environmental_noise ps others e st)"
proof -
  have "pool_ok (noise_commands cs st)" if "pool_ok st" for cs st
    using that by (induction cs st rule: noise_commands.induct) (simp_all add: random_get_noise_from_command_ok)
  then have "pool_ok (noise_commands others (random_get_noise_from_command st ps))"
    using random_get_noise_from_command_ok [OF assms] by blast
  then show ?thesis
    unfolding random_acquire_environmental_noise_def by (intro random_acquire_light_fresh) (simp add: pool_ok_def)
qed

section \<open>Bytes of the generator\<close>

lemma random_get_byte_result:
  fixes e
  assumes "pool_ok st"
  defines "st1 \<equiv> (if RANDOM_STATE_BYTES \<le> rs_next_available_byte st then random_acquire_light_environmental_noise e st else st)"
  shows "pool_ok st1 \<and> rs_next_available_byte st1 < RANDOM_STATE_BYTES \<and>
    random_get_byte e st = Inr (rs_state st1 ! rs_next_available_byte st1, st1\<lparr>rs_next_available_byte := rs_next_available_byte st1 + 1\<rparr>) \<and>
    pool_ok (st1\<lparr>rs_next_available_byte := rs_next_available_byte st1 + 1\<rparr>)"
proof -
  have "pool_ok st1 \<and> rs_next_available_byte st1 < RANDOM_STATE_BYTES"
  proof (cases "RANDOM_STATE_BYTES \<le> rs_next_available_byte st")
    case True
    have "pool_fresh st1" unfolding st1_def using True assms(1) random_acquire_light_fresh by (simp add: pool_ok_def)
    then show ?thesis by (simp add: pool_fresh_def)
  next
    case False
    then show ?thesis using assms(1) by (simp add: st1_def)
  qed
  then show ?thesis unfolding random_get_byte_def st1_def [symmetric] Let_def by (simp add: ensure_def pool_ok_def)
qed

text \<open>Bytes that fit into what is left of the pool are those of the pool, in order.\<close>

lemma random_get_bytes_pool:
  assumes "pool_ok st" "rs_next_available_byte st + length es \<le> RANDOM_STATE_BYTES"
  shows "random_get_bytes es st = Inr (take (length es) (drop (rs_next_available_byte st) (rs_state st)),
    st\<lparr>rs_next_available_byte := rs_next_available_byte st + length es\<rparr>)"
  using assms
proof (induction es arbitrary: st)
  case (Cons e es)
  let ?i = "rs_next_available_byte st" and ?st = "st\<lparr>rs_next_available_byte := rs_next_available_byte st + 1\<rparr>"
  have lt: "\<not> RANDOM_STATE_BYTES \<le> ?i" using Cons.prems(2) by simp
  then have g: "random_get_byte e st = Inr (rs_state st ! ?i, ?st)" "pool_ok ?st"
    using random_get_byte_result [OF Cons.prems(1), of e] by simp_all
  have "random_get_bytes es ?st = Inr (take (length es) (drop (?i + 1) (rs_state st)), ?st\<lparr>rs_next_available_byte := ?i + 1 + length es\<rparr>)"
    using Cons.IH [OF g(2)] Cons.prems(2) by simp
  moreover have "drop ?i (rs_state st) = rs_state st ! ?i # drop (?i + 1) (rs_state st)"
    using lt Cons.prems(1) by (simp add: Cons_nth_drop_Suc pool_ok_def)
  ultimately show ?case using g(1) by simp
qed simp

lemma random_save_result:
  fixes e
  assumes "length (rs_state st) = RANDOM_STATE_BYTES"
  defines "st1 \<equiv> random_acquire_light_environmental_noise e (st\<lparr>rs_last_dev_random_usage := 0\<rparr>)"
  shows "\<exists>st'. random_save e es e' st = Inr (take 512 (drop 64 (rs_state st1)), st') \<and> pool_fresh st1 \<and> pool_fresh st' \<and>
    st' = random_acquire_light_environmental_noise e' (st1\<lparr>rs_next_available_byte := 576\<rparr>)"
proof -
  have f: "pool_fresh st1" unfolding st1_def by (rule random_acquire_light_fresh) (simp add: assms(1))
  then have g: "random_get_bytes (map es [0..<RANDOM_STATE_BYTES div 2]) st1 =
      Inr (take 512 (drop 64 (rs_state st1)), st1\<lparr>rs_next_available_byte := 576\<rparr>)"
    using random_get_bytes_pool [OF pool_fresh_ok, of st1 "map es [0..<RANDOM_STATE_BYTES div 2]"] by (simp add: pool_fresh_def)
  have "pool_fresh (random_acquire_light_environmental_noise e' (st1\<lparr>rs_next_available_byte := 576\<rparr>))"
    using f by (intro random_acquire_light_fresh) (simp add: pool_fresh_def pool_ok_def)
  then show ?thesis using f g by (simp add: random_save_def st1_def [symmetric] Let_def)
qed

lemma random_initialize_fresh:
  assumes "length key = 64" shows "\<exists>st. random_initialize key filename seed e = Inr st \<and> pool_fresh st"
proof -
  let ?st = "\<lparr>rs_state = replicate RANDOM_STATE_BYTES 0, rs_stir_key = key, rs_next_available_byte = 64,
    rs_add_position = 0, rs_last_dev_random_usage = 0\<rparr>"
  let ?f = "random_add_noise ?st filename"
  have ok: "pool_ok ?f" by (rule random_add_noise_ok) (simp add: pool_ok_def assms)
  have light: "pool_fresh (random_acquire_light_environmental_noise e st)" if "pool_ok st" for st
    using that by (intro random_acquire_light_fresh) (simp add: pool_ok_def)
  show ?thesis
  proof (cases seed)
    case (Seed uf buf)
    have "pool_ok (?f\<lparr>rs_state := (rs_state ?f)[0 := rs_state ?f ! 0 + uf]\<rparr>)" using ok by (simp add: pool_ok_def)
    then show ?thesis using Seed light random_add_noise_ok unfolding random_initialize_def Let_def by simp
  next
    case (No_seed ps others e1 e2 es e3)
    let ?a = "random_acquire_environmental_noise ps others e1 ?f"
    have "length (rs_state ?a) = RANDOM_STATE_BYTES" using random_acquire_environmental_fresh [OF ok] by (simp add: pool_fresh_def pool_ok_def)
    from random_save_result [OF this, of e2 es e3] obtain buf st' where "random_save e2 es e3 ?a = Inr (buf, st')" "pool_fresh st'" by blast
    then show ?thesis using No_seed light pool_fresh_ok unfolding random_initialize_def Let_def by simp
  qed
qed

section \<open>All uses of the pool\<close>

text \<open>The steps of the program on its pool; a step that gives bytes away is labelled with them.\<close>

inductive pool_step :: "RandomState \<Rightarrow> byte list \<Rightarrow> RandomState \<Rightarrow> bool" where
  stir: "pool_step st [] (random_stir st)"
| add_noise: "pool_step st [] (random_add_noise st bs)"
| command: "pool_step st [] (random_get_noise_from_command st out)"
| light: "pool_step st [] (random_acquire_light_environmental_noise e st)"
| environmental: "pool_step st [] (random_acquire_environmental_noise ps others e st)"
| get_byte: "random_get_byte e st = Inr (b, st') \<Longrightarrow> pool_step st [b] st'"
| save: "random_save e es e' st = Inr (buf, st') \<Longrightarrow> pool_step st buf st'"

inductive pool_reachable :: "byte list \<Rightarrow> RandomState \<Rightarrow> bool" for key where
  start: "random_initialize key filename seed e = Inr st \<Longrightarrow> pool_reachable key st"
| step: "pool_reachable key st \<Longrightarrow> pool_step st out st' \<Longrightarrow> pool_reachable key st'"

lemma pool_step_ok:
  assumes "pool_step st out st'" "pool_ok st" shows "pool_ok st'"
  using assms
proof (cases rule: pool_step.cases)
  case stir
  then show ?thesis using assms(2) random_stir_fresh by (auto simp: pool_ok_def pool_fresh_def)
next
  case (add_noise bs)
  then show ?thesis using assms(2) random_add_noise_ok by simp
next
  case (command out)
  then show ?thesis using assms(2) random_get_noise_from_command_ok by simp
next
  case (light e)
  then show ?thesis using assms(2) random_acquire_light_fresh [of st e] by (simp add: pool_ok_def pool_fresh_def)
next
  case (environmental ps others e)
  then show ?thesis using random_acquire_environmental_fresh [OF assms(2)] pool_fresh_ok by simp
next
  case (get_byte e b)
  then show ?thesis using random_get_byte_result [OF assms(2), of e] by auto
next
  case (save e es e')
  then show ?thesis using random_save_result [of st e es e'] assms(2) pool_fresh_ok by (auto simp: pool_ok_def)
qed

lemma pool_reachable_ok:
  assumes "pool_reachable key st" "length key = 64" shows "pool_ok st"
  using assms
proof (induction rule: pool_reachable.induct)
  case (start filename seed e st)
  then show ?case using random_initialize_fresh [of key filename seed e] pool_fresh_ok by auto
next
  case (step st out st')
  then show ?case using pool_step_ok by blast
qed

section \<open>Properties\<close>


definition demo_noise :: noise where
  "demo_noise = \<lparr>n_time_check = 1000, n_time_usage = 1000, n_time_noise = 1001, n_dev_random = [1, 2, 3], n_timeval = Some (5, 1001),
     n_clock = Some 3, n_times = None, n_rusage = None, n_pid = 42, n_ppid = 1, n_uid = 500, n_gid = 100, n_child_max = None, n_clk_tck = None\<rparr>"


text \<open>The seed file holds half of the pool only: \<^verbatim>\<open>random_save\<close> writes bytes 64 to 575 of a freshly stirred pool and stirs the
  pool again, with new noise, before anything else can be read from it.\<close>

theorem random_save_writes_half:
  assumes "pool_ok st"
  shows "\<exists>st1. pool_fresh st1 \<and> random_save e es e' st =
      Inr (take (RANDOM_STATE_BYTES div 2) (drop 64 (rs_state st1)),
           random_acquire_light_environmental_noise e' (st1\<lparr>rs_next_available_byte := 64 + RANDOM_STATE_BYTES div 2\<rparr>))"
proof -
  have "length (rs_state st) = RANDOM_STATE_BYTES" using assms by (simp add: pool_ok_def)
  from random_save_result [OF this, of e es e'] show ?thesis by auto
qed

theorem random_save_writes_half_witness:
  "\<exists>buf st'. random_save demo_noise (\<lambda>_. demo_noise) demo_noise (random_stir random_clear) = Inr (buf, st') \<and> length buf = 512"
proof -
  have "pool_ok (random_stir random_clear)" by (rule pool_fresh_ok [OF random_stir_fresh]) (simp add: random_clear_def)
  from random_save_writes_half [OF this, of demo_noise "\<lambda>_. demo_noise" demo_noise] show ?thesis
    by (auto simp: pool_fresh_def pool_ok_def)
qed

end
