(* ===== verification/TtyModes.thy ===== *)
theory TtyModes
  imports Bufaux
begin

text \<open>
  \<^verbatim>\<open>ttymodes.c\<close> and \<^verbatim>\<open>ttymodes.h\<close> for systems with \<^verbatim>\<open>termios\<close>: terminal modes as a
  portable stream of opcodes and arguments. What the system headers define (indices of the special
  characters, masks of the mode flags, speed constants) is a record; \<open>None\<close> is a name that the headers do
  not define, so that its lines are not compiled. The stream is the list of bytes appended to the packet. The
  functions \<^verbatim>\<open>cfgetispeed\<close> and \<^verbatim>\<open>cfsetispeed\<close> (\<^verbatim>\<open>ospeed\<close>) read and set a field of their own.
\<close>

unbundle bit_operations_syntax

section \<open>The table of modes\<close>

datatype tty_char =
    VINTR | VQUIT | VERASE | VKILL | VEOF | VEOL | VEOL2 | VSTART | VSTOP | VSUSP | VDSUSP | VREPRINT | VWERASE |
    VLNEXT | VFLUSH | VSWTCH | VSTATUS | VDISCARD

datatype tty_mode =
    IGNPAR | PARMRK | INPCK | ISTRIP | INLCR | IGNCR | ICRNL | IUCLC | IXON | IXANY | IXOFF | IMAXBEL | ISIG |
    ICANON | XCASE | T_ECHO | ECHOE | ECHOK | ECHONL | NOFLSH | TOSTOP | IEXTEN | ECHOCTL | ECHOKE | PENDIN | OPOST |
    OLCUC | ONLCR | OCRNL | ONOCR | ONLRET | CS7 | CS8 | PARENB | PARODD

datatype tty_field = C_iflag | C_oflag | C_cflag | C_lflag

definition tty_chars :: "(tty_char \<times> byte) list" where
  "tty_chars =
     [(VINTR, 1), (VQUIT, 2), (VERASE, 3), (VKILL, 4), (VEOF, 5), (VEOL, 6), (VEOL2, 7), (VSTART, 8), (VSTOP, 9),
      (VSUSP, 10), (VDSUSP, 11), (VREPRINT, 12), (VWERASE, 13), (VLNEXT, 14), (VFLUSH, 15), (VSWTCH, 16),
      (VSTATUS, 17), (VDISCARD, 18)]"

definition tty_modes :: "(tty_mode \<times> tty_field \<times> byte) list" where
  "tty_modes =
     [(IGNPAR, C_iflag, 30), (PARMRK, C_iflag, 31), (INPCK, C_iflag, 32), (ISTRIP, C_iflag, 33),
      (INLCR, C_iflag, 34), (IGNCR, C_iflag, 35), (ICRNL, C_iflag, 36), (IUCLC, C_iflag, 37), (IXON, C_iflag, 38),
      (IXANY, C_iflag, 39), (IXOFF, C_iflag, 40), (IMAXBEL, C_iflag, 41), (ISIG, C_lflag, 50), (ICANON, C_lflag, 51),
      (XCASE, C_lflag, 52), (T_ECHO, C_lflag, 53), (ECHOE, C_lflag, 54), (ECHOK, C_lflag, 55), (ECHONL, C_lflag, 56),
      (NOFLSH, C_lflag, 57), (TOSTOP, C_lflag, 58), (IEXTEN, C_lflag, 59), (ECHOCTL, C_lflag, 60),
      (ECHOKE, C_lflag, 61), (PENDIN, C_lflag, 62), (OPOST, C_oflag, 70), (OLCUC, C_oflag, 71), (ONLCR, C_oflag, 72),
      (OCRNL, C_oflag, 73), (ONOCR, C_oflag, 74), (ONLRET, C_oflag, 75), (CS7, C_cflag, 90), (CS8, C_cflag, 91),
      (PARENB, C_cflag, 92), (PARODD, C_cflag, 93)]"

record tty_platform =
  tp_cc :: "tty_char \<Rightarrow> nat option"
  tp_mode :: "tty_mode \<Rightarrow> u32 option"
  tp_speed :: "nat \<Rightarrow> u32 option"

record termios =
  t_iflag :: u32
  t_oflag :: u32
  t_cflag :: u32
  t_lflag :: u32
  t_cc :: "byte list"
  t_ispeed :: u32
  t_ospeed :: u32

fun t_field :: "tty_field \<Rightarrow> termios \<Rightarrow> u32" where
  "t_field C_iflag = t_iflag"
| "t_field C_oflag = t_oflag"
| "t_field C_cflag = t_cflag"
| "t_field C_lflag = t_lflag"

fun t_field_update :: "tty_field \<Rightarrow> (u32 \<Rightarrow> u32) \<Rightarrow> termios \<Rightarrow> termios" where
  "t_field_update C_iflag = t_iflag_update"
| "t_field_update C_oflag = t_oflag_update"
| "t_field_update C_cflag = t_cflag_update"
| "t_field_update C_lflag = t_lflag_update"

section \<open>Speeds\<close>

text \<open>The rates in the order of the cases of the two \<^verbatim>\<open>switch\<close> statements; \<^verbatim>\<open>EXTA\<close> and \<^verbatim>\<open>EXTB\<close> are other names of two constants.\<close>

definition bauds :: "nat list" where
  "bauds = [0, 50, 75, 110, 134, 150, 200, 300, 600, 1200, 1800, 2400, 4800, 9600, 19200, 38400,
     7200, 14400, 28800, 57600, 76800, 115200, 230400]"

definition speed_to_baud :: "tty_platform \<Rightarrow> u32 \<Rightarrow> nat" where
  "speed_to_baud P speed = (case find (\<lambda>b. tp_speed P b = Some speed) bauds of Some b \<Rightarrow> b | None \<Rightarrow> 9600)"

definition baud_to_speed :: "tty_platform \<Rightarrow> nat \<Rightarrow> u32" where
  "baud_to_speed P baud =
     (case (if baud \<in> set bauds then tp_speed P baud else None) of
        Some s \<Rightarrow> s
      | None \<Rightarrow> (case tp_speed P 9600 of Some s \<Rightarrow> s | None \<Rightarrow> 0))"

section \<open>Encoding\<close>

abbreviation TTY_OP_END :: byte where "TTY_OP_END \<equiv> 0"
abbreviation TTY_OP_ISPEED :: byte where "TTY_OP_ISPEED \<equiv> 192"
abbreviation TTY_OP_OSPEED :: byte where "TTY_OP_OSPEED \<equiv> 193"

fun char_entry :: "tty_platform \<Rightarrow> termios \<Rightarrow> tty_char \<times> byte \<Rightarrow> byte list" where
  "char_entry P tio (c, op) = (case tp_cc P c of None \<Rightarrow> [] | Some i \<Rightarrow> [op, t_cc tio ! i])"

fun mode_entry :: "tty_platform \<Rightarrow> termios \<Rightarrow> tty_mode \<times> tty_field \<times> byte \<Rightarrow> byte list" where
  "mode_entry P tio (m, f, op) =
     (case tp_mode P m of None \<Rightarrow> [] | Some msk \<Rightarrow> [op, if t_field f tio AND msk \<noteq> 0 then 1 else 0])"

text \<open>The argument is \<open>None\<close> when \<^verbatim>\<open>tcgetattr\<close> fails.\<close>

definition tty_make_modes :: "tty_platform \<Rightarrow> termios option \<Rightarrow> byte list" where
  "tty_make_modes P tio =
     (case tio of
        None \<Rightarrow> [TTY_OP_END]
      | Some tio \<Rightarrow>
          [TTY_OP_OSPEED] @ PUT_32BIT (of_nat (speed_to_baud P (t_ospeed tio))) @
          [TTY_OP_ISPEED] @ PUT_32BIT (of_nat (speed_to_baud P (t_ispeed tio))) @
          concat (map (char_entry P tio) tty_chars) @ concat (map (mode_entry P tio) tty_modes) @ [TTY_OP_END])"

section \<open>Decoding\<close>

definition char_of_op :: "tty_platform \<Rightarrow> byte \<Rightarrow> nat option" where
  "char_of_op P op =
     (case find (\<lambda>(c, op'). op' = op \<and> tp_cc P c \<noteq> None) tty_chars of None \<Rightarrow> None | Some (c, _) \<Rightarrow> tp_cc P c)"

definition mode_of_op :: "tty_platform \<Rightarrow> byte \<Rightarrow> (tty_field \<times> u32) option" where
  "mode_of_op P op =
     (case find (\<lambda>(m, f, op'). op' = op \<and> tp_mode P m \<noteq> None) tty_modes of
        None \<Rightarrow> None
      | Some (m, f, _) \<Rightarrow> map_option (Pair f) (tp_mode P m))"

definition set_char :: "nat \<Rightarrow> byte \<Rightarrow> termios \<Rightarrow> termios" where
  "set_char i v tio = tio\<lparr>t_cc := (t_cc tio)[i := v]\<rparr>"

definition set_flag :: "tty_field \<Rightarrow> u32 \<Rightarrow> byte \<Rightarrow> termios \<Rightarrow> termios" where
  "set_flag f msk v = t_field_update f (\<lambda>w. if v \<noteq> 0 then w OR msk else w AND NOT msk)"

lemma bytes_get_char_length: "bytes_get_char q = Inr (b, q') \<Longrightarrow> length q' < length q"
  by (auto simp: bytes_get_char_def get_char_via_def bytes_get_def rbind_eq_Inr split: if_splits)

lemma bytes_get_int_length: "bytes_get_int q = Inr (v, q') \<Longrightarrow> length q' < length q"
  by (auto simp: bytes_get_int_def get_int_via_def bytes_get_def rbind_eq_Inr split: if_splits)

function parse_modes :: "tty_platform \<Rightarrow> termios \<Rightarrow> byte list \<Rightarrow> (termios \<times> byte list) res" where
  "parse_modes P tio q =
     rbind (bytes_get_char q) (\<lambda>(opcode, q).
     if opcode = TTY_OP_END then Inr (tio, q)
     else if opcode = TTY_OP_ISPEED then
       rbind (bytes_get_int q) (\<lambda>(baud, q). parse_modes P (tio\<lparr>t_ispeed := baud_to_speed P (unat baud)\<rparr>) q)
     else if opcode = TTY_OP_OSPEED then
       rbind (bytes_get_int q) (\<lambda>(baud, q). parse_modes P (tio\<lparr>t_ospeed := baud_to_speed P (unat baud)\<rparr>) q)
     else case char_of_op P opcode of
            Some i \<Rightarrow> rbind (bytes_get_char q) (\<lambda>(v, q). parse_modes P (set_char i v tio) q)
          | None \<Rightarrow>
     (case mode_of_op P opcode of
            Some (f, msk) \<Rightarrow> rbind (bytes_get_char q) (\<lambda>(v, q). parse_modes P (set_flag f msk v tio) q)
          | None \<Rightarrow>
              if opcode < 128 then rbind (bytes_get_char q) (\<lambda>(_, q). parse_modes P tio q)
              else if opcode < 160 then rbind (bytes_get_int q) (\<lambda>(_, q). parse_modes P tio q)
              else Inr (tio, q)))"
  by pat_completeness auto
termination
  by (relation "measure (\<lambda>(P, tio, q). length q)")
    (auto dest!: bytes_get_char_length bytes_get_int_length)

declare parse_modes.simps [simp del]

text \<open>
  \<^verbatim>\<open>tty_parse_modes\<close>: the modes that \<^verbatim>\<open>tcsetattr\<close> is given, if \<^verbatim>\<open>tcgetattr\<close> answered (otherwise the
  stream is left in the packet), and what is left of the packet.
\<close>

definition tty_parse_modes :: "tty_platform \<Rightarrow> termios option \<Rightarrow> byte list \<Rightarrow> (termios option \<times> byte list) res" where
  "tty_parse_modes P tio q =
     (case tio of None \<Rightarrow> Inr (None, q)
      | Some tio \<Rightarrow> rbind (parse_modes P tio q) (\<lambda>(tio, q). Inr (Some tio, q)))"

section \<open>What a step of the decoding does\<close>

lemma get_char_Cons [simp]: "bytes_get_char (b # q) = Inr (b, q)"
  by (simp add: bytes_get_char_def get_char_via_def bytes_get_def)

lemma get_int_PUT [simp]: "bytes_get_int (PUT_32BIT v @ q) = Inr (v, q)"
  by (simp add: bytes_get_int_def get_int_via_def bytes_get_def)

lemma find_op:
  assumes "distinct (map op_of xs)" "x \<in> set xs"
  shows "find (\<lambda>y. op_of y = op_of x \<and> ok y) xs = (if ok x then Some x else None)"
  using assms
proof (induction xs)
  case (Cons y ys)
  show ?case
  proof (cases "y = x")
    case True
    then have "op_of x \<notin> op_of ` set ys" using Cons.prems(1) by simp
    then have "\<forall>z \<in> set ys. op_of z \<noteq> op_of x" by (metis image_eqI)
    then have "find (\<lambda>y. op_of y = op_of x \<and> ok y) ys = None" by (auto simp: find_None_iff)
    then show ?thesis using True by simp
  next
    case False
    then have "x \<in> set ys" "op_of y \<noteq> op_of x" using Cons.prems by force+
    then show ?thesis using Cons by simp
  qed
qed simp

lemma find_no_op: "\<forall>x \<in> set xs. op_of x \<noteq> op \<Longrightarrow> find (\<lambda>y. op_of y = op \<and> ok y) xs = None"
  by (auto simp: find_None_iff)

lemma char_ops: "list_all (\<lambda>(c, op). 0 < op \<and> op < 30) tty_chars"
  by (simp add: tty_chars_def)

lemma mode_ops: "list_all (\<lambda>(m, f, op). 30 \<le> op \<and> op < 128) tty_modes"
  by (simp add: tty_modes_def)

lemma char_ops_distinct: "distinct (map snd tty_chars)"
  by (simp add: tty_chars_def)

lemma mode_ops_distinct: "distinct (map (snd \<circ> snd) tty_modes)"
  by (simp add: tty_modes_def)

lemma modes_distinct: "distinct (map fst tty_modes)"
  by (simp add: tty_modes_def)

lemma chars_distinct: "distinct (map fst tty_chars)"
  by (simp add: tty_chars_def)

lemma char_op: "(c, op) \<in> set tty_chars \<Longrightarrow> 0 < op \<and> op < 30"
  using char_ops by (auto simp: list_all_iff)

lemma mode_op: "(m, f, op) \<in> set tty_modes \<Longrightarrow> 30 \<le> op \<and> op < 128"
  using mode_ops by (auto simp: list_all_iff)

lemma char_of_op_char: "(c, op) \<in> set tty_chars \<Longrightarrow> char_of_op P op = tp_cc P c"
  using find_op [OF char_ops_distinct, of "(c, op)" "\<lambda>(c, op). tp_cc P c \<noteq> None"]
  by (simp add: char_of_op_def case_prod_unfold)

lemma char_of_op_mode:
  assumes "(m, f, op) \<in> set tty_modes" shows "char_of_op P op = None"
proof -
  have "\<forall>x \<in> set tty_chars. snd x \<noteq> op" using mode_op [OF assms] char_op by fastforce
  from find_no_op [OF this] show ?thesis by (simp add: char_of_op_def case_prod_unfold)
qed

lemma mode_of_op_mode: "(m, f, op) \<in> set tty_modes \<Longrightarrow> mode_of_op P op = map_option (Pair f) (tp_mode P m)"
  using find_op [OF mode_ops_distinct, of "(m, f, op)" "\<lambda>(m, f, op). tp_mode P m \<noteq> None"]
  by (simp add: mode_of_op_def case_prod_unfold)

lemma mode_of_op_char:
  assumes "(c, op) \<in> set tty_chars" shows "mode_of_op P op = None"
proof -
  have "\<forall>x \<in> set tty_modes. (snd \<circ> snd) x \<noteq> op" using char_op [OF assms] mode_op by fastforce
  from find_no_op [OF this] show ?thesis by (simp add: mode_of_op_def case_prod_unfold)
qed

text \<open>The effect of an entry of the sender on the modes of the receiver.\<close>

definition recv_char :: "tty_platform \<Rightarrow> tty_platform \<Rightarrow> termios \<Rightarrow> tty_char \<times> byte \<Rightarrow> termios \<Rightarrow> termios" where
  "recv_char S R tio x t =
     (case (tp_cc S (fst x), tp_cc R (fst x)) of
        (Some i, Some j) \<Rightarrow> set_char j (t_cc tio ! i) t
      | _ \<Rightarrow> t)"

definition recv_mode :: "tty_platform \<Rightarrow> tty_platform \<Rightarrow> termios \<Rightarrow> tty_mode \<times> tty_field \<times> byte \<Rightarrow> termios \<Rightarrow> termios" where
  "recv_mode S R tio x t =
     (case (tp_mode S (fst x), tp_mode R (fst x)) of
        (Some s, Some r) \<Rightarrow> set_flag (fst (snd x)) r (if t_field (fst (snd x)) tio AND s \<noteq> 0 then 1 else 0) t
      | _ \<Rightarrow> t)"

lemma parse_char_entry:
  assumes "x \<in> set tty_chars"
  shows "parse_modes R t (char_entry S tio x @ q) = parse_modes R (recv_char S R tio x t) q"
proof -
  obtain c op where x: "x = (c, op)" by force
  have op: "0 < op" "op < 30" using char_op assms x by blast+
  then have n: "op \<noteq> 0" "op \<noteq> 192" "op \<noteq> 193" "op < 128" by (auto simp: word_less_nat_alt)
  show ?thesis
    using assms n parse_modes.simps [of R t "op # _ # q"] unfolding x
    by (cases "tp_cc S c"; cases "tp_cc R c") (simp_all add: char_of_op_char mode_of_op_char recv_char_def)
qed

lemma parse_mode_entry:
  assumes "x \<in> set tty_modes"
  shows "parse_modes R t (mode_entry S tio x @ q) = parse_modes R (recv_mode S R tio x t) q"
proof -
  obtain m f op where x: "x = (m, f, op)" by (cases x) auto
  have op: "30 \<le> op" "op < 128" using mode_op assms x by blast+
  then have n: "op \<noteq> 0" "op \<noteq> 192" "op \<noteq> 193" "op < 128" by (auto simp: word_less_nat_alt word_le_nat_alt)
  show ?thesis
    using assms n parse_modes.simps [of R t "op # _ # q"] unfolding x
    by (cases "tp_mode S m"; cases "tp_mode R m") (simp_all add: char_of_op_mode mode_of_op_mode recv_mode_def)
qed

lemma parse_entries:
  assumes "\<And>x t q. x \<in> set xs \<Longrightarrow> parse_modes R t (entry x @ q) = parse_modes R (recv x t) q"
  shows "parse_modes R t (concat (map entry xs) @ q) = parse_modes R (fold recv xs t) q"
  using assms by (induction xs arbitrary: t) simp_all

section \<open>The modes that arrive\<close>

text \<open>Modes of one field are independent when their masks have no bit in common.\<close>

definition alone :: "tty_platform \<Rightarrow> tty_mode \<Rightarrow> tty_field \<Rightarrow> u32 \<Rightarrow> bool" where
  "alone R m f r \<longleftrightarrow>
     list_all (\<lambda>(m', f', _). m' \<noteq> m \<and> f' = f \<longrightarrow> (case tp_mode R m' of None \<Rightarrow> True | Some r' \<Rightarrow> r AND r' = 0)) tty_modes"

definition own_index :: "tty_platform \<Rightarrow> tty_char \<Rightarrow> nat \<Rightarrow> bool" where
  "own_index R c j \<longleftrightarrow> list_all (\<lambda>(c', _). c' \<noteq> c \<longrightarrow> tp_cc R c' \<noteq> Some j) tty_chars"

lemma t_field_update [simp]:
  "t_field f (t_field_update f' u t) = (if f = f' then u (t_field f t) else t_field f t)"
  by (cases f; cases f') simp_all

lemma t_cc_update [simp]: "t_cc (t_field_update f u t) = t_cc t"
  by (cases f) simp_all

lemma t_speed_update [simp]:
  "t_ispeed (t_field_update f u t) = t_ispeed t" "t_ospeed (t_field_update f u t) = t_ospeed t"
  by (cases f; simp)+

lemma t_field_set_char [simp]: "t_field f (set_char i v t) = t_field f t"
  by (cases f) (simp_all add: set_char_def)

lemma and_or_disjoint: "r AND r' = 0 \<Longrightarrow> (w OR r') AND r = w AND r" for r r' w :: u32
  by (simp add: and.commute bit.conj_disj_distrib)

lemma and_and_not_disjoint: "r AND r' = 0 \<Longrightarrow> (w AND NOT r') AND r = w AND r" for r r' w :: u32
proof -
  assume "r AND r' = 0"
  moreover have "r = (r AND r') OR (r AND NOT r')" by (simp add: bit.conj_disj_distrib [symmetric])
  ultimately have "r = r AND NOT r'" by simp
  then show "(w AND NOT r') AND r = w AND r" by (metis and.assoc and.commute)
qed

lemma recv_mode_other:
  assumes "x \<in> set tty_modes" "fst x \<noteq> m" "alone R m f r"
  shows "t_field f (recv_mode S R tio x t) AND r = t_field f t AND r"
proof -
  obtain m' f' op where x: "x = (m', f', op)" by (cases x) auto
  have d: "r AND r' = 0" if "f' = f" "tp_mode R m' = Some r'" for r'
    using assms that unfolding x alone_def list_all_iff by force
  show ?thesis unfolding x
    by (cases "tp_mode S m'"; cases "tp_mode R m'")
      (auto simp: recv_mode_def set_flag_def and_or_disjoint and_and_not_disjoint d)
qed

lemma recv_mode_own:
  assumes "tp_mode S m = Some s" "tp_mode R m = Some r"
  shows "t_field f (recv_mode S R tio (m, f, op) t) AND r = (if t_field f tio AND s \<noteq> 0 then r else 0)"
  using assms by (simp add: recv_mode_def set_flag_def and.assoc bit.conj_disj_distrib2)

lemma fold_recv_mode:
  assumes "(m, f, op) \<in> set xs" "set xs \<subseteq> set tty_modes" "distinct (map fst xs)"
    "tp_mode S m = Some s" "tp_mode R m = Some r" "alone R m f r"
  shows "t_field f (fold (recv_mode S R tio) xs t) AND r = (if t_field f tio AND s \<noteq> 0 then r else 0)"
  using assms(1-3)
proof (induction xs rule: rev_induct)
  case (snoc x xs)
  show ?case
  proof (cases "fst x = m")
    case True
    then have "x = (m, f, op)" using snoc.prems by (force simp: image_iff)
    then show ?thesis using recv_mode_own [OF assms(4,5)] by simp
  next
    case False
    then have "t_field f (fold (recv_mode S R tio) (xs @ [x]) t) AND r = t_field f (fold (recv_mode S R tio) xs t) AND r"
      using recv_mode_other [OF _ False assms(6)] snoc.prems by simp
    also have "\<dots> = (if t_field f tio AND s \<noteq> 0 then r else 0)" using snoc False by auto
    finally show ?thesis .
  qed
qed simp

lemma recv_mode_rest: "t_cc (recv_mode S R tio x t) = t_cc t \<and> t_ispeed (recv_mode S R tio x t) = t_ispeed t \<and>
    t_ospeed (recv_mode S R tio x t) = t_ospeed t"
  by (simp add: recv_mode_def set_flag_def split: option.split)

lemma fold_recv_mode_rest: "t_cc (fold (recv_mode S R tio) xs t) = t_cc t \<and> t_ispeed (fold (recv_mode S R tio) xs t) = t_ispeed t \<and>
    t_ospeed (fold (recv_mode S R tio) xs t) = t_ospeed t"
  by (induction xs arbitrary: t) (simp_all add: recv_mode_rest)

lemma recv_char_rest: "t_field f (recv_char S R tio x t) = t_field f t \<and> t_ispeed (recv_char S R tio x t) = t_ispeed t \<and>
    t_ospeed (recv_char S R tio x t) = t_ospeed t \<and> length (t_cc (recv_char S R tio x t)) = length (t_cc t)"
  by (simp add: recv_char_def split: option.split) (simp add: set_char_def)

lemma fold_recv_char_rest: "t_field f (fold (recv_char S R tio) xs t) = t_field f t \<and> t_ispeed (fold (recv_char S R tio) xs t) = t_ispeed t \<and>
    t_ospeed (fold (recv_char S R tio) xs t) = t_ospeed t \<and> length (t_cc (fold (recv_char S R tio) xs t)) = length (t_cc t)"
  by (induction xs arbitrary: t) (simp_all add: recv_char_rest)

lemma fold_recv_char:
  assumes "(c, op) \<in> set xs" "set xs \<subseteq> set tty_chars" "tp_cc S c = Some i" "tp_cc R c = Some j" "own_index R c j" "j < length (t_cc t)"
  shows "t_cc (fold (recv_char S R tio) xs t) ! j = t_cc tio ! i"
  using assms(1,2)
proof (induction xs rule: rev_induct)
  case (snoc x xs)
  have len: "j < length (t_cc (fold (recv_char S R tio) xs t))" using assms(6) fold_recv_char_rest by metis
  show ?case
  proof (cases "fst x = c")
    case True
    then have "recv_char S R tio x t' = set_char j (t_cc tio ! i) t'" for t' using assms(3,4) by (simp add: recv_char_def)
    then show ?thesis using len by (simp add: set_char_def)
  next
    case False
    then have "tp_cc R (fst x) \<noteq> Some j" using assms(5) snoc.prems(2) by (auto simp: own_index_def list_all_iff)
    then have "t_cc (recv_char S R tio x t') ! j = t_cc t' ! j" for t'
      by (auto simp: recv_char_def set_char_def split: option.split)
    moreover have "(c, op) \<in> set xs" using snoc.prems(1) False by auto
    ultimately show ?thesis using snoc by simp
  qed
qed simp

text \<open>The modes of the receiver after the sender's stream.\<close>

definition received :: "tty_platform \<Rightarrow> tty_platform \<Rightarrow> termios \<Rightarrow> termios \<Rightarrow> termios" where
  "received S R tio t =
     fold (recv_mode S R tio) tty_modes (fold (recv_char S R tio) tty_chars
       (t\<lparr>t_ospeed := baud_to_speed R (speed_to_baud S (t_ospeed tio)), t_ispeed := baud_to_speed R (speed_to_baud S (t_ispeed tio))\<rparr>))"

lemma speed_to_baud_small: "speed_to_baud P speed < 2 ^ 32"
proof (cases "find (\<lambda>b. tp_speed P b = Some speed) bauds")
  case (Some b)
  then have "b \<in> set bauds" by (auto simp: find_Some_iff)
  then have "b < 2 ^ 32" by (auto simp: bauds_def)
  then show ?thesis using Some by (simp add: speed_to_baud_def)
qed (simp add: speed_to_baud_def)

lemma unat_speed_to_baud: "unat (of_nat (speed_to_baud P speed) :: u32) = speed_to_baud P speed"
  using speed_to_baud_small [of P speed] by (simp add: unat_of_nat take_bit_nat_eq_self)

lemma parse_make:
  "tty_parse_modes R (Some t) (tty_make_modes S (Some tio) @ rest) = Inr (Some (received S R tio t), rest)"
proof -
  let ?os = "PUT_32BIT (of_nat (speed_to_baud S (t_ospeed tio)))" and ?is = "PUT_32BIT (of_nat (speed_to_baud S (t_ispeed tio)))"
  let ?cs = "concat (map (char_entry S tio) tty_chars)" and ?ms = "concat (map (mode_entry S tio) tty_modes)"
  let ?t1 = "t\<lparr>t_ospeed := baud_to_speed R (speed_to_baud S (t_ospeed tio))\<rparr>"
  let ?t2 = "?t1\<lparr>t_ispeed := baud_to_speed R (speed_to_baud S (t_ispeed tio))\<rparr>"
  have "parse_modes R t (193 # ?os @ 192 # ?is @ ?cs @ ?ms @ [0] @ rest) = parse_modes R ?t1 (192 # ?is @ ?cs @ ?ms @ [0] @ rest)"
    by (subst parse_modes.simps) (simp add: unat_speed_to_baud)
  also have "\<dots> = parse_modes R ?t2 (?cs @ ?ms @ [0] @ rest)"
    by (subst parse_modes.simps) (simp add: unat_speed_to_baud)
  also have "\<dots> = parse_modes R (fold (recv_char S R tio) tty_chars ?t2) (?ms @ [0] @ rest)"
    by (rule parse_entries) (rule parse_char_entry)
  also have "\<dots> = parse_modes R (received S R tio t) ([0] @ rest)"
    unfolding received_def by (rule parse_entries) (rule parse_mode_entry)
  also have "\<dots> = Inr (received S R tio t, rest)" by (subst parse_modes.simps) simp
  finally show ?thesis by (simp add: tty_parse_modes_def tty_make_modes_def)
qed

text \<open>A mode keeps what it is given when only those after it in the table have bits of their own.\<close>

lemma received_last:
  assumes "tty_modes = ys @ (m, f, op) # zs" "tp_mode S m = Some s" "tp_mode R m = Some r"
    "\<And>m' f' op' r'. (m', f', op') \<in> set zs \<Longrightarrow> f' = f \<Longrightarrow> tp_mode R m' = Some r' \<Longrightarrow> r AND r' = 0"
  shows "t_field f (received S R tio t) AND r = (if t_field f tio AND s \<noteq> 0 then r else 0)"
proof -
  have keep: "t_field f (fold (recv_mode S R tio) zs t') AND r = t_field f t' AND r" for t'
    using assms(4)
  proof (induction zs arbitrary: t')
    case (Cons x zs)
    obtain m' f' op' where x: "x = (m', f', op')" by (cases x) auto
    have d: "r AND r' = 0" if "f' = f" "tp_mode R m' = Some r'" for r' using Cons.prems [of m' f' op' r'] that x by simp
    have "t_field f (recv_mode S R tio x t') AND r = t_field f t' AND r" unfolding x
      by (cases "tp_mode S m'"; cases "tp_mode R m'")
        (auto simp: recv_mode_def set_flag_def and_or_disjoint and_and_not_disjoint d)
    moreover have "t_field f (fold (recv_mode S R tio) zs (recv_mode S R tio x t')) AND r = t_field f (recv_mode S R tio x t') AND r"
      by (rule Cons.IH) (use Cons.prems in auto)
    ultimately show ?case by simp
  qed simp
  show ?thesis unfolding received_def assms(1) fold_append fold_simps comp_apply keep
    by (rule recv_mode_own [OF assms(2,3)])
qed

section \<open>Properties\<close>


text \<open>Two systems for examples, with the values of a common Unix, one of them without some names.\<close>

definition demo_platform :: tty_platform where
  "demo_platform =
     \<lparr>tp_cc = (\<lambda>c. if c = VINTR then Some 0 else if c = VQUIT then Some 1 else if c = VERASE then Some 2 else None),
      tp_mode = (\<lambda>m. if m = ISIG then Some 1 else if m = ICANON then Some 2 else if m = T_ECHO then Some 8 else
                     if m = CS7 then Some 0x20 else if m = CS8 then Some 0x30 else if m = PARENB then Some 0x100 else
                     if m = PARODD then Some 0x200 else None),
      tp_speed = (\<lambda>b. if b = 9600 then Some 13 else if b = 38400 then Some 15 else None)\<rparr>"

definition demo_termios :: "u32 \<Rightarrow> termios" where
  "demo_termios l = \<lparr>t_iflag = 0, t_oflag = 0, t_cflag = 0x20, t_lflag = l, t_cc = [3, 28, 127], t_ispeed = 15, t_ospeed = 15\<rparr>"


text \<open>The character size does not survive: where \<^verbatim>\<open>CS7\<close> and \<^verbatim>\<open>CS8\<close> are values of one two-bit field, as on common
  systems, a terminal with seven bits is sent with both flags set, and the receiver's terminal gets eight bits.\<close>

theorem seven_bits_become_eight:
  assumes "tp_mode S CS8 = Some 0x30" and "tp_mode R CS8 = Some 0x30"
    and "\<And>m r. m \<in> {PARENB, PARODD} \<Longrightarrow> tp_mode R m = Some r \<Longrightarrow> 0x30 AND r = 0" and "t_cflag tio AND 0x30 = 0x20"
  shows "\<exists>t'. tty_parse_modes R (Some t) (tty_make_modes S (Some tio) @ rest) = Inr (Some t', rest) \<and> t_cflag t' AND 0x30 = 0x30"
proof -
  have "tty_modes = take 32 tty_modes @ (CS8, C_cflag, 91) # [(PARENB, C_cflag, 92), (PARODD, C_cflag, 93)]"
    by (simp add: tty_modes_def)
  from received_last [OF this assms(1,2), of tio t] have "t_field C_cflag (received S R tio t) AND 0x30 = 0x30"
    using assms(3,4) by fastforce
  then show ?thesis using parse_make by auto
qed

theorem seven_bits_become_eight_witness:
  "\<exists>t'. tty_parse_modes demo_platform (Some (demo_termios 0)) (tty_make_modes demo_platform (Some (demo_termios 0)) @ []) = Inr (Some t', []) \<and>
     t_cflag (demo_termios 0) AND 0x30 = 0x20 \<and> t_cflag t' AND 0x30 = 0x30"
proof -
  have p: "tp_mode demo_platform CS8 = Some 0x30" "tp_mode demo_platform PARENB = Some 0x100" "tp_mode demo_platform PARODD = Some 0x200"
    by (simp_all add: demo_platform_def)
  have c: "t_cflag (demo_termios 0) AND 0x30 = 0x20" by (simp add: demo_termios_def)
  have "\<exists>t'. tty_parse_modes demo_platform (Some (demo_termios 0)) (tty_make_modes demo_platform (Some (demo_termios 0)) @ []) =
      Inr (Some t', []) \<and> t_cflag t' AND 0x30 = 0x30"
    by (rule seven_bits_become_eight [OF p(1) p(1) _ c]) (use p in auto)
  with c show ?thesis by blast
qed

text \<open>The two tables of speeds are inverse to each other: with different constants, a supported rate is unchanged by
  \<^verbatim>\<open>baud_to_speed\<close> and \<^verbatim>\<open>speed_to_baud\<close>, every constant of the table by the two in the other order, and every other rate is 9600.\<close>

theorem speeds_roundtrip:
  assumes "\<And>a b s. tp_speed P a = Some s \<Longrightarrow> tp_speed P b = Some s \<Longrightarrow> a = b" and "tp_speed P 9600 \<noteq> None"
  shows "speed_to_baud P (baud_to_speed P b) = (if b \<in> set bauds \<and> tp_speed P b \<noteq> None then b else 9600) \<and>
    (b \<in> set bauds \<and> tp_speed P b = Some s \<longrightarrow> baud_to_speed P (speed_to_baud P s) = s)"
proof -
  have known: "speed_to_baud P s = b" if "b \<in> set bauds" "tp_speed P b = Some s" for b s
  proof -
    have "find (\<lambda>b. tp_speed P b = Some s) bauds \<noteq> None" using that by (auto simp: find_None_iff)
    then obtain b' where "find (\<lambda>b. tp_speed P b = Some s) bauds = Some b'" by blast
    moreover from this have "tp_speed P b' = Some s" by (auto simp: find_Some_iff)
    ultimately show ?thesis using assms(1) [OF _ that(2)] by (simp add: speed_to_baud_def)
  qed
  obtain s9 where s9: "tp_speed P 9600 = Some s9" using assms(2) by blast
  have "9600 \<in> set bauds" by (simp add: bauds_def)
  then have "speed_to_baud P s9 = 9600" using s9 by (rule known)
  then have "speed_to_baud P (baud_to_speed P b) = (if b \<in> set bauds \<and> tp_speed P b \<noteq> None then b else 9600)"
    using s9 known [of b] by (cases "b \<in> set bauds"; cases "tp_speed P b") (simp_all add: baud_to_speed_def)
  moreover have "baud_to_speed P (speed_to_baud P s) = s" if "b \<in> set bauds" "tp_speed P b = Some s"
    unfolding known [OF that] using that by (simp add: baud_to_speed_def)
  ultimately show ?thesis by blast
qed

theorem speeds_roundtrip_witness:
  "speed_to_baud demo_platform (baud_to_speed demo_platform 38400) = 38400 \<and>
   speed_to_baud demo_platform (baud_to_speed demo_platform 1234) = 9600"
proof -
  have i: "a = b" if "tp_speed demo_platform a = Some s" "tp_speed demo_platform b = Some s" for a b s
    using that by (simp add: demo_platform_def split: if_splits)
  have k: "tp_speed demo_platform 9600 \<noteq> None" "tp_speed demo_platform 38400 \<noteq> None" by (simp_all add: demo_platform_def)
  have b: "38400 \<in> set bauds" "1234 \<notin> set bauds" by (simp_all add: bauds_def)
  have "speed_to_baud demo_platform (baud_to_speed demo_platform b) =
      (if b \<in> set bauds \<and> tp_speed demo_platform b \<noteq> None then b else 9600)" for b
    by (rule speeds_roundtrip [THEN conjunct1]) (use i k(1) in blast)+
  with k b show ?thesis by simp
qed

end
