(* ===== verification/ModArith.thy ===== *)
theory ModArith
  imports Prelude
begin

text \<open>
  Arithmetic modulo primes for the RSA component: Fermat's little theorem and what follows from it
  for reducing exponents, and the uniqueness half of the Chinese remainder theorem.
\<close>

section \<open>Primes\<close>

definition is_prime :: "nat \<Rightarrow> bool" where
  "is_prime p \<longleftrightarrow> 1 < p \<and> (\<forall>d \<in> {2..<p}. \<not> d dvd p)"

lemma is_prime_gt_1: "is_prime p \<Longrightarrow> 1 < p"
  by (simp add: is_prime_def)

lemma is_prime_coprime:
  assumes "is_prime p" "0 < k" "k < p" shows "coprime p k"
proof -
  let ?g = "gcd p k"
  have "?g dvd p" "?g \<le> k" "0 < ?g" using assms by (auto simp: gcd_le2_nat)
  have "\<not> 2 \<le> ?g"
  proof
    assume "2 \<le> ?g"
    moreover have "?g < p" using \<open>?g \<le> k\<close> assms(3) by (rule le_less_trans)
    ultimately have "?g \<in> {2..<p}" by simp
    then have "\<not> ?g dvd p" using assms(1) unfolding is_prime_def by blast
    then show False using \<open>?g dvd p\<close> by simp
  qed
  then have "?g = 1" using \<open>0 < ?g\<close> by linarith
  then show ?thesis by (simp add: coprime_iff_gcd_eq_1)
qed

lemma is_prime_coprime_or_dvd:
  assumes "is_prime p" shows "p dvd a \<or> coprime p a"
proof (cases "p dvd a")
  case False
  then have "0 < a mod p" "a mod p < p" using is_prime_gt_1 [OF assms] by (auto simp: dvd_eq_mod_eq_0)
  then have "coprime p (a mod p)" by (rule is_prime_coprime [OF assms])
  then show ?thesis by (simp add: coprime_iff_gcd_eq_1 gcd_red_nat [of a p] gcd.commute [of p])
qed simp

lemma distinct_primes_coprime:
  assumes "is_prime p" "is_prime q" "p < q" shows "coprime p q"
  using is_prime_coprime [OF assms(2), of p] assms is_prime_gt_1 [of p] by (simp add: coprime_commute)

section \<open>Fermat's little theorem\<close>

lemma prime_dvd_choose:
  assumes "is_prime p" "0 < k" "k < p" shows "p dvd (p choose k)"
proof -
  have "k * (p choose k) = p * (p - 1 choose (k - 1))"
    using assms(2) by (simp add: times_binomial_minus1_eq)
  then have "p dvd k * (p choose k)" by simp
  then show ?thesis using is_prime_coprime [OF assms] by (simp add: coprime_dvd_mult_right_iff)
qed

lemma fermat_step:
  assumes "is_prime p" shows "(a + 1) ^ p mod p = (a ^ p + 1) mod p"
proof -
  have p: "1 < p" using assms by (rule is_prime_gt_1)
  have "(a + 1) ^ p = (\<Sum>k\<le>p. (p choose k) * a ^ k)" using binomial [of a 1 p] by simp
  also have "{..p} = insert 0 (insert p {1..<p})" using p by auto
  also have "(\<Sum>k \<in> insert 0 (insert p {1..<p}). (p choose k) * a ^ k) = 1 + (a ^ p + (\<Sum>k = 1..<p. (p choose k) * a ^ k))"
    using p by simp
  finally have s: "(a + 1) ^ p = 1 + (a ^ p + (\<Sum>k = 1..<p. (p choose k) * a ^ k))" .
  have "p dvd (\<Sum>k = 1..<p. (p choose k) * a ^ k)"
    by (rule dvd_sum) (auto intro!: dvd_mult2 prime_dvd_choose [OF assms])
  then obtain m where "(\<Sum>k = 1..<p. (p choose k) * a ^ k) = p * m" by blast
  with s show ?thesis by (simp add: add.assoc [symmetric] add.commute)
qed

theorem fermat: "is_prime p \<Longrightarrow> a ^ p mod p = a mod p" for a :: nat
proof (induction a)
  case 0
  then show ?case using is_prime_gt_1 [of p] by (simp add: power_0_left)
next
  case (Suc a)
  have "Suc a ^ p mod p = (a ^ p mod p + 1) mod p" using fermat_step [OF Suc.prems, of a] by (simp add: mod_simps)
  also have "\<dots> = Suc a mod p" using Suc by (simp add: mod_simps)
  finally show ?case .
qed

lemma power_mod_prime_reduce:
  fixes a :: nat
  assumes "is_prime p" "1 \<le> j" shows "a ^ (j + m * (p - 1)) mod p = a ^ j mod p"
proof (induction m)
  case (Suc m)
  obtain i where j: "j = Suc i" using assms(2) by (cases j) auto
  obtain l where p: "p = Suc l" using is_prime_gt_1 [OF assms(1)] by (cases p) auto
  have "a ^ (j + Suc m * (p - 1)) mod p = (a ^ (j + m * (p - 1)) mod p) * a ^ l mod p"
    by (simp add: p power_add mod_simps mult_ac)
  also have "\<dots> = a ^ i * (a ^ p mod p) mod p"
    unfolding Suc by (simp add: j p mod_simps mult_ac)
  also have "\<dots> = a ^ j mod p" by (simp add: fermat [OF assms(1)] mod_simps j mult_ac)
  finally show ?case .
qed simp

lemma power_mod_prime_exponent:
  fixes a :: nat
  assumes p: "is_prime p" and d: "d mod (p - 1) \<noteq> 0" shows "a ^ (d mod (p - 1)) mod p = a ^ d mod p"
proof -
  have "d mod (p - 1) + d div (p - 1) * (p - 1) = d" by (rule mod_div_mult_eq)
  then show ?thesis using power_mod_prime_reduce [OF p, of "d mod (p - 1)" a "d div (p - 1)"] d by (simp add: Suc_le_eq)
qed

lemma power_inverse_prime:
  fixes a :: nat
  assumes p: "is_prime p" and k: "k mod (p - 1) = 1 mod (p - 1)" "1 \<le> k" shows "a ^ k mod p = a mod p"
proof -
  have "(p - 1) dvd k - 1" using k by (metis mod_eq_dvd_iff_nat)
  then obtain m where "k - 1 = (p - 1) * m" by blast
  then have "k = 1 + m * (p - 1)" using k(2) by (simp add: mult.commute)
  then show ?thesis using power_mod_prime_reduce [OF p, of 1 a m] by simp
qed

section \<open>Two moduli\<close>

lemma crt_unique:
  fixes a b :: nat
  assumes "a mod p = b mod p" "a mod q = b mod q" "coprime p q" shows "a mod (p * q) = b mod (p * q)"
proof -
  have "int p dvd int a - int b" "int q dvd int a - int b"
    using assms(1,2) by (simp_all add: mod_eq_dvd_iff [symmetric] zmod_int [symmetric])
  moreover have "coprime (int p) (int q)" using assms(3) by simp
  ultimately have "int p * int q dvd int a - int b" by (rule divides_mult)
  then have "int a mod int (p * q) = int b mod int (p * q)" by (simp add: mod_eq_dvd_iff)
  then show ?thesis by (simp add: zmod_int [symmetric] del: of_nat_mult)
qed

end
