(* ===== verification/Rsa.thy ===== *)
theory Rsa
  imports MpAux ModArith SmallPrimes
begin

text \<open>
  \<^verbatim>\<open>rsa.c\<close>: random integers and primes, key generation, and the private and public key
  operations. Multiple-precision integers are natural numbers (integers inside a computation that can
  go below zero). The generator is a function from its state to a byte and the next state. The
  primality test \<^verbatim>\<open>mpz_probab_prime_p\<close> of the multiple-precision library is the argument
  \<open>probab\<close>. A call that retries for ever is \<open>None\<close>. Progress messages are left out.
\<close>

unbundle bit_operations_syntax

section \<open>Random integers\<close>

fun random_bytes :: "('r \<Rightarrow> byte \<times> 'r) \<Rightarrow> nat \<Rightarrow> 'r \<Rightarrow> byte list \<times> 'r" where
  "random_bytes rnd 0 r = ([], r)"
| "random_bytes rnd (Suc n) r = (let (b, r) = rnd r; (bs, r) = random_bytes rnd n r in (b # bs, r))"

text \<open>The hexadecimal string of no bytes is uninitialised memory.\<close>

definition rsa_random_integer :: "('r \<Rightarrow> byte \<times> 'r) \<Rightarrow> 'r \<Rightarrow> u32 \<Rightarrow> (nat \<times> 'r) res" where
  "rsa_random_integer rnd state bits =
     (let bytes = unat ((bits + 7) div 8)
      in if bytes = 0 then Inl (Undefined ''mpz_set_str of uninitialised memory'')
         else let (bs, state) = random_bytes rnd bytes state
              in Inr (hex_value (concat (map byte_hex bs)) mod 2 ^ unat bits, state))"

section \<open>Random primes\<close>

text \<open>
  The moduli of the small primes: \<open>sieve_reduce\<close> is the inner \<^verbatim>\<open>while\<close> loop (no entry of the
  table is zero, for which it would not end), \<open>sieve\<close> the loop over the table, which stops at the
  first prime that divides the candidate and leaves the other moduli as they are.
\<close>

function sieve_reduce :: "nat \<Rightarrow> int \<Rightarrow> int \<Rightarrow> int" where
  "sieve_reduce p difference m =
     (if 0 < p \<and> int p \<le> m + difference then sieve_reduce p difference (m - int p) else m)"
  by pat_completeness auto
termination by (relation "measure (\<lambda>(p, difference, m). nat (m + difference))") auto

declare sieve_reduce.simps [simp del]

fun sieve :: "nat list \<Rightarrow> int \<Rightarrow> int list \<Rightarrow> bool \<times> int list" where
  "sieve (p # ps) difference (m # ms) =
     (let m = sieve_reduce p difference m
      in if m + difference = 0 then (True, m # ms)
         else let (multiple, ms) = sieve ps difference ms in (multiple, m # ms))"
| "sieve ps difference ms = (False, ms)"

text \<open>The search from \<open>start\<close>; \<open>None\<close> when the distance limit is reached.\<close>

definition prime_test :: "(nat \<Rightarrow> bool) \<Rightarrow> nat \<Rightarrow> bool" where
  "prime_test probab ret \<longleftrightarrow> 2 ^ ret mod ret = 2 \<and> probab ret"

function prime_search :: "(nat \<Rightarrow> bool) \<Rightarrow> nat \<Rightarrow> nat list \<Rightarrow> int list \<Rightarrow> nat \<Rightarrow> nat option" where
  "prime_search probab start ps moduli difference =
     (if difference > 0x70000000 then None
      else let (multiple, moduli) = sieve ps (int difference) moduli
           in if multiple then prime_search probab start ps moduli (difference + 2)
              else if prime_test probab (start + difference) then Some (start + difference)
              else prime_search probab start ps moduli (difference + 2))"
  by pat_completeness auto
termination by (relation "measure (\<lambda>(probab, start, ps, moduli, difference). 0x70000001 - difference)") auto

declare prime_search.simps [simp del]

definition prime_start :: "u32 \<Rightarrow> nat \<Rightarrow> nat" where
  "prime_start bits start = (start OR 3 * 2 ^ unat (bits - 2)) OR 1"

definition primes_used :: "u32 \<Rightarrow> nat list" where
  "primes_used bits = (if bits < 16 then [] else small_primes)"

definition prime_from :: "(nat \<Rightarrow> bool) \<Rightarrow> u32 \<Rightarrow> nat \<Rightarrow> nat option" where
  "prime_from probab bits start =
     (let start = prime_start bits start; ps = primes_used bits
      in prime_search probab start ps (map (\<lambda>p. int (start mod p)) ps) 0)"

partial_function (option) rsa_random_prime :: "('r \<Rightarrow> byte \<times> 'r) \<Rightarrow> (nat \<Rightarrow> bool) \<Rightarrow> 'r \<Rightarrow> u32 \<Rightarrow> (nat \<times> 'r) res option" where
  "rsa_random_prime rnd probab state bits =
     (case rsa_random_integer rnd state bits of
        Inl e \<Rightarrow> Some (Inl e)
      | Inr (start, state) \<Rightarrow>
          (case prime_from probab bits start of
             None \<Rightarrow> rsa_random_prime rnd probab state bits
           | Some ret \<Rightarrow>
               if ret div 2 ^ unat (bits - 1) \<noteq> 1 then rsa_random_prime rnd probab state bits
               else Some (Inr (ret, state))))"

section \<open>Deriving the keys\<close>

function inverse_loop :: "int \<Rightarrow> int \<Rightarrow> int \<Rightarrow> int \<Rightarrow> int" where
  "inverse_loop g0 g1 v0 v1 =
     (if g1 \<noteq> 0 then inverse_loop g1 (g0 mod g1) v1 (v0 - g0 div g1 * v1) else v0)"
  by pat_completeness auto
termination by (relation "measure (\<lambda>(g0, g1, v0, v1). nat \<bar>g1\<bar>)") (auto simp: abs_mod_less)

declare inverse_loop.simps [simp del]

definition mpz_mod_inverse :: "nat \<Rightarrow> nat \<Rightarrow> nat" where
  "mpz_mod_inverse a n = (let v0 = inverse_loop (int n) (int a) 0 1 in nat (if v0 < 0 then v0 + int n else v0))"

text \<open>The loop that looks for the public exponent.\<close>

partial_function (option) public_exponent :: "nat \<Rightarrow> nat \<Rightarrow> nat option" where
  "public_exponent phi e = (let e = e + 2 in if gcd e phi \<noteq> 1 then public_exponent phi e else Some e)"

record RSAPublicKey =
  pub_bits :: u32
  pub_e :: nat
  pub_n :: nat

record RSAPrivateKey =
  prv_bits :: u32
  prv_n :: nat
  prv_e :: nat
  prv_d :: nat
  prv_u :: nat
  prv_p :: nat
  prv_q :: nat

text \<open>The four numbers \<open>n\<close>, \<open>e\<close>, \<open>d\<close>, \<open>u\<close>; the primes are at least 1.\<close>

definition derive_rsa_keys :: "nat \<Rightarrow> nat \<Rightarrow> nat \<Rightarrow> (nat \<times> nat \<times> nat \<times> nat) res option" where
  "derive_rsa_keys p q ebits =
     (if \<not> p < q then Some (Inl (Assertion ''mpz_cmp(p, q) < 0''))
      else let phi = (p - 1) * (q - 1); G = gcd (p - 1) (q - 1); F = phi div G
           in case public_exponent phi (2 ^ ebits - 1) of
                None \<Rightarrow> None
              | Some e \<Rightarrow> Some (Inr (p * q, e, mpz_mod_inverse e F, mpz_mod_inverse p q)))"

section \<open>The key operations\<close>

definition rsa_private :: "nat \<Rightarrow> RSAPrivateKey \<Rightarrow> nat" where
  "rsa_private input prv =
     (let dp = prv_d prv mod (prv_p prv - 1);
          dq = prv_d prv mod (prv_q prv - 1);
          p2 = (input mod prv_p prv) ^ dp mod prv_p prv;
          q2 = (input mod prv_q prv) ^ dq mod prv_q prv;
          k = nat ((int q2 - int p2) * int (prv_u prv) mod int (prv_q prv))
      in prv_p prv * k + p2)"

definition rsa_public :: "nat \<Rightarrow> RSAPublicKey \<Rightarrow> nat" where
  "rsa_public input pub = input ^ pub_e pub mod pub_n pub"

section \<open>Key generation\<close>

text \<open>From the label \<^verbatim>\<open>retry\<close>: the second prime, and the two in order.\<close>

partial_function (option) second_prime :: "('r \<Rightarrow> byte \<times> 'r) \<Rightarrow> (nat \<Rightarrow> bool) \<Rightarrow> u32 \<Rightarrow> nat \<Rightarrow> 'r \<Rightarrow> (nat \<times> nat \<times> 'r) res option" where
  "second_prime rnd probab qbits p state =
     (case rsa_random_prime rnd probab state qbits of
        None \<Rightarrow> None
      | Some (Inl e) \<Rightarrow> Some (Inl e)
      | Some (Inr (q, state)) \<Rightarrow>
          if p = q then second_prime rnd probab qbits p state
          else let p' = min p q; q' = max p q
               in if q' - p' < q' div 2 ^ 10 then second_prime rnd probab qbits p' state
                  else if gcd p' q' \<noteq> 1 then second_prime rnd probab qbits p' state
                  else Some (Inr (p', q', state)))"

definition key_pair :: "u32 \<Rightarrow> nat \<Rightarrow> nat \<Rightarrow> nat \<times> nat \<times> nat \<times> nat \<Rightarrow> RSAPrivateKey \<times> RSAPublicKey" where
  "key_pair bits p q = (\<lambda>(n, e, d, u).
     (\<lparr>prv_bits = bits, prv_n = n, prv_e = e, prv_d = d, prv_u = u, prv_p = p, prv_q = q\<rparr>,
      \<lparr>pub_bits = bits, pub_e = e, pub_n = n\<rparr>))"

definition key_test :: "RSAPrivateKey \<Rightarrow> RSAPublicKey \<Rightarrow> nat \<Rightarrow> bool" where
  "key_test prv pub test \<longleftrightarrow>
     rsa_public (rsa_private test prv) pub = test \<and> rsa_private (rsa_public test pub) prv = test"

text \<open>From the label \<^verbatim>\<open>retry0\<close>: the whole of \<^verbatim>\<open>rsa_generate_key\<close>.\<close>

partial_function (option) rsa_generate_key :: "('r \<Rightarrow> byte \<times> 'r) \<Rightarrow> (nat \<Rightarrow> bool) \<Rightarrow> 'r \<Rightarrow> u32 \<Rightarrow>
    (RSAPrivateKey \<times> RSAPublicKey \<times> 'r) res option" where
  "rsa_generate_key rnd probab state bits =
     (case rsa_random_prime rnd probab state (bits div 2) of
        None \<Rightarrow> None
      | Some (Inl e) \<Rightarrow> Some (Inl e)
      | Some (Inr (p, state)) \<Rightarrow>
     (case second_prime rnd probab (bits - bits div 2) p state of
        None \<Rightarrow> None
      | Some (Inl e) \<Rightarrow> Some (Inl e)
      | Some (Inr (p, q, state)) \<Rightarrow>
     (case derive_rsa_keys p q 5 of
        None \<Rightarrow> None
      | Some (Inl e) \<Rightarrow> Some (Inl e)
      | Some (Inr k) \<Rightarrow>
          let (prv, pub) = key_pair bits p q k
          in (case rsa_random_integer rnd state bits of
                Inl e \<Rightarrow> Some (Inl e)
              | Inr (test, state) \<Rightarrow>
                  if \<not> key_test prv pub (test mod pub_n pub) then rsa_generate_key rnd probab state bits
                  else Some (Inr (prv, pub, state))))))"

section \<open>The sieve is trial division\<close>

text \<open>A modulus \<open>m\<close> of \<open>p\<close> is up to date when \<open>m + difference\<close> is congruent to the candidate and not negative.\<close>

definition modulus_ok :: "nat \<Rightarrow> nat \<Rightarrow> nat \<Rightarrow> int \<Rightarrow> bool" where
  "modulus_ok start d p m \<longleftrightarrow> 0 \<le> m + int d \<and> (m + int d) mod int p = int (start + d) mod int p"

lemma sieve_reduce_result:
  assumes "0 < p" "0 \<le> m + d"
  shows "0 \<le> sieve_reduce p d m + d \<and> sieve_reduce p d m + d < int p \<and> (sieve_reduce p d m + d) mod int p = (m + d) mod int p"
  using assms
proof (induction p d m rule: sieve_reduce.induct)
  case (1 p d m)
  show ?case
  proof (cases "int p \<le> m + d")
    case True
    have e: "(m - int p + d) mod int p = (m + d) mod int p"
      using minus_mod_self2 [of "m + d" "int p"] by (simp add: algebra_simps)
    have "sieve_reduce p d m = sieve_reduce p d (m - int p)"
      using True 1(2) by (simp add: sieve_reduce.simps [of p d m])
    with 1(1) [OF _ 1(2)] True 1(2) e show ?thesis by simp
  next
    case False
    then show ?thesis using 1(2,3) by (simp add: sieve_reduce.simps [of p d m])
  qed
qed

lemma sieve_reduce_ok:
  assumes "0 < p" "modulus_ok start d p m"
  shows "modulus_ok start d p (sieve_reduce p (int d) m)"
    "sieve_reduce p (int d) m + int d = 0 \<longleftrightarrow> p dvd start + d"
proof -
  let ?m = "sieve_reduce p (int d) m"
  have r: "0 \<le> ?m + int d" "?m + int d < int p" "(?m + int d) mod int p = int (start + d) mod int p"
    using sieve_reduce_result [of p m "int d"] assms by (auto simp: modulus_ok_def)
  then show "modulus_ok start d p ?m" by (simp add: modulus_ok_def)
  have "?m + int d = int (start + d) mod int p" using r by (simp add: mod_pos_pos_trivial)
  then have "?m + int d = int ((start + d) mod p)" by (simp only: zmod_int)
  then show "?m + int d = 0 \<longleftrightarrow> p dvd start + d" by (simp add: dvd_eq_mod_eq_0)
qed

lemma sieve_exact:
  assumes "list_all2 (modulus_ok start d) ps ms" "\<forall>p \<in> set ps. 0 < p"
  shows "(fst (sieve ps (int d) ms) \<longleftrightarrow> (\<exists>p \<in> set ps. p dvd start + d)) \<and>
    list_all2 (modulus_ok start d) ps (snd (sieve ps (int d) ms))"
  using assms
proof (induction ps ms rule: list_all2_induct)
  case (Cons p ps m ms)
  let ?m = "sieve_reduce p (int d) m"
  have r: "modulus_ok start d p ?m" "?m + int d = 0 \<longleftrightarrow> p dvd start + d" using sieve_reduce_ok Cons by auto
  show ?case
  proof (cases "p dvd start + d")
    case True
    then show ?thesis using r Cons(2) by simp
  next
    case False
    obtain b ms' where s: "sieve ps (int d) ms = (b, ms')" by force
    then show ?thesis using r False Cons by simp
  qed
qed simp

lemma modulus_ok_step: "modulus_ok start d p m \<Longrightarrow> modulus_ok start (d + 2) p m"
  unfolding modulus_ok_def by (auto simp: algebra_simps) (metis add.assoc add.commute mod_add_left_eq)

definition acceptable :: "(nat \<Rightarrow> bool) \<Rightarrow> nat list \<Rightarrow> nat \<Rightarrow> bool" where
  "acceptable probab ps x \<longleftrightarrow> (\<forall>p \<in> set ps. \<not> p dvd x) \<and> prime_test probab x"

lemma prime_search_exact:
  assumes "list_all2 (modulus_ok start d) ps ms" "\<forall>p \<in> set ps. 0 < p"
  shows "case prime_search probab start ps ms d of
      None \<Rightarrow> \<forall>k. d + 2 * k \<le> 0x70000000 \<longrightarrow> \<not> acceptable probab ps (start + d + 2 * k)
    | Some x \<Rightarrow> \<exists>k. x = start + d + 2 * k \<and> acceptable probab ps x \<and> (\<forall>j < k. \<not> acceptable probab ps (start + d + 2 * j))"
  using assms
proof (induction probab start ps ms d rule: prime_search.induct)
  case (1 probab start ps ms d)
  show ?case
  proof (cases "d > 0x70000000")
    case True
    then show ?thesis by (simp add: prime_search.simps [of probab start ps ms d])
  next
    case False
    obtain b ms' where s: "sieve ps (int d) ms = (b, ms')" by force
    have ex: "b \<longleftrightarrow> (\<exists>p \<in> set ps. p dvd start + d)" "list_all2 (modulus_ok start d) ps ms'"
      using sieve_exact [OF 1(3,4)] s by auto
    have next_ok: "list_all2 (modulus_ok start (d + 2)) ps ms'"
      using ex(2) by (rule list_all2_mono) (rule modulus_ok_step)
    show ?thesis
    proof (cases "\<not> b \<and> prime_test probab (start + d)")
      case True
      then have "prime_search probab start ps ms d = Some (start + d)"
        using False s by (simp add: prime_search.simps [of probab start ps ms d])
      moreover have "acceptable probab ps (start + d)" using True ex by (simp add: acceptable_def)
      ultimately show ?thesis by (auto intro: exI [of _ 0])
    next
      case bad: False
      then have e: "prime_search probab start ps ms d = prime_search probab start ps ms' (d + 2)"
        using False s by (auto simp: prime_search.simps [of probab start ps ms d])
      have na: "\<not> acceptable probab ps (start + d)" using bad ex by (auto simp: acceptable_def)
      have ih: "case prime_search probab start ps ms' (d + 2) of
          None \<Rightarrow> \<forall>k. d + 2 + 2 * k \<le> 0x70000000 \<longrightarrow> \<not> acceptable probab ps (start + (d + 2) + 2 * k)
        | Some x \<Rightarrow> \<exists>k. x = start + (d + 2) + 2 * k \<and> acceptable probab ps x \<and>
            (\<forall>j < k. \<not> acceptable probab ps (start + (d + 2) + 2 * j))"
        using bad 1(1) [OF False s [symmetric] refl _ next_ok 1(4)] 1(2) [OF False s [symmetric] refl _ _ next_ok 1(4)] by blast
      show ?thesis
      proof (cases "prime_search probab start ps ms' (d + 2)")
        case None
        have "\<not> acceptable probab ps (start + d + 2 * k)" if "d + 2 * k \<le> 0x70000000" for k
        proof (cases k)
          case (Suc j)
          then show ?thesis using ih None that by (simp add: add_ac)
        qed (use na in simp)
        then show ?thesis unfolding e None option.case by blast
      next
        case (Some x)
        then obtain k where k: "x = start + (d + 2) + 2 * k" "acceptable probab ps x"
          "\<forall>j < k. \<not> acceptable probab ps (start + (d + 2) + 2 * j)" using ih by auto
        have "\<not> acceptable probab ps (start + d + 2 * j)" if "j < Suc k" for j
        proof (cases j)
          case (Suc i)
          then show ?thesis using k(3) that by (simp add: add_ac)
        qed (use na in simp)
        then have "x = start + d + 2 * Suc k \<and> acceptable probab ps x \<and> (\<forall>j < Suc k. \<not> acceptable probab ps (start + d + 2 * j))"
          using k by simp
        then show ?thesis unfolding e Some option.case by blast
      qed
    qed
  qed
qed

lemma prime_from_exact:
  "case prime_from probab bits start of
     None \<Rightarrow> \<forall>k. 2 * k \<le> 0x70000000 \<longrightarrow> \<not> acceptable probab (primes_used bits) (prime_start bits start + 2 * k)
   | Some x \<Rightarrow> \<exists>k. x = prime_start bits start + 2 * k \<and> acceptable probab (primes_used bits) x \<and>
       (\<forall>j < k. \<not> acceptable probab (primes_used bits) (prime_start bits start + 2 * j))"
proof -
  let ?s = "prime_start bits start" and ?ps = "primes_used bits"
  have "list_all2 (modulus_ok ?s 0) ?ps (map (\<lambda>p. int (?s mod p)) ?ps)"
    by (simp add: list_all2_conv_all_nth modulus_ok_def flip: zmod_int)
  moreover have "\<forall>p \<in> set ?ps. 0 < p" using small_primes_pos by (simp add: primes_used_def)
  ultimately show ?thesis
    using prime_search_exact [of ?s 0 ?ps _ probab] by (simp only: prime_from_def Let_def add_0_right add_0)
qed

lemma nat_or_ge: "a \<le> a OR b" "b \<le> a OR b" for a b :: nat
proof -
  have "int a \<le> int (a OR b)" "int b \<le> int (b OR a)" by (simp_all only: of_nat_or_eq) (simp_all add: or_greater_eq)
  then show "a \<le> a OR b" "b \<le> a OR b" by (simp_all add: or.commute)
qed

lemma rsa_random_integer_bound:
  "rsa_random_integer rnd r bits = Inr (v, r') \<Longrightarrow> v < 2 ^ unat bits"
  by (auto simp: rsa_random_integer_def Let_def split: if_splits prod.splits)

lemma odd_prime_start: "odd (prime_start bits start)"
  by (simp add: prime_start_def even_or_iff)

lemma prime_start_bound:
  assumes "2 \<le> bits" shows "3 * 2 ^ (unat bits - 2) \<le> prime_start bits start"
proof -
  have "unat (bits - 2) = unat bits - 2" using assms by (simp add: unat_sub)
  then have "3 * 2 ^ (unat bits - 2) \<le> start OR 3 * 2 ^ unat (bits - 2)" by (simp add: nat_or_ge)
  also have "\<dots> \<le> prime_start bits start" by (simp add: prime_start_def nat_or_ge)
  finally show ?thesis .
qed

section \<open>Random primes\<close>

definition good_prime :: "(nat \<Rightarrow> bool) \<Rightarrow> u32 \<Rightarrow> nat \<Rightarrow> bool" where
  "good_prime probab bits x \<longleftrightarrow> odd x \<and> x < 2 ^ unat bits \<and> acceptable probab (primes_used bits) x \<and>
     (2 \<le> bits \<longrightarrow> 3 * 2 ^ (unat bits - 2) \<le> x)"

lemma good_prime_from:
  assumes "prime_from probab bits start = Some x" "x div 2 ^ unat (bits - 1) = 1" "bits \<noteq> 0"
  shows "good_prime probab bits x"
proof -
  obtain k where k: "x = prime_start bits start + 2 * k" "acceptable probab (primes_used bits) x"
    using prime_from_exact [of probab bits start] assms(1) by auto
  have "unat (bits - 1) = unat bits - 1" "0 < unat bits" using assms(3) by (simp_all add: unat_minus_one unat_gt_0)
  then have "x < 2 ^ unat bits" using assms(2)
    by (metis One_nat_def Suc_pred div_less_iff_less_mult less_2_cases_iff mult.commute numeral_2_eq_2 power_Suc zero_less_numeral zero_less_power lessI)
  then show ?thesis using k odd_prime_start [of bits start] prime_start_bound [of bits start] by (auto simp: good_prime_def)
qed

lemma rsa_random_prime_good:
  assumes "rsa_random_prime rnd probab r bits = Some (Inr (x, r'))" "bits \<noteq> 0"
  shows "good_prime probab bits x"
proof -
  have "\<forall>x r'. res = Inr (x, r') \<longrightarrow> bits \<noteq> 0 \<longrightarrow> good_prime probab bits x"
    if "rsa_random_prime rnd probab r bits = Some res" for res
    using that
  proof (induction rnd probab r bits res rule: rsa_random_prime.raw_induct [rotated, consumes 1, case_names step])
    case (step f rnd probab r bits res)
    then show ?case by (auto split: sum.splits option.splits if_splits prod.splits intro: good_prime_from)
  qed
  with assms show ?thesis by blast
qed

section \<open>Modular inverses\<close>

lemma inverse_loop_result:
  assumes "0 \<le> g1" "0 < g0" "v0 * v1 \<le> 0" "\<bar>v1\<bar> * g0 + \<bar>v0\<bar> * g1 = n"
    "a * v0 mod n = g0 mod n" "a * v1 mod n = g1 mod n" "\<bar>v0\<bar> \<le> n"
  shows "a * inverse_loop g0 g1 v0 v1 mod n = gcd g0 g1 mod n \<and> \<bar>inverse_loop g0 g1 v0 v1\<bar> \<le> n"
  using assms
proof (induction g0 g1 v0 v1 rule: inverse_loop.induct)
  case (1 g0 g1 v0 v1)
  show ?case
  proof (cases "g1 = 0")
    case True
    then show ?thesis using 1 by (simp add: inverse_loop.simps [of g0 0])
  next
    case False
    let ?q = "g0 div g1" and ?r = "g0 mod g1" and ?v = "v0 - g0 div g1 * v1"
    have q: "0 \<le> ?q" "0 \<le> ?r" "g0 = g1 * ?q + ?r" using 1 False by (simp_all add: pos_imp_zdiv_nonneg_iff)
    have s: "v1 * ?v \<le> 0"
    proof -
      have "v1 * ?v = v0 * v1 - ?q * (v1 * v1)" by (simp add: algebra_simps)
      moreover have "0 \<le> ?q * (v1 * v1)" using q by simp
      ultimately show ?thesis using 1 by simp
    qed
    have "\<bar>?v\<bar> = \<bar>v0\<bar> + ?q * \<bar>v1\<bar>"
    proof (cases "0 \<le> v0 \<and> v1 \<le> 0")
      case True
      then have "?q * v1 \<le> 0" using q(1) by (simp add: mult_nonneg_nonpos)
      then show ?thesis using True by simp
    next
      case False
      then have "v0 \<le> 0" "0 \<le> v1" using 1(4) by (auto simp: mult_le_0_iff)
      moreover from this have "0 \<le> ?q * v1" using q(1) by simp
      ultimately show ?thesis by simp
    qed
    moreover have "(A + q * B) * g + B * r = A * g + B * (g * q + r)" for A B q r g :: int by (simp add: algebra_simps)
    ultimately have "\<bar>?v\<bar> * g1 + \<bar>v1\<bar> * ?r = \<bar>v0\<bar> * g1 + \<bar>v1\<bar> * (g1 * ?q + ?r)" by (simp only:)
    then have n: "\<bar>?v\<bar> * g1 + \<bar>v1\<bar> * ?r = n" using 1(5) q(3) by (simp add: add.commute)
    have c: "a * ?v mod n = ?r mod n"
    proof -
      have "a * ?v = a * v0 - ?q * (a * v1)" by (simp add: algebra_simps)
      also have "(a * v0 - ?q * (a * v1)) mod n = (g0 - ?q * g1) mod n"
        by (intro mod_diff_cong mod_mult_cong refl 1(6,7))
      also have "g0 - ?q * g1 = ?r" by (simp add: minus_div_mult_eq_mod)
      finally show ?thesis .
    qed
    have "gcd g1 ?r = gcd g0 g1" by (simp add: gcd_red_int [of g0 g1])
    moreover have "\<bar>v1\<bar> \<le> n"
    proof -
      have "\<bar>v1\<bar> * 1 \<le> \<bar>v1\<bar> * g0" using 1(3) by (intro mult_left_mono) auto
      also have "\<dots> \<le> n" using 1(5) mult_nonneg_nonneg [OF abs_ge_zero [of v0] 1(2)] by linarith
      finally show ?thesis by simp
    qed
    ultimately show ?thesis
      using 1(1) [OF False q(2) _ s n 1(7) c] 1(2) False by (simp add: inverse_loop.simps [of g0 g1])
  qed
qed

lemma mpz_mod_inverse_correct:
  assumes "coprime a n" "1 < n"
  shows "a * mpz_mod_inverse a n mod n = 1 \<and> 0 < mpz_mod_inverse a n \<and> mpz_mod_inverse a n < n"
proof -
  define v where "v = inverse_loop (int n) (int a) 0 1"
  have "int a * v mod int n = gcd (int n) (int a) mod int n \<and> \<bar>v\<bar> \<le> int n"
    unfolding v_def by (rule inverse_loop_result) (use assms(2) in auto)
  moreover have "gcd (int n) (int a) = 1" using assms(1) by (simp add: coprime_iff_gcd_eq_1 gcd.commute)
  ultimately have v: "int a * v mod int n = 1" "\<bar>v\<bar> \<le> int n" using assms(2) by simp_all
  have "\<not> int n dvd v"
  proof
    assume "int n dvd v"
    then have "int a * v mod int n = 0" by simp
    then show False using v(1) by simp
  qed
  then have "v \<noteq> 0" "v \<noteq> int n" "v \<noteq> - int n" by auto
  define x where "x = (if v < 0 then v + int n else v)"
  have x: "mpz_mod_inverse a n = nat x" by (simp add: mpz_mod_inverse_def x_def v_def Let_def)
  have b: "0 < x" "x < int n" using v(2) \<open>v \<noteq> 0\<close> \<open>v \<noteq> int n\<close> \<open>v \<noteq> - int n\<close> by (auto simp: x_def)
  have "int a * x mod int n = 1" using v(1) by (simp add: x_def distrib_left)
  then have "int (a * nat x mod n) = 1" using b by (simp add: zmod_int)
  then show ?thesis using b x by (simp add: nat_less_iff)
qed

section \<open>The public exponent\<close>

lemma public_exponent_exists:
  fixes e phi :: nat
  assumes "0 < phi" "odd e" shows "\<exists>k. gcd (e + 2 + 2 * k) phi = 1"
proof -
  let ?m = "1 + phi * (2 * (e + 2))"
  have "e + 2 \<le> ?m" using assms(1) by (cases phi) auto
  moreover have "even (?m - (e + 2))" using assms(2) calculation by (auto elim!: oddE)
  ultimately obtain k where k: "?m = e + 2 + 2 * k" by (metis evenE le_add_diff_inverse)
  have "gcd ?m phi = gcd phi 1" by (metis gcd.commute gcd_add_mult mult.commute add.commute)
  then show ?thesis using k by (metis gcd_1_nat)
qed

lemma public_exponent_result:
  assumes "gcd (e + 2 + 2 * k) phi = 1"
  shows "\<exists>x. public_exponent phi e = Some x \<and> coprime x phi \<and> e + 2 \<le> x"
  using assms
proof (induction k arbitrary: e)
  case 0
  then show ?case by (simp add: public_exponent.simps [of phi e] coprime_iff_gcd_eq_1)
next
  case (Suc k)
  show ?case
  proof (cases "gcd (e + 2) phi = 1")
    case True
    then show ?thesis by (simp add: public_exponent.simps [of phi e] coprime_iff_gcd_eq_1)
  next
    case False
    have "gcd (e + 2 + 2 + 2 * k) phi = 1" using Suc.prems by (simp add: add_ac)
    from Suc.IH [OF this] False show ?thesis by (auto simp: public_exponent.simps [of phi e] Let_def)
  qed
qed

section \<open>Well-formed keys\<close>

definition key_wf :: "RSAPrivateKey \<Rightarrow> bool" where
  "key_wf k \<longleftrightarrow> is_prime (prv_p k) \<and> is_prime (prv_q k) \<and> 2 < prv_p k \<and> prv_p k < prv_q k \<and>
     prv_n k = prv_p k * prv_q k \<and> prv_p k * prv_u k mod prv_q k = 1 \<and>
     prv_e k * prv_d k mod (prv_p k - 1) = 1 \<and> prv_e k * prv_d k mod (prv_q k - 1) = 1 \<and> 3 \<le> prv_e k"

lemma derive_rsa_keys_wf:
  assumes "is_prime p" "is_prime q" "2 < p" "p < q" "1 \<le> ebits"
  shows "\<exists>n e d u. derive_rsa_keys p q ebits = Some (Inr (n, e, d, u)) \<and> 2 ^ ebits < e \<and>
     key_wf (fst (key_pair bits p q (n, e, d, u)))"
proof -
  let ?phi = "(p - 1) * (q - 1)" and ?G = "gcd (p - 1) (q - 1)"
  let ?F = "?phi div ?G"
  have odd: "odd (2 ^ ebits - 1 :: nat)" using assms(5) by simp
  have phi: "0 < ?phi" using assms by simp
  then obtain j where "gcd (2 ^ ebits - 1 + 2 + 2 * j) ?phi = 1"
    using exE [OF public_exponent_exists [OF _ odd, of ?phi]] by metis
  from public_exponent_result [OF this] obtain e where
    e: "public_exponent ?phi (2 ^ ebits - 1) = Some e" "coprime e ?phi" "2 ^ ebits - 1 + 2 \<le> e" by blast
  have "?F = (p - 1) * ((q - 1) div ?G)" by (rule div_mult_swap [symmetric]) simp
  then have Fp: "(p - 1) dvd ?F" by simp
  have "(q - 1) * (p - 1) div ?G = (q - 1) * ((p - 1) div ?G)" by (rule div_mult_swap [symmetric]) simp
  then have Fq: "(q - 1) dvd ?F" by (metis dvd_triv_left mult.commute)
  have "?G dvd ?phi" by (rule dvd_mult2) simp
  then have FG: "?F * ?G = ?phi" by (rule dvd_div_mult_self)
  then have "?F dvd ?phi" by (metis dvd_triv_left)
  with e(2) have "coprime e ?F" by (meson coprime_divisors dvd_refl)
  moreover have "1 < ?F"
  proof -
    have "0 < ?F" using FG phi by (metis gr0I mult_0 less_irrefl)
    with Fq have "q - 1 \<le> ?F" by (rule dvd_imp_le)
    then show ?thesis using assms(3,4) by linarith
  qed
  ultimately have d: "e * mpz_mod_inverse e ?F mod ?F = 1" using mpz_mod_inverse_correct by blast
  have u: "p * mpz_mod_inverse p q mod q = 1"
    using mpz_mod_inverse_correct [OF distinct_primes_coprime [OF assms(1,2,4)]] assms by simp
  have ed: "e * mpz_mod_inverse e ?F mod m = 1" if "m dvd ?F" "1 < m" for m
  proof -
    have "e * mpz_mod_inverse e ?F mod m = 1 mod m" using mod_mod_cancel [OF that(1), of "e * mpz_mod_inverse e ?F"] by (simp only: d)
    then show ?thesis using that(2) by (simp only: mod_less)
  qed
  have "(2::nat) \<le> 2 ^ ebits" using assms(5) by (metis power_increasing one_le_numeral power_one_right)
  then have e2: "2 ^ ebits < e" "3 \<le> e" using e(3) by linarith+
  let ?k = "(p * q, e, mpz_mod_inverse e ?F, mpz_mod_inverse p q)"
  have k: "derive_rsa_keys p q ebits = Some (Inr ?k)"
    using assms(4) e(1) by (simp only: derive_rsa_keys_def Let_def option.case simp_thms if_False)
  have "1 < p - 1" "1 < q - 1" using assms(3,4) by linarith+
  then have "key_wf (fst (key_pair bits p q ?k))"
    using assms(1-4) e2(2) u ed [OF Fp] ed [OF Fq] by (simp only: key_wf_def key_pair_def split fst_conv RSAPrivateKey.simps simp_thms)
  then show ?thesis using k e2(1) by blast
qed

section \<open>The private operation is exponentiation\<close>

lemma rsa_private_crt:
  assumes wf: "key_wf k" shows "rsa_private x k = x ^ prv_d k mod prv_n k"
proof -
  let ?p = "prv_p k" and ?q = "prv_q k" and ?d = "prv_d k"
  have k: "is_prime ?p" "is_prime ?q" "2 < ?p" "?p < ?q" "prv_n k = ?p * ?q" "?p * prv_u k mod ?q = 1"
    "prv_e k * ?d mod (?p - 1) = 1" "prv_e k * ?d mod (?q - 1) = 1" using wf by (simp_all add: key_wf_def)
  have dnz: "?d mod m \<noteq> 0" if "prv_e k * ?d mod m = 1" for m
    using that by (metis mod_mult_right_eq mult_0_right mod_0 zero_neq_one)
  define p2 where "p2 = (x mod ?p) ^ (?d mod (?p - 1)) mod ?p"
  define q2 where "q2 = (x mod ?q) ^ (?d mod (?q - 1)) mod ?q"
  have p2: "p2 = x ^ ?d mod ?p"
    using power_mod_prime_exponent [OF k(1) dnz [OF k(7)], of "x mod ?p"] by (simp add: p2_def power_mod)
  have q2: "q2 = x ^ ?d mod ?q"
    using power_mod_prime_exponent [OF k(2) dnz [OF k(8)], of "x mod ?q"] by (simp add: q2_def power_mod)
  define j where "j = nat ((int q2 - int p2) * int (prv_u k) mod int ?q)"
  have j: "int j = (int q2 - int p2) * int (prv_u k) mod int ?q" "j < ?q" using k by (simp_all add: j_def nat_less_iff)
  have out: "rsa_private x k = ?p * j + p2" by (simp add: rsa_private_def p2_def q2_def j_def Let_def)
  have modp: "(?p * j + p2) mod ?p = x ^ ?d mod ?p" by (simp add: p2)
  have "int ((?p * j + p2) mod ?q) = (int ?p * ((int q2 - int p2) * int (prv_u k) mod int ?q) + int p2) mod int ?q"
    by (simp add: zmod_int j(1))
  also have "\<dots> = (int (?p * prv_u k mod ?q) * (int q2 - int p2) + int p2) mod int ?q"
  proof -
    have "(p * (a * u mod q) + b) mod q = (p * (a * u) + b) mod q" for p a u q b :: int
      by (metis mod_add_left_eq mod_mult_right_eq)
    moreover have "((p * u mod q) * a + b) mod q = (p * u * a + b) mod q" for p a u q b :: int
      by (metis mod_add_left_eq mod_mult_left_eq)
    ultimately show ?thesis by (simp add: zmod_int mult_ac)
  qed
  also have "\<dots> = int q2 mod int ?q" by (simp only: k(6)) simp
  finally have "(?p * j + p2) mod ?q = q2 mod ?q" by (simp only: zmod_int [symmetric] of_nat_eq_iff)
  then have modq: "(?p * j + p2) mod ?q = x ^ ?d mod ?q" by (simp add: q2)
  have "p2 < ?p" using k by (simp add: p2)
  then have "?p * j + p2 < ?p * (j + 1)" by simp
  also have "\<dots> \<le> ?p * ?q" using j(2) by (intro mult_le_mono2) simp
  finally have "?p * j + p2 = (?p * j + p2) mod (?p * ?q)" by simp
  also have "\<dots> = x ^ ?d mod (?p * ?q)" by (rule crt_unique [OF modp modq distinct_primes_coprime [OF k(1,2,4)]])
  finally show ?thesis by (simp add: out k(5))
qed

lemma exponents_inverse:
  assumes wf: "key_wf k" and x: "x < prv_n k" shows "x ^ (prv_e k * prv_d k) mod prv_n k = x"
proof -
  have k: "is_prime (prv_p k)" "is_prime (prv_q k)" "2 < prv_p k" "prv_p k < prv_q k" "prv_n k = prv_p k * prv_q k"
    "prv_e k * prv_d k mod (prv_p k - 1) = 1" "prv_e k * prv_d k mod (prv_q k - 1) = 1" using wf by (simp_all add: key_wf_def)
  have pos: "1 \<le> prv_e k * prv_d k" using k(6) by (metis le_numeral_extra(3) less_one mod_0 not_le zero_neq_one)
  have "x ^ (prv_e k * prv_d k) mod prv_p k = x mod prv_p k" "x ^ (prv_e k * prv_d k) mod prv_q k = x mod prv_q k"
    using k pos by (simp_all add: power_inverse_prime)
  then have "x ^ (prv_e k * prv_d k) mod (prv_p k * prv_q k) = x mod (prv_p k * prv_q k)"
    using distinct_primes_coprime [OF k(1,2,4)] by (rule crt_unique)
  then show ?thesis using x k(5) by simp
qed

definition public_of :: "RSAPrivateKey \<Rightarrow> RSAPublicKey \<Rightarrow> bool" where
  "public_of k pub \<longleftrightarrow> pub_bits pub = prv_bits k \<and> pub_e pub = prv_e k \<and> pub_n pub = prv_n k"

lemma key_operations_inverse:
  assumes "key_wf k" "public_of k pub" "x < prv_n k"
  shows "rsa_private (rsa_public x pub) k = x" "rsa_public (rsa_private x k) pub = x"
  using exponents_inverse [OF assms(1,3)] assms(2)
  by (simp_all add: rsa_private_crt [OF assms(1)] rsa_public_def public_of_def power_mod power_mult [symmetric] mult.commute)

section \<open>Key generation\<close>

lemma second_prime_result:
  assumes "second_prime rnd probab qb p r = Some (Inr (p', q', r'))" "good_prime probab pb p"
    "pb \<noteq> 0" "qb = pb \<or> unat qb = unat pb + 1" "2 \<le> pb"
  shows "p' < q' \<and> good_prime probab pb p' \<and> good_prime probab qb q' \<and> gcd p' q' = 1 \<and> q' div 2 ^ 10 \<le> q' - p'"
proof -
  have "\<forall>p' q' r'. res = Inr (p', q', r') \<longrightarrow> good_prime probab pb p \<longrightarrow> qb = pb \<or> unat qb = unat pb + 1 \<longrightarrow>
      p' < q' \<and> good_prime probab pb p' \<and> good_prime probab qb q' \<and> gcd p' q' = 1 \<and> q' div 2 ^ 10 \<le> q' - p'"
    if "second_prime rnd probab qb p r = Some res" for res
    using that
  proof (induction rule: second_prime.raw_induct [rotated, consumes 1, case_names step])
    case (step f rnd probab qb p r res)
    show ?case
    proof (intro allI impI)
      fix p' q' r'
      assume res: "res = Inr (p', q', r')" and gp: "good_prime probab pb p" and w: "qb = pb \<or> unat qb = unat pb + 1"
      from step(2) res obtain q r1 where q: "rsa_random_prime rnd probab r qb = Some (Inr (q, r1))"
        by (auto split: option.splits sum.splits)
      have "qb \<noteq> 0" using w assms(3) by auto
      with q have gq: "good_prime probab qb q" by (rule rsa_random_prime_good)
      have mm: "good_prime probab pb (min p q) \<and> good_prime probab qb (max p q)"
      proof (cases "qb = pb")
        case True
        then show ?thesis using gp gq by (simp add: min_def max_def)
      next
        case False
        then have u: "unat qb = unat pb + 1" using w by simp
        have "2 \<le> qb" "2 \<le> unat pb" using u assms(5) by (simp_all add: word_le_nat_alt)
        then have "3 * 2 ^ (unat pb - 1) \<le> q" using gq u by (simp add: good_prime_def)
        moreover have "(2::nat) ^ unat pb = 2 * 2 ^ (unat pb - 1)" using \<open>2 \<le> unat pb\<close> by (metis One_nat_def Suc_1 Suc_le_D diff_Suc_1 power_Suc)
        ultimately have "p < q" using gp by (simp add: good_prime_def)
        then show ?thesis using gp gq by simp
      qed
      let ?p = "min p q" and ?q = "max p q"
      let ?again = "p = q \<or> ?q - ?p < ?q div 2 ^ 10 \<or> gcd ?p ?q \<noteq> 1"
      show "p' < q' \<and> good_prime probab pb p' \<and> good_prime probab qb q' \<and> gcd p' q' = 1 \<and> q' div 2 ^ 10 \<le> q' - p'"
      proof (cases ?again)
        case True
        obtain p1 where "good_prime probab pb p1" "f rnd probab qb p1 r1 = Some res"
        proof (cases "p = q")
          case True
          then have "f rnd probab qb p r1 = Some res" using step(2) q by simp
          then show ?thesis using gp that by blast
        next
          case False
          then have "f rnd probab qb ?p r1 = Some res" using step(2) q \<open>?again\<close> by (simp add: Let_def split: if_splits)
          then show ?thesis using mm that by blast
        qed
        from step(1) [OF this(2)] this(1) w res show ?thesis by blast
      next
        case False
        then have "res = Inr (?p, ?q, r1)" using step(2) q by (simp add: Let_def)
        then have "p' = ?p" "q' = ?q" using res by simp_all
        moreover have "?p < ?q" using False by (cases "p < q") auto
        moreover have "gcd ?p ?q = 1" "?q div 2 ^ 10 \<le> ?q - ?p" using False by (simp_all only: not_less de_Morgan_disj not_not)
        ultimately show ?thesis using mm by (simp only:)
      qed
    qed
  qed
  with assms show ?thesis by blast
qed

lemma good_prime_3:
  assumes "good_prime probab bits p" "is_prime p" shows "3 \<le> p"
proof (rule ccontr)
  assume "\<not> 3 \<le> p"
  then have "p = 2" using is_prime_gt_1 [OF assms(2)] by simp
  then show False using assms(1) by (simp add: good_prime_def)
qed

lemma modulus_bound:
  fixes a b p q :: nat
  assumes "2 \<le> a" "2 \<le> b" "3 * 2 ^ (a - 2) \<le> p" "p < 2 ^ a" "3 * 2 ^ (b - 2) \<le> q" "q < 2 ^ b"
  shows "2 ^ (a + b - 1) \<le> p * q \<and> p * q < 2 ^ (a + b)"
proof -
  have "(2::nat) ^ (a + b - 1) = 8 * (2 ^ (a - 2) * 2 ^ (b - 2))"
  proof -
    have "a + b - 1 = 3 + (a - 2 + (b - 2))" using assms(1,2) by simp
    then show ?thesis by (simp only: power_add) simp
  qed
  also have "\<dots> \<le> 3 * 2 ^ (a - 2) * (3 * 2 ^ (b - 2))" by simp
  also have "\<dots> \<le> p * q" using assms(3,5) by (rule mult_le_mono)
  finally have "2 ^ (a + b - 1) \<le> p * q" .
  moreover have "p * q < 2 ^ a * 2 ^ b" using assms(4,6) by (rule mult_strict_mono) auto
  ultimately show ?thesis by (simp add: power_add)
qed

text \<open>What \<^verbatim>\<open>rsa_generate_key\<close> returns when the primality test accepts only primes.\<close>

definition key_good :: "u32 \<Rightarrow> RSAPrivateKey \<Rightarrow> RSAPublicKey \<Rightarrow> bool" where
  "key_good bits k pub \<longleftrightarrow> key_wf k \<and> public_of k pub \<and> prv_bits k = bits \<and>
     2 ^ (unat bits - 1) \<le> prv_n k \<and> prv_n k < 2 ^ unat bits \<and> 32 < prv_e k"

lemma generated_key:
  assumes pp: "\<And>x. probab x \<Longrightarrow> is_prime x" and b: "4 \<le> bits"
    and p: "rsa_random_prime rnd probab r (bits div 2) = Some (Inr (p0, r1))"
    and q: "second_prime rnd probab (bits - bits div 2) p0 r1 = Some (Inr (p, q, r2))"
    and d: "derive_rsa_keys p q 5 = Some (Inr k)"
  shows "key_good bits (fst (key_pair bits p q k)) (snd (key_pair bits p q k))"
proof -
  have u: "unat (bits div 2) = unat bits div 2" "unat (bits - bits div 2) = unat bits - unat bits div 2"
    by (simp_all add: unat_div unat_sub word_le_nat_alt)
  have ub: "4 \<le> unat bits" using b by (simp add: word_le_nat_alt)
  have h: "2 \<le> bits div 2" "2 \<le> bits - bits div 2" "bits div 2 \<noteq> 0" using u ub by (auto simp: word_le_nat_alt)
  have w: "bits - bits div 2 = bits div 2 \<or> unat (bits - bits div 2) = unat (bits div 2) + 1"
    unfolding word_unat_eq_iff u by presburger
  have g: "p < q" "good_prime probab (bits div 2) p" "good_prime probab (bits - bits div 2) q"
    using second_prime_result [OF q rsa_random_prime_good [OF p h(3)] h(3) w h(1)] by simp_all
  have pr: "is_prime p" "is_prime q" using g pp by (auto simp: good_prime_def acceptable_def prime_test_def)
  have p3: "2 < p" using good_prime_3 [OF g(2) pr(1)] by simp
  from derive_rsa_keys_wf [OF pr p3 g(1), of 5 bits] d obtain n e d u' where
    k: "k = (n, e, d, u')" "2 ^ 5 < e" "key_wf (fst (key_pair bits p q k))" by auto
  have n: "n = p * q" using k(1,3) by (simp add: key_wf_def key_pair_def)
  have "unat bits div 2 + (unat bits - unat bits div 2) = unat bits" by simp
  then have "2 ^ (unat bits - 1) \<le> n \<and> n < 2 ^ unat bits"
    using modulus_bound [of "unat bits div 2" "unat bits - unat bits div 2" p q] g h u ub unfolding n good_prime_def by simp
  then show ?thesis using k by (simp add: key_good_def public_of_def key_pair_def)
qed

lemma rsa_generate_key_good:
  assumes pp: "\<And>x. probab x \<Longrightarrow> is_prime x" and b: "4 \<le> bits"
    and g: "rsa_generate_key rnd probab r bits = Some (Inr (k, pub, r'))"
  shows "key_good bits k pub"
proof -
  have "\<forall>k pub r'. res = Inr (k, pub, r') \<longrightarrow> (\<forall>x. probab x \<longrightarrow> is_prime x) \<longrightarrow> 4 \<le> bits \<longrightarrow> key_good bits k pub"
    if "rsa_generate_key rnd probab r bits = Some res" for res
    using that
  proof (induction rule: rsa_generate_key.raw_induct [rotated, consumes 1, case_names step])
    case (step f rnd probab r bits res)
    show ?case
    proof (intro allI impI)
      fix k pub r'
      assume res: "res = Inr (k, pub, r')" and pp: "\<forall>x. probab x \<longrightarrow> is_prime x" and b: "4 \<le> bits"
      from step(2) res obtain p0 r1 where p: "rsa_random_prime rnd probab r (bits div 2) = Some (Inr (p0, r1))"
        by (auto split: option.splits sum.splits)
      with step(2) res obtain p q r2 where q: "second_prime rnd probab (bits - bits div 2) p0 r1 = Some (Inr (p, q, r2))"
        by (auto split: option.splits sum.splits)
      with step(2) res p obtain kk where d: "derive_rsa_keys p q 5 = Some (Inr kk)"
        by (auto split: option.splits sum.splits)
      obtain prv pb where kp: "key_pair bits p q kk = (prv, pb)" by force
      from step(2) res p q d kp obtain test r3 where t: "rsa_random_integer rnd r2 bits = Inr (test, r3)"
        by (auto split: sum.splits)
      show "key_good bits k pub"
      proof (cases "key_test prv pb (test mod pub_n pb)")
        case True
        then have "k = prv" "pub = pb" using step(2) res p q d kp t by simp_all
        then show ?thesis using generated_key [OF _ b p q d] pp kp by simp
      next
        case False
        then have "f rnd probab r3 bits = Some res" using step(2) p q d kp t by simp
        from step(1) [OF this] res pp b show ?thesis by blast
      qed
    qed
  qed
  with assms show ?thesis by blast
qed

end
