(* ===== verification/AuthFile.thy ===== *)
theory AuthFile
  imports Rsa Cipher
begin

text \<open>
  \<^verbatim>\<open>authfile.c\<close>: private key files. Buffers are plain byte queues, which the simulation of theory
  \<open>Buffer\<close> justifies. What is read from a file is an argument, \<open>None\<close> when the file cannot be opened or
  read; a result \<open>Inr None\<close> is the return value 0. Debug messages are left out, but not the
  calls among their arguments.
\<close>

section \<open>The format\<close>

definition bytes_put_mp_int :: "byte list \<Rightarrow> nat \<Rightarrow> byte list res" where
  "bytes_put_mp_int = put_mp_int_via bytes_put"

definition AUTHFILE_ID_STRING :: "byte list" where
  "AUTHFILE_ID_STRING = map (\<lambda>c. of_nat (of_char c)) ''SSH PRIVATE KEY FILE FORMAT 1.1'' @ [10]"

abbreviation (input) "SSH_AUTHFILE_CIPHER \<equiv> SSH_CIPHER_3DES"

text \<open>The part that will be encrypted: check bytes, the secret numbers, and zeros up to a multiple of eight bytes.\<close>

definition secret_part :: "byte \<Rightarrow> byte \<Rightarrow> RSAPrivateKey \<Rightarrow> byte list res" where
  "secret_part b0 b1 key =
     rbind (bytes_put_mp_int [b0, b1, b0, b1] (prv_d key)) (\<lambda>buffer.
     rbind (bytes_put_mp_int buffer (prv_u key)) (\<lambda>buffer.
     rbind (bytes_put_mp_int buffer (prv_p key)) (\<lambda>buffer.
     rbind (bytes_put_mp_int buffer (prv_q key)) (\<lambda>buffer.
     Inr (buffer @ replicate ((8 - length buffer mod 8) mod 8) 0)))))"

definition public_part :: "int \<Rightarrow> RSAPrivateKey \<Rightarrow> byte list \<Rightarrow> byte list res" where
  "public_part cipher_type key comment =
     (let enc = bytes_put_int (bytes_put_int (AUTHFILE_ID_STRING @ [0, of_int cipher_type]) 0) (prv_bits key)
      in rbind (bytes_put_mp_int enc (prv_n key)) (\<lambda>enc.
         rbind (bytes_put_mp_int enc (prv_e key)) (\<lambda>enc. Inr (bytes_put_string enc comment))))"

definition key_file :: "cipher_config \<Rightarrow> ('r \<Rightarrow> byte \<times> 'r) \<Rightarrow> byte list \<Rightarrow> RSAPrivateKey \<Rightarrow> byte list \<Rightarrow> 'r \<Rightarrow> (byte list \<times> 'r) res" where
  "key_file cfg rnd passphrase key comment state =
     (let cipher_type = (if passphrase = [] then SSH_CIPHER_NONE else SSH_AUTHFILE_CIPHER);
          (b0, state) = rnd state; (b1, state) = rnd state
      in rbind (secret_part b0 b1 key) (\<lambda>buffer.
         rbind (public_part cipher_type key comment) (\<lambda>enc.
         rbind (cipher_set_key_string cfg cipher_type passphrase True) (\<lambda>cipher.
         rbind (cipher_encrypt cfg cipher buffer) (\<lambda>(cp, cipher). Inr (enc @ cp, state))))))"

text \<open>What happens when the file is written: the return value, and the file afterwards.\<close>

datatype file_write = Cannot_open | Short_write | Whole_write

definition save_private_key :: "cipher_config \<Rightarrow> ('r \<Rightarrow> byte \<times> 'r) \<Rightarrow> file_write \<Rightarrow> byte list option \<Rightarrow> byte list \<Rightarrow> RSAPrivateKey \<Rightarrow>
    byte list \<Rightarrow> 'r \<Rightarrow> (bool \<times> byte list option \<times> 'r) res" where
  "save_private_key cfg rnd w old passphrase key comment state =
     rbind (key_file cfg rnd passphrase key comment state) (\<lambda>(encrypted, state).
     Inr (case w of
            Cannot_open \<Rightarrow> (False, old, state)
          | Short_write \<Rightarrow> (False, None, state)
          | Whole_write \<Rightarrow> (True, Some encrypted, state)))"

section \<open>Reading\<close>

fun skip_id :: "byte list \<Rightarrow> byte list \<Rightarrow> byte list option res" where
  "skip_id [] q = Inr (Some q)"
| "skip_id (c # cs) q = rbind (bytes_get_char q) (\<lambda>(b, q). if b \<noteq> c then Inr None else skip_id cs q)"

text \<open>The start of both functions that load a key: size, identification, cipher type and public key.\<close>

definition key_header :: "byte list \<Rightarrow> (int \<times> RSAPublicKey \<times> byte list) option res" where
  "key_header file =
     (if length file > 32000 then Inr None
      else if length file < length AUTHFILE_ID_STRING + 1 then Inr None
      else rbind (skip_id (AUTHFILE_ID_STRING @ [0]) file) (\<lambda>r.
           case r of
             None \<Rightarrow> Inr None
           | Some q \<Rightarrow>
               rbind (bytes_get_char q) (\<lambda>(cipher_type, q).
               rbind (bytes_get_int q) (\<lambda>(_, q).
               rbind (bytes_get_int q) (\<lambda>(bits, q).
               rbind (bytes_get_mp_int q) (\<lambda>(n, q).
               rbind (bytes_get_mp_int q) (\<lambda>(e, q).
               Inr (Some (uint cipher_type, \<lparr>pub_bits = bits, pub_e = e, pub_n = n\<rparr>, q)))))))))"

definition load_public_key :: "byte list option \<Rightarrow> bool \<Rightarrow> (RSAPublicKey \<times> byte list option) option res" where
  "load_public_key file want_comment =
     (case file of
        None \<Rightarrow> Inr None
      | Some file \<Rightarrow>
          rbind (key_header file) (\<lambda>h.
          case h of
            None \<Rightarrow> Inr None
          | Some (_, pub, q) \<Rightarrow>
              if want_comment then rbind (bytes_get_string q) (\<lambda>(comment, q). Inr (Some (pub, Some comment)))
              else Inr (Some (pub, None))))"

text \<open>The secret part, once decrypted: \<open>None\<close> when the check bytes differ.\<close>

definition secret_numbers :: "byte list \<Rightarrow> (nat \<times> nat \<times> nat \<times> nat) option res" where
  "secret_numbers q =
     rbind (bytes_get_char q) (\<lambda>(check1, q).
     rbind (bytes_get_char q) (\<lambda>(check2, q).
     rbind (bytes_get_char q) (\<lambda>(c, q).
     if check1 \<noteq> c then Inr None
     else rbind (bytes_get_char q) (\<lambda>(c, q).
     if check2 \<noteq> c then Inr None
     else
       rbind (bytes_get_mp_int q) (\<lambda>(d, q).
       rbind (bytes_get_mp_int q) (\<lambda>(u, q).
       rbind (bytes_get_mp_int q) (\<lambda>(p, q).
       rbind (bytes_get_mp_int q) (\<lambda>(q', q).
       Inr (Some (d, u, p, q'))))))))))"

text \<open>\<^verbatim>\<open>1 << cipher_type\<close> is undefined for 32 and more.\<close>

definition load_private_key :: "cipher_config \<Rightarrow> byte list option \<Rightarrow> byte list \<Rightarrow> (RSAPrivateKey \<times> byte list) option res" where
  "load_private_key cfg file passphrase =
     (case file of
        None \<Rightarrow> Inr None
      | Some file \<Rightarrow>
          rbind (key_header file) (\<lambda>h.
          case h of
            None \<Rightarrow> Inr None
          | Some (cipher_type, pub, q) \<Rightarrow>
              rbind (bytes_get_string q) (\<lambda>(comment, q).
              rbind (ensure (cipher_type < 32) (Undefined ''1 << cipher_type'')) (\<lambda>_.
              if cipher_type \<noteq> SSH_CIPHER_NONE \<and> \<not> bit (cipher_mask cfg) (nat cipher_type) then
                rbind (cipher_name cipher_type) (\<lambda>_. Inr None)
              else
                rbind (cipher_set_key_string cfg cipher_type passphrase False) (\<lambda>cipher.
                rbind (cipher_decrypt cfg cipher q) (\<lambda>(decrypted, cipher).
                rbind (secret_numbers decrypted) (\<lambda>s.
                case s of
                  None \<Rightarrow> Inr None
                | Some (d, u, p, q) \<Rightarrow>
                    Inr (Some (\<lparr>prv_bits = pub_bits pub, prv_n = pub_n pub, prv_e = pub_e pub, prv_d = d, prv_u = u,
                                prv_p = p, prv_q = q\<rparr>, comment)))))))))"

section \<open>Fields\<close>

definition mp_field :: "nat \<Rightarrow> byte list" where
  "mp_field v = PUT_16BIT (of_nat (bit_length v)) @ hex_to_bytes (hex_digits v)"

lemma put_mp_field [simp]: "bytes_put_mp_int q v = Inr (q @ mp_field v)"
  by (simp add: bytes_put_mp_int_def put_mp_int_via_def bytes_put_def mp_bytes mp_field_def Let_def)

lemma get_mp_field [simp]:
  assumes "bit_length v < 2 ^ 16" shows "bytes_get_mp_int (mp_field v @ q) = Inr (v, q)"
  using bq.get_mp_int_law [of "mp_field v @ q" "bit_length v" "hex_to_bytes (hex_digits v)" q] assms bit_length_pos [of v]
  by (simp add: bytes_get_mp_int_def mp_field_def mp_bytes)

lemma get_char_field [simp]: "bytes_get_char (b # q) = Inr (b, q)"
  by (simp add: bytes_get_char_def get_char_via_def bytes_get_def)

lemma get_int_field [simp]: "bytes_get_int (PUT_32BIT v @ q) = Inr (v, q)"
  by (simp add: bytes_get_int_def get_int_via_def bytes_get_def)

lemma get_string_field:
  "length str \<le> 256 * 1024 \<Longrightarrow> bytes_get_string (PUT_32BIT (of_nat (length str)) @ str @ q) = Inr (str, q)"
  using bq.get_string_law [of "PUT_32BIT (of_nat (length str)) @ str @ q" str q] by (simp add: bytes_get_string_def)

lemma skip_id_same [simp]: "skip_id cs (cs @ q) = Inr (Some q)"
  by (induction cs) simp_all

lemma skip_id_last [simp]: "skip_id (cs @ [b]) (cs @ b # q) = Inr (Some q)"
  using skip_id_same [of "cs @ [b]" q] by simp

definition pad8 :: "byte list \<Rightarrow> byte list" where
  "pad8 b = b @ replicate ((8 - length b mod 8) mod 8) 0"

lemma pad8_dvd: "8 dvd length (pad8 b)"
proof -
  have "(length b + (8 - length b mod 8) mod 8) mod 8 = 0"
  proof (cases "length b mod 8 = 0")
    case False
    have "length b mod 8 < 8" by simp
    then have "length b mod 8 + (8 - length b mod 8) = 8" by linarith
    then have "(length b mod 8 + (8 - length b mod 8)) mod 8 = 0" by simp
    then have "(length b + (8 - length b mod 8)) mod 8 = 0" by (simp only: mod_add_left_eq)
    then show ?thesis by (simp only: mod_add_right_eq)
  qed simp
  then show ?thesis unfolding pad8_def dvd_eq_mod_eq_0 length_append length_replicate .
qed

lemma set_key_string:
  assumes "c = 0 \<or> c = 3"
  shows "\<exists>ctx. (\<forall>e. cipher_set_key_string cfg c passphrase e = Inr ctx) \<and> keyed cfg ctx"
proof -
  let ?k = "MD5Final (MD5Update MD5Init passphrase)"
  have "available cfg c" using assms by (auto simp: available_def)
  then obtain ctx where k: "cipher_set_key cfg c ?k True = Inr ctx"
    using cipher_set_key_total [of cfg c ?k True] by (auto simp: MD5Final_length)
  then have "cipher_set_key cfg c ?k e = Inr ctx" for e
    by (cases e) (simp_all add: cipher_set_key_direction)
  then show ?thesis using cipher_set_key_keyed [OF k] by (auto simp: cipher_set_key_string_def)
qed

section \<open>Files that were saved\<close>

definition small_key :: "RSAPrivateKey \<Rightarrow> bool" where
  "small_key k \<longleftrightarrow> (\<forall>v \<in> {prv_n k, prv_e k, prv_d k, prv_u k, prv_p k, prv_q k}. bit_length v < 2 ^ 16)"

definition secret_bytes :: "byte \<Rightarrow> byte \<Rightarrow> RSAPrivateKey \<Rightarrow> byte list" where
  "secret_bytes b0 b1 k = pad8 ([b0, b1, b0, b1] @ mp_field (prv_d k) @ mp_field (prv_u k) @ mp_field (prv_p k) @ mp_field (prv_q k))"

definition public_bytes :: "int \<Rightarrow> RSAPrivateKey \<Rightarrow> byte list \<Rightarrow> byte list" where
  "public_bytes c k comment =
     (AUTHFILE_ID_STRING @ [0]) @ of_int c # PUT_32BIT 0 @ PUT_32BIT (prv_bits k) @ mp_field (prv_n k) @ mp_field (prv_e k) @
     PUT_32BIT (of_nat (length comment)) @ comment"

lemma secret_part_bytes: "secret_part b0 b1 k = Inr (secret_bytes b0 b1 k)"
  by (simp add: secret_part_def secret_bytes_def pad8_def)

lemma public_part_bytes: "public_part c k comment = Inr (public_bytes c k comment)"
  by (simp add: public_part_def public_bytes_def bytes_put_int_def bytes_put_string_def)

lemma secret_numbers_bytes:
  assumes "small_key k"
  shows "secret_numbers (secret_bytes b0 b1 k) = Inr (Some (prv_d k, prv_u k, prv_p k, prv_q k))"
  using assms by (simp add: secret_numbers_def secret_bytes_def pad8_def small_key_def)

lemma key_header_bytes:
  assumes "small_key k" "length (public_bytes c k comment @ rest) \<le> 32000" "0 \<le> c" "c < 256"
  shows "key_header (public_bytes c k comment @ rest) =
    Inr (Some (c, \<lparr>pub_bits = prv_bits k, pub_e = prv_e k, pub_n = prv_n k\<rparr>, PUT_32BIT (of_nat (length comment)) @ comment @ rest))"
proof -
  have "uint (of_int c :: byte) = c" using assms(3,4) by (simp add: unsigned_of_int take_bit_int_eq_self)
  moreover have "\<not> length (public_bytes c k comment @ rest) < length AUTHFILE_ID_STRING + 1" by (simp add: public_bytes_def)
  ultimately show ?thesis
    using assms(1,2) unfolding key_header_def public_bytes_def small_key_def
    by (simp del: length_append)
qed

section \<open>Properties\<close>

text \<open>C8: Key files round trip. \<^verbatim>\<open>save_private_key\<close> always produces a file; if it is not too large, then with the same
  passphrase (also the empty one, which leaves the file unencrypted) \<^verbatim>\<open>load_private_key\<close> returns exactly the key and the
  comment, and \<^verbatim>\<open>load_public_key\<close> the public part and the comment without a passphrase.\<close>

theorem private_key_file_roundtrip:
  assumes "small_key k"
  shows "\<exists>f s'. save_private_key cfg rnd Whole_write old passphrase k comment s = Inr (True, Some f, s') \<and>
    (length f \<le> 32000 \<longrightarrow>
       load_private_key cfg (Some f) passphrase = Inr (Some (k, comment)) \<and>
       load_public_key (Some f) True = Inr (Some (\<lparr>pub_bits = prv_bits k, pub_e = prv_e k, pub_n = prv_n k\<rparr>, Some comment)))"
proof -
  obtain b0 s0 where r0: "rnd s = (b0, s0)" by force
  obtain b1 s1 where r1: "rnd s0 = (b1, s1)" by force
  define c :: int where "c = (if passphrase = [] then 0 else 3)"
  have c: "c = 0 \<or> c = 3" "0 \<le> c" "c < 256" "c < 32" by (auto simp: c_def)
  obtain ctx where ctx: "\<And>e. cipher_set_key_string cfg c passphrase e = Inr ctx" "keyed cfg ctx"
    using set_key_string [OF c(1)] by blast
  let ?secret = "secret_bytes b0 b1 k"
  obtain enc ctx' where enc: "cipher_encrypt cfg ctx ?secret = Inr (enc, ctx')" "cipher_decrypt cfg ctx enc = Inr (?secret, ctx')"
    using cipher_inverse [OF ctx(2), of ?secret] pad8_dvd unfolding secret_bytes_def by blast
  let ?f = "public_bytes c k comment @ enc"
  have "key_file cfg rnd passphrase k comment s = Inr (?f, s1)"
    using r0 r1 ctx(1) enc(1) unfolding key_file_def c_def [symmetric]
    by (simp add: secret_part_bytes public_part_bytes)
  moreover have "load_private_key cfg (Some ?f) passphrase = Inr (Some (k, comment)) \<and>
      load_public_key (Some ?f) True = Inr (Some (\<lparr>pub_bits = prv_bits k, pub_e = prv_e k, pub_n = prv_n k\<rparr>, Some comment))"
    if "length ?f \<le> 32000"
  proof -
    have h: "key_header ?f = Inr (Some (c, \<lparr>pub_bits = prv_bits k, pub_e = prv_e k, pub_n = prv_n k\<rparr>,
        PUT_32BIT (of_nat (length comment)) @ comment @ enc))"
      using assms that c(2,3) by (rule key_header_bytes)
    have "length comment \<le> 256 * 1024" using that by (simp add: public_bytes_def)
    then have s: "bytes_get_string (PUT_32BIT (of_nat (length comment)) @ comment @ enc) = Inr (comment, enc)" by (rule get_string_field)
    have m: "(c \<noteq> 0 \<and> \<not> bit (cipher_mask cfg) (nat c)) = False" using c(1) by (auto simp: bit_cipher_mask)
    show ?thesis
      using c(4) by (simp add: m load_private_key_def load_public_key_def h s ctx(1) enc(2) secret_numbers_bytes [OF assms])
  qed
  ultimately show ?thesis by (simp add: save_private_key_def)
qed

theorem private_key_file_roundtrip_witness:
  "\<exists>f s'. save_private_key \<lparr>with_none = False, with_idea = True, with_des = False, with_arcfour = False, with_blowfish = False\<rparr>
     (\<lambda>n. (of_nat n, n + 1)) Whole_write None [115, 101, 99]
     \<lparr>prv_bits = 25, prv_n = 18938929, prv_e = 37, prv_d = 2131723, prv_u = 879, prv_p = 3079, prv_q = 6151\<rparr> [109, 101] (5::nat) =
     Inr (True, Some f, s')"
proof -
  have "small_key \<lparr>prv_bits = 25, prv_n = 18938929, prv_e = 37, prv_d = 2131723, prv_u = 879, prv_p = 3079, prv_q = 6151\<rparr>"
    by (simp add: small_key_def bit_length.simps)
  from private_key_file_roundtrip [OF this, of "\<lparr>with_none = False, with_idea = True, with_des = False, with_arcfour = False, with_blowfish = False\<rparr>"
    "\<lambda>n. (of_nat n, n + 1)" None "[115, 101, 99]" "[109, 101]" "5 :: nat"]
  show ?thesis by (elim exE conjE) (intro exI)
qed

text \<open>A key file whose cipher byte is not the number of a cipher ends the program instead of being refused: the debug
  message for an unsupported cipher asks for its name, which is a fatal error.\<close>

theorem unknown_cipher_number_is_fatal:
  assumes "key_header f = Inr (Some (c, pub, q))" and "bytes_get_string q = Inr (comment, q')" and "8 \<le> c" and "c < 32"
  shows "load_private_key cfg (Some f) passphrase = Inl (Fatal ''cipher_name: bad cipher number'')"
proof -
  have "\<not> bit (cipher_mask cfg) (nat c)" using assms(3) by (auto simp: bit_cipher_mask)
  then show ?thesis using assms by (simp add: load_private_key_def cipher_name_def)
qed

theorem unknown_cipher_number_is_fatal_witness:
  "load_private_key \<lparr>with_none = True, with_idea = True, with_des = True, with_arcfour = True, with_blowfish = True\<rparr> (Some (public_bytes 9 \<lparr>prv_bits = 1, prv_n = 1, prv_e = 1, prv_d = 1, prv_u = 1, prv_p = 1, prv_q = 1\<rparr> [])) [] =
     Inl (Fatal ''cipher_name: bad cipher number'')"
proof -
  let ?k = "\<lparr>prv_bits = 1, prv_n = 1, prv_e = 1, prv_d = 1, prv_u = 1, prv_p = 1, prv_q = 1\<rparr> :: RSAPrivateKey"
  have "small_key ?k" by (simp add: small_key_def bit_length.simps)
  moreover have "length (public_bytes 9 ?k [] @ []) \<le> 32000"
    by (simp add: public_bytes_def AUTHFILE_ID_STRING_def mp_field_def mp_bytes bit_length.simps)
  ultimately have "key_header (public_bytes 9 ?k [] @ []) =
      Inr (Some (9, \<lparr>pub_bits = 1, pub_e = 1, pub_n = 1\<rparr>, PUT_32BIT (of_nat (length [])) @ [] @ []))"
    using key_header_bytes [of ?k 9 "[]" "[]"] by simp
  from unknown_cipher_number_is_fatal [OF this get_string_field [of "[]" "[]"]] show ?thesis by simp
qed

end
