(* ===== verification/RsaGlue.thy ===== *)
theory RsaGlue
  imports Rsa
begin

text \<open>
  \<^verbatim>\<open>rsaglue.c\<close> without \<^verbatim>\<open>RSAREF\<close>: encryption with the padding of PKCS 1, type 2, and its removal.
  The bytes \<^verbatim>\<open>rsa_private_decrypt\<close> looks at are written by the same loops as those of
  \<^verbatim>\<open>mp_linearize_msb_first\<close>. A padding byte that never becomes nonzero is \<open>None\<close>. The alarm
  signal sent to the parent before a fatal error is left out.
\<close>

section \<open>The operations\<close>

partial_function (option) nonzero_byte :: "('r \<Rightarrow> byte \<times> 'r) \<Rightarrow> 'r \<Rightarrow> (byte \<times> 'r) option" where
  "nonzero_byte rnd state = (let (b, state) = rnd state in if b = 0 then nonzero_byte rnd state else Some (b, state))"

fun random_padding :: "('r \<Rightarrow> byte \<times> 'r) \<Rightarrow> nat \<Rightarrow> nat \<Rightarrow> 'r \<Rightarrow> (nat \<times> 'r) option" where
  "random_padding rnd 0 aux state = Some (aux, state)"
| "random_padding rnd (Suc n) aux state =
     (case nonzero_byte rnd state of
        None \<Rightarrow> None
      | Some (b, state) \<Rightarrow> random_padding rnd n (aux * 2 ^ 8 + unat b) state)"

definition key_len :: "u32 \<Rightarrow> nat" where
  "key_len bits = unat ((bits + 7) div 8)"

definition rsa_public_encrypt :: "('r \<Rightarrow> byte \<times> 'r) \<Rightarrow> 'r \<Rightarrow> nat \<Rightarrow> RSAPublicKey \<Rightarrow> (nat \<times> 'r) res option" where
  "rsa_public_encrypt rnd state input key =
     (let input_len = (bit_length input + 7) div 8; len = key_len (pub_bits key)
      in if pub_e key < 3 then Some (Inl (Fatal ''Bad public key, POTENTIAL BREAK-IN ATTEMPT!''))
         else if len < input_len + 3 then Some (Inl (Assertion ''len >= input_len + 3''))
         else case random_padding rnd (len - input_len - 3) 2 state of
                None \<Rightarrow> None
              | Some (aux, state) \<Rightarrow>
                  Some (Inr (rsa_public (aux * 2 ^ (8 * (input_len + 1)) + input) key, state)))"

text \<open>
  \<open>separator\<close> is the index at which the loop over the padding stops: a zero byte, or the
  length. The number of bits kept is computed with 32 bit unsigned integers.
\<close>

definition separator :: "byte list \<Rightarrow> nat" where
  "separator value = 2 + length (takeWhile (\<lambda>b. b \<noteq> 0) (drop 2 value))"

definition rsa_private_decrypt :: "nat \<Rightarrow> RSAPrivateKey \<Rightarrow> nat res" where
  "rsa_private_decrypt input key =
     (let output = rsa_private input key; len = key_len (prv_bits key); value = mp_linearize_msb_first len output
      in if len < 2 then Inl (Undefined ''value[1] of a shorter array'')
         else if value ! 0 \<noteq> 0 \<or> value ! 1 \<noteq> 2 then Inl (Fatal ''Bad result from rsa_private_decrypt'')
         else let i = separator value
              in Inr (output mod 2 ^ unat (8 * (of_nat len - of_nat i - 1 :: u32))))"

section \<open>The padding\<close>

definition eventually_nonzero :: "('r \<Rightarrow> byte \<times> 'r) \<Rightarrow> bool" where
  "eventually_nonzero rnd \<longleftrightarrow> (\<forall>r. \<exists>k. fst (rnd (((snd \<circ> rnd) ^^ k) r)) \<noteq> 0)"

lemma nonzero_byte_returns:
  "fst (rnd (((snd \<circ> rnd) ^^ k) r)) \<noteq> 0 \<Longrightarrow> \<exists>b r'. nonzero_byte rnd r = Some (b, r') \<and> b \<noteq> 0"
proof (induction k arbitrary: r)
  case 0
  obtain b r' where "rnd r = (b, r')" by force
  with 0 show ?case by (simp add: nonzero_byte.simps [of rnd r])
next
  case (Suc k)
  obtain b r' where r: "rnd r = (b, r')" by force
  then have "\<exists>b r''. nonzero_byte rnd r' = Some (b, r'') \<and> b \<noteq> 0"
    using Suc.IH [of r'] Suc.prems by (simp add: funpow_Suc_right del: funpow.simps)
  then show ?case using r by (cases "b = 0") (simp_all add: nonzero_byte.simps [of rnd r])
qed

lemma random_padding_returns:
  assumes "eventually_nonzero rnd"
  shows "\<exists>pad r'. random_padding rnd n (be_value bs) r = Some (be_value (bs @ pad), r') \<and> length pad = n \<and> 0 \<notin> set pad"
proof (induction n arbitrary: bs r)
  case 0
  then show ?case by (auto intro!: exI [of _ "[]"])
next
  case (Suc n)
  obtain k where "fst (rnd (((snd \<circ> rnd) ^^ k) r)) \<noteq> 0" using assms unfolding eventually_nonzero_def by blast
  then have "\<exists>b r'. nonzero_byte rnd r = Some (b, r') \<and> b \<noteq> 0" by (rule nonzero_byte_returns)
  then obtain b r1 where b: "nonzero_byte rnd r = Some (b, r1)" "b \<noteq> 0" by blast
  obtain pad r' where p: "random_padding rnd n (be_value (bs @ [b])) r1 = Some (be_value ((bs @ [b]) @ pad), r')"
    "length pad = n" "0 \<notin> set pad" using Suc.IH by blast
  have "be_value bs * 2 ^ 8 + unat b = be_value (bs @ [b])" by (simp add: be_value_append)
  with b p show ?case by (intro exI [of _ "b # pad"] exI [of _ r']) auto
qed

lemma bit_length_bound: "n < 2 ^ bit_length n"
proof (induction n rule: bit_length.induct)
  case (1 n)
  show ?case
  proof (cases "n < 2")
    case False
    with 1 have "n div 2 < 2 ^ bit_length (n div 2)" by simp
    then show ?thesis using False by (simp add: bit_length_step)
  qed (simp add: bit_length.simps)
qed

lemma input_bytes:
  "be_value (mp_linearize_msb_first ((bit_length n + 7) div 8) n) = n"
proof -
  have "n < 2 ^ bit_length n" by (rule bit_length_bound)
  also have "\<dots> \<le> 2 ^ (8 * ((bit_length n + 7) div 8))" by (rule power_increasing) auto
  finally show ?thesis by (simp add: mp_linearize_value power_mult)
qed

lemma key_len_bounds:
  assumes "0 < bits" "unat bits + 7 < 2 ^ 32"
  shows "8 * (key_len bits - 1) < unat bits \<and> unat bits \<le> 8 * key_len bits"
proof -
  have "unat (bits + 7) = unat bits + 7" using assms(2) by (subst unat_add_lem [THEN iffD1]) simp_all
  then have "key_len bits = (unat bits + 7) div 8" by (simp add: key_len_def unat_div)
  moreover have "0 < unat bits" using assms(1) by (simp add: unat_gt_0 word_neq_0_conv)
  ultimately show ?thesis by presburger
qed

lemma padded_less:
  assumes "length bs = len - 2" "2 \<le> len" "8 * (len - 1) < k" shows "be_value (0 # 2 # bs) < 2 ^ (k - 1)"
proof -
  have "be_value (0 # 2 # bs) < 3 * 256 ^ (len - 2)" using be_value_bound [of bs] assms(1) by simp
  also have "\<dots> \<le> 256 ^ (len - 1)"
  proof -
    have "len - 1 = Suc (len - 2)" using assms(2) by simp
    then show ?thesis by simp
  qed
  also have "\<dots> = 2 ^ (8 * (len - 1))" by (simp add: power_mult)
  also have "\<dots> \<le> 2 ^ (k - 1)" using assms(3) by (intro power_increasing) auto
  finally show ?thesis .
qed

lemma separator_padded:
  assumes "0 \<notin> set pad" shows "separator (0 # 2 # pad @ 0 # inp) = 2 + length pad"
proof -
  have "takeWhile (\<lambda>b. b \<noteq> 0) (pad @ 0 # inp) = pad" using assms by (subst takeWhile_append2) auto
  then show ?thesis by (simp add: separator_def)
qed

lemma kept_bits:
  assumes "len = 3 + length pad + il" "len < 2 ^ 29"
  shows "unat (8 * (of_nat len - of_nat (2 + length pad) - 1 :: u32)) = 8 * il"
proof -
  have "(of_nat len :: u32) = of_nat (3 + length pad) + of_nat il" unfolding assms(1) by (rule of_nat_add)
  then have "8 * (of_nat len - of_nat (2 + length pad) - 1 :: u32) = of_nat (8 * il)" by simp
  then have "unat (8 * (of_nat len - of_nat (2 + length pad) - 1 :: u32)) = unat (of_nat (8 * il) :: u32)" by (simp only:)
  also have "\<dots> = 8 * il" using assms by (simp only: unat_of_nat take_bit_eq_mod) simp
  finally show ?thesis .
qed

lemma decrypt_padded:
  assumes len: "key_len (prv_bits k) = length bs" "length bs < 2 ^ 29" and out: "rsa_private c k = be_value bs"
    and bs: "bs = 0 # 2 # pad @ 0 # inp" "0 \<notin> set pad"
  shows "rsa_private_decrypt c k = Inr (be_value inp)"
proof -
  have v: "mp_linearize_msb_first (length bs) (be_value bs) = bs" by (rule mp_linearize_be_value)
  have sep: "separator bs = 2 + length pad" unfolding bs(1) using bs(2) by (rule separator_padded)
  have "length bs = 3 + length pad + length inp" using bs(1) by simp
  then have kept: "unat (8 * (of_nat (length bs) - of_nat (2 + length pad) - 1 :: u32)) = 8 * length inp"
    using kept_bits len(2) by blast
  have "be_value bs mod 2 ^ (8 * length inp) = be_value inp"
  proof -
    have "be_value bs = be_value (0 # 2 # pad @ [0]) * 256 ^ length inp + be_value inp"
      unfolding bs(1) using be_value_append [of "0 # 2 # pad @ [0]" inp] by (simp only: append_Cons append_assoc append_Nil)
    moreover have "(2::nat) ^ (8 * length inp) = 256 ^ length inp" by (simp add: power_mult)
    ultimately show ?thesis using be_value_bound [of inp] by (simp only: mod_mult_self3 mod_less)
  qed
  then show ?thesis
    by (simp only: rsa_private_decrypt_def Let_def len(1) out v sep kept) (simp add: bs(1))
qed

lemma encrypt_decrypt:
  assumes key: "key_good bits k pub" and bits: "4 \<le> bits" "unat bits < 2 ^ 31"
    and rnd: "eventually_nonzero rnd"
    and fits: "(bit_length input + 7) div 8 + 3 \<le> key_len bits"
  shows "\<exists>c r'. rsa_public_encrypt rnd r input pub = Some (Inr (c, r')) \<and> rsa_private_decrypt c k = Inr input"
proof -
  let ?il = "(bit_length input + 7) div 8" and ?len = "key_len bits"
  let ?inp = "mp_linearize_msb_first ?il input"
  have k: "key_wf k" "public_of k pub" "prv_bits k = bits" "pub_bits pub = bits" "\<not> pub_e pub < 3"
    "2 ^ (unat bits - 1) \<le> prv_n k"
    using key by (auto simp: key_good_def public_of_def)
  have il: "length ?inp = ?il" "be_value ?inp = input" using mp_linearize_value input_bytes by blast+
  have kl: "8 * (?len - 1) < unat bits" "unat bits \<le> 8 * ?len"
    using key_len_bounds [of bits] bits by (auto simp: word_le_nat_alt word_less_nat_alt)
  obtain pad r' where pad: "random_padding rnd (?len - ?il - 3) (be_value [2]) r = Some (be_value ([2] @ pad), r')"
    "length pad = ?len - ?il - 3" "0 \<notin> set pad" using random_padding_returns [OF rnd] by blast
  define bs where "bs = 0 # 2 # pad @ 0 # ?inp"
  have lbs: "length bs = ?len" using fits pad(2) il(1) by (simp add: bs_def)
  have num: "be_value ([2] @ pad) * 2 ^ (8 * (?il + 1)) + input = be_value bs"
  proof -
    have "be_value bs = be_value (([2] @ pad) @ [0] @ ?inp)" by (simp add: bs_def)
    also have "\<dots> = be_value ([2] @ pad) * 256 ^ (?il + 1) + input"
      by (subst be_value_append) (simp add: il)
    also have "(256::nat) ^ (?il + 1) = 2 ^ (8 * (?il + 1))" by (subst power_mult) simp
    finally show ?thesis by (rule sym)
  qed
  have "be_value bs < 2 ^ (unat bits - 1)"
    unfolding bs_def by (rule padded_less [OF _ _ kl(1)]) (use fits pad(2) il(1) in auto)
  then have less: "be_value bs < prv_n k" using k(6) by linarith
  let ?c = "rsa_public (be_value bs) pub"
  have "rsa_public_encrypt rnd r input pub = Some (Inr (?c, r'))"
    using fits k(4,5) pad(1) num by (simp add: rsa_public_encrypt_def Let_def)
  moreover have "rsa_private_decrypt ?c k = Inr (be_value ?inp)"
    by (rule decrypt_padded [OF _ _ key_operations_inverse(1) [OF k(1,2) less] bs_def pad(3)])
      (use kl bits lbs k(3) in auto)
  ultimately show ?thesis using il(2) by auto
qed

section \<open>A key\<close>

lemma is_prime_sqrt:
  assumes "1 < p" "p < m * m" "list_all (\<lambda>d. p mod d \<noteq> 0) [2..<m]"
  shows "is_prime p"
proof -
  have "\<not> d dvd p" if d: "2 \<le> d" "d < p" for d
  proof
    assume "d dvd p"
    then obtain c where c: "p = d * c" by blast
    then have "2 \<le> c" using d by (cases c; cases "c - 1") auto
    have "d < m \<or> c < m"
    proof (rule ccontr)
      assume "\<not> (d < m \<or> c < m)"
      then have "m * m \<le> d * c" by (intro mult_le_mono) auto
      then show False using assms(2) c by simp
    qed
    moreover have "p mod x \<noteq> 0" if "2 \<le> x" "x < m" for x using assms(3) that unfolding list_all_iff by simp
    ultimately show False using d \<open>2 \<le> c\<close> c by (metis mod_mult_self1_is_0 mod_mult_self2_is_0)
  qed
  then show ?thesis using assms(1) by (simp add: is_prime_def)
qed

fun list_random :: "byte list \<Rightarrow> byte \<times> byte list" where
  "list_random (b # bs) = (b, bs)"
| "list_random [] = (1, [])"

lemma prime_3079: "is_prime 3079"
proof (rule is_prime_sqrt)
  show "list_all (\<lambda>d. 3079 mod d \<noteq> 0) [2..<56::nat]" by (simp only: upt_rec_numeral list.pred_inject) simp
qed simp_all

lemma prime_6151: "is_prime 6151"
proof (rule is_prime_sqrt)
  show "list_all (\<lambda>d. 6151 mod d \<noteq> 0) [2..<79::nat]" by (simp only: upt_rec_numeral list.pred_inject) simp
qed simp_all

lemma prime_test_prime: "is_prime p \<Longrightarrow> 2 < p \<Longrightarrow> prime_test is_prime p"
  using fermat [of p 2] by (simp only: prime_test_def mod_less)

lemmas prime_test_3079 = prime_test_prime [OF prime_3079]
lemmas prime_test_6151 = prime_test_prime [OF prime_6151]

lemma demo_bytes:
  "random_bytes list_random 2 (a # b # bs) = ([a, b], bs)"
  "random_bytes list_random 4 (a # b # c # d # bs) = ([a, b, c, d], bs)"
  by (simp_all add: numeral_eq_Suc)

lemma demo_random:
  "rsa_random_integer list_random (0xc # 7 # bs) 12 = Inr (3079, bs)"
  "rsa_random_integer list_random (0x18 # 7 # bs) 13 = Inr (6151, bs)"
  "rsa_random_integer list_random (0 # 0 # 0 # 0 # bs) 25 = Inr (0, bs)"
  by (simp_all add: rsa_random_integer_def demo_bytes byte_hex_def Let_def)

lemma demo_prime_from: "prime_from is_prime 12 3079 = Some 3079" "prime_from is_prime 13 6151 = Some 6151"
  by (simp_all add: prime_from_def primes_used_def prime_start_def prime_search.simps [of _ _ _ _ 0]
      prime_test_3079 prime_test_6151)

lemma demo_primes:
  "rsa_random_prime list_random is_prime (0xc # 7 # bs) 12 = Some (Inr (3079, bs))"
  "rsa_random_prime list_random is_prime (0x18 # 7 # bs) 13 = Some (Inr (6151, bs))"
  by (simp_all add: rsa_random_prime.simps [of list_random] demo_random demo_prime_from)

lemma demo_inverses: "mpz_mod_inverse 37 3154950 = 2131723" "mpz_mod_inverse 3079 6151 = 879"
  by (simp_all add: mpz_mod_inverse_def inverse_loop.simps)

lemma demo_exponent: "public_exponent (3078 * 6150) 31 = Some 37"
proof -
  have g: "gcd 33 18929700 = (3::nat)" "gcd 35 18929700 = (5::nat)" "gcd 37 18929700 = (1::nat)"
    by (simp_all add: gcd_non_0_nat)
  show ?thesis
    by (simp add: public_exponent.simps [of 18929700 31] public_exponent.simps [of 18929700 33]
        public_exponent.simps [of 18929700 35] g Let_def)
qed

lemma demo_derive: "derive_rsa_keys 3079 6151 5 = Some (Inr (18938929, 37, 2131723, 879))"
  using demo_exponent demo_inverses by (simp add: derive_rsa_keys_def Let_def gcd_non_0_nat)

abbreviation demo_private :: RSAPrivateKey where
  "demo_private \<equiv> \<lparr>prv_bits = 25, prv_n = 18938929, prv_e = 37, prv_d = 2131723, prv_u = 879, prv_p = 3079, prv_q = 6151\<rparr>"

abbreviation demo_public :: RSAPublicKey where
  "demo_public \<equiv> \<lparr>pub_bits = 25, pub_e = 37, pub_n = 18938929\<rparr>"

lemma demo_second_prime:
  "second_prime list_random is_prime 13 3079 (0x18 # 7 # bs) = Some (Inr (3079, 6151, bs))"
  by (simp add: second_prime.simps [of list_random _ _ 3079] demo_primes Let_def gcd_non_0_nat)

lemma demo_key_test: "key_test demo_private demo_public 0"
  by (simp add: key_test_def rsa_private_def rsa_public_def)

lemma demo_generate:
  "rsa_generate_key list_random is_prime [0xc, 7, 0x18, 7, 0, 0, 0, 0] 25 = Some (Inr (demo_private, demo_public, []))"
  using demo_key_test
  by (simp add: rsa_generate_key.simps [of list_random] demo_primes demo_second_prime demo_derive demo_random key_pair_def)

lemma demo_good: "key_good 25 demo_private demo_public"
  using rsa_generate_key_good [OF _ _ demo_generate] by simp

lemma demo_wf: "key_wf demo_private"
  using demo_good by (simp add: key_good_def)

section \<open>Properties\<close>



text \<open>C27: The private operation of \<^verbatim>\<open>rsa_private\<close>, two small exponentiations put together by the Chinese remainder theorem, is
  exponentiation with the private exponent modulo \<open>n\<close>; it undoes and is undone by \<^verbatim>\<open>rsa_public\<close>.\<close>

theorem rsa_private_is_exponentiation:
  assumes "key_wf k" and "public_of k pub"
  shows "rsa_private x k = x ^ prv_d k mod prv_n k \<and> rsa_public (rsa_private x k) pub = x mod prv_n k \<and>
    rsa_private (rsa_public x pub) k = x mod prv_n k"
proof -
  have "rsa_private x k = rsa_private (x mod prv_n k) k" by (simp add: rsa_private_crt [OF assms(1)] power_mod)
  moreover have "rsa_public x pub = rsa_public (x mod prv_n k) pub"
    using assms(2) by (simp add: rsa_public_def public_of_def power_mod)
  moreover have "x mod prv_n k < prv_n k" using assms(1) by (simp add: key_wf_def is_prime_def)
  ultimately show ?thesis using key_operations_inverse [OF assms, of "x mod prv_n k"] rsa_private_crt [OF assms(1)] by simp
qed

theorem rsa_private_is_exponentiation_witness:
  "rsa_public (rsa_private 65 demo_private) demo_public = 65 \<and> rsa_private (rsa_public 65 demo_public) demo_private = 65"
proof -
  have p: "public_of demo_private demo_public" by (simp add: public_of_def)
  have n: "65 mod prv_n demo_private = 65" by simp
  from rsa_private_is_exponentiation [OF demo_wf p, of 65, THEN conjunct2] show ?thesis unfolding n .
qed

text \<open>\<^verbatim>\<open>mpz_mod_inverse\<close> computes the multiplicative inverse, between 0 and \<open>n\<close>, of every number coprime to \<open>n\<close>; its
  loop ends for all arguments.\<close>

theorem mpz_mod_inverse_is_inverse:
  assumes "coprime a n" and "1 < n"
  shows "a * mpz_mod_inverse a n mod n = 1 \<and> 0 < mpz_mod_inverse a n \<and> mpz_mod_inverse a n < n"
  using assms by (rule mpz_mod_inverse_correct)

theorem mpz_mod_inverse_is_inverse_witness: "37 * mpz_mod_inverse 37 3154950 mod 3154950 = 1 \<and> mpz_mod_inverse 37 3154950 = 2131723"
proof -
  have "coprime 37 (3154950::nat)" by (simp add: coprime_iff_gcd_eq_1 gcd_non_0_nat)
  from mpz_mod_inverse_is_inverse [OF this] show ?thesis using demo_inverses by simp
qed

text \<open>C26: The search of \<^verbatim>\<open>rsa_random_prime\<close>, which updates a table of moduli of the small primes from one candidate to the next, is
  trial division: it finds the first candidate, in steps of two from the start, that no prime of the table divides and that passes
  the Fermat test and the library's test, and gives up only when there is none up to the limit.\<close>

theorem prime_search_is_trial_division:
  "case prime_from probab bits start of
     None \<Rightarrow> \<forall>k. 2 * k \<le> 0x70000000 \<longrightarrow> \<not> acceptable probab (primes_used bits) (prime_start bits start + 2 * k)
   | Some x \<Rightarrow> \<exists>k. x = prime_start bits start + 2 * k \<and> acceptable probab (primes_used bits) x \<and>
       (\<forall>j < k. \<not> acceptable probab (primes_used bits) (prime_start bits start + 2 * j))"
  by (rule prime_from_exact)

theorem prime_search_is_trial_division_witness: "acceptable is_prime (primes_used 12) 3079"
  using prime_search_is_trial_division [of is_prime 12 3079] by (auto simp: demo_prime_from)

text \<open>What \<^verbatim>\<open>rsa_random_prime\<close> returns is odd, has exactly the bits asked for with the two highest set, passes both tests, and
  from 16 bits on no prime of the table divides it.\<close>

theorem rsa_random_prime_result:
  assumes "rsa_random_prime rnd probab r bits = Some (Inr (x, r'))" and "2 \<le> bits"
  shows "odd x \<and> 3 * 2 ^ (unat bits - 2) \<le> x \<and> x < 2 ^ unat bits \<and> prime_test probab x \<and>
    (16 \<le> bits \<longrightarrow> (\<forall>p \<in> set small_primes. \<not> p dvd x))"
proof -
  have "bits \<noteq> 0" using assms(2) by auto
  from rsa_random_prime_good [OF assms(1) this] show ?thesis
    using assms(2) by (auto simp: good_prime_def acceptable_def primes_used_def not_less [symmetric])
qed

theorem rsa_random_prime_result_witness: "odd (6151::nat) \<and> prime_test is_prime 6151"
  using rsa_random_prime_result [OF demo_primes(2)] by simp

text \<open>\<^verbatim>\<open>rsa_private_decrypt\<close> does not insist on the zero byte that ends the padding: a block without one is accepted, the
  count of the bits to keep wraps around, and the whole padded block is returned as the result.\<close>

theorem decrypt_without_separator:
  assumes "rsa_private c k = be_value (0 # 2 # bs)" and "0 \<notin> set bs" and "key_len (prv_bits k) = length bs + 2"
    and "length bs < 2 ^ 28"
  shows "rsa_private_decrypt c k = Inr (be_value (0 # 2 # bs))"
proof -
  let ?bs = "0 # 2 # bs"
  let ?n = "unat (8 * (of_nat (length ?bs) - of_nat (2 + length bs) - 1 :: u32))"
  have v: "mp_linearize_msb_first (length ?bs) (be_value ?bs) = ?bs" by (rule mp_linearize_be_value)
  have len: "key_len (prv_bits k) = length ?bs" using assms(3) by simp
  have tw: "takeWhile (\<lambda>b. b \<noteq> 0) bs = bs" using assms(2) by (auto intro: takeWhile_eq_all_conv [THEN iffD2])
  have "drop 2 ?bs = bs" by simp
  then have sep: "separator ?bs = 2 + length bs" by (simp only: separator_def tw)
  have n: "?n = 4294967288" by simp
  have "be_value ?bs < 256 ^ length ?bs" by (rule be_value_bound)
  also have "(256::nat) ^ length ?bs = 2 ^ (8 * length ?bs)" by (subst power_mult) simp
  also have "\<dots> \<le> 2 ^ ?n" unfolding n using assms(4) by (intro power_increasing) auto
  finally have "be_value ?bs mod 2 ^ ?n = be_value ?bs" by (rule mod_less)
  moreover have "\<not> length ?bs < 2" "?bs ! 0 = 0" "?bs ! 1 = 2" by simp_all
  ultimately show ?thesis
    by (simp only: rsa_private_decrypt_def Let_def len assms(1) v sep if_False simp_thms)
qed

theorem decrypt_without_separator_witness:
  "rsa_private_decrypt (rsa_public (be_value [0, 2, 1, 1]) demo_public) demo_private = Inr (be_value [0, 2, 1, 1])"
  by (rule decrypt_without_separator [OF key_operations_inverse(1) [OF demo_wf]]) (simp_all add: public_of_def key_len_def)

end
