(* ===== verification/HostFile.thy ===== *)
theory HostFile
  imports Match Prelude
begin

text \<open>
  \<^verbatim>\<open>hostfile.c\<close>: the lists of known hosts and their keys. A C string is the list of its characters
  before the terminating zero; a pointer into it is the rest of the list. A file is its text, \<open>None\<close>
  when it cannot be opened.
\<close>

section \<open>Numbers and keys\<close>

abbreviation NEWLINE :: char where "NEWLINE \<equiv> CHR 0x0A"
abbreviation TAB :: char where "TAB \<equiv> CHR 0x09"

definition blank :: "char \<Rightarrow> bool" where
  "blank c \<longleftrightarrow> c = CHR '' '' \<or> c = TAB"

definition is_digit :: "char \<Rightarrow> bool" where
  "is_digit c \<longleftrightarrow> 48 \<le> (of_char c :: nat) \<and> (of_char c :: nat) \<le> 57"

definition digit_value :: "char \<Rightarrow> nat" where
  "digit_value c = of_char c - 48"

definition auth_rsa_read_mp_int :: "string \<Rightarrow> (nat \<times> string) option" where
  "auth_rsa_read_mp_int cp =
     (let cp = dropWhile blank cp; ds = takeWhile is_digit cp
      in if ds = [] then None
         else Some (foldl (\<lambda>v c. 10 * v + digit_value c) 0 ds, dropWhile is_digit cp))"

definition auth_rsa_read_key :: "string \<Rightarrow> (u32 \<times> nat \<times> nat \<times> string) option" where
  "auth_rsa_read_key cp =
     (let cp = dropWhile blank cp; ds = takeWhile is_digit cp
      in if ds = [] then None
         else let bits = foldl (\<lambda>v c. 10 * v + of_char c - 48) 0 ds
              in case auth_rsa_read_mp_int (dropWhile is_digit cp) of
                   None \<Rightarrow> None
                 | Some (e, cp) \<Rightarrow>
                     (case auth_rsa_read_mp_int cp of
                        None \<Rightarrow> None
                      | Some (n, cp) \<Rightarrow> Some (bits, e, n, dropWhile blank cp)))"

section \<open>Host names\<close>

definition lower :: "char \<Rightarrow> char" where
  "lower c = (if 65 \<le> (of_char c :: nat) \<and> (of_char c :: nat) \<le> 90 then char_of (of_char c + 32 :: nat) else c)"

text \<open>The pattern is the part of the line before the blank; \<open>got\<close> is \<^verbatim>\<open>got_positive\<close>.\<close>

function match_hostname_from :: "bool \<Rightarrow> string \<Rightarrow> string option \<Rightarrow> string \<Rightarrow> bool" where
  "match_hostname_from got host ip [] = got"
| "match_hostname_from got host ip (c # pattern) =
     (let negated = (c = CHR ''!''); p = (if negated then pattern else c # pattern);
          sub = takeWhile (\<lambda>c. c \<noteq> CHR '','') p; rest = tl (dropWhile (\<lambda>c. c \<noteq> CHR '','') p)
      in if length sub \<ge> 1023 then False
         else if match_host host ip (map lower sub)
         then if negated then False else match_hostname_from True host ip rest
         else match_hostname_from got host ip rest)"
  by pat_completeness auto

termination
  by (relation "measure (\<lambda>(got, host, ip, p). length p)")
    (auto simp: less_Suc_eq_le intro: le_trans [OF diff_le_self length_dropWhile_le] le_trans [OF _ length_dropWhile_le] split: if_splits)

definition match_hostname :: "string \<Rightarrow> string option \<Rightarrow> string \<Rightarrow> bool" where
  "match_hostname host ip pattern = match_hostname_from False host ip pattern"

section \<open>Checking a host\<close>

text \<open>\<^verbatim>\<open>userfile_gets\<close>: up to \<open>n\<close> characters, or the first newline.\<close>

fun one_line :: "nat \<Rightarrow> string \<Rightarrow> string" where
  "one_line 0 s = []"
| "one_line (Suc n) [] = []"
| "one_line (Suc n) (c # s) = c # (if c = NEWLINE then [] else one_line n s)"

fun file_lines :: "nat \<Rightarrow> string \<Rightarrow> string list" where
  "file_lines n [] = []"
| "file_lines n (c # s) = one_line n (c # s) # file_lines n (drop (length (one_line n (c # s)) - 1) s)"

datatype HostStatus = HOST_OK | HOST_NEW | HOST_CHANGED

text \<open>The key that a line gives for a host: nothing for comments, empty lines, other hosts and badly formatted lines.\<close>

definition host_line :: "string \<Rightarrow> string \<Rightarrow> (u32 \<times> nat \<times> nat) option" where
  "host_line host line =
     (let cp = dropWhile blank (takeWhile (\<lambda>c. c \<noteq> CHR 0x00) line)
      in if cp = [] \<or> hd cp = CHR ''#'' \<or> hd cp = NEWLINE then None
         else if \<not> match_hostname host None (takeWhile (\<lambda>c. \<not> blank c) cp) then None
         else case auth_rsa_read_key (dropWhile (\<lambda>c. \<not> blank c) cp) of
                None \<Rightarrow> None
              | Some (kbits, ke, kn, _) \<Rightarrow> Some (kbits, ke, kn))"

fun check_lines :: "string \<Rightarrow> u32 \<times> nat \<times> nat \<Rightarrow> HostStatus \<Rightarrow> string list \<Rightarrow> HostStatus" where
  "check_lines host key end_return [] = end_return"
| "check_lines host key end_return (line # ls) =
     (case host_line host line of
        None \<Rightarrow> check_lines host key end_return ls
      | Some k \<Rightarrow> if k = key then HOST_OK else check_lines host key HOST_CHANGED ls)"

definition check_host_in_hostfile :: "string option \<Rightarrow> string \<Rightarrow> u32 \<Rightarrow> nat \<Rightarrow> nat \<Rightarrow> HostStatus" where
  "check_host_in_hostfile file host bits e n =
     (case file of None \<Rightarrow> HOST_NEW | Some s \<Rightarrow> check_lines host (bits, e, n) HOST_NEW (file_lines 16383 s))"

section \<open>Adding a host\<close>

fun decimal :: "nat \<Rightarrow> string" where
  "decimal n = (if n < 10 then [char_of (n + 48)] else decimal (n div 10) @ [char_of (n mod 10 + 48)])"

declare decimal.simps [simp del]

definition host_entry :: "string \<Rightarrow> u32 \<Rightarrow> nat \<Rightarrow> nat \<Rightarrow> string" where
  "host_entry host bits e n =
     take 500 host @ '' '' @ decimal (unat bits) @ '' '' @ decimal e @ '' '' @ decimal n @ [NEWLINE]"

text \<open>The file afterwards, \<open>None\<close> when it could not be opened; \<open>openable\<close> tells whether it can be opened or created.\<close>

definition add_host_to_hostfile :: "bool \<Rightarrow> string option \<Rightarrow> string \<Rightarrow> u32 \<Rightarrow> nat \<Rightarrow> nat \<Rightarrow> bool \<times> string option" where
  "add_host_to_hostfile openable file host bits e n =
     (if \<not> openable then (False, file)
      else (True, Some ((case file of None \<Rightarrow> [] | Some s \<Rightarrow> s) @ host_entry host bits e n)))"

section \<open>What a pattern list means\<close>

text \<open>The pieces between the commas.\<close>

function pieces :: "string \<Rightarrow> string list" where
  "pieces [] = []"
| "pieces (c # s) = takeWhile (\<lambda>c. c \<noteq> CHR '','') (c # s) # pieces (tl (dropWhile (\<lambda>c. c \<noteq> CHR '','') (c # s)))"
  by pat_completeness auto
termination
  by (relation "measure length")
    (auto simp: less_Suc_eq_le intro: le_trans [OF diff_le_self length_dropWhile_le])

definition negation :: "string \<Rightarrow> bool" where
  "negation p \<longleftrightarrow> p \<noteq> [] \<and> hd p = CHR ''!''"

definition piece_matches :: "string \<Rightarrow> string option \<Rightarrow> string \<Rightarrow> bool" where
  "piece_matches host ip p = match_host host ip (map lower (if negation p then tl p else p))"

lemma pieces_step:
  assumes "p \<noteq> []"
  shows "pieces p = takeWhile (\<lambda>c. c \<noteq> CHR '','') p # pieces (tl (dropWhile (\<lambda>c. c \<noteq> CHR '','') p))"
  using assms by (cases p) auto

lemma match_hostname_from_pieces:
  assumes "\<forall>p \<in> set (pieces pattern). length p < 1023"
  shows "match_hostname_from got host ip pattern \<longleftrightarrow>
    (got \<or> (\<exists>p \<in> set (pieces pattern). \<not> negation p \<and> piece_matches host ip p)) \<and>
    \<not> (\<exists>p \<in> set (pieces pattern). negation p \<and> piece_matches host ip p)"
  using assms
proof (induction got host ip pattern rule: match_hostname_from.induct)
  case (2 got host ip c pattern)
  define first where "first = takeWhile (\<lambda>c. c \<noteq> CHR '','') (c # pattern)"
  define rest where "rest = tl (dropWhile (\<lambda>c. c \<noteq> CHR '','') (c # pattern))"
  have pcs: "pieces (c # pattern) = first # pieces rest" by (simp only: pieces.simps first_def rest_def)
  let ?neg = "c = CHR ''!''"
  let ?p = "if ?neg then pattern else c # pattern"
  let ?sub = "takeWhile (\<lambda>c. c \<noteq> CHR '','') ?p"
  have neg: "negation first \<longleftrightarrow> ?neg" by (auto simp: negation_def first_def)
  have sub: "?sub = (if negation first then tl first else first)" unfolding neg by (auto simp: first_def)
  have rest: "tl (dropWhile (\<lambda>c. c \<noteq> CHR '','') ?p) = rest" by (auto simp: rest_def)
  have len: "\<not> 1023 \<le> length ?sub"
  proof -
    have "length first < 1023" using 2(3) pcs by simp
    moreover have "length ?sub \<le> length first" unfolding sub by simp
    ultimately show ?thesis by simp
  qed
  have pm: "match_host host ip (map lower ?sub) = piece_matches host ip first" by (simp only: piece_matches_def sub)
  have step: "match_hostname_from got host ip (c # pattern) =
      (if piece_matches host ip first then if ?neg then False else match_hostname_from True host ip rest
       else match_hostname_from got host ip rest)"
    by (simp only: match_hostname_from.simps Let_def rest len pm if_False)
  have small: "\<forall>p \<in> set (pieces rest). length p < 1023" using 2(3) pcs by simp
  have ih1: "match_hostname_from True host ip rest \<longleftrightarrow> \<not> (\<exists>p \<in> set (pieces rest). negation p \<and> piece_matches host ip p)"
    if "piece_matches host ip first" "\<not> ?neg"
    using 2(1) [OF refl refl refl refl len] that small unfolding pm rest by blast
  have ih2: "match_hostname_from got host ip rest \<longleftrightarrow> (got \<or> (\<exists>p \<in> set (pieces rest). \<not> negation p \<and> piece_matches host ip p)) \<and>
      \<not> (\<exists>p \<in> set (pieces rest). negation p \<and> piece_matches host ip p)" if "\<not> piece_matches host ip first"
    using 2(2) [OF refl refl refl refl len] that small unfolding pm rest by blast
  show ?case
  proof (cases "piece_matches host ip first")
    case True
    then show ?thesis using step ih1 neg pcs by (cases ?neg) auto
  next
    case False
    then show ?thesis using step ih2 neg pcs by auto
  qed
qed simp

section \<open>What a check finds\<close>

definition keys_for :: "string \<Rightarrow> string list \<Rightarrow> (u32 \<times> nat \<times> nat) list" where
  "keys_for host ls = List.map_filter (host_line host) ls"

lemma keys_for_simps [simp]:
  "keys_for host [] = []"
  "keys_for host (l # ls) = (case host_line host l of None \<Rightarrow> keys_for host ls | Some k \<Rightarrow> k # keys_for host ls)"
  by (simp_all add: keys_for_def List.map_filter_simps split: option.split)

lemma keys_for_append [simp]: "keys_for host (ls @ ls') = keys_for host ls @ keys_for host ls'"
  by (induction ls) (simp_all split: option.split)

lemma check_lines_keys:
  "check_lines host key r ls =
     (if key \<in> set (keys_for host ls) then HOST_OK else if keys_for host ls = [] then r else HOST_CHANGED)"
  by (induction ls arbitrary: r) (auto split: option.split)

section \<open>Decimal numbers\<close>

lemma of_char_digit: "d < 10 \<Longrightarrow> of_char (char_of (d + 48) :: char) = d + 48" for d :: nat
  by (simp add: of_char_of)

lemma digit_char: "d < 10 \<Longrightarrow> is_digit (char_of (d + 48))" "d < 10 \<Longrightarrow> digit_value (char_of (d + 48)) = d" for d :: nat
  using of_char_digit [of d] by (simp_all add: is_digit_def digit_value_def)

lemma decimal_digits: "list_all is_digit (decimal n)"
  by (induction n rule: decimal.induct) (subst decimal.simps, simp add: digit_char)

lemma decimal_char: "c \<in> set (decimal n) \<Longrightarrow> c \<noteq> NEWLINE \<and> c \<noteq> CHR 0x00"
  using decimal_digits [of n] by (auto simp: list_all_iff is_digit_def)

lemma decimal_not_Nil: "decimal n \<noteq> []"
  by (subst decimal.simps) simp

lemma decimal_value: "foldl (\<lambda>v c. 10 * v + digit_value c) 0 (decimal n) = n"
  by (induction n rule: decimal.induct) (subst decimal.simps, simp add: digit_char)

lemma decimal_word: "foldl (\<lambda>v c. 10 * v + of_char c - 48) 0 (decimal n) = (of_nat n :: u32)"
proof (induction n rule: decimal.induct)
  case (1 n)
  have d: "of_char (char_of (d + 48) :: char) = (of_nat d + 48 :: u32)" if "d < 10" for d :: nat
  proof -
    have "(of_char (char_of (d + 48) :: char) :: u32) = of_nat (of_char (char_of (d + 48) :: char))" by (rule of_nat_of_char [symmetric])
    then show ?thesis by (simp only: of_char_digit [OF that] of_nat_add of_nat_numeral)
  qed
  show ?case
  proof (cases "n < 10")
    case True
    then show ?thesis by (simp add: decimal.simps [of n] d)
  next
    case False
    have "10 * of_nat (n div 10) + of_nat (n mod 10) = (of_nat n :: u32)"
      by (metis mult_div_mod_eq of_nat_add of_nat_mult of_nat_numeral)
    then show ?thesis using 1 False by (simp add: decimal.simps [of n] d)
  qed
qed

lemma span_digits:
  assumes "list_all is_digit ds" "r = [] \<or> \<not> is_digit (hd r)"
  shows "takeWhile is_digit (ds @ r) = ds" "dropWhile is_digit (ds @ r) = r"
  using assms by (induction ds) (auto simp: takeWhile_eq_Nil_iff dropWhile_eq_self_iff)

lemma blank_digit: "is_digit c \<Longrightarrow> \<not> blank c"
  by (auto simp: is_digit_def blank_def)

lemma drop_blank_decimal: "dropWhile blank (decimal n @ r) = decimal n @ r"
proof -
  obtain c cs where "decimal n = c # cs" using decimal_not_Nil [of n] by (cases "decimal n") auto
  moreover from this have "is_digit c" using decimal_digits [of n] by simp
  ultimately show ?thesis by (simp add: blank_digit)
qed

lemma read_mp_int_decimal:
  assumes "r = [] \<or> \<not> is_digit (hd r)"
  shows "auth_rsa_read_mp_int (CHR '' '' # decimal n @ r) = Some (n, r)"
  using span_digits [OF decimal_digits assms, of n] decimal_not_Nil [of n]
  by (simp add: auth_rsa_read_mp_int_def blank_def [of "CHR '' ''"] drop_blank_decimal decimal_value Let_def)

lemma read_key_decimal:
  assumes "r = [] \<or> \<not> is_digit (hd r)"
  shows "auth_rsa_read_key (CHR '' '' # decimal b @ '' '' @ decimal e @ '' '' @ decimal n @ r) = Some (of_nat b, e, n, dropWhile blank r)"
proof -
  let ?r2 = "'' '' @ decimal n @ r" and ?r1 = "'' '' @ decimal e @ '' '' @ decimal n @ r"
  have sp: "\<not> is_digit (CHR '' '')" by (simp add: is_digit_def)
  have 1: "takeWhile is_digit (decimal b @ ?r1) = decimal b" "dropWhile is_digit (decimal b @ ?r1) = ?r1"
    using span_digits [OF decimal_digits, of ?r1 b] sp by simp_all
  have 2: "auth_rsa_read_mp_int ?r1 = Some (e, ?r2)" using read_mp_int_decimal [of ?r2 e] sp by simp
  have 3: "auth_rsa_read_mp_int ?r2 = Some (n, r)" using read_mp_int_decimal [OF assms, of n] by simp
  have 4: "dropWhile blank (CHR '' '' # decimal b @ ?r1) = decimal b @ ?r1" by (simp add: blank_def [of "CHR '' ''"] drop_blank_decimal)
  show ?thesis
    unfolding auth_rsa_read_key_def Let_def 4 1 decimal_word
    by (simp only: decimal_not_Nil if_False 2 3 option.case prod.case)
qed

section \<open>A host that was added\<close>

definition plain_host :: "string \<Rightarrow> bool" where
  "plain_host host \<longleftrightarrow> host \<noteq> [] \<and> length host \<le> 500 \<and> hd host \<noteq> CHR ''#'' \<and> hd host \<noteq> CHR ''!'' \<and>
     list_all (\<lambda>c. c \<noteq> CHR ''*'' \<and> c \<noteq> CHR ''?'' \<and> c \<noteq> CHR '','' \<and> \<not> blank c \<and> c \<noteq> NEWLINE \<and> c \<noteq> CHR 0x00 \<and> lower c = c) host"

lemma match_pattern_same:
  "list_all (\<lambda>c. c \<noteq> CHR ''*'' \<and> c \<noteq> CHR ''?'') p \<Longrightarrow> match_pattern p p"
  by (induction p) simp_all

lemma match_hostname_same:
  assumes "plain_host host" shows "match_hostname host None host"
proof -
  have l: "\<And>c. c \<in> set host \<Longrightarrow> c \<noteq> CHR ''*'' \<and> c \<noteq> CHR ''?'' \<and> c \<noteq> CHR '','' \<and> lower c = c"
    using assms by (auto simp: plain_host_def list_all_iff)
  have h: "host \<noteq> []" "length host \<le> 500" "hd host \<noteq> CHR ''!''" using assms by (simp_all add: plain_host_def)
  have tw: "takeWhile (\<lambda>c. c \<noteq> CHR '','') host = host" "dropWhile (\<lambda>c. c \<noteq> CHR '','') host = []"
    using l by (auto simp: takeWhile_eq_all_conv dropWhile_eq_Nil_conv)
  have p: "pieces host = [host]" using pieces_step [OF h(1)] by (simp only: tw list.sel pieces.simps)
  have "map lower host = host" using l by (auto intro: map_idI)
  moreover have "match_pattern host host" by (rule match_pattern_same) (use l in \<open>auto simp: list_all_iff\<close>)
  ultimately have "piece_matches host None host" "\<not> negation host"
    using h(3) by (simp_all add: piece_matches_def negation_def match_host_def)
  moreover have "\<forall>p \<in> set (pieces host). length p < 1023" using p h(2) by simp
  ultimately show ?thesis unfolding match_hostname_def by (simp add: match_hostname_from_pieces p)
qed

lemma host_line_entry:
  assumes h: "plain_host host" shows "host_line host (host_entry host bits e n) = Some (bits, e, n)"
proof -
  let ?r = "'' '' @ decimal (unat bits) @ '' '' @ decimal e @ '' '' @ decimal n @ [NEWLINE]"
  have l: "\<And>c. c \<in> set host \<Longrightarrow> \<not> blank c \<and> c \<noteq> NEWLINE \<and> c \<noteq> CHR 0x00"
    using h by (auto simp: plain_host_def list_all_iff)
  have ne: "host \<noteq> []" "hd host \<noteq> CHR ''#''" "take 500 host = host" using h by (simp_all add: plain_host_def)
  have "\<forall>c \<in> set (host @ ?r). c \<noteq> CHR 0x00"
    using l decimal_char by auto
  then have "takeWhile (\<lambda>c. c \<noteq> CHR 0x00) (host @ ?r) = host @ ?r" by (simp only: takeWhile_eq_all_conv)
  moreover have "dropWhile blank (host @ ?r) = host @ ?r" using ne(1) l by (cases host) auto
  ultimately have cp: "dropWhile blank (takeWhile (\<lambda>c. c \<noteq> CHR 0x00) (host_entry host bits e n)) = host @ ?r"
    by (simp only: host_entry_def ne(3))
  have "blank (CHR '' '')" by (simp add: blank_def)
  then have sp: "takeWhile (\<lambda>c. \<not> blank c) (host @ ?r) = host" "dropWhile (\<lambda>c. \<not> blank c) (host @ ?r) = ?r"
    using l by (auto simp: takeWhile_append2 dropWhile_append2)
  have key: "auth_rsa_read_key ?r = Some (bits, e, n, dropWhile blank [NEWLINE])"
    using read_key_decimal [of "[NEWLINE]" "unat bits" e n] by (simp add: is_digit_def)
  have first: "host @ ?r \<noteq> []" "hd (host @ ?r) \<noteq> CHR ''#''" "hd (host @ ?r) \<noteq> NEWLINE" using ne l by auto
  show ?thesis
    unfolding host_line_def cp Let_def sp key by (simp only: first match_hostname_same [OF h] if_False simp_thms option.case prod.case)
qed

section \<open>Lines of a file\<close>

lemma one_line_prefix: "\<exists>r. s = one_line n s @ r"
  by (induction n s rule: one_line.induct) auto

lemma one_line_append:
  assumes "s \<noteq> []" "last s = NEWLINE" shows "one_line n (s @ t) = one_line n s"
  using assms by (induction n s rule: one_line.induct) (auto split: if_splits)

lemma one_line_whole:
  assumes "NEWLINE \<notin> set s" "length s < n" shows "one_line n (s @ [NEWLINE]) = s @ [NEWLINE]"
  using assms
proof (induction s arbitrary: n)
  case Nil
  then show ?case by (cases n) auto
next
  case (Cons c s)
  then show ?case by (cases n) auto
qed

lemma file_lines_step:
  assumes "0 < n" "s \<noteq> []" shows "file_lines n s = one_line n s # file_lines n (drop (length (one_line n s)) s)"
proof (cases s)
  case (Cons c r)
  have "length (one_line n (c # r)) = Suc (length (one_line n (c # r)) - 1)"
    using assms(1) by (cases n) auto
  then show ?thesis unfolding Cons file_lines.simps by (metis drop_Suc_Cons)
qed (use assms in simp)

lemma file_lines_append:
  assumes "0 < n" "s = [] \<or> last s = NEWLINE" shows "file_lines n (s @ t) = file_lines n s @ file_lines n t"
  using assms(2)
proof (induction s rule: length_induct)
  case (1 s)
  show ?case
  proof (cases "s = []")
    case False
    let ?l = "one_line n s"
    obtain r where r: "s = ?l @ r" using one_line_prefix by blast
    have pos: "?l \<noteq> []" using False assms(1) by (cases n; cases s) auto
    have rest: "drop (length ?l) s = r" "drop (length ?l) (s @ t) = r @ t" using r by (metis append_eq_conv_conj, metis append.assoc append_eq_conv_conj)
    have last: "r = [] \<or> last r = NEWLINE" using 1(2) False r by (metis last_append)
    have "length r < length s" using r pos by (metis length_append length_greater_0_conv less_add_same_cancel2)
    then have ih: "file_lines n (r @ t) = file_lines n r @ file_lines n t" using 1(1) last by blast
    have "one_line n (s @ t) = ?l" using 1(2) False by (intro one_line_append) auto
    then show ?thesis using file_lines_step [OF assms(1), of "s @ t"] file_lines_step [OF assms(1), of s] False rest ih by simp
  qed simp
qed

lemma file_lines_line:
  assumes "NEWLINE \<notin> set s" "length s < n" shows "file_lines n (s @ [NEWLINE]) = [s @ [NEWLINE]]"
  using one_line_whole [OF assms] file_lines_step [of n "s @ [NEWLINE]"] assms(2) by simp

lemma file_lines_entry:
  assumes "plain_host host" "length (host_entry host bits e n) \<le> 16383"
  shows "file_lines 16383 (host_entry host bits e n) = [host_entry host bits e n]"
proof -
  let ?s = "host @ '' '' @ decimal (unat bits) @ '' '' @ decimal e @ '' '' @ decimal n"
  have e: "host_entry host bits e n = ?s @ [NEWLINE]" using assms(1) by (simp add: host_entry_def plain_host_def)
  have "NEWLINE \<notin> set ?s"
    using assms(1) decimal_char by (auto simp: list_all_iff plain_host_def)
  moreover have "length ?s < 16383" using assms(2) unfolding e by simp
  ultimately show ?thesis unfolding e by (rule file_lines_line)
qed

section \<open>Properties\<close>

text \<open>C20: What a check of a host's key says: the key is right exactly when some line gives that key for the host, it has changed
  when there are keys for the host but not this one, and the host is new when no line has a key for it.\<close>

theorem check_host_meaning:
  "check_host_in_hostfile (Some s) host bits e n =
     (if (bits, e, n) \<in> set (keys_for host (file_lines 16383 s)) then HOST_OK
      else if keys_for host (file_lines 16383 s) = [] then HOST_NEW else HOST_CHANGED)"
  by (simp add: check_host_in_hostfile_def check_lines_keys)

text \<open>C19: A host that was added is known from then on: whatever the file held before, as long as its last line was complete,
  after \<^verbatim>\<open>add_host_to_hostfile\<close> the check of the same key succeeds, and the check of every other key reports a change or
  the other key of the file.\<close>

theorem added_host_is_known:
  assumes "plain_host host" and "length (host_entry host bits e n) \<le> 16383" and "s = [] \<or> last s = NEWLINE"
    and "add_host_to_hostfile True (Some s) host bits e n = (True, f)"
  shows "check_host_in_hostfile f host bits e n = HOST_OK \<and>
    (\<forall>k. k \<noteq> (bits, e, n) \<and> k \<notin> set (keys_for host (file_lines 16383 s)) \<longrightarrow>
       check_host_in_hostfile f host (fst k) (fst (snd k)) (snd (snd k)) = HOST_CHANGED)"
proof -
  have f: "f = Some (s @ host_entry host bits e n)" using assms(4) by (simp add: add_host_to_hostfile_def)
  have "file_lines 16383 (s @ host_entry host bits e n) = file_lines 16383 s @ [host_entry host bits e n]"
    using file_lines_append [OF _ assms(3), of 16383] file_lines_entry [OF assms(1,2)] by simp
  then have "keys_for host (file_lines 16383 (s @ host_entry host bits e n)) = keys_for host (file_lines 16383 s) @ [(bits, e, n)]"
    by (simp add: host_line_entry [OF assms(1)])
  then show ?thesis by (auto simp: f check_host_in_hostfile_def check_lines_keys)
qed

theorem added_host_is_known_witness:
  "check_host_in_hostfile (Some (host_entry ''a.b'' 25 37 18938929)) ''a.b'' 25 37 18938929 = HOST_OK"
proof -
  have h: "plain_host ''a.b''" by (simp add: plain_host_def blank_def lower_def)
  have l: "length (host_entry ''a.b'' 25 37 18938929) \<le> 16383" by (simp add: host_entry_def decimal.simps)
  have "add_host_to_hostfile True (Some []) ''a.b'' 25 37 18938929 = (True, Some (host_entry ''a.b'' 25 37 18938929))"
    by (simp add: add_host_to_hostfile_def)
  from added_host_is_known [OF h l _ this] show ?thesis by simp
qed

text \<open>A list of host patterns matches a host exactly when one of its pieces does and no piece after an exclamation mark
  does, in whatever order they stand.\<close>

theorem match_hostname_meaning:
  assumes "\<forall>p \<in> set (pieces pattern). length p < 1023"
  shows "match_hostname host ip pattern \<longleftrightarrow>
    (\<exists>p \<in> set (pieces pattern). \<not> negation p \<and> piece_matches host ip p) \<and>
    \<not> (\<exists>p \<in> set (pieces pattern). negation p \<and> piece_matches host ip p)"
  using match_hostname_from_pieces [OF assms, of False] by (simp add: match_hostname_def)

theorem match_hostname_meaning_witness:
  "\<not> match_hostname ''bad.org'' None ''*.org,!bad.org'' \<and> match_hostname ''good.org'' None ''!bad.org,*.org''"
proof -
  have p: "pieces ''*.org,!bad.org'' = [''*.org'', ''!bad.org'']" "pieces ''!bad.org,*.org'' = [''!bad.org'', ''*.org'']" by simp_all
  show ?thesis
    using match_hostname_meaning [of "''*.org,!bad.org''" "''bad.org''" None] match_hostname_meaning [of "''!bad.org,*.org''" "''good.org''" None]
    by (simp add: p negation_def piece_matches_def match_host_def lower_def)
qed

end
