(* ===== verification/AuthRsa.thy ===== *)
theory AuthRsa
  imports RsaGlue HostFile
begin

text \<open>
  \<^verbatim>\<open>auth-rsa.c\<close>: RSA authentication on the server, and the client's answer to the challenge from
  \<^verbatim>\<open>sshconnect.c\<close>. The global variables that options of a key set are the record \<open>key_options\<close>. Files
  and their permissions, the name and address of the client's host, and the bytes the client sends are
  arguments. Log and debug messages are left out.
\<close>

section \<open>The challenge\<close>

definition challenge_response :: "byte list \<Rightarrow> nat \<Rightarrow> byte list" where
  "challenge_response session_id challenge =
     MD5Final (MD5Update (MD5Update MD5Init (mp_linearize_msb_first 32 challenge)) (take 16 session_id))"

fun get_chars :: "nat \<Rightarrow> byte list \<Rightarrow> byte list res" where
  "get_chars 0 q = Inr []"
| "get_chars (Suc n) q = rbind (bytes_get_char q) (\<lambda>(b, q). rbind (get_chars n q) (\<lambda>bs. Inr (b # bs)))"

text \<open>\<open>client\<close> is the content of the response packet for an encrypted challenge.\<close>

definition auth_rsa_challenge_dialog :: "('r \<Rightarrow> byte \<times> 'r) \<Rightarrow> byte list \<Rightarrow> (nat \<Rightarrow> byte list) \<Rightarrow> 'r \<Rightarrow> u32 \<Rightarrow> nat \<Rightarrow> nat \<Rightarrow> (bool \<times> 'r) res" where
  "auth_rsa_challenge_dialog rnd session_id client state bits e n =
     rbind (rsa_random_integer rnd state 256) (\<lambda>(challenge, state).
     if n = 0 then Inl (Undefined ''mpz_mod by zero'') else
     let challenge = challenge mod n; pk = \<lparr>pub_bits = bits, pub_e = e, pub_n = n\<rparr>
     in case rsa_public_encrypt rnd state challenge pk of
          None \<Rightarrow> Inl (Diverges ''random_get_byte'')
        | Some r \<Rightarrow>
            rbind r (\<lambda>(encrypted_challenge, state).
            rbind (get_chars 16 (client encrypted_challenge)) (\<lambda>response.
            Inr (response = challenge_response session_id challenge, state))))"

definition respond_to_rsa_challenge :: "byte list \<Rightarrow> RSAPrivateKey \<Rightarrow> nat \<Rightarrow> byte list res" where
  "respond_to_rsa_challenge session_id prv challenge =
     rbind (rsa_private_decrypt challenge prv) (\<lambda>challenge. Inr (challenge_response session_id challenge))"

section \<open>Options of a key\<close>

record key_options =
  ko_no_port_forwarding :: bool
  ko_no_agent_forwarding :: bool
  ko_no_x11_forwarding :: bool
  ko_no_pty :: bool
  ko_idle_timeout :: int
  ko_forced_command :: "string option"
  ko_custom_environment :: "string list"

datatype key_option =
    No_port_forwarding
  | No_agent_forwarding
  | No_x11_forwarding
  | No_pty
  | Idle_timeout int
  | Command string
  | Environment string
  | From string

definition option_compare :: "string \<Rightarrow> string \<Rightarrow> bool" where
  "option_compare options_line option_name \<longleftrightarrow>
     length option_name \<le> length options_line \<and> map lower (take (length option_name) options_line) = option_name"

abbreviation QUOTE :: char where "QUOTE \<equiv> CHR 0x22"
abbreviation BACKSLASH :: char where "BACKSLASH \<equiv> CHR 0x5C"

text \<open>The text up to the closing quote, and the rest from that quote on (nothing when it is missing).\<close>

fun quoted :: "string \<Rightarrow> string \<times> string" where
  "quoted [] = ([], [])"
| "quoted (c # s) =
     (if c = QUOTE then ([], c # s)
      else if c = BACKSLASH \<and> s \<noteq> [] \<and> hd s = QUOTE then let (t, r) = quoted (tl s) in (QUOTE # t, r)
      else let (t, r) = quoted s in (c # t, r))"

definition timeout_unit :: "string \<Rightarrow> u32 \<times> string" where
  "timeout_unit opts =
     (case opts of
        [] \<Rightarrow> (1, [])
      | c # s \<Rightarrow>
          if lower c = CHR ''w'' then (7 * 24 * 60 * 60, s)
          else if lower c = CHR ''d'' then (24 * 60 * 60, s)
          else if lower c = CHR ''h'' then (60 * 60, s)
          else if lower c = CHR ''m'' then (60, s)
          else if lower c = CHR ''s'' then (1, s)
          else (1, c # s))"

text \<open>The timeout is computed in a 32 bit \<^verbatim>\<open>int\<close>, which is taken to wrap around.\<close>

definition timeout :: "string \<Rightarrow> int \<times> string" where
  "timeout opts =
     (let v = foldl (\<lambda>v c. v * 10 + of_nat (digit_value c)) (0 :: u32) (takeWhile is_digit opts);
          (u, r) = timeout_unit (dropWhile is_digit opts)
      in (sint (v * u), r))"

datatype option_parse = Option key_option string | Unterminated key_option | Unknown

definition quoted_option :: "(string \<Rightarrow> key_option) \<Rightarrow> string \<Rightarrow> option_parse" where
  "quoted_option f opts =
     (case quoted opts of (t, r) \<Rightarrow> if r = [] then Unterminated (f t) else Option (f t) (tl r))"

definition parse_option :: "string \<Rightarrow> option_parse" where
  "parse_option opts =
     (if option_compare opts ''no-port-forwarding'' then Option No_port_forwarding (drop 18 opts)
      else if option_compare opts ''no-agent-forwarding'' then Option No_agent_forwarding (drop 19 opts)
      else if option_compare opts ''no-x11-forwarding'' then Option No_x11_forwarding (drop 17 opts)
      else if option_compare opts ''no-pty'' then Option No_pty (drop 6 opts)
      else if option_compare opts ''idle-timeout='' then
        (case timeout (drop 13 opts) of (v, r) \<Rightarrow> Option (Idle_timeout v) r)
      else if option_compare opts (''command='' @ [QUOTE]) then quoted_option Command (drop 9 opts)
      else if option_compare opts (''environment='' @ [QUOTE]) then quoted_option Environment (drop 13 opts)
      else if option_compare opts (''from='' @ [QUOTE]) then quoted_option From (drop 6 opts)
      else Unknown)"

fun apply_option :: "key_option \<Rightarrow> key_options \<Rightarrow> key_options" where
  "apply_option No_port_forwarding st = st\<lparr>ko_no_port_forwarding := True\<rparr>"
| "apply_option No_agent_forwarding st = st\<lparr>ko_no_agent_forwarding := True\<rparr>"
| "apply_option No_x11_forwarding st = st\<lparr>ko_no_x11_forwarding := True\<rparr>"
| "apply_option No_pty st = st\<lparr>ko_no_pty := True\<rparr>"
| "apply_option (Idle_timeout v) st = st\<lparr>ko_idle_timeout := v\<rparr>"
| "apply_option (Command c) st = st\<lparr>ko_forced_command := Some c\<rparr>"
| "apply_option (Environment s) st = st\<lparr>ko_custom_environment := s # ko_custom_environment st\<rparr>"
| "apply_option (From p) st = st"

lemma option_compare_length: "option_compare opts name \<Longrightarrow> length name \<le> length opts"
  by (simp add: option_compare_def)

lemma quoted_length: "length (snd (quoted s)) \<le> length s"
  by (induction s rule: quoted.induct) (auto split: prod.splits)

lemma quoted_option_length: "quoted_option f opts = Option k rest \<Longrightarrow> length rest \<le> length opts"
  using quoted_length [of opts] by (auto simp: quoted_option_def split: prod.splits if_splits)

lemma timeout_length: "length (snd (timeout opts)) \<le> length opts"
  using length_dropWhile_le [of is_digit opts]
  by (auto simp: timeout_def timeout_unit_def Let_def split: list.splits prod.splits if_splits)

lemma parse_option_length:
  assumes "parse_option opts = Option k rest" shows "length rest < length opts"
  using assms timeout_length [of "drop 13 opts"]
  by (auto simp: parse_option_def dest!: option_compare_length quoted_option_length split: if_splits prod.splits)

text \<open>
  The loop over the options of a key whose owner has answered the challenge: whether the key is still
  accepted, and the options in effect. A forced command without its closing quote has no terminating zero.
\<close>

definition refused :: "string \<Rightarrow> string \<Rightarrow> key_option \<Rightarrow> bool" where
  "refused host ip k \<longleftrightarrow> (case k of From p \<Rightarrow> \<not> match_hostname host (Some ip) p | _ \<Rightarrow> False)"

function process_options :: "string \<Rightarrow> string \<Rightarrow> string \<Rightarrow> key_options \<Rightarrow> (bool \<times> key_options) res" where
  "process_options host ip opts st =
     (if opts = [] \<or> blank (hd opts) then Inr (True, st)
      else case parse_option opts of
        Unknown \<Rightarrow> Inr (False, st)
      | Unterminated (Command c) \<Rightarrow> Inl (Undefined ''forced_command without its terminating zero'')
      | Unterminated _ \<Rightarrow> Inr (True, st)
      | Option k rest \<Rightarrow>
          if refused host ip k then Inr (False, st)
          else if rest = [] then Inl (Fatal ''Bugs in auth-rsa.c option processing.'')
          else if blank (hd rest) then Inr (True, apply_option k st)
          else if hd rest \<noteq> CHR '','' then Inr (False, apply_option k st)
          else process_options host ip (tl rest) (apply_option k st))"
  by pat_completeness auto

termination
  by (relation "measure (\<lambda>(host, ip, opts, st). length opts)") (auto dest: parse_option_length)

declare process_options.simps [simp del]

section \<open>The lines of the file\<close>

text \<open>The end of the options, where the loop that looks for a blank outside quotes stops.\<close>

fun skip_options :: "bool \<Rightarrow> string \<Rightarrow> string" where
  "skip_options q [] = []"
| "skip_options q (c # s) =
     (if q \<or> \<not> blank c
      then if c = BACKSLASH \<and> s \<noteq> [] \<and> hd s = QUOTE then skip_options q (tl s)
           else skip_options (if c = QUOTE then \<not> q else q) s
      else c # s)"

definition key_line :: "string \<Rightarrow> (string option \<times> u32 \<times> nat \<times> nat) option" where
  "key_line line =
     (let cp = dropWhile blank (takeWhile (\<lambda>c. c \<noteq> CHR 0x00) line)
      in if cp = [] \<or> hd cp = NEWLINE \<or> hd cp = CHR ''#'' then None
         else let opts = (if is_digit (hd cp) then None else Some cp);
                  cp = (if is_digit (hd cp) then cp else skip_options False cp)
              in case auth_rsa_read_key cp of
                   None \<Rightarrow> None
                 | Some (bits, e, n, comment) \<Rightarrow> Some (opts, bits, e, n))"

text \<open>\<open>client k\<close> is what the client answers to the challenge number \<open>k\<close> of this call.\<close>

definition key_accepted :: "string \<Rightarrow> string \<Rightarrow> string option \<Rightarrow> key_options \<Rightarrow> (bool \<times> key_options) res" where
  "key_accepted host ip opts st = (case opts of None \<Rightarrow> Inr (True, st) | Some opts \<Rightarrow> process_options host ip opts st)"

fun check_keys :: "('r \<Rightarrow> byte \<times> 'r) \<Rightarrow> byte list \<Rightarrow> (nat \<Rightarrow> nat \<Rightarrow> byte list) \<Rightarrow> nat \<Rightarrow> string \<Rightarrow> string \<Rightarrow> nat \<Rightarrow> string list \<Rightarrow> 'r \<Rightarrow> key_options \<Rightarrow> (bool \<times> 'r \<times> key_options) res" where
  "check_keys rnd session_id client k host ip client_n [] state st = Inr (False, state, st)"
| "check_keys rnd session_id client k host ip client_n (line # ls) state st =
     (case key_line line of
        None \<Rightarrow> check_keys rnd session_id client k host ip client_n ls state st
      | Some (opts, bits, e, n) \<Rightarrow>
          if n \<noteq> client_n then check_keys rnd session_id client k host ip client_n ls state st
          else rbind (auth_rsa_challenge_dialog rnd session_id (client k) state bits e n) (\<lambda>(correct, state).
               if \<not> correct then check_keys rnd session_id client (Suc k) host ip client_n ls state st
               else rbind (key_accepted host ip opts st) (\<lambda>(authenticated, st).
                    if authenticated then Inr (True, state, st)
                    else check_keys rnd session_id client (Suc k) host ip client_n ls state st)))"

text \<open>
  What the file system says about the user: whether the home directory, the \<^verbatim>\<open>.ssh\<close> directory and
  the file have safe owners and permissions (the last two only when they exist), and the text of the file
  when it can be opened.
\<close>

record user_files =
  home_safe :: bool
  ssh_dir_safe :: "bool option"
  keys_safe :: "bool option"
  authorized_keys :: "string option"

definition auth_rsa :: "('r \<Rightarrow> byte \<times> 'r) \<Rightarrow> byte list \<Rightarrow> (nat \<Rightarrow> nat \<Rightarrow> byte list) \<Rightarrow> string \<Rightarrow> string \<Rightarrow> bool \<Rightarrow> user_files \<Rightarrow> nat \<Rightarrow> 'r \<Rightarrow> key_options \<Rightarrow> (bool \<times> 'r \<times> key_options) res" where
  "auth_rsa rnd session_id client host ip strict_modes user client_n state st =
     (if strict_modes \<and> \<not> home_safe user then Inr (False, state, st)
      else case ssh_dir_safe user of
        None \<Rightarrow> Inr (False, state, st)
      | Some dir_safe \<Rightarrow>
          if strict_modes \<and> \<not> dir_safe then Inr (False, state, st)
          else case keys_safe user of
            None \<Rightarrow> Inr (False, state, st)
          | Some file_safe \<Rightarrow>
              if strict_modes \<and> \<not> file_safe then Inr (False, state, st)
              else case authorized_keys user of
                None \<Rightarrow> Inr (False, state, st)
              | Some text \<Rightarrow> check_keys rnd session_id client 0 host ip client_n (file_lines 8191 text) state st)"

section \<open>What the options mean\<close>

function option_list :: "string \<Rightarrow> key_option list option" where
  "option_list opts =
     (if opts = [] \<or> blank (hd opts) then Some []
      else case parse_option opts of
        Unknown \<Rightarrow> None
      | Unterminated k \<Rightarrow> None
      | Option k rest \<Rightarrow>
          if rest = [] then None
          else if blank (hd rest) then Some [k]
          else if hd rest \<noteq> CHR '','' then None
          else map_option ((#) k) (option_list (tl rest)))"
  by pat_completeness auto

termination
  by (relation "measure length") (auto dest: parse_option_length)

declare option_list.simps [simp del]

lemma skip_options_lower:
  assumes "map lower (take (length name) opts) = name" "list_all (\<lambda>c. \<not> blank c \<and> c \<noteq> QUOTE \<and> c \<noteq> BACKSLASH) name"
    "length name \<le> length opts"
  shows "skip_options False opts = skip_options False (drop (length name) opts)"
  using assms
proof (induction name arbitrary: opts)
  case Nil
  then show ?case by simp
next
  case (Cons a name)
  then obtain c s where o: "opts = c # s" by (cases opts) auto
  have "lower QUOTE = QUOTE" "lower BACKSLASH = BACKSLASH" "lower CHR '' '' = CHR '' ''" "lower TAB = TAB" by (simp_all add: lower_def)
  then have c: "\<not> blank c" "c \<noteq> QUOTE" "c \<noteq> BACKSLASH" using Cons.prems by (auto simp: o blank_def)
  with Cons show ?case by (simp add: o)
qed

lemma skip_options_digits: "skip_options False opts = skip_options False (dropWhile is_digit opts)"
  by (induction opts) (auto simp: is_digit_def blank_def)

lemma skip_options_unit: "skip_options False (snd (timeout_unit opts)) = skip_options False opts"
  by (auto simp: timeout_unit_def lower_def blank_def split: list.splits)

lemma skip_options_timeout: "skip_options False (snd (timeout opts)) = skip_options False opts"
proof -
  have "snd (timeout opts) = snd (timeout_unit (dropWhile is_digit opts))"
    by (simp add: timeout_def Let_def split: prod.split)
  then show ?thesis using skip_options_unit skip_options_digits [of opts] by simp
qed

lemma skip_options_quoted: "snd (quoted s) \<noteq> [] \<Longrightarrow> skip_options True s = skip_options False (tl (snd (quoted s)))"
  by (induction s rule: quoted.induct) (auto split: prod.splits if_splits)

lemma skip_options_unterminated: "snd (quoted s) = [] \<Longrightarrow> skip_options True s = []"
  by (induction s rule: quoted.induct) (auto split: prod.splits if_splits)

lemma option_compare_take: "option_compare opts name \<Longrightarrow> length name \<le> length opts \<and> map lower (take (length name) opts) = name"
  by (simp add: option_compare_def)

lemma skip_options_plain:
  assumes "option_compare opts name" "list_all (\<lambda>c. \<not> blank c \<and> c \<noteq> QUOTE \<and> c \<noteq> BACKSLASH) name"
  shows "skip_options False opts = skip_options False (drop (length name) opts)"
  using skip_options_lower assms option_compare_take by blast

lemma skip_options_open_quote:
  assumes "option_compare opts (name @ [QUOTE])" "list_all (\<lambda>c. \<not> blank c \<and> c \<noteq> QUOTE \<and> c \<noteq> BACKSLASH) name"
  shows "skip_options False opts = skip_options True (drop (length name + 1) opts)"
proof -
  have l: "length name < length opts" "map lower (take (length name + 1) opts) = name @ [QUOTE]"
    using assms(1) by (auto simp: option_compare_def)
  have t: "take (length name + 1) opts = take (length name) opts @ [opts ! length name]"
    using l(1) by (simp add: take_Suc_conv_app_nth)
  have "map lower (take (length name) opts) = name" "lower (opts ! length name) = QUOTE"
    using l(2) unfolding t by auto
  moreover from this have q: "opts ! length name = QUOTE"
  proof -
    have "c = QUOTE" if "lower c = QUOTE" for c
    proof (cases "65 \<le> (of_char c :: nat) \<and> (of_char c :: nat) \<le> 90")
      case True
      then have "of_char (lower c) = (of_char c + 32 :: nat)" by (simp add: lower_def)
      then show ?thesis using that True by simp
    next
      case False
      then have "lower c = c" by (simp only: lower_def if_False)
      then show ?thesis using that by simp
    qed
    then show ?thesis using \<open>lower (opts ! length name) = QUOTE\<close> by blast
  qed
  ultimately have "skip_options False opts = skip_options False (drop (length name) opts)"
    using skip_options_lower assms(2) l(1) by auto
  also have "drop (length name) opts = QUOTE # drop (length name + 1) opts"
    using l(1) q Cons_nth_drop_Suc [of "length name" opts] by simp
  finally show ?thesis by (simp add: blank_def)
qed

lemma quoted_option_skip:
  assumes "skip_options True opts \<noteq> []"
  shows "\<exists>t r. quoted_option f opts = Option (f t) r \<and> skip_options False r = skip_options True opts"
  using assms skip_options_unterminated [of opts] skip_options_quoted [of opts]
  by (auto simp: quoted_option_def split: prod.splits)

text \<open>Parsing agrees with the scan for the end of the options.\<close>

definition parsed :: "string \<Rightarrow> option_parse \<Rightarrow> bool" where
  "parsed opts p \<longleftrightarrow> p = Unknown \<or> (\<exists>k rest. p = Option k rest \<and> skip_options False rest = skip_options False opts)"

lemma parsed_if: "(c \<Longrightarrow> parsed opts p) \<Longrightarrow> parsed opts q \<Longrightarrow> parsed opts (if c then p else q)"
  by simp

lemma parsed_Unknown: "parsed opts Unknown"
  by (simp add: parsed_def)

abbreviation plain :: "string \<Rightarrow> bool" where
  "plain \<equiv> list_all (\<lambda>c. \<not> blank c \<and> c \<noteq> QUOTE \<and> c \<noteq> BACKSLASH)"

lemma parsed_word: "option_compare opts name \<Longrightarrow> plain name \<Longrightarrow> length name = n \<Longrightarrow> parsed opts (Option k (drop n opts))"
  using skip_options_plain [of opts name] by (simp add: parsed_def)

lemma parsed_timeout:
  "option_compare opts name \<Longrightarrow> plain name \<Longrightarrow> length name = n \<Longrightarrow>
   parsed opts (case timeout (drop n opts) of (v, r) \<Rightarrow> Option (Idle_timeout v) r)"
  using skip_options_plain [of opts name] skip_options_timeout [of "drop n opts"] by (auto simp: parsed_def split: prod.split)

lemma parsed_quoted:
  assumes "option_compare opts (name @ [QUOTE])" "skip_options False opts \<noteq> []" "plain name" "length name + 1 = n"
  shows "parsed opts (quoted_option f (drop n opts))"
  using skip_options_open_quote [OF assms(1,3)] assms(2,4) quoted_option_skip [of "drop n opts" f] by (force simp: parsed_def)

lemma parse_option_skip: "skip_options False opts \<noteq> [] \<Longrightarrow> parsed opts (parse_option opts)"
  unfolding parse_option_def
  by (intro parsed_if parsed_Unknown; erule parsed_word parsed_timeout parsed_quoted; simp add: blank_def)

lemma process_options_meaning:
  assumes "skip_options False opts \<noteq> []"
  shows "\<exists>authenticated st'. process_options host ip opts st = Inr (authenticated, st') \<and>
    (authenticated \<longleftrightarrow> (\<exists>ks. option_list opts = Some ks \<and> list_all (\<lambda>k. \<not> refused host ip k) ks)) \<and>
    (authenticated \<longrightarrow> st' = fold apply_option (the (option_list opts)) st)"
  using assms
proof (induction host ip opts st rule: process_options.induct)
  case (1 host ip opts st)
  show ?case
  proof (cases "opts = [] \<or> blank (hd opts)")
    case True
    then show ?thesis by (auto simp: process_options.simps [of host ip opts] option_list.simps [of opts])
  next
    case False
    from parse_option_skip [OF 1(2), unfolded parsed_def] consider "parse_option opts = Unknown"
      | k rest where "parse_option opts = Option k rest" "skip_options False rest = skip_options False opts" by blast
    then show ?thesis
    proof cases
      case 1
      then show ?thesis using False by (auto simp: process_options.simps [of host ip opts] option_list.simps [of opts])
    next
      case (2 k rest)
      have rest: "rest \<noteq> []" using 2(2) 1(2) by auto
      have tl: "skip_options False (tl rest) \<noteq> []" if "hd rest = CHR '',''"
        using 2(2) 1(2) rest that by (cases rest) (auto simp: blank_def)
      show ?thesis
        using False 2(1) rest 1(1) [OF False 2(1)] tl
        by (auto simp: process_options.simps [of host ip opts] option_list.simps [of opts])
    qed
  qed
qed

definition line_options :: "string option \<Rightarrow> key_option list option" where
  "line_options opts = (case opts of None \<Rightarrow> Some [] | Some opts \<Rightarrow> option_list opts)"

text \<open>All options are understood, and every \<^verbatim>\<open>from\<close> admits the client's host.\<close>

definition options_allow :: "string \<Rightarrow> string \<Rightarrow> key_option list option \<Rightarrow> bool" where
  "options_allow host ip ks \<longleftrightarrow> (case ks of None \<Rightarrow> False | Some ks \<Rightarrow> list_all (\<lambda>k. \<not> refused host ip k) ks)"

lemma read_key_Nil: "auth_rsa_read_key [] = None"
  by (simp add: auth_rsa_read_key_def)

lemma key_line_options:
  assumes "key_line line = Some (Some opts, key)" shows "skip_options False opts \<noteq> []"
  using assms read_key_Nil by (auto simp: key_line_def Let_def split: if_splits option.splits)

lemma key_accepted_meaning:
  assumes "key_line line = Some (opts, key)"
  shows "\<exists>st'. key_accepted host ip opts st = Inr (options_allow host ip (line_options opts), st') \<and>
    (options_allow host ip (line_options opts) \<longrightarrow> st' = fold apply_option (the (line_options opts)) st)"
proof (cases opts)
  case None
  then show ?thesis by (simp add: key_accepted_def options_allow_def line_options_def)
next
  case (Some o')
  then have "skip_options False o' \<noteq> []" using key_line_options assms by blast
  from process_options_meaning [OF this] obtain a st' where
    p: "process_options host ip o' st = Inr (a, st')"
      "a \<longleftrightarrow> (\<exists>ks. option_list o' = Some ks \<and> list_all (\<lambda>k. \<not> refused host ip k) ks)"
      "a \<longrightarrow> st' = fold apply_option (the (option_list o')) st" by blast
  then have "a = options_allow host ip (line_options opts)"
    by (auto simp: Some options_allow_def line_options_def split: option.split)
  then show ?thesis using p by (simp add: Some key_accepted_def line_options_def)
qed

section \<open>Who is accepted\<close>

lemma check_keys_accepts:
  "check_keys rnd sid client k host ip client_n ls state st = Inr (True, state', st') \<Longrightarrow>
   \<exists>line\<in>set ls. \<exists>opts bits e j s st1. key_line line = Some (opts, bits, e, client_n) \<and>
     auth_rsa_challenge_dialog rnd sid (client j) s bits e client_n = Inr (True, state') \<and>
     options_allow host ip (line_options opts) \<and> st' = fold apply_option (the (line_options opts)) st1"
proof (induction ls arbitrary: k state st)
  case Nil
  then show ?case by simp
next
  case (Cons line ls)
  show ?case
  proof (cases "key_line line")
    case None
    with Cons show ?thesis by fastforce
  next
    case (Some key)
    obtain opts bits e n where key: "key = (opts, bits, e, n)" by (rule prod_cases4)
    obtain st2 where acc: "key_accepted host ip opts st = Inr (options_allow host ip (line_options opts), st2)"
      "options_allow host ip (line_options opts) \<longrightarrow> st2 = fold apply_option (the (line_options opts)) st"
      using key_accepted_meaning [OF Some [unfolded key]] by blast
    show ?thesis
    proof (cases "n = client_n")
      case False
      with Cons Some key show ?thesis by fastforce
    next
      case n: True
      with Cons.prems Some key obtain correct state1 where
        d: "auth_rsa_challenge_dialog rnd sid (client k) state bits e client_n = Inr (correct, state1)"
        by (auto simp: rbind_eq_Inr)
      show ?thesis
      proof (cases "correct \<and> options_allow host ip (line_options opts)")
        case True
        with Cons.prems Some key n d acc have "state' = state1" "st' = st2" by simp_all
        with Some key n d acc True show ?thesis by auto
      next
        case False
        then obtain k' st0 where "check_keys rnd sid client k' host ip client_n ls state1 st0 = Inr (True, state', st')"
          using Cons.prems Some key n d acc by (cases correct) auto
        from Cons.IH [OF this] show ?thesis by auto
      qed
    qed
  qed
qed

lemma auth_rsa_checks:
  assumes "auth_rsa rnd sid client host ip strict user client_n state st = Inr (True, state', st')"
  shows "(strict \<longrightarrow> home_safe user \<and> ssh_dir_safe user = Some True \<and> keys_safe user = Some True) \<and>
    (\<exists>text. authorized_keys user = Some text \<and>
      check_keys rnd sid client 0 host ip client_n (file_lines 8191 text) state st = Inr (True, state', st'))"
  using assms unfolding auth_rsa_def by (auto split: if_splits option.splits)

text \<open>The lines before the first one with the client's modulus play no part.\<close>

definition other_key :: "nat \<Rightarrow> string \<Rightarrow> bool" where
  "other_key client_n line \<longleftrightarrow> (case key_line line of None \<Rightarrow> True | Some (opts, bits, e, n) \<Rightarrow> n \<noteq> client_n)"

lemma check_keys_skip:
  "list_all (other_key client_n) ls \<Longrightarrow>
   check_keys rnd sid client k host ip client_n (ls @ ls') state st = check_keys rnd sid client k host ip client_n ls' state st"
  by (induction ls) (auto simp: other_key_def split: option.splits)

section \<open>The client that has the key\<close>

definition key_holder :: "byte list \<Rightarrow> RSAPrivateKey \<Rightarrow> nat \<Rightarrow> byte list" where
  "key_holder sid prv challenge = (case respond_to_rsa_challenge sid prv challenge of Inl e \<Rightarrow> [] | Inr bs \<Rightarrow> bs)"

lemma get_chars_all: "get_chars (length q) q = Inr q"
  by (induction q) (simp_all add: bytes_get_char_def get_char_via_def bytes_get_def)

lemma challenge_response_length: "length (challenge_response sid c) = 16"
  by (simp add: challenge_response_def MD5Final_length)

text \<open>The challenge leaves room for its padding below the modulus; so it does whenever the key has at least 273 bits.\<close>

definition challenge_fits :: "('r \<Rightarrow> byte \<times> 'r) \<Rightarrow> 'r \<Rightarrow> RSAPublicKey \<Rightarrow> bool" where
  "challenge_fits rnd state pub \<longleftrightarrow>
     (case rsa_random_integer rnd state 256 of Inl e \<Rightarrow> False
      | Inr (c, _) \<Rightarrow> (bit_length (c mod pub_n pub) + 7) div 8 + 3 \<le> key_len (pub_bits pub))"

lemma key_holder_dialog:
  assumes key: "key_good bits prv pub" "4 \<le> bits" "unat bits < 2 ^ 31" and rnd: "eventually_nonzero rnd"
    and fits: "challenge_fits rnd state pub"
  shows "\<exists>state'. auth_rsa_challenge_dialog rnd sid (key_holder sid prv) state (pub_bits pub) (pub_e pub) (pub_n pub) = Inr (True, state')"
proof -
  have b: "pub_bits pub = bits" "0 < pub_n pub" using key by (auto simp: key_good_def public_of_def intro: less_le_trans [rotated])
  from fits obtain c s where c: "rsa_random_integer rnd state 256 = Inr (c, s)"
    "(bit_length (c mod pub_n pub) + 7) div 8 + 3 \<le> key_len bits"
    by (auto simp: challenge_fits_def b(1) split: sum.splits)
  let ?c = "c mod pub_n pub"
  obtain enc s' where enc: "rsa_public_encrypt rnd s ?c pub = Some (Inr (enc, s'))" "rsa_private_decrypt enc prv = Inr ?c"
    using encrypt_decrypt [OF key rnd c(2)] by blast
  have pub: "\<lparr>pub_bits = pub_bits pub, pub_e = pub_e pub, pub_n = pub_n pub\<rparr> = pub" by simp
  have "key_holder sid prv enc = challenge_response sid ?c" by (simp add: key_holder_def respond_to_rsa_challenge_def enc(2))
  moreover have "get_chars 16 (challenge_response sid ?c) = Inr (challenge_response sid ?c)"
    using get_chars_all [of "challenge_response sid ?c"] by (simp add: challenge_response_length)
  ultimately show ?thesis using b(2) by (simp add: auth_rsa_challenge_dialog_def c(1) enc(1) Let_def pub)
qed

lemma process_options_refused:
  assumes "option_list opts = Some (ks @ k # ks')" "list_all (\<lambda>k. \<not> refused host ip k) ks" "refused host ip k"
  shows "process_options host ip opts st = Inr (False, fold apply_option ks st)"
  using assms
proof (induction ks arbitrary: opts st)
  case Nil
  then obtain rest where "\<not> (opts = [] \<or> blank (hd opts))" "parse_option opts = Option k rest"
    by (subst (asm) option_list.simps) (auto split: if_splits option_parse.splits option.splits)
  then show ?case using Nil by (simp add: process_options.simps [of host ip opts])
next
  case (Cons a ks)
  then obtain rest where r: "\<not> (opts = [] \<or> blank (hd opts))" "parse_option opts = Option a rest"
    "rest \<noteq> []" "hd rest = CHR '',''" "option_list (tl rest) = Some (ks @ k # ks')"
    by (subst (asm) option_list.simps) (auto split: if_splits option_parse.splits option.splits)
  have "\<not> refused host ip a" using Cons.prems by simp
  moreover have "\<not> blank CHR '',''" by (simp add: blank_def)
  moreover have "process_options host ip (tl rest) (apply_option a st) = Inr (False, fold apply_option ks (apply_option a st))"
    using Cons.IH [OF r(5)] Cons.prems by simp
  ultimately show ?case using r by (simp add: process_options.simps [of host ip opts])
qed

lemma check_keys_here:
  assumes "list_all (other_key client_n) ls" "key_line line = Some (opts, bits, e, client_n)"
    "auth_rsa_challenge_dialog rnd sid (client k) state bits e client_n = Inr (True, state')"
  shows "check_keys rnd sid client k host ip client_n (ls @ line # ls') state st =
    rbind (key_accepted host ip opts st) (\<lambda>(authenticated, st).
      if authenticated then Inr (True, state', st) else check_keys rnd sid client (Suc k) host ip client_n ls' state' st)"
  by (simp add: check_keys_skip [OF assms(1)] assms(2,3))

lemma check_keys_other: "list_all (other_key client_n) ls \<Longrightarrow> check_keys rnd sid client k host ip client_n ls state st = Inr (False, state, st)"
  using check_keys_skip [of client_n ls _ _ _ _ _ _ "[]"] by simp

definition accessible :: "bool \<Rightarrow> user_files \<Rightarrow> bool" where
  "accessible strict user \<longleftrightarrow>
     (case (ssh_dir_safe user, keys_safe user) of
        (Some d, Some f) \<Rightarrow> strict \<longrightarrow> home_safe user \<and> d \<and> f
      | _ \<Rightarrow> False)"

lemma auth_rsa_accessible:
  "accessible strict user \<Longrightarrow> authorized_keys user = Some text \<Longrightarrow>
   auth_rsa rnd sid client host ip strict user client_n state st =
   check_keys rnd sid client 0 host ip client_n (file_lines 8191 text) state st"
  by (auto simp: auth_rsa_def accessible_def split: option.splits)

lemma accepted_key_holder:
  assumes "key_good bits prv pub" and "4 \<le> bits" and "unat bits < 2 ^ 31"
    and "eventually_nonzero rnd" and "challenge_fits rnd state pub"
    and "accessible strict user" and "authorized_keys user = Some text"
    and "file_lines 8191 text = ls @ line # ls'" and "list_all (other_key (pub_n pub)) ls"
    and "key_line line = Some (opts, pub_bits pub, pub_e pub, pub_n pub)" and "options_allow host ip (line_options opts)"
    and "client 0 = key_holder sid prv"
  shows "\<exists>state'. auth_rsa rnd sid client host ip strict user (pub_n pub) state st =
    Inr (True, state', fold apply_option (the (line_options opts)) st)"
proof -
  obtain state' where d: "auth_rsa_challenge_dialog rnd sid (client 0) state (pub_bits pub) (pub_e pub) (pub_n pub) = Inr (True, state')"
    using key_holder_dialog [OF assms(1-5)] assms(12) by metis
  have "key_accepted host ip opts st = Inr (True, fold apply_option (the (line_options opts)) st)"
    using key_accepted_meaning [OF assms(10), of host ip st] assms(11) by auto
  then show ?thesis
    by (simp add: auth_rsa_accessible [OF assms(6,7)] assms(8) check_keys_here [OF assms(9,10), of rnd sid client 0, OF d])
qed

section \<open>A login\<close>

definition demo_user :: "string \<Rightarrow> user_files" where
  "demo_user text = \<lparr>home_safe = True, ssh_dir_safe = Some True, keys_safe = Some True, authorized_keys = Some text\<rparr>"

definition key_entry :: "string \<Rightarrow> u32 \<Rightarrow> nat \<Rightarrow> nat \<Rightarrow> string" where
  "key_entry opts bits e n = opts @ '' '' @ decimal (unat bits) @ '' '' @ decimal e @ '' '' @ decimal n @ [NEWLINE]"

definition no_options :: key_options where
  "no_options = \<lparr>ko_no_port_forwarding = False, ko_no_agent_forwarding = False, ko_no_x11_forwarding = False,
     ko_no_pty = False, ko_idle_timeout = 0, ko_forced_command = None, ko_custom_environment = []\<rparr>"

lemma key_line_entry:
  assumes "opts \<noteq> []" "hd opts \<noteq> CHR ''#''" "\<not> blank (hd opts)" "\<not> is_digit (hd opts)"
    "list_all (\<lambda>c. c \<noteq> NEWLINE \<and> c \<noteq> CHR 0x00) opts" "\<And>r. skip_options False (opts @ CHR '' '' # r) = CHR '' '' # r"
  shows "key_line (key_entry opts bits e n) = Some (Some (key_entry opts bits e n), bits, e, n)"
proof -
  let ?r = "decimal (unat bits) @ '' '' @ decimal e @ '' '' @ decimal n @ [NEWLINE]" and ?l = "key_entry opts bits e n"
  have l: "?l = opts @ CHR '' '' # ?r" by (simp add: key_entry_def)
  have "\<forall>c \<in> set ?l. c \<noteq> CHR 0x00" using assms(5) decimal_char by (auto simp: l list_all_iff)
  then have nul: "takeWhile (\<lambda>c. c \<noteq> CHR 0x00) ?l = ?l" by (simp only: takeWhile_eq_all_conv)
  have "dropWhile blank ?l = ?l" using assms(1,3) unfolding l by (cases opts) auto
  then have cp: "dropWhile blank (takeWhile (\<lambda>c. c \<noteq> CHR 0x00) ?l) = ?l" by (simp only: nul)
  have "hd opts \<noteq> NEWLINE" using assms(1,5) by (cases opts) auto
  then have first: "?l \<noteq> []" "hd ?l \<noteq> CHR ''#''" "hd ?l \<noteq> NEWLINE" "\<not> is_digit (hd ?l)" using assms(1,2,4) by (auto simp: l)
  have key: "auth_rsa_read_key (CHR '' '' # ?r) = Some (bits, e, n, dropWhile blank [NEWLINE])"
    using read_key_decimal [of "[NEWLINE]" "unat bits" e n] by (simp add: is_digit_def)
  have skip: "skip_options False ?l = CHR '' '' # ?r" unfolding l by (rule assms(6))
  show ?thesis unfolding key_line_def Let_def cp by (simp only: first if_False simp_thms skip key option.case prod.case)
qed

lemma option_compare_same: "map lower name = name \<Longrightarrow> option_compare (name @ r) name"
  by (simp add: option_compare_def)

lemma option_compare_differs:
  assumes "map lower (take k p) \<noteq> take k name" "k \<le> length p" "k \<le> length name" shows "\<not> option_compare (p @ r) name"
proof
  assume "option_compare (p @ r) name"
  then have "map lower (take (length name) (p @ r)) = name" by (simp add: option_compare_def)
  then have "take k (map lower (take (length name) (p @ r))) = take k name" by simp
  then show False using assms by (simp add: take_map min_absorb1)
qed

lemma demo_no_pty: "option_list (key_entry ''no-pty'' b e n) = Some [No_pty]"
proof -
  let ?r = "'' '' @ decimal (unat b) @ '' '' @ decimal e @ '' '' @ decimal n @ [NEWLINE]"
  have c: "\<not> option_compare (''no-pty'' @ ?r) ''no-port-forwarding''" "\<not> option_compare (''no-pty'' @ ?r) ''no-agent-forwarding''"
    "\<not> option_compare (''no-pty'' @ ?r) ''no-x11-forwarding''"
    by (rule option_compare_differs [of 5]; simp add: lower_def)+
  have p: "option_compare (''no-pty'' @ ?r) ''no-pty''" by (rule option_compare_same) (simp add: lower_def)
  have d: "drop 6 (''no-pty'' @ ?r) = ?r" by simp
  have "parse_option (''no-pty'' @ ?r) = Option No_pty ?r"
    unfolding parse_option_def by (simp only: c p d if_True if_False)
  then show ?thesis by (simp add: key_entry_def option_list.simps [of "_ # _"] blank_def)
qed

definition from_options :: string where
  "from_options = ''command='' @ [QUOTE] @ ''ls'' @ [QUOTE] @ '',from='' @ [QUOTE] @ ''*.fi'' @ [QUOTE]"

lemma demo_command_from:
  "option_list (key_entry from_options b e n) = Some [Command ''ls'', From ''*.fi'']"
proof -
  let ?r = "'' '' @ decimal (unat b) @ '' '' @ decimal e @ '' '' @ decimal n @ [NEWLINE]"
  let ?c = "''command='' @ [QUOTE]" and ?f = "''from='' @ [QUOTE]"
  let ?f2 = "''*.fi'' @ [QUOTE] @ ?r"
  let ?c2 = "''ls'' @ [QUOTE] @ '','' @ ?f @ ?f2"
  have c: "\<not> option_compare (?c @ ?c2) ''no-port-forwarding''" "\<not> option_compare (?c @ ?c2) ''no-agent-forwarding''"
    "\<not> option_compare (?c @ ?c2) ''no-x11-forwarding''" "\<not> option_compare (?c @ ?c2) ''no-pty''" "\<not> option_compare (?c @ ?c2) ''idle-timeout=''"
    by (rule option_compare_differs [of 1]; simp add: lower_def)+
  have f: "\<not> option_compare (?f @ ?f2) ''no-port-forwarding''" "\<not> option_compare (?f @ ?f2) ''no-agent-forwarding''"
    "\<not> option_compare (?f @ ?f2) ''no-x11-forwarding''" "\<not> option_compare (?f @ ?f2) ''no-pty''" "\<not> option_compare (?f @ ?f2) ''idle-timeout=''"
    "\<not> option_compare (?f @ ?f2) (''command='' @ [QUOTE])" "\<not> option_compare (?f @ ?f2) (''environment='' @ [QUOTE])"
    by (rule option_compare_differs [of 1]; simp add: lower_def)+
  have p: "option_compare (?c @ ?c2) ?c" "option_compare (?f @ ?f2) ?f" by (rule option_compare_same; simp add: lower_def)+
  have d: "drop 9 (?c @ ?c2) = ?c2" "drop 6 (?f @ ?f2) = ?f2" by simp_all
  have q: "quoted_option Command ?c2 = Option (Command ''ls'') ('','' @ ?f @ ?f2)" "quoted_option From ?f2 = Option (From ''*.fi'') ?r"
    by (simp_all add: quoted_option_def)
  have 1: "parse_option (?c @ ?c2) = Option (Command ''ls'') ('','' @ ?f @ ?f2)"
    unfolding parse_option_def by (simp only: c p d q if_True if_False)
  have 2: "parse_option (?f @ ?f2) = Option (From ''*.fi'') ?r"
    unfolding parse_option_def by (simp only: f p d q if_True if_False)
  have "option_list (?f @ ?f2) = Some [From ''*.fi'']"
    using 2 by (subst option_list.simps) (simp add: blank_def)
  then have "option_list (?c @ ?c2) = Some [Command ''ls'', From ''*.fi'']"
    using 1 by (subst option_list.simps) (simp add: blank_def)
  then show ?thesis by (simp add: key_entry_def from_options_def)
qed

lemma eventually_nonzero_list: "eventually_nonzero list_random"
proof -
  have "fst (list_random (((snd \<circ> list_random) ^^ length r) r)) = 1" for r
    by (induction r) (simp_all add: funpow_Suc_right del: funpow.simps)
  then show ?thesis unfolding eventually_nonzero_def by (metis zero_neq_one)
qed

lemma demo_challenge: "challenge_fits list_random (replicate 32 0) demo_public"
proof -
  have "random_bytes list_random k (replicate k 0 @ s) = (replicate k 0, s)" for k s
    by (induction k) simp_all
  from this [of 32 "[]"] have "rsa_random_integer list_random (replicate 32 0) 256 = Inr (hex_value (concat (map byte_hex (replicate 32 0))) mod 2 ^ unat (256 :: u32), [])"
    by (simp only: rsa_random_integer_def Let_def append_Nil2) simp
  moreover have "hex_value (concat (map byte_hex (replicate k 0))) = 0" for k
    by (induction k) (simp_all add: hex_value_def byte_hex_def)
  ultimately have "rsa_random_integer list_random (replicate 32 0) 256 = Inr (0, [])" by (simp only: mod_0)
  moreover have "key_len 25 = 4" "bit_length 0 = 1" by (simp_all add: key_len_def bit_length.simps)
  ultimately show ?thesis by (simp only: challenge_fits_def sum.case prod.case mod_0 RSAPublicKey.simps)
qed

lemma demo_file_lines: "length (key_entry opts b e n) \<le> 8191 \<Longrightarrow> NEWLINE \<notin> set opts \<Longrightarrow> file_lines 8191 (key_entry opts b e n) = [key_entry opts b e n]"
  using file_lines_line [of "opts @ '' '' @ decimal (unat b) @ '' '' @ decimal e @ '' '' @ decimal n" 8191] decimal_char
  by (auto simp: key_entry_def)

lemma demo_accessible: "accessible True (demo_user text)" "authorized_keys (demo_user text) = Some text"
  by (simp_all add: accessible_def demo_user_def)

abbreviation pty_entry :: string where "pty_entry \<equiv> key_entry ''no-pty'' 25 37 18938929"

abbreviation from_entry :: string where
  "from_entry \<equiv> key_entry from_options 25 37 18938929"

lemma demo_lines:
  "file_lines 8191 pty_entry = [pty_entry]" "key_line pty_entry = Some (Some pty_entry, 25, 37, 18938929)"
  "file_lines 8191 from_entry = [from_entry]" "key_line from_entry = Some (Some from_entry, 25, 37, 18938929)"
proof -
  show "file_lines 8191 pty_entry = [pty_entry]" "file_lines 8191 from_entry = [from_entry]"
    by (rule demo_file_lines; simp add: from_options_def key_entry_def decimal.simps)+
  show "key_line pty_entry = Some (Some pty_entry, 25, 37, 18938929)" "key_line from_entry = Some (Some from_entry, 25, 37, 18938929)"
    by (rule key_line_entry; simp add: from_options_def blank_def is_digit_def)+
qed

lemma demo_login:
  "\<exists>state'. auth_rsa list_random (replicate 16 7) (\<lambda>k. key_holder (replicate 16 7) demo_private) ''a.fi'' ''10.0.0.1'' True
     (demo_user pty_entry) 18938929 (replicate 32 0) no_options = Inr (True, state', no_options\<lparr>ko_no_pty := True\<rparr>)"
proof -
  have "line_options (Some pty_entry) = Some [No_pty]" by (simp only: line_options_def option.case demo_no_pty)
  moreover from this have "options_allow ''a.fi'' ''10.0.0.1'' (line_options (Some pty_entry))"
    by (simp add: options_allow_def refused_def)
  moreover have "list_all (other_key (pub_n demo_public)) []" by simp
  ultimately show ?thesis
    using accepted_key_holder [OF demo_good _ _ eventually_nonzero_list demo_challenge demo_accessible, where ls = "[]" and ls' = "[]"
        and line = pty_entry and opts = "Some pty_entry" and client = "\<lambda>k. key_holder (replicate 16 7) demo_private" and sid = "replicate 16 7"]
    by (simp add: demo_lines)
qed

lemma demo_pty_options: "line_options (Some pty_entry) = Some [No_pty]"
  by (simp only: line_options_def option.case demo_no_pty)

section \<open>Properties\<close>

text \<open>C5: RSA authentication accepts only a client that has answered the challenge for a key of the user's file. When
  \<^verbatim>\<open>auth_rsa\<close> accepts, some line of the file has the modulus the client named, the dialog for exactly that key ended with
  the response to its challenge, every option of the line was understood, no \<^verbatim>\<open>from\<close> pattern refuses the client's host, and
  all options of the line are in effect; with strict modes the home directory, the directory of the key file
  and the file itself have safe permissions.\<close>

theorem auth_rsa_accepts_only_key_holders:
  assumes "auth_rsa rnd sid client host ip strict user client_n state st = Inr (True, state', st')"
  shows "(strict \<longrightarrow> home_safe user \<and> ssh_dir_safe user = Some True \<and> keys_safe user = Some True) \<and>
    (\<exists>text line opts bits e ks j s st1. authorized_keys user = Some text \<and> line \<in> set (file_lines 8191 text) \<and>
      key_line line = Some (opts, bits, e, client_n) \<and>
      auth_rsa_challenge_dialog rnd sid (client j) s bits e client_n = Inr (True, state') \<and>
      line_options opts = Some ks \<and> list_all (\<lambda>k. \<not> refused host ip k) ks \<and> st' = fold apply_option ks st1)"
proof -
  from auth_rsa_checks [OF assms] obtain keys where
    strict: "strict \<longrightarrow> home_safe user \<and> ssh_dir_safe user = Some True \<and> keys_safe user = Some True" and
    t: "authorized_keys user = Some keys"
      "check_keys rnd sid client 0 host ip client_n (file_lines 8191 keys) state st = Inr (True, state', st')" by blast
  from check_keys_accepts [OF t(2)] obtain line opts bits e j s st1 where
    l: "line \<in> set (file_lines 8191 keys)" "key_line line = Some (opts, bits, e, client_n)"
      "auth_rsa_challenge_dialog rnd sid (client j) s bits e client_n = Inr (True, state')"
      "options_allow host ip (line_options opts)" "st' = fold apply_option (the (line_options opts)) st1" by blast
  from l(4) obtain ks where "line_options opts = Some ks" "list_all (\<lambda>k. \<not> refused host ip k) ks"
    by (auto simp: options_allow_def split: option.splits)
  with strict t l show ?thesis by fastforce
qed

theorem auth_rsa_accepts_only_key_holders_witness:
  "\<exists>state' st'. auth_rsa list_random (replicate 16 7) (\<lambda>k. key_holder (replicate 16 7) demo_private) ''a.fi'' ''10.0.0.1'' True
     (demo_user pty_entry) 18938929 (replicate 32 0) no_options = Inr (True, state', st') \<and> ko_no_pty st'"
proof -
  obtain state' where a: "auth_rsa list_random (replicate 16 7) (\<lambda>k. key_holder (replicate 16 7) demo_private) ''a.fi'' ''10.0.0.1'' True
     (demo_user pty_entry) 18938929 (replicate 32 0) no_options = Inr (True, state', no_options\<lparr>ko_no_pty := True\<rparr>)"
    using demo_login by blast
  from auth_rsa_accepts_only_key_holders [OF a] obtain keys line opts bits e ks st1 where
    "authorized_keys (demo_user pty_entry) = Some keys" "line \<in> set (file_lines 8191 keys)"
    "key_line line = Some (opts, bits, e, 18938929)" "line_options opts = Some ks"
    "no_options\<lparr>ko_no_pty := True\<rparr> = fold apply_option ks st1" by blast
  then have "ko_no_pty (fold apply_option ks st1)" "ks = [No_pty]"
    by (auto simp: demo_accessible demo_lines demo_pty_options)
  then show ?thesis using a \<open>no_options\<lparr>ko_no_pty := True\<rparr> = _\<close> by auto
qed

text \<open>C9: The owner of a key gets in: a client that answers with \<^verbatim>\<open>respond_to_rsa_challenge\<close> and a generated private key is
  accepted when the first line with its modulus carries its public key and options that admit its host, and exactly the options
  of that line take effect.\<close>

theorem key_holder_is_accepted:
  assumes "key_good bits prv pub" and "4 \<le> bits" and "unat bits < 2 ^ 31"
    and "eventually_nonzero rnd" and "challenge_fits rnd state pub"
    and "accessible strict user" and "authorized_keys user = Some text"
    and "file_lines 8191 text = ls @ line # ls'" and "list_all (other_key (pub_n pub)) ls"
    and "key_line line = Some (opts, pub_bits pub, pub_e pub, pub_n pub)" and "options_allow host ip (line_options opts)"
    and "client 0 = key_holder sid prv"
  shows "\<exists>state'. auth_rsa rnd sid client host ip strict user (pub_n pub) state st =
    Inr (True, state', fold apply_option (the (line_options opts)) st)"
  by (rule accepted_key_holder [where client = client, OF assms])

theorem key_holder_is_accepted_witness:
  "\<exists>state'. auth_rsa list_random (replicate 16 7) (\<lambda>k. key_holder (replicate 16 7) demo_private) ''a.fi'' ''10.0.0.1'' True
     (demo_user pty_entry) 18938929 (replicate 32 0) no_options = Inr (True, state', no_options\<lparr>ko_no_pty := True\<rparr>)"
proof -
  have "line_options (Some pty_entry) = Some [No_pty]" by (simp only: line_options_def option.case demo_no_pty)
  moreover from this have "options_allow ''a.fi'' ''10.0.0.1'' (line_options (Some pty_entry))"
    by (simp add: options_allow_def refused_def)
  moreover have "list_all (other_key (pub_n demo_public)) []" by simp
  ultimately show ?thesis
    using key_holder_is_accepted [OF demo_good _ _ eventually_nonzero_list demo_challenge demo_accessible, where ls = "[]" and ls' = "[]"
        and line = pty_entry and opts = "Some pty_entry" and client = "\<lambda>k. key_holder (replicate 16 7) demo_private" and sid = "replicate 16 7"]
    by (simp add: demo_lines)
qed

text \<open>Options of a refused key stay in effect: when a \<^verbatim>\<open>from\<close> pattern refuses the client's host after the correct
  response, the options that stand before it have already been applied, and although \<^verbatim>\<open>auth_rsa\<close> rejects the client they
  are not taken back.\<close>

theorem refused_key_keeps_its_options:
  assumes "key_good bits prv pub" and "4 \<le> bits" and "unat bits < 2 ^ 31"
    and "eventually_nonzero rnd" and "challenge_fits rnd state pub"
    and "accessible strict user" and "authorized_keys user = Some text"
    and "file_lines 8191 text = ls @ line # ls'" and "list_all (other_key (pub_n pub)) (ls @ ls')"
    and "key_line line = Some (Some opts, pub_bits pub, pub_e pub, pub_n pub)"
    and "option_list opts = Some (ks @ From p # ks')" and "list_all (\<lambda>k. \<not> refused host ip k) ks" and "refused host ip (From p)"
    and "client 0 = key_holder sid prv"
  shows "\<exists>state'. auth_rsa rnd sid client host ip strict user (pub_n pub) state st = Inr (False, state', fold apply_option ks st)"
proof -
  obtain state' where d: "auth_rsa_challenge_dialog rnd sid (client 0) state (pub_bits pub) (pub_e pub) (pub_n pub) = Inr (True, state')"
    using key_holder_dialog [OF assms(1-5)] assms(14) by metis
  have "key_accepted host ip (Some opts) st = Inr (False, fold apply_option ks st)"
    using process_options_refused [OF assms(11-13)] by (simp add: key_accepted_def)
  moreover have "list_all (other_key (pub_n pub)) ls" "list_all (other_key (pub_n pub)) ls'" using assms(9) by simp_all
  ultimately show ?thesis
    by (simp add: auth_rsa_accessible [OF assms(6,7)] assms(8) check_keys_here [OF _ assms(10), of _ rnd sid client 0, OF _ d] check_keys_other)
qed

theorem refused_key_keeps_its_options_witness:
  "\<exists>state'. auth_rsa list_random (replicate 16 7) (\<lambda>k. key_holder (replicate 16 7) demo_private) ''a.com'' ''10.0.0.1'' True
     (demo_user from_entry) 18938929 (replicate 32 0) no_options = Inr (False, state', no_options\<lparr>ko_forced_command := Some ''ls''\<rparr>)"
proof -
  have "option_list from_entry = Some ([Command ''ls''] @ From ''*.fi'' # [])" using demo_command_from [of 25 37 18938929] by simp
  moreover have "refused ''a.com'' ''10.0.0.1'' (From ''*.fi'')"
    by (simp add: refused_def match_hostname_def match_host_def lower_def)
  ultimately show ?thesis
    using refused_key_keeps_its_options [OF demo_good _ _ eventually_nonzero_list demo_challenge demo_accessible, where ls = "[]" and ls' = "[]"
        and line = from_entry and opts = from_entry and client = "\<lambda>k. key_holder (replicate 16 7) demo_private" and sid = "replicate 16 7"
        and ks = "[Command ''ls'']" and p = "''*.fi''" and ks' = "[]" and host = "''a.com''" and ip = "''10.0.0.1''"]
    by (simp add: demo_lines refused_def)
qed

end
