(* ===== verification/Agent.thy ===== *)
theory Agent
  imports AuthRsa AuthFile
begin

text \<open>
  The authentication agent, \<^verbatim>\<open>ssh-agent.c\<close>: the private keys it holds, the messages it answers and its
  sockets. Buffers are plain byte queues; a buffer that was freed is empty. What the operating system returns
  is an argument.
\<close>

section \<open>State\<close>

datatype socket_type = AUTH_UNUSED | AUTH_SOCKET | AUTH_SOCKET_FD

record SocketEntry =
  so_fd :: nat
  so_type :: socket_type
  so_input :: "byte list"
  so_output :: "byte list"

record Identity =
  id_key :: RSAPrivateKey
  id_comment :: "byte list"

abbreviation id_n :: "Identity \<Rightarrow> nat" where "id_n i \<equiv> prv_n (id_key i)"

abbreviation (input) SSH_AGENTC_REQUEST_RSA_IDENTITIES :: byte where "SSH_AGENTC_REQUEST_RSA_IDENTITIES \<equiv> 1"
abbreviation (input) SSH_AGENT_RSA_IDENTITIES_ANSWER :: byte where "SSH_AGENT_RSA_IDENTITIES_ANSWER \<equiv> 2"
abbreviation (input) SSH_AGENTC_RSA_CHALLENGE :: byte where "SSH_AGENTC_RSA_CHALLENGE \<equiv> 3"
abbreviation (input) SSH_AGENT_RSA_RESPONSE :: byte where "SSH_AGENT_RSA_RESPONSE \<equiv> 4"
abbreviation (input) SSH_AGENT_FAILURE :: byte where "SSH_AGENT_FAILURE \<equiv> 5"
abbreviation (input) SSH_AGENT_SUCCESS :: byte where "SSH_AGENT_SUCCESS \<equiv> 6"
abbreviation (input) SSH_AGENTC_ADD_RSA_IDENTITY :: byte where "SSH_AGENTC_ADD_RSA_IDENTITY \<equiv> 7"
abbreviation (input) SSH_AGENTC_REMOVE_RSA_IDENTITY :: byte where "SSH_AGENTC_REMOVE_RSA_IDENTITY \<equiv> 8"
abbreviation (input) SSH_AGENTC_REMOVE_ALL_RSA_IDENTITIES :: byte where "SSH_AGENTC_REMOVE_ALL_RSA_IDENTITIES \<equiv> 9"

definition agent_reply :: "byte list \<Rightarrow> SocketEntry \<Rightarrow> SocketEntry" where
  "agent_reply msg e = e\<lparr>so_output := bytes_put_int (so_output e) (of_nat (length msg)) @ msg\<rparr>"

section \<open>The requests\<close>

text \<open>The comment is written up to its first zero byte.\<close>

definition c_string :: "byte list \<Rightarrow> byte list" where
  "c_string s = takeWhile (\<lambda>b. b \<noteq> 0) s"

fun put_identities :: "Identity list \<Rightarrow> byte list \<Rightarrow> byte list res" where
  "put_identities [] msg = Inr msg"
| "put_identities (i # ids) msg =
     rbind (bytes_put_mp_int (bytes_put_int msg (prv_bits (id_key i))) (prv_e (id_key i))) (\<lambda>msg.
     rbind (bytes_put_mp_int msg (prv_n (id_key i))) (\<lambda>msg.
     put_identities ids (bytes_put_string msg (c_string (id_comment i)))))"

definition process_request_identity :: "Identity list \<Rightarrow> SocketEntry \<Rightarrow> (Identity list \<times> SocketEntry) res" where
  "process_request_identity ids e =
     rbind (put_identities ids (bytes_put_int [SSH_AGENT_RSA_IDENTITIES_ANSWER] (of_nat (length ids)))) (\<lambda>msg.
     Inr (ids, agent_reply msg e))"

text \<open>The session id and the response type; old clients leave them out.\<close>

definition challenge_kind :: "byte list \<Rightarrow> (byte list \<times> u32 \<times> byte list) res" where
  "challenge_kind q =
     (if q = [] then Inr (replicate 16 0, 0, q)
      else rbind (bytes_get q 16) (\<lambda>(session_id, q). rbind (bytes_get_int q) (\<lambda>(t, q). Inr (session_id, t, q))))"

definition process_authentication_challenge :: "Identity list \<Rightarrow> SocketEntry \<Rightarrow> (Identity list \<times> SocketEntry) res" where
  "process_authentication_challenge ids e =
     rbind (bytes_get_int (so_input e)) (\<lambda>(bits, q).
     rbind (bytes_get_mp_int q) (\<lambda>(pe, q).
     rbind (bytes_get_mp_int q) (\<lambda>(pn, q).
     rbind (bytes_get_mp_int q) (\<lambda>(challenge, q).
     rbind (challenge_kind q) (\<lambda>(session_id, response_type, q).
     let e = e\<lparr>so_input := q\<rparr>
     in case find (\<lambda>i. bits = prv_bits (id_key i) \<and> pe = prv_e (id_key i) \<and> pn = id_n i) ids of
          None \<Rightarrow> Inr (ids, agent_reply [SSH_AGENT_FAILURE] e)
        | Some i \<Rightarrow>
            rbind (rsa_private_decrypt challenge (id_key i)) (\<lambda>challenge.
            if response_type = 0 then Inr (ids, agent_reply [SSH_AGENT_FAILURE] e)
            else if response_type = 1 then
              Inr (ids, agent_reply (SSH_AGENT_RSA_RESPONSE # challenge_response session_id challenge) e)
            else Inl (Fatal ''process_authentication_challenge: bad response_type'')))))))"

text \<open>The last key takes the place of the removed one.\<close>

definition remove_at :: "nat \<Rightarrow> 'a list \<Rightarrow> 'a list" where
  "remove_at i xs = butlast (if i < length xs - 1 then xs[i := last xs] else xs)"

definition process_remove_identity :: "Identity list \<Rightarrow> SocketEntry \<Rightarrow> (Identity list \<times> SocketEntry) res" where
  "process_remove_identity ids e =
     rbind (bytes_get_int (so_input e)) (\<lambda>(bits, q).
     rbind (bytes_get_mp_int q) (\<lambda>(dummy, q).
     rbind (bytes_get_mp_int q) (\<lambda>(n, q).
     let e = e\<lparr>so_input := q\<rparr>; i = length (takeWhile (\<lambda>i. id_n i \<noteq> n) ids)
     in if i < length ids then Inr (remove_at i ids, agent_reply [SSH_AGENT_SUCCESS] e)
        else Inr (ids, agent_reply [SSH_AGENT_FAILURE] e))))"

definition process_remove_all_identities :: "Identity list \<Rightarrow> SocketEntry \<Rightarrow> (Identity list \<times> SocketEntry) res" where
  "process_remove_all_identities ids e = Inr ([], agent_reply [SSH_AGENT_SUCCESS] e)"

definition process_add_identity :: "Identity list \<Rightarrow> SocketEntry \<Rightarrow> (Identity list \<times> SocketEntry) res" where
  "process_add_identity ids e =
     rbind (bytes_get_int (so_input e)) (\<lambda>(bits, q).
     rbind (bytes_get_mp_int q) (\<lambda>(n, q).
     rbind (bytes_get_mp_int q) (\<lambda>(pe, q).
     rbind (bytes_get_mp_int q) (\<lambda>(d, q).
     rbind (bytes_get_mp_int q) (\<lambda>(u, q).
     rbind (bytes_get_mp_int q) (\<lambda>(p, q).
     rbind (bytes_get_mp_int q) (\<lambda>(q', q).
     rbind (bytes_get_string q) (\<lambda>(comment, q).
     let e = e\<lparr>so_input := q\<rparr>;
         k = \<lparr>prv_bits = bits, prv_n = n, prv_e = pe, prv_d = d, prv_u = u, prv_p = p, prv_q = q'\<rparr>
     in if list_ex (\<lambda>i. id_n i = n) ids then Inr (ids, agent_reply [SSH_AGENT_SUCCESS] e)
        else Inr (ids @ [\<lparr>id_key = k, id_comment = comment\<rparr>], agent_reply [SSH_AGENT_SUCCESS] e)))))))))"

definition close_socket :: "SocketEntry \<Rightarrow> SocketEntry" where
  "close_socket e = e\<lparr>so_type := AUTH_UNUSED, so_input := [], so_output := []\<rparr>"

definition process_message :: "Identity list \<Rightarrow> SocketEntry \<Rightarrow> (Identity list \<times> SocketEntry) res" where
  "process_message ids e =
     (if length (so_input e) < 5 then Inr (ids, e)
      else let msg_len = unat (GET_32BIT (so_input e))
      in if msg_len > 30 * 1024 then Inr (ids, close_socket e)
         else if length (so_input e) < msg_len + 4 then Inr (ids, e)
         else rbind (bytes_get_char (drop 4 (so_input e))) (\<lambda>(t, q).
              let e = e\<lparr>so_input := q\<rparr>
              in if t = SSH_AGENTC_REQUEST_RSA_IDENTITIES then process_request_identity ids e
                 else if t = SSH_AGENTC_RSA_CHALLENGE then process_authentication_challenge ids e
                 else if t = SSH_AGENTC_ADD_RSA_IDENTITY then process_add_identity ids e
                 else if t = SSH_AGENTC_REMOVE_RSA_IDENTITY then process_remove_identity ids e
                 else if t = SSH_AGENTC_REMOVE_ALL_RSA_IDENTITIES then process_remove_all_identities ids e
                 else if t = 206 then Inr (ids, e)
                 else Inr (ids, agent_reply [SSH_AGENT_FAILURE] (e\<lparr>so_input := []\<rparr>))))"

section \<open>The sockets\<close>

definition unused_socket :: SocketEntry where
  "unused_socket = \<lparr>so_fd = 0, so_type = AUTH_UNUSED, so_input = [], so_output = []\<rparr>"

definition fresh_socket :: "socket_type \<Rightarrow> nat \<Rightarrow> SocketEntry" where
  "fresh_socket t fd = \<lparr>so_fd = fd, so_type = t, so_input = [], so_output = []\<rparr>"

definition new_socket :: "socket_type \<Rightarrow> nat \<Rightarrow> SocketEntry list \<Rightarrow> SocketEntry list" where
  "new_socket t fd sockets =
     (let i = length (takeWhile (\<lambda>s. so_type s \<noteq> AUTH_UNUSED) sockets)
      in if i < length sockets then sockets[i := fresh_socket t fd]
         else sockets @ fresh_socket t fd # replicate 9 unused_socket)"

definition prepare_select :: "SocketEntry list \<Rightarrow> nat set \<times> nat set" where
  "prepare_select sockets =
     (so_fd ` {s \<in> set sockets. so_type s \<noteq> AUTH_UNUSED},
      so_fd ` {s \<in> set sockets. so_type s \<noteq> AUTH_UNUSED \<and> so_output s \<noteq> []})"

text \<open>
  What the system calls on a descriptor return: whether \<^verbatim>\<open>select\<close> reports it, the socket that \<^verbatim>\<open>accept\<close>
  gives, the number of bytes \<^verbatim>\<open>write\<close> takes, and the bytes \<^verbatim>\<open>read\<close> gives (none when it
  returns zero or an error).
\<close>

record agent_io =
  io_readable :: bool
  io_writable :: bool
  io_accept :: "nat option"
  io_written :: int
  io_read :: "byte list"

definition serve_socket :: "agent_io \<Rightarrow> Identity list \<Rightarrow> SocketEntry \<Rightarrow> (Identity list \<times> SocketEntry) res" where
  "serve_socket io ids e =
     (if so_output e \<noteq> [] \<and> io_writable io \<and> io_written io \<le> 0 then Inr (ids, close_socket e)
      else let e = (if so_output e \<noteq> [] \<and> io_writable io then e\<lparr>so_output := drop (nat (io_written io)) (so_output e)\<rparr> else e)
           in if \<not> io_readable io then Inr (ids, e)
              else if io_read io = [] then Inr (ids, close_socket e)
              else process_message ids (e\<lparr>so_input := so_input e @ io_read io\<rparr>))"

definition listeners :: "nat \<Rightarrow> SocketEntry list \<Rightarrow> nat" where
  "listeners i sockets = length (filter (\<lambda>s. so_type s = AUTH_SOCKET) (drop i sockets))"

lemma listeners_step: "i < length s \<Longrightarrow> listeners i s = (if so_type (s ! i) = AUTH_SOCKET then 1 else 0) + listeners (Suc i) s"
  by (simp add: listeners_def Cons_nth_drop_Suc [symmetric])

lemma listeners_update: "so_type e \<noteq> AUTH_SOCKET \<Longrightarrow> listeners i (s[j := e]) \<le> listeners i s"
proof (induction s arbitrary: i j)
  case (Cons a s)
  then show ?case using Cons.IH [of 0 "j - 1"] Cons.IH [of "i - 1" "j - 1"]
    by (cases i; cases j) (auto simp: listeners_def le_SucI)
qed (simp add: listeners_def)

lemma listeners_new: "listeners i (new_socket AUTH_SOCKET_FD fd s) \<le> listeners i s"
proof -
  have "filter (\<lambda>s. so_type s = AUTH_SOCKET) (drop k (fresh_socket AUTH_SOCKET_FD fd # replicate 9 unused_socket)) = []" for k
    by (auto simp: filter_empty_conv fresh_socket_def unused_socket_def dest!: in_set_dropD)
  moreover have "so_type (fresh_socket AUTH_SOCKET_FD fd) \<noteq> AUTH_SOCKET" by (simp add: fresh_socket_def)
  ultimately show ?thesis using listeners_update by (auto simp: new_socket_def Let_def listeners_def)
qed

lemma new_socket_length: "length (new_socket t fd s) \<le> length s + 10"
  by (simp add: new_socket_def Let_def)

lemma agent_reply_type [simp]: "so_type (agent_reply m e) = so_type e"
  by (simp add: agent_reply_def)

lemma process_message_type:
  assumes "process_message ids e = Inr (ids', e')" "so_type e \<noteq> AUTH_SOCKET" shows "so_type e' \<noteq> AUTH_SOCKET"
  using assms
  by (auto simp: process_message_def process_request_identity_def process_authentication_challenge_def process_add_identity_def
      process_remove_identity_def process_remove_all_identities_def close_socket_def rbind_eq_Inr Let_def split: if_splits option.splits)

lemma serve_socket_type:
  assumes "serve_socket io ids e = Inr (ids', e')" "so_type e \<noteq> AUTH_SOCKET" shows "so_type e' \<noteq> AUTH_SOCKET"
  using assms process_message_type
  by (fastforce simp: serve_socket_def close_socket_def Let_def split: if_splits)

text \<open>The loop runs to the end of the array as it then is: \<^verbatim>\<open>new_socket\<close> may have made it longer.\<close>

function after_select :: "(nat \<Rightarrow> agent_io) \<Rightarrow> nat \<Rightarrow> Identity list \<Rightarrow> SocketEntry list \<Rightarrow> (Identity list \<times> SocketEntry list) res" where
  "after_select io i ids sockets =
     (if length sockets \<le> i then Inr (ids, sockets)
      else let e = sockets ! i; ev = io (so_fd e)
           in case so_type e of
                AUTH_UNUSED \<Rightarrow> after_select io (Suc i) ids sockets
              | AUTH_SOCKET \<Rightarrow>
                  (case io_accept ev of
                     Some fd \<Rightarrow>
                       if io_readable ev then after_select io (Suc i) ids (new_socket AUTH_SOCKET_FD fd sockets)
                       else after_select io (Suc i) ids sockets
                   | None \<Rightarrow> after_select io (Suc i) ids sockets)
              | AUTH_SOCKET_FD \<Rightarrow>
                  rbind (serve_socket ev ids e) (\<lambda>(ids, e). after_select io (Suc i) ids (sockets[i := e])))"
  by pat_completeness auto

termination
proof (relation "measure (\<lambda>(io, i, ids, s). 11 * listeners i s + (length s - i))", goal_cases)
  case 1
  then show ?case by simp
next
  case (2 io i ids s e ev)
  then show ?case by (simp add: listeners_step [of i s])
next
  case (3 io i ids s e ev)
  then show ?case by (simp add: listeners_step [of i s])
next
  case (4 io i ids s e ev fd)
  then show ?case using listeners_new [of "Suc i" fd s] new_socket_length [of AUTH_SOCKET_FD fd s]
    by (simp add: listeners_step [of i s])
next
  case (5 io i ids s e ev)
  then show ?case by (simp add: listeners_step [of i s])
next
  case (6 io i ids s e ev x ids' e')
  then have "so_type e' \<noteq> AUTH_SOCKET" using serve_socket_type by (cases x) auto
  then have "listeners (Suc i) (s[i := e']) \<le> listeners (Suc i) s" by (rule listeners_update)
  then show ?case using 6 by (simp add: listeners_step [of i s])
qed

end
