(* ===== verification/AgentClient.thy ===== *)
theory AgentClient
  imports Agent "HOL-Library.Sublist"
begin

text \<open>
  \<^verbatim>\<open>authfd.c\<close>: the functions by which programs talk to the agent, and the conversation of both sides. A
  connection is a state with two operations: \<open>wr\<close> writes bytes and tells whether all were taken, \<open>rd\<close>
  returns at most the number of bytes asked for (none at the end of the connection or after an error).
\<close>

section \<open>The client's side\<close>

record AuthenticationConnection =
  ac_identities :: "byte list"
  ac_num_identities :: int

function read_all :: "(nat \<Rightarrow> 's \<Rightarrow> byte list \<times> 's) \<Rightarrow> nat \<Rightarrow> 's \<Rightarrow> byte list option \<times> 's" where
  "read_all rd len s =
     (if len = 0 then (Some [], s)
      else let (bs, s) = rd (min len 8192) s
           in if bs = [] then (None, s)
              else let (r, s) = read_all rd (len - length bs) s in (map_option ((@) bs) r, s))"
  by pat_completeness auto
termination
  by (relation "measure (\<lambda>(rd, len, s). len)") auto

declare read_all.simps [simp del]

text \<open>The length of the reply is read into an \<^verbatim>\<open>int\<close>.\<close>

definition read_reply :: "(nat \<Rightarrow> 's \<Rightarrow> byte list \<times> 's) \<Rightarrow> string \<Rightarrow> 's \<Rightarrow> (byte list option \<times> 's) res" where
  "read_reply rd too_long s =
     (case read_all rd 4 s of
        (None, s) \<Rightarrow> Inr (None, s)
      | (Some h, s) \<Rightarrow>
          let len = sint (GET_32BIT h)
          in if len > 30 * 1024 then Inl (Fatal too_long) else Inr (read_all rd (nat len) s))"

definition send_message :: "(byte list \<Rightarrow> 's \<Rightarrow> bool \<times> 's) \<Rightarrow> byte list \<Rightarrow> 's \<Rightarrow> bool \<times> 's" where
  "send_message wr msg s = (let (sent, s) = wr (PUT_32BIT (of_nat (length msg))) s in if sent then wr msg s else (False, s))"

definition agent_status :: "string \<Rightarrow> byte list \<Rightarrow> bool res" where
  "agent_status bad reply =
     rbind (bytes_get_char reply) (\<lambda>(t, q).
     if t = SSH_AGENT_FAILURE then Inr False else if t = SSH_AGENT_SUCCESS then Inr True else Inl (Fatal bad))"

definition ssh_get_next_identity :: "AuthenticationConnection \<Rightarrow> ((u32 \<times> nat \<times> nat \<times> byte list) option \<times> AuthenticationConnection) res" where
  "ssh_get_next_identity auth =
     (if ac_num_identities auth \<le> 0 then Inr (None, auth)
      else rbind (bytes_get_int (ac_identities auth)) (\<lambda>(bits, q).
           rbind (bytes_get_mp_int q) (\<lambda>(e, q).
           rbind (bytes_get_mp_int q) (\<lambda>(n, q).
           rbind (bytes_get_string q) (\<lambda>(comment, q).
           Inr (Some (bits, e, n, comment), auth\<lparr>ac_identities := q, ac_num_identities := ac_num_identities auth - 1\<rparr>))))))"

definition ssh_get_first_identity :: "(byte list \<Rightarrow> 's \<Rightarrow> bool \<times> 's) \<Rightarrow> (nat \<Rightarrow> 's \<Rightarrow> byte list \<times> 's) \<Rightarrow> AuthenticationConnection \<Rightarrow> 's \<Rightarrow>
    ((u32 \<times> nat \<times> nat \<times> byte list) option \<times> AuthenticationConnection \<times> 's) res" where
  "ssh_get_first_identity wr rd auth s =
     (let (sent, s) = wr [0, 0, 0, 1, SSH_AGENTC_REQUEST_RSA_IDENTITIES] s
      in if \<not> sent then Inr (None, auth, s)
         else case read_all rd 4 s of
                (None, s) \<Rightarrow> Inr (None, auth, s)
              | (Some h, s) \<Rightarrow>
                  let len = sint (GET_32BIT h)
                  in if len < 1 \<or> len > 30 * 1024 then Inl (Fatal ''Authentication reply message too long'')
                     else case read_all rd (nat len) s of
                            (None, s) \<Rightarrow> Inl (Fatal ''Incomplete authentication reply.'')
                          | (Some q, s) \<Rightarrow>
                              rbind (bytes_get_char q) (\<lambda>(t, q).
                              if t \<noteq> SSH_AGENT_RSA_IDENTITIES_ANSWER then Inl (Fatal ''Bad authentication reply message type'')
                              else rbind (bytes_get_int q) (\<lambda>(num, q).
                                   if sint num > 1024 then Inl (Fatal ''Too many identities in authentication reply'')
                                   else rbind (ssh_get_next_identity \<lparr>ac_identities = q, ac_num_identities = sint num\<rparr>) (\<lambda>(r, auth).
                                        Inr (r, auth, s)))))"

definition ssh_decrypt_challenge :: "(byte list \<Rightarrow> 's \<Rightarrow> bool \<times> 's) \<Rightarrow> (nat \<Rightarrow> 's \<Rightarrow> byte list \<times> 's) \<Rightarrow> RSAPublicKey \<Rightarrow> nat \<Rightarrow>
    byte list \<Rightarrow> u32 \<Rightarrow> 's \<Rightarrow> (byte list option \<times> 's) res" where
  "ssh_decrypt_challenge wr rd pub challenge session_id response_type s =
     (if response_type = 0 then Inl (Fatal ''Compatibility with ssh protocol version 1.0 no longer supported.'')
      else rbind (bytes_put_mp_int (bytes_put_int [SSH_AGENTC_RSA_CHALLENGE] (pub_bits pub)) (pub_e pub)) (\<lambda>b.
           rbind (bytes_put_mp_int b (pub_n pub)) (\<lambda>b.
           rbind (bytes_put_mp_int b challenge) (\<lambda>b.
           let (sent, s) = send_message wr (bytes_put_int (b @ take 16 session_id) response_type) s
           in if \<not> sent then Inr (None, s)
              else rbind (read_reply rd ''Authentication response too long'' s) (\<lambda>(reply, s).
                   case reply of
                     None \<Rightarrow> Inr (None, s)
                   | Some q \<Rightarrow>
                       rbind (bytes_get_char q) (\<lambda>(t, q).
                       if t = SSH_AGENT_FAILURE then Inr (None, s)
                       else if t \<noteq> SSH_AGENT_RSA_RESPONSE then Inl (Fatal ''Bad authentication response'')
                       else rbind (get_chars 16 q) (\<lambda>response. Inr (Some response, s))))))))"

text \<open>What the three functions that change the agent's keys do after they have sent their message.\<close>

definition read_status :: "(nat \<Rightarrow> 's \<Rightarrow> byte list \<times> 's) \<Rightarrow> string \<Rightarrow> string \<Rightarrow> bool \<times> 's \<Rightarrow> (bool \<times> 's) res" where
  "read_status rd too_long bad r =
     (case r of (sent, s) \<Rightarrow>
        if \<not> sent then Inr (False, s)
        else rbind (read_reply rd too_long s) (\<lambda>(reply, s).
             case reply of None \<Rightarrow> Inr (False, s) | Some q \<Rightarrow> rbind (agent_status bad q) (\<lambda>ok. Inr (ok, s))))"

definition ssh_add_identity :: "(byte list \<Rightarrow> 's \<Rightarrow> bool \<times> 's) \<Rightarrow> (nat \<Rightarrow> 's \<Rightarrow> byte list \<times> 's) \<Rightarrow> RSAPrivateKey \<Rightarrow> byte list \<Rightarrow> 's \<Rightarrow> (bool \<times> 's) res" where
  "ssh_add_identity wr rd key comment s =
     rbind (bytes_put_mp_int (bytes_put_int [SSH_AGENTC_ADD_RSA_IDENTITY] (prv_bits key)) (prv_n key)) (\<lambda>b.
     rbind (bytes_put_mp_int b (prv_e key)) (\<lambda>b.
     rbind (bytes_put_mp_int b (prv_d key)) (\<lambda>b.
     rbind (bytes_put_mp_int b (prv_u key)) (\<lambda>b.
     rbind (bytes_put_mp_int b (prv_p key)) (\<lambda>b.
     rbind (bytes_put_mp_int b (prv_q key)) (\<lambda>b.
     read_status rd ''Add identity response too long'' ''Bad response to add identity from authentication agent''
       (send_message wr (bytes_put_string b (c_string comment)) s)))))))"

definition ssh_remove_identity :: "(byte list \<Rightarrow> 's \<Rightarrow> bool \<times> 's) \<Rightarrow> (nat \<Rightarrow> 's \<Rightarrow> byte list \<times> 's) \<Rightarrow> RSAPublicKey \<Rightarrow> 's \<Rightarrow> (bool \<times> 's) res" where
  "ssh_remove_identity wr rd key s =
     rbind (bytes_put_mp_int (bytes_put_int [SSH_AGENTC_REMOVE_RSA_IDENTITY] (pub_bits key)) (pub_e key)) (\<lambda>b.
     rbind (bytes_put_mp_int b (pub_n key)) (\<lambda>b.
     read_status rd ''Remove identity response too long'' ''Bad response to remove identity from authentication agent''
       (send_message wr b s)))"

definition ssh_remove_all_identities :: "(byte list \<Rightarrow> 's \<Rightarrow> bool \<times> 's) \<Rightarrow> (nat \<Rightarrow> 's \<Rightarrow> byte list \<times> 's) \<Rightarrow> 's \<Rightarrow> (bool \<times> 's) res" where
  "ssh_remove_all_identities wr rd s =
     read_status rd ''Remove identity response too long'' ''Bad response to remove identity from authentication agent''
       (wr (PUT_32BIT 1 @ [SSH_AGENTC_REMOVE_ALL_RSA_IDENTITIES]) s)"

text \<open>The loop of a program that lists the identities.\<close>

function collect_identities :: "(u32 \<times> nat \<times> nat \<times> byte list) option \<times> AuthenticationConnection \<Rightarrow> (u32 \<times> nat \<times> nat \<times> byte list) list res" where
  "collect_identities (None, auth) = Inr []"
| "collect_identities (Some i, auth) =
     rbind (ssh_get_next_identity auth) (\<lambda>(r, auth). rbind (collect_identities (r, auth)) (\<lambda>is. Inr (i # is)))"
  by pat_completeness auto

termination
proof (relation "measure (\<lambda>(r, auth). if r = None then 0 else Suc (nat (ac_num_identities auth)))", goal_cases)
  case (2 i auth x r auth')
  then show ?case by (auto simp: ssh_get_next_identity_def rbind_eq_Inr split: if_splits)
qed simp

definition list_identities :: "(byte list \<Rightarrow> 's \<Rightarrow> bool \<times> 's) \<Rightarrow> (nat \<Rightarrow> 's \<Rightarrow> byte list \<times> 's) \<Rightarrow> 's \<Rightarrow> ((u32 \<times> nat \<times> nat \<times> byte list) list \<times> 's) res" where
  "list_identities wr rd s =
     rbind (ssh_get_first_identity wr rd \<lparr>ac_identities = [], ac_num_identities = 0\<rparr> s) (\<lambda>(r, auth, s).
     rbind (collect_identities (r, auth)) (\<lambda>is. Inr (is, s)))"

end
