(* ===== verification/AgentTalk.thy ===== *)
theory AgentTalk
  imports AgentClient
begin

text \<open>
  A program and the agent in conversation: what the agent answers to each message, the interface of a
  connection to it as a locale, the client functions over that interface, and the interface provided by the
  agent's own socket code, however the bytes are cut into pieces on the way.
\<close>

section \<open>Messages\<close>

datatype agent_op =
    List_all
  | Challenge RSAPublicKey nat "byte list"
  | Add Identity
  | Remove RSAPublicKey
  | Remove_all

definition frame :: "byte list \<Rightarrow> byte list" where
  "frame m = PUT_32BIT (of_nat (length m)) @ m"

definition public_fields :: "RSAPublicKey \<Rightarrow> byte list" where
  "public_fields pub = PUT_32BIT (pub_bits pub) @ mp_field (pub_e pub) @ mp_field (pub_n pub)"

fun message :: "agent_op \<Rightarrow> byte list" where
  "message List_all = [SSH_AGENTC_REQUEST_RSA_IDENTITIES]"
| "message (Challenge pub c sid) = SSH_AGENTC_RSA_CHALLENGE # public_fields pub @ mp_field c @ take 16 sid @ PUT_32BIT 1"
| "message (Add i) = SSH_AGENTC_ADD_RSA_IDENTITY # PUT_32BIT (prv_bits (id_key i)) @ mp_field (id_n i) @ mp_field (prv_e (id_key i)) @
     mp_field (prv_d (id_key i)) @ mp_field (prv_u (id_key i)) @ mp_field (prv_p (id_key i)) @ mp_field (prv_q (id_key i)) @
     PUT_32BIT (of_nat (length (id_comment i))) @ id_comment i"
| "message (Remove pub) = SSH_AGENTC_REMOVE_RSA_IDENTITY # public_fields pub"
| "message Remove_all = [SSH_AGENTC_REMOVE_ALL_RSA_IDENTITIES]"

definition id_public :: "Identity \<Rightarrow> RSAPublicKey" where
  "id_public i = \<lparr>pub_bits = prv_bits (id_key i), pub_e = prv_e (id_key i), pub_n = id_n i\<rparr>"

definition listing :: "Identity \<Rightarrow> byte list" where
  "listing i = public_fields (id_public i) @ PUT_32BIT (of_nat (length (c_string (id_comment i)))) @ c_string (id_comment i)"

definition holder :: "RSAPublicKey \<Rightarrow> Identity list \<Rightarrow> Identity option" where
  "holder pub ids = find (\<lambda>i. pub_bits pub = prv_bits (id_key i) \<and> pub_e pub = prv_e (id_key i) \<and> pub_n pub = id_n i) ids"

fun reply :: "Identity list \<Rightarrow> agent_op \<Rightarrow> byte list" where
  "reply ids List_all = SSH_AGENT_RSA_IDENTITIES_ANSWER # PUT_32BIT (of_nat (length ids)) @ concat (map listing ids)"
| "reply ids (Challenge pub c sid) =
     (case holder pub ids of
        None \<Rightarrow> [SSH_AGENT_FAILURE]
      | Some i \<Rightarrow>
          (case rsa_private_decrypt c (id_key i) of
             Inl _ \<Rightarrow> []
           | Inr c \<Rightarrow> SSH_AGENT_RSA_RESPONSE # challenge_response (take 16 sid) c))"
| "reply ids (Add i) = [SSH_AGENT_SUCCESS]"
| "reply ids (Remove pub) = [if list_ex (\<lambda>i. id_n i = pub_n pub) ids then SSH_AGENT_SUCCESS else SSH_AGENT_FAILURE]"
| "reply ids Remove_all = [SSH_AGENT_SUCCESS]"

fun keys_after :: "Identity list \<Rightarrow> agent_op \<Rightarrow> Identity list" where
  "keys_after ids (Add i) = (if list_ex (\<lambda>j. id_n j = id_n i) ids then ids else ids @ [i])"
| "keys_after ids (Remove pub) =
     (let i = length (takeWhile (\<lambda>j. id_n j \<noteq> pub_n pub) ids) in if i < length ids then remove_at i ids else ids)"
| "keys_after ids Remove_all = []"
| "keys_after ids List_all = ids"
| "keys_after ids (Challenge pub c sid) = ids"

text \<open>What the sizes of the fields and messages and the private decryption need.\<close>

definition small_public :: "RSAPublicKey \<Rightarrow> bool" where
  "small_public pub \<longleftrightarrow> bit_length (pub_e pub) < 2 ^ 16 \<and> bit_length (pub_n pub) < 2 ^ 16"

fun acceptable_op :: "Identity list \<Rightarrow> agent_op \<Rightarrow> bool" where
  "acceptable_op ids List_all \<longleftrightarrow> length ids \<le> 1024 \<and> list_all (\<lambda>i. small_public (id_public i)) ids \<and> length (reply ids List_all) \<le> 30 * 1024"
| "acceptable_op ids (Challenge pub c sid) \<longleftrightarrow>
     small_public pub \<and> bit_length c < 2 ^ 16 \<and> length sid = 16 \<and> length (message (Challenge pub c sid)) \<le> 30 * 1024 \<and>
     (case holder pub ids of None \<Rightarrow> True | Some i \<Rightarrow> \<not> isl (rsa_private_decrypt c (id_key i)))"
| "acceptable_op ids (Add i) \<longleftrightarrow> small_key (id_key i) \<and> 0 \<notin> set (id_comment i) \<and> length (message (Add i)) \<le> 30 * 1024"
| "acceptable_op ids (Remove pub) \<longleftrightarrow> small_public pub \<and> length (message (Remove pub)) \<le> 30 * 1024"
| "acceptable_op ids Remove_all \<longleftrightarrow> True"

lemma message_length: "acceptable_op ids op \<Longrightarrow> 1 \<le> length (message op) \<and> length (message op) \<le> 30 * 1024"
  by (cases op) auto

section \<open>The agent answers\<close>

lemma put_identities_listing: "put_identities ids msg = Inr (msg @ concat (map listing ids))"
  by (induction ids arbitrary: msg)
    (simp_all add: listing_def public_fields_def id_public_def bytes_put_int_def bytes_put_string_def)

lemma get_bytes_field [simp]: "length sid = 16 \<Longrightarrow> bytes_get (sid @ q) 16 = Inr (sid, q)"
  by (simp add: bytes_get_def)

lemma get_int_end [simp]: "bytes_get_int (PUT_32BIT v) = Inr (v, [])"
  using get_int_field [of v "[]"] by simp

lemma get_mp_end [simp]: "bit_length v < 2 ^ 16 \<Longrightarrow> bytes_get_mp_int (mp_field v) = Inr (v, [])"
  using get_mp_field [of v "[]"] by simp

lemma get_string_end: "length str \<le> 256 * 1024 \<Longrightarrow> bytes_get_string (PUT_32BIT (of_nat (length str)) @ str) = Inr (str, [])"
  using get_string_field [of str "[]"] by simp

lemma takeWhile_list_ex: "length (takeWhile (\<lambda>x. \<not> P x) xs) < length xs \<longleftrightarrow> list_ex P xs"
  by (induction xs) auto

lemma process_request:
  assumes "acceptable_op ids op" "so_input e = frame (message op)"
  shows "process_message ids e = Inr (keys_after ids op, agent_reply (reply ids op) (e\<lparr>so_input := []\<rparr>))"
proof -
  let ?m = "message op"
  have len: "1 \<le> length ?m" "length ?m \<le> 30 * 1024" using message_length [OF assms(1)] by auto
  then have "unat (of_nat (length ?m) :: u32) = length ?m" by (intro unat_of_nat_small) simp
  then have size: "unat (GET_32BIT (so_input e)) = length ?m" "length (so_input e) = 4 + length ?m" "drop 4 (so_input e) = ?m"
    by (simp_all add: assms(2) frame_def getput)
  show ?thesis
  proof (cases op)
    case List_all
    then show ?thesis using size
      by (simp add: process_message_def process_request_identity_def put_identities_listing bytes_put_int_def)
  next
    case (Challenge pub c sid)
    moreover have "length (PUT_32BIT 1) = 4" by simp
    then have "PUT_32BIT 1 \<noteq> []" by (metis list.size(3) zero_neq_numeral)
    ultimately show ?thesis using size len assms(1) Challenge
      by (auto simp: process_message_def process_authentication_challenge_def public_fields_def challenge_kind_def
          small_public_def holder_def agent_reply_def split: option.splits sum.splits)
  next
    case (Add i)
    then show ?thesis using size len assms(1)
      by (auto simp: process_message_def process_add_identity_def small_key_def get_string_end)
  next
    case (Remove pub)
    then show ?thesis using size len assms(1) takeWhile_list_ex [of "\<lambda>i. id_n i = pub_n pub" ids]
      by (auto simp: process_message_def process_remove_identity_def public_fields_def small_public_def Let_def)
  next
    case Remove_all
    then show ?thesis using size
      by (simp add: process_message_def process_remove_all_identities_def)
  qed
qed

lemma process_incomplete:
  assumes "strict_prefix (so_input e) (frame m)" "length m \<le> 30 * 1024"
  shows "process_message ids e = Inr (ids, e)"
proof (cases "length (so_input e) < 5")
  case False
  have "unat (of_nat (length m) :: u32) = length m" using assms(2) by (intro unat_of_nat_small) simp
  moreover obtain r where r: "frame m = so_input e @ r" using assms(1) by (auto simp: strict_prefix_def prefix_def)
  moreover have "GET_32BIT (frame m) = GET_32BIT (so_input e)" using False unfolding r by (intro GET_32BIT_append) simp
  moreover have "GET_32BIT (frame m) = of_nat (length m)" by (simp add: frame_def)
  ultimately have "unat (GET_32BIT (so_input e)) = length m" by metis
  moreover have "length (so_input e) < length m + 4" using prefix_length_less [OF assms(1)] by (simp add: frame_def)
  ultimately show ?thesis using False assms(2) by (simp add: process_message_def)
qed (simp add: process_message_def)

section \<open>What a program asks and gets\<close>

datatype agent_result =
    Listed "(u32 \<times> nat \<times> nat \<times> byte list) list"
  | Response "byte list option"
  | Done bool

definition id_entry :: "Identity \<Rightarrow> u32 \<times> nat \<times> nat \<times> byte list" where
  "id_entry i = (prv_bits (id_key i), prv_e (id_key i), id_n i, c_string (id_comment i))"

fun result :: "Identity list \<Rightarrow> agent_op \<Rightarrow> agent_result" where
  "result ids List_all = Listed (map id_entry ids)"
| "result ids (Challenge pub c sid) =
     Response (case holder pub ids of
        None \<Rightarrow> None
      | Some i \<Rightarrow> (case rsa_private_decrypt c (id_key i) of Inl _ \<Rightarrow> None | Inr c \<Rightarrow> Some (challenge_response (take 16 sid) c)))"
| "result ids (Add i) = Done True"
| "result ids (Remove pub) = Done (list_ex (\<lambda>i. id_n i = pub_n pub) ids)"
| "result ids Remove_all = Done True"

definition client_op :: "(byte list \<Rightarrow> 's \<Rightarrow> bool \<times> 's) \<Rightarrow> (nat \<Rightarrow> 's \<Rightarrow> byte list \<times> 's) \<Rightarrow> agent_op \<Rightarrow> 's \<Rightarrow> (agent_result \<times> 's) res" where
  "client_op wr rd op s =
     (case op of
        List_all \<Rightarrow> rbind (list_identities wr rd s) (\<lambda>(is, s). Inr (Listed is, s))
      | Challenge pub c sid \<Rightarrow> rbind (ssh_decrypt_challenge wr rd pub c sid 1 s) (\<lambda>(r, s). Inr (Response r, s))
      | Add i \<Rightarrow> rbind (ssh_add_identity wr rd (id_key i) (id_comment i) s) (\<lambda>(r, s). Inr (Done r, s))
      | Remove pub \<Rightarrow> rbind (ssh_remove_identity wr rd pub s) (\<lambda>(r, s). Inr (Done r, s))
      | Remove_all \<Rightarrow> rbind (ssh_remove_all_identities wr rd s) (\<lambda>(r, s). Inr (Done r, s)))"

fun client_run :: "(byte list \<Rightarrow> 's \<Rightarrow> bool \<times> 's) \<Rightarrow> (nat \<Rightarrow> 's \<Rightarrow> byte list \<times> 's) \<Rightarrow> agent_op list \<Rightarrow> 's \<Rightarrow> (agent_result list \<times> 's) res" where
  "client_run wr rd [] s = Inr ([], s)"
| "client_run wr rd (op # ops) s =
     rbind (client_op wr rd op s) (\<lambda>(r, s). rbind (client_run wr rd ops s) (\<lambda>(rs, s). Inr (r # rs, s)))"

fun acceptable :: "Identity list \<Rightarrow> agent_op list \<Rightarrow> bool" where
  "acceptable ids [] \<longleftrightarrow> True"
| "acceptable ids (op # ops) \<longleftrightarrow> acceptable_op ids op \<and> acceptable (keys_after ids op) ops"

fun results :: "Identity list \<Rightarrow> agent_op list \<Rightarrow> agent_result list" where
  "results ids [] = []"
| "results ids (op # ops) = result ids op # results (keys_after ids op) ops"

lemma collect_listing:
  assumes "list_all (\<lambda>i. small_public (id_public i)) ids" "length (concat (map listing ids)) \<le> 30 * 1024"
  shows "rbind (ssh_get_next_identity \<lparr>ac_identities = concat (map listing ids), ac_num_identities = int (length ids)\<rparr>) collect_identities
    = Inr (map id_entry ids)"
  using assms
proof (induction ids)
  case Nil
  then show ?case by (simp add: ssh_get_next_identity_def)
next
  case (Cons i ids)
  let ?auth = "\<lparr>ac_identities = concat (map listing ids), ac_num_identities = int (length ids)\<rparr>"
  have "length (c_string (id_comment i)) \<le> 256 * 1024" using Cons.prems(2) by (simp add: listing_def)
  then have "ssh_get_next_identity \<lparr>ac_identities = concat (map listing (i # ids)), ac_num_identities = int (length (i # ids))\<rparr>
      = Inr (Some (id_entry i), ?auth)"
    using Cons.prems(1) get_string_field
    by (simp add: ssh_get_next_identity_def listing_def public_fields_def id_public_def small_public_def id_entry_def)
  moreover obtain r auth where n: "ssh_get_next_identity ?auth = Inr (r, auth)" "collect_identities (r, auth) = Inr (map id_entry ids)"
    using Cons.IH Cons.prems by (auto simp: rbind_eq_Inr)
  ultimately show ?case by simp
qed

lemma reply_length: "acceptable_op ids op \<Longrightarrow> length (reply ids op) \<le> 30 * 1024"
  by (cases op) (auto simp: challenge_response_length split: option.splits sum.splits)

lemma c_string_plain: "0 \<notin> set str \<Longrightarrow> c_string str = str"
  by (auto simp: c_string_def takeWhile_eq_all_conv)

lemma get_chars_16: "length q = 16 \<Longrightarrow> get_chars 16 q = Inr q"
  using get_chars_all [of q] by simp

section \<open>A connection to the agent\<close>

text \<open>
  The laws of a connection: bytes of an incomplete message only wait at the agent, a message that is
  complete is answered, and reading gives some of the bytes that are there.
\<close>

locale agent_link =
  fixes wr :: "byte list \<Rightarrow> 's \<Rightarrow> bool \<times> 's"
    and rd :: "nat \<Rightarrow> 's \<Rightarrow> byte list \<times> 's"
    and alive :: "'s \<Rightarrow> bool"
    and pending :: "'s \<Rightarrow> byte list"
    and out :: "'s \<Rightarrow> byte list"
    and keys :: "'s \<Rightarrow> Identity list"
  assumes write_part: "\<lbrakk>alive s; out s = []; acceptable_op (keys s) op; strict_prefix (pending s @ bs) (frame (message op))\<rbrakk> \<Longrightarrow>
      \<exists>s'. wr bs s = (True, s') \<and> alive s' \<and> pending s' = pending s @ bs \<and> out s' = [] \<and> keys s' = keys s"
    and write_whole: "\<lbrakk>alive s; out s = []; acceptable_op (keys s) op; pending s @ bs = frame (message op); bs \<noteq> []\<rbrakk> \<Longrightarrow>
      \<exists>s'. wr bs s = (True, s') \<and> alive s' \<and> pending s' = [] \<and> out s' = frame (reply (keys s) op) \<and> keys s' = keys_after (keys s) op"
    and read_some: "\<lbrakk>alive s; out s \<noteq> []; 0 < k\<rbrakk> \<Longrightarrow>
      \<exists>j s'. 0 < j \<and> j \<le> k \<and> rd k s = (take j (out s), s') \<and> alive s' \<and> pending s' = pending s \<and> out s' = drop j (out s) \<and> keys s' = keys s"
begin

definition idle :: "'s \<Rightarrow> bool" where
  "idle s \<longleftrightarrow> alive s \<and> pending s = [] \<and> out s = []"

lemma read_all_law:
  "alive s \<Longrightarrow> out s = a @ b \<Longrightarrow>
   \<exists>s'. read_all rd (length a) s = (Some a, s') \<and> alive s' \<and> pending s' = pending s \<and> out s' = b \<and> keys s' = keys s"
proof (induction a arbitrary: s rule: length_induct)
  case (1 a)
  show ?case
  proof (cases "a = []")
    case True
    with 1 show ?thesis by (simp add: read_all.simps)
  next
    case False
    with 1 have "out s \<noteq> []" "0 < min (length a) 8192" by auto
    from read_some [OF \<open>alive s\<close> this] obtain j s1 where
      j: "0 < j" "j \<le> min (length a) 8192" "rd (min (length a) 8192) s = (take j (out s), s1)" and
      s1: "alive s1" "pending s1 = pending s" "out s1 = drop j (out s)" "keys s1 = keys s" by blast
    have t: "take j (out s) = take j a" "out s1 = drop j a @ b" "take j a \<noteq> []" "length (take j a) = j"
      using 1(3) s1(3) j False by auto
    have "length (drop j a) < length a" using j False by (simp add: Suc_le_eq)
    then obtain s' where "read_all rd (length (drop j a)) s1 = (Some (drop j a), s')"
      "alive s'" "pending s' = pending s1" "out s' = b" "keys s' = keys s1"
      using 1(1) s1(1) t(2) by blast
    then show ?thesis using j(3) t s1 False by (simp add: read_all.simps [of rd "length a"])
  qed
qed

lemma read_reply_law:
  assumes "alive s" "out s = frame r" "length r \<le> 30 * 1024" "pending s = []"
  shows "\<exists>s'. read_reply rd bad s = Inr (Some r, s') \<and> idle s' \<and> keys s' = keys s"
proof -
  obtain s1 where s1: "read_all rd 4 s = (Some (PUT_32BIT (of_nat (length r))), s1)" "alive s1" "pending s1 = []" "out s1 = r" "keys s1 = keys s"
    using read_all_law [OF assms(1), of "PUT_32BIT (of_nat (length r))" r] assms(2,4) by (auto simp: frame_def)
  obtain s2 where s2: "read_all rd (length r) s1 = (Some r, s2)" "alive s2" "pending s2 = []" "out s2 = []" "keys s2 = keys s"
    using read_all_law [OF s1(2), of r "[]"] s1(3-5) by auto
  have "sint (of_nat (length r) :: u32) = int (length r)" using assms(3)
    by (simp add: signed_of_nat signed_take_bit_int_eq_self)
  then show ?thesis using s1(1) s2 assms(3) by (simp add: read_reply_def idle_def Let_def)
qed

lemma send_message_law:
  assumes "idle s" "acceptable_op (keys s) op"
  shows "\<exists>s'. send_message wr (message op) s = (True, s') \<and> alive s' \<and> pending s' = [] \<and> out s' = frame (reply (keys s) op) \<and>
    keys s' = keys_after (keys s) op"
proof -
  let ?h = "PUT_32BIT (of_nat (length (message op)))"
  have ne: "message op \<noteq> []" using message_length [OF assms(2)] by auto
  then have "strict_prefix (pending s @ ?h) (frame (message op))"
    using assms(1) by (auto simp: idle_def frame_def strict_prefix_def prefix_def)
  from write_part [OF _ _ assms(2) this] obtain s1 where
    s1: "wr ?h s = (True, s1)" "alive s1" "pending s1 = ?h" "out s1 = []" "keys s1 = keys s"
    using assms(1) by (auto simp: idle_def)
  from write_whole [OF s1(2,4), of op "message op"] obtain s2 where
    "wr (message op) s1 = (True, s2)" "alive s2" "pending s2 = []" "out s2 = frame (reply (keys s) op)" "keys s2 = keys_after (keys s) op"
    using assms(2) s1 ne by (auto simp: frame_def)
  then show ?thesis using s1(1) by (simp add: send_message_def)
qed

lemma read_status_law:
  assumes "alive s" "out s = frame [t]" "pending s = []" "t = 5 \<or> t = 6"
  shows "\<exists>s'. read_status rd too_long bad (True, s) = Inr (t = 6, s') \<and> idle s' \<and> keys s' = keys s"
  using read_reply_law [OF assms(1,2), of too_long] assms(3,4) by (auto simp: read_status_def agent_status_def)

lemma send_one_byte:
  assumes "idle s" "acceptable_op (keys s) op" "message op = [t]"
  shows "\<exists>s'. wr (PUT_32BIT 1 @ [t]) s = (True, s') \<and> alive s' \<and> pending s' = [] \<and> out s' = frame (reply (keys s) op) \<and>
    keys s' = keys_after (keys s) op"
  using write_whole [OF _ _ assms(2), of "PUT_32BIT 1 @ [t]"] assms(1,3) by (auto simp: idle_def frame_def)

lemma status_op_law:
  assumes "idle s" "acceptable_op (keys s) op" "reply (keys s) op = [t]" "t = 5 \<or> t = 6"
    "w = send_message wr (message op) s \<or> (\<exists>b. message op = [b] \<and> w = wr (PUT_32BIT 1 @ [b]) s)"
  shows "\<exists>s'. read_status rd too_long bad w = Inr (t = 6, s') \<and> idle s' \<and> keys s' = keys_after (keys s) op"
proof -
  obtain s1 where "w = (True, s1)" "alive s1" "pending s1 = []" "out s1 = frame [t]" "keys s1 = keys_after (keys s) op"
    using assms(5) send_message_law [OF assms(1,2)] send_one_byte [OF assms(1,2)] assms(3) by auto
  then show ?thesis using read_status_law [of s1 t too_long bad] assms(4) by auto
qed

lemma list_identities_law:
  assumes "idle s" "acceptable_op (keys s) List_all"
  shows "\<exists>s'. list_identities wr rd s = Inr (map id_entry (keys s), s') \<and> idle s' \<and> keys s' = keys s"
proof -
  let ?q = "PUT_32BIT (of_nat (length (keys s))) @ concat (map listing (keys s))"
  obtain s1 where s1: "wr [0, 0, 0, 1, 1] s = (True, s1)" "alive s1" "pending s1 = []" "out s1 = frame (2 # ?q)" "keys s1 = keys s"
    using send_one_byte [OF assms, of 1] by (auto simp: PUT_32BIT_def)
  have len: "length (2 # ?q) \<le> 30 * 1024" using reply_length [OF assms(2)] by simp
  obtain s2 where s2: "read_all rd 4 s1 = (Some (PUT_32BIT (of_nat (length (2 # ?q)))), s2)" "alive s2" "pending s2 = []" "out s2 = 2 # ?q" "keys s2 = keys s"
    using read_all_law [OF s1(2), of "PUT_32BIT (of_nat (length (2 # ?q)))" "2 # ?q"] s1(3-5) by (auto simp: frame_def)
  obtain s3 where s3: "read_all rd (length (2 # ?q)) s2 = (Some (2 # ?q), s3)" "alive s3" "pending s3 = []" "out s3 = []" "keys s3 = keys s"
    using read_all_law [OF s2(2), of "2 # ?q" "[]"] s2(3-5) by auto
  have l: "sint (of_nat (length (2 # ?q)) :: u32) = int (length (2 # ?q))" using len by (intro sint_of_nat_small) simp
  have n: "sint (of_nat (length (keys s)) :: u32) = int (length (keys s))" "length (keys s) \<le> 1024"
    using assms(2) by (auto intro: sint_of_nat_small)
  have "rbind (ssh_get_next_identity \<lparr>ac_identities = concat (map listing (keys s)), ac_num_identities = int (length (keys s))\<rparr>) collect_identities
    = Inr (map id_entry (keys s))" using assms(2) len by (intro collect_listing) auto
  then obtain r auth where next_id:
    "ssh_get_next_identity \<lparr>ac_identities = concat (map listing (keys s)), ac_num_identities = int (length (keys s))\<rparr> = Inr (r, auth)"
    "collect_identities (r, auth) = Inr (map id_entry (keys s))" by (auto simp: rbind_eq_Inr)
  have "ssh_get_first_identity wr rd \<lparr>ac_identities = [], ac_num_identities = 0\<rparr> s = Inr (r, auth, s3)"
    using s1(1) s2(1) s3(1) l n len next_id(1)
    by (simp only: ssh_get_first_identity_def Let_def prod.case if_False option.case GET_PUT_32BIT nat_int) simp
  then show ?thesis using next_id(2) s3 by (simp add: list_identities_def idle_def)
qed

lemma challenge_law:
  assumes "idle s" "acceptable_op (keys s) (Challenge pub c sid)" "result (keys s) (Challenge pub c sid) = Response r"
  shows "\<exists>s'. ssh_decrypt_challenge wr rd pub c sid 1 s = Inr (r, s') \<and> idle s' \<and> keys s' = keys s"
proof -
  let ?op = "Challenge pub c sid"
  obtain s1 where s1: "send_message wr (message ?op) s = (True, s1)" "alive s1" "pending s1 = []" "out s1 = frame (reply (keys s) ?op)" "keys s1 = keys s"
    using send_message_law [OF assms(1,2)] by auto
  obtain s2 where s2: "read_reply rd ''Authentication response too long'' s1 = Inr (Some (reply (keys s) ?op), s2)" "idle s2" "keys s2 = keys s"
    using read_reply_law [OF s1(2,4) reply_length [OF assms(2)] s1(3)] s1(5) by auto
  have "reply (keys s) ?op = (case r of None \<Rightarrow> [5] | Some x \<Rightarrow> 4 # x) \<and> (\<forall>x. r = Some x \<longrightarrow> length x = 16)"
    using assms(2,3) by (auto simp: challenge_response_length split: option.splits sum.splits)
  then show ?thesis using s1(1) s2
    by (auto simp: ssh_decrypt_challenge_def public_fields_def bytes_put_int_def get_chars_16 split: option.splits)
qed

lemma client_op_law:
  assumes "idle s" "acceptable_op (keys s) op"
  shows "\<exists>s'. client_op wr rd op s = Inr (result (keys s) op, s') \<and> idle s' \<and> keys s' = keys_after (keys s) op"
proof (cases op)
  case List_all
  then show ?thesis using list_identities_law [of s] assms by (auto simp: client_op_def)
next
  case (Challenge pub c sid)
  obtain r where r: "result (keys s) op = Response r" by (simp add: Challenge)
  with challenge_law [of s pub c sid r] assms show ?thesis by (auto simp: client_op_def Challenge)
next
  case (Add i)
  have "ssh_add_identity wr rd (id_key i) (id_comment i) s =
    read_status rd ''Add identity response too long'' ''Bad response to add identity from authentication agent'' (send_message wr (message op) s)"
    using assms(2) by (simp add: ssh_add_identity_def Add bytes_put_int_def bytes_put_string_def c_string_plain)
  moreover have "reply (keys s) op = [6]" by (simp add: Add)
  ultimately show ?thesis
    using status_op_law [OF assms, where t = 6 and w = "send_message wr (message op) s"
        and too_long = "''Add identity response too long''" and bad = "''Bad response to add identity from authentication agent''"]
    by (auto simp: client_op_def Add)
next
  case (Remove pub)
  have "ssh_remove_identity wr rd pub s =
    read_status rd ''Remove identity response too long'' ''Bad response to remove identity from authentication agent'' (send_message wr (message op) s)"
    by (simp add: ssh_remove_identity_def Remove public_fields_def bytes_put_int_def)
  moreover have "reply (keys s) op = [if list_ex (\<lambda>i. id_n i = pub_n pub) (keys s) then 6 else 5]" by (simp add: Remove)
  ultimately show ?thesis
    using status_op_law [OF assms, where t = "if list_ex (\<lambda>i. id_n i = pub_n pub) (keys s) then 6 else 5" and w = "send_message wr (message op) s"
        and too_long = "''Remove identity response too long''" and bad = "''Bad response to remove identity from authentication agent''"]
    by (cases "list_ex (\<lambda>i. id_n i = pub_n pub) (keys s)") (auto simp: client_op_def Remove)
next
  case Remove_all
  then show ?thesis
    using status_op_law [OF assms, where t = 6 and w = "wr (PUT_32BIT 1 @ [9]) s"
        and too_long = "''Remove identity response too long''" and bad = "''Bad response to remove identity from authentication agent''"]
    by (auto simp: client_op_def ssh_remove_all_identities_def)
qed

lemma client_run_law:
  "idle s \<Longrightarrow> acceptable (keys s) ops \<Longrightarrow>
   \<exists>s'. client_run wr rd ops s = Inr (results (keys s) ops, s') \<and> idle s' \<and> keys s' = fold (\<lambda>op ids. keys_after ids op) ops (keys s)"
proof (induction ops arbitrary: s)
  case (Cons op ops)
  then obtain s1 where "client_op wr rd op s = Inr (result (keys s) op, s1)" "idle s1" "keys s1 = keys_after (keys s) op"
    using client_op_law [of s op] by auto
  with Cons show ?case by fastforce
qed simp

end

section \<open>The agent's socket\<close>

text \<open>
  A connected agent: its keys, the socket of the connection, and the sizes of the pieces in which the
  system will carry bytes, an arbitrary sequence. A client's write reaches the agent in such pieces, each one read
  by \<^verbatim>\<open>after_select\<close> into its buffer of 1024 bytes; after a fatal error nothing is carried any more.
\<close>

record agent_connection =
  cn_keys :: "Identity list"
  cn_socket :: SocketEntry
  cn_alive :: bool
  cn_pieces :: "nat \<Rightarrow> nat"

definition next_piece :: "agent_connection \<Rightarrow> agent_connection" where
  "next_piece c = c\<lparr>cn_pieces := cn_pieces c \<circ> Suc\<rparr>"

definition agent_serves :: "agent_io \<Rightarrow> agent_connection \<Rightarrow> agent_connection" where
  "agent_serves io c =
     (case serve_socket io (cn_keys c) (cn_socket c) of
        Inl _ \<Rightarrow> c\<lparr>cn_alive := False\<rparr>
      | Inr (ids, e) \<Rightarrow> c\<lparr>cn_keys := ids, cn_socket := e\<rparr>)"

definition data_arrives :: "byte list \<Rightarrow> agent_io" where
  "data_arrives bs = \<lparr>io_readable = True, io_writable = False, io_accept = None, io_written = 0, io_read = bs\<rparr>"

definition data_leaves :: "nat \<Rightarrow> agent_io" where
  "data_leaves n = \<lparr>io_readable = False, io_writable = True, io_accept = None, io_written = int n, io_read = []\<rparr>"

function agent_write :: "byte list \<Rightarrow> agent_connection \<Rightarrow> bool \<times> agent_connection" where
  "agent_write bs c =
     (if bs = [] then (True, c)
      else if \<not> cn_alive c \<or> so_type (cn_socket c) \<noteq> AUTH_SOCKET_FD then (False, c)
      else let k = Suc (cn_pieces c 0 mod 1024)
           in agent_write (drop k bs) (agent_serves (data_arrives (take k bs)) (next_piece c)))"
  by pat_completeness auto
termination
  by (relation "measure (\<lambda>(bs, c). length bs)") auto

declare agent_write.simps [simp del]

definition agent_read :: "nat \<Rightarrow> agent_connection \<Rightarrow> byte list \<times> agent_connection" where
  "agent_read k c =
     (if \<not> cn_alive c \<or> so_type (cn_socket c) \<noteq> AUTH_SOCKET_FD \<or> so_output (cn_socket c) = [] then ([], c)
      else let j = min (Suc (cn_pieces c 0 mod k)) (length (so_output (cn_socket c)))
           in (take j (so_output (cn_socket c)), agent_serves (data_leaves j) (next_piece c)))"

definition agent_alive :: "agent_connection \<Rightarrow> bool" where
  "agent_alive c \<longleftrightarrow> cn_alive c \<and> so_type (cn_socket c) = AUTH_SOCKET_FD"

lemma serves_incomplete:
  assumes "agent_alive c" "bs \<noteq> []" "strict_prefix (so_input (cn_socket c) @ bs) (frame m)" "length m \<le> 30 * 1024"
  shows "agent_serves (data_arrives bs) c = c\<lparr>cn_socket := (cn_socket c)\<lparr>so_input := so_input (cn_socket c) @ bs\<rparr>\<rparr>"
proof -
  let ?e = "(cn_socket c)\<lparr>so_input := so_input (cn_socket c) @ bs\<rparr>"
  have "process_message (cn_keys c) ?e = Inr (cn_keys c, ?e)"
    by (rule process_incomplete) (use assms in auto)
  then show ?thesis using assms(2) by (simp add: agent_serves_def serve_socket_def data_arrives_def Let_def)
qed

lemma serves_complete:
  assumes "agent_alive c" "bs \<noteq> []" "so_input (cn_socket c) @ bs = frame (message op)" "acceptable_op (cn_keys c) op"
  shows "agent_serves (data_arrives bs) c =
    c\<lparr>cn_keys := keys_after (cn_keys c) op, cn_socket := agent_reply (reply (cn_keys c) op) ((cn_socket c)\<lparr>so_input := []\<rparr>)\<rparr>"
proof -
  let ?e = "(cn_socket c)\<lparr>so_input := so_input (cn_socket c) @ bs\<rparr>"
  have "process_message (cn_keys c) ?e = Inr (keys_after (cn_keys c) op, agent_reply (reply (cn_keys c) op) (?e\<lparr>so_input := []\<rparr>))"
    by (rule process_request) (use assms in auto)
  then show ?thesis using assms(2) by (simp add: agent_serves_def serve_socket_def data_arrives_def Let_def)
qed

lemma agent_write_part:
  assumes "agent_alive c" "so_output (cn_socket c) = []" "acceptable_op (cn_keys c) op"
    "strict_prefix (so_input (cn_socket c) @ bs) (frame (message op))"
  shows "\<exists>c'. agent_write bs c = (True, c') \<and> agent_alive c' \<and> so_input (cn_socket c') = so_input (cn_socket c) @ bs \<and>
    so_output (cn_socket c') = [] \<and> cn_keys c' = cn_keys c"
  using assms
proof (induction bs arbitrary: c rule: length_induct)
  case (1 bs)
  show ?case
  proof (cases "bs = []")
    case True
    with 1 show ?thesis by (simp add: agent_write.simps)
  next
    case False
    let ?k = "Suc (cn_pieces c 0 mod 1024)" and ?c = "next_piece c"
    have alive: "agent_alive ?c" "cn_socket ?c = cn_socket c" "cn_keys ?c = cn_keys c" using 1(2) by (simp_all add: next_piece_def agent_alive_def)
    have split: "(so_input (cn_socket c) @ take ?k bs) @ drop ?k bs = so_input (cn_socket c) @ bs" by simp
    have "strict_prefix (so_input (cn_socket c) @ take ?k bs) (frame (message op))"
      using 1(5) by (metis split prefix_order.le_less_trans prefixI)
    then have s: "agent_serves (data_arrives (take ?k bs)) ?c = ?c\<lparr>cn_socket := (cn_socket c)\<lparr>so_input := so_input (cn_socket c) @ take ?k bs\<rparr>\<rparr>"
      using serves_incomplete [OF alive(1)] message_length [OF 1(4)] False by (simp add: alive)
    have "length (drop ?k bs) < length bs" using False by simp
    from 1(1) [rule_format, OF this, of "agent_serves (data_arrives (take ?k bs)) ?c"] 1(2-5) split show ?thesis
      using False alive unfolding s
      by (simp add: agent_write.simps [of bs] s [simplified] agent_alive_def Let_def)
  qed
qed

lemma agent_write_whole:
  assumes "agent_alive c" "so_output (cn_socket c) = []" "acceptable_op (cn_keys c) op"
    "so_input (cn_socket c) @ bs = frame (message op)" "bs \<noteq> []"
  shows "\<exists>c'. agent_write bs c = (True, c') \<and> agent_alive c' \<and> so_input (cn_socket c') = [] \<and>
    so_output (cn_socket c') = frame (reply (cn_keys c) op) \<and> cn_keys c' = keys_after (cn_keys c) op"
  using assms
proof (induction bs arbitrary: c rule: length_induct)
  case (1 bs)
  let ?k = "Suc (cn_pieces c 0 mod 1024)" and ?c = "next_piece c"
  have alive: "agent_alive ?c" "cn_socket ?c = cn_socket c" "cn_keys ?c = cn_keys c" using 1(2) by (simp_all add: next_piece_def agent_alive_def)
  show ?case
  proof (cases "drop ?k bs = []")
    case True
    then have t: "take ?k bs = bs" by simp
    have "agent_serves (data_arrives (take ?k bs)) ?c = ?c\<lparr>cn_keys := keys_after (cn_keys c) op,
        cn_socket := agent_reply (reply (cn_keys c) op) ((cn_socket c)\<lparr>so_input := []\<rparr>)\<rparr>"
      unfolding t using serves_complete [OF alive(1) 1(6)] 1(4,5) by (simp add: alive)
    then show ?thesis using True t 1(2,3,6)
      by (simp add: agent_write.simps [of bs] agent_write.simps [of "[]"] agent_alive_def next_piece_def Let_def agent_reply_def frame_def bytes_put_int_def)
  next
    case False
    have split: "(so_input (cn_socket c) @ take ?k bs) @ drop ?k bs = frame (message op)" using 1(5) by simp
    then have "strict_prefix (so_input (cn_socket c) @ take ?k bs) (frame (message op))"
      using False by (metis append.assoc strict_prefixI' prefix_order.le_less append_self_conv prefixI)
    then have s: "agent_serves (data_arrives (take ?k bs)) ?c = ?c\<lparr>cn_socket := (cn_socket c)\<lparr>so_input := so_input (cn_socket c) @ take ?k bs\<rparr>\<rparr>"
      using serves_incomplete [OF alive(1)] message_length [OF 1(4)] 1(6) by (simp add: alive)
    have "length (drop ?k bs) < length bs" using 1(6) by simp
    from 1(1) [rule_format, OF this, of "agent_serves (data_arrives (take ?k bs)) ?c"] 1(2-4) split False show ?thesis
      using 1(6) alive unfolding s
      by (simp add: agent_write.simps [of bs] s [simplified] agent_alive_def Let_def)
  qed
qed

lemma agent_read_some:
  assumes "agent_alive c" "so_output (cn_socket c) \<noteq> []" "0 < k"
  shows "\<exists>j c'. 0 < j \<and> j \<le> k \<and> agent_read k c = (take j (so_output (cn_socket c)), c') \<and> agent_alive c' \<and>
    so_input (cn_socket c') = so_input (cn_socket c) \<and> so_output (cn_socket c') = drop j (so_output (cn_socket c)) \<and> cn_keys c' = cn_keys c"
proof -
  define j where "j = min (Suc (cn_pieces c 0 mod k)) (length (so_output (cn_socket c)))"
  have j: "0 < j" "j \<le> k" using assms(2,3) by (auto simp: j_def min_le_iff_disj Suc_le_eq)
  have "agent_serves (data_leaves j) (next_piece c) = (next_piece c)\<lparr>cn_socket := (cn_socket c)\<lparr>so_output := drop j (so_output (cn_socket c))\<rparr>\<rparr>"
    using assms(2) j by (simp add: agent_serves_def serve_socket_def data_leaves_def next_piece_def Let_def)
  moreover have "agent_read k c = (take j (so_output (cn_socket c)), agent_serves (data_leaves j) (next_piece c))"
    using assms(1,2) by (simp add: agent_read_def agent_alive_def j_def Let_def)
  ultimately show ?thesis using j assms(1) by (auto simp: agent_alive_def next_piece_def)
qed

interpretation al: agent_link agent_write agent_read agent_alive "\<lambda>c. so_input (cn_socket c)" "\<lambda>c. so_output (cn_socket c)" cn_keys
  by unfold_locales (use agent_write_part agent_write_whole agent_read_some in blast)+

section \<open>The agent as a key store\<close>

text \<open>Abstractly the agent is a finite map from moduli to identities.\<close>

definition store :: "Identity list \<Rightarrow> nat \<Rightarrow> Identity option" where
  "store ids = map_of (map (\<lambda>i. (id_n i, i)) ids)"

definition one_key_each :: "Identity list \<Rightarrow> bool" where
  "one_key_each ids \<longleftrightarrow> distinct (map id_n ids)"

fun keystore_step :: "(nat \<Rightarrow> Identity option) \<Rightarrow> agent_op \<Rightarrow> agent_result \<Rightarrow> (nat \<Rightarrow> Identity option) \<Rightarrow> bool" where
  "keystore_step m List_all r m' \<longleftrightarrow> m' = m \<and> (\<exists>xs. r = Listed xs \<and> set xs = id_entry ` ran m \<and> length xs = card (dom m))"
| "keystore_step m (Challenge pub c sid) r m' \<longleftrightarrow> m' = m \<and>
     r = Response (case m (pub_n pub) of
         None \<Rightarrow> None
       | Some i \<Rightarrow>
           if id_public i \<noteq> pub then None
           else (case rsa_private_decrypt c (id_key i) of Inl _ \<Rightarrow> None | Inr c \<Rightarrow> Some (challenge_response sid c)))"
| "keystore_step m (Add i) r m' \<longleftrightarrow> r = Done True \<and> m' = (if id_n i \<in> dom m then m else m(id_n i \<mapsto> i))"
| "keystore_step m (Remove pub) r m' \<longleftrightarrow> r = Done (pub_n pub \<in> dom m) \<and> m' = m(pub_n pub := None)"
| "keystore_step m Remove_all r m' \<longleftrightarrow> r = Done True \<and> m' = Map.empty"

inductive keystore_run :: "(nat \<Rightarrow> Identity option) \<Rightarrow> agent_op list \<Rightarrow> agent_result list \<Rightarrow> (nat \<Rightarrow> Identity option) \<Rightarrow> bool" where
  finished: "keystore_run m [] [] m"
| one_op: "keystore_step m op r m1 \<Longrightarrow> keystore_run m1 ops rs m' \<Longrightarrow> keystore_run m (op # ops) (r # rs) m'"

lemma store_Some: "one_key_each ids \<Longrightarrow> store ids n = Some i \<longleftrightarrow> i \<in> set ids \<and> id_n i = n"
  by (force simp: store_def one_key_each_def comp_def map_of_eq_Some_iff)

lemma store_dom: "dom (store ids) = id_n ` set ids"
  by (simp add: store_def dom_map_of_conv_image_fst image_image)

lemma store_ran: "one_key_each ids \<Longrightarrow> ran (store ids) = set ids"
  by (auto simp: ran_def store_Some)

lemma store_append: "one_key_each ids \<Longrightarrow> id_n i \<notin> dom (store ids) \<Longrightarrow> store (ids @ [i]) = (store ids)(id_n i \<mapsto> i)"
  unfolding store_def by (simp add: map_add_def fun_eq_iff domIff split: option.split)

lemma remove_at_facts:
  assumes "distinct (map f xs)" "i < length xs"
  shows "distinct (map f (remove_at i xs)) \<and> set (remove_at i xs) = set xs - {xs ! i}"
proof (cases xs rule: rev_cases)
  case (snoc ys y)
  have d: "distinct (map f ys)" "distinct ys" "y \<notin> set ys" "f y \<notin> f ` set ys" using assms(1) by (auto simp: snoc distinct_map)
  show ?thesis
  proof (cases "i < length ys")
    case True
    then have "remove_at i xs = ys[i := y]" by (simp add: snoc remove_at_def list_update_append)
    moreover have "xs ! i = ys ! i" using True by (simp add: snoc nth_append)
    moreover have "ys ! i \<in> set ys" using True by simp
    ultimately show ?thesis using d True by (auto simp: snoc map_update distinct_list_update set_update_distinct)
  next
    case False
    then have "remove_at i xs = ys" "xs ! i = y" using assms(2) by (auto simp: snoc remove_at_def less_Suc_eq)
    then show ?thesis using d by (auto simp: snoc)
  qed
qed (use assms in simp)

lemma find_holder:
  assumes "one_key_each ids"
  shows "holder pub ids = (case store ids (pub_n pub) of None \<Rightarrow> None | Some i \<Rightarrow> if id_public i = pub then Some i else None)"
proof -
  have p: "(\<lambda>i. pub_bits pub = prv_bits (id_key i) \<and> pub_e pub = prv_e (id_key i) \<and> pub_n pub = id_n i) = (\<lambda>i. id_public i = pub)"
    by (auto simp: id_public_def)
  have n: "id_public i = pub \<Longrightarrow> id_n i = pub_n pub" for i by (auto simp: id_public_def)
  show ?thesis
  proof (cases "holder pub ids")
    case None
    then have "\<And>i. i \<in> set ids \<Longrightarrow> id_public i \<noteq> pub" by (auto simp: holder_def p find_None_iff)
    then show ?thesis using None store_Some [OF assms] by (auto split: option.split)
  next
    case (Some i)
    then have "i \<in> set ids" "id_public i = pub" by (auto simp: holder_def p find_Some_iff)
    then have "store ids (pub_n pub) = Some i" using store_Some [OF assms] n by blast
    then show ?thesis using Some \<open>id_public i = pub\<close> by simp
  qed
qed

lemma step_refines:
  assumes "one_key_each ids" "acceptable_op ids op"
  shows "keystore_step (store ids) op (result ids op) (store (keys_after ids op)) \<and> one_key_each (keys_after ids op)"
proof (cases op)
  case List_all
  have "card (id_n ` set ids) = length ids" using assms(1) distinct_card [of "map id_n ids"] by (simp add: one_key_each_def)
  then show ?thesis using assms(1) by (simp add: List_all store_ran store_dom)
next
  case (Challenge pub c sid)
  then have "take 16 sid = sid" using assms(2) by simp
  then show ?thesis using assms(1) by (auto simp: Challenge find_holder split: option.split sum.split)
next
  case (Add i)
  have "list_ex (\<lambda>j. id_n j = id_n i) ids \<longleftrightarrow> id_n i \<in> dom (store ids)" unfolding list_ex_iff store_dom image_iff by metis
  then show ?thesis using assms(1) store_append [OF assms(1), of i] by (auto simp: Add one_key_each_def store_dom)
next
  case (Remove pub)
  let ?i = "length (takeWhile (\<lambda>j. id_n j \<noteq> pub_n pub) ids)"
  have ex: "?i < length ids \<longleftrightarrow> pub_n pub \<in> dom (store ids)"
    using takeWhile_list_ex [of "\<lambda>j. id_n j = pub_n pub" ids] unfolding list_ex_iff store_dom image_iff by metis
  have ex': "list_ex (\<lambda>i. id_n i = pub_n pub) ids \<longleftrightarrow> pub_n pub \<in> dom (store ids)" unfolding list_ex_iff store_dom image_iff by metis
  show ?thesis
  proof (cases "?i < length ids")
    case True
    then have f: "one_key_each (remove_at ?i ids)" "set (remove_at ?i ids) = set ids - {ids ! ?i}" "id_n (ids ! ?i) = pub_n pub"
      using remove_at_facts [of id_n ids ?i] assms(1) nth_length_takeWhile [of "\<lambda>j. id_n j \<noteq> pub_n pub" ids] by (auto simp: one_key_each_def)
    have "store (remove_at ?i ids) n = Some j \<longleftrightarrow> ((store ids)(pub_n pub := None)) n = Some j" for n j
      using store_Some [OF f(1)] store_Some [OF assms(1)] f(2,3) True assms(1)
      by (auto simp: one_key_each_def distinct_map inj_on_def)
    then have "store (remove_at ?i ids) = (store ids)(pub_n pub := None)" by (intro ext) (metis option.exhaust)
    then show ?thesis using True f(1) ex ex' by (auto simp: Remove Let_def)
  next
    case False
    then have "(store ids)(pub_n pub := None) = store ids" using ex by (auto simp: fun_eq_iff domIff)
    then show ?thesis using False assms(1) ex ex' by (simp add: Remove)
  qed
next
  case Remove_all
  then show ?thesis by (simp add: store_def one_key_each_def)
qed

lemma run_refines:
  "one_key_each ids \<Longrightarrow> acceptable ids ops \<Longrightarrow>
   keystore_run (store ids) ops (results ids ops) (store (fold (\<lambda>op ids. keys_after ids op) ops ids))"
proof (induction ops arbitrary: ids)
  case Nil
  then show ?case by (simp add: finished)
next
  case (Cons op ops)
  then show ?case using step_refines [of ids op] by (auto intro: one_op)
qed

section \<open>Any input\<close>

lemma remove_one_key_each:
  assumes "one_key_each ids" shows "i < length ids \<Longrightarrow> one_key_each (remove_at i ids)"
  using remove_at_facts [of id_n ids i] assms by (simp add: one_key_each_def)

lemma one_key_each_build:
  "one_key_each []" "one_key_each (ids @ [i]) \<longleftrightarrow> one_key_each ids \<and> \<not> list_ex (\<lambda>j. id_n j = id_n i) ids"
  by (simp add: one_key_each_def) (auto simp: one_key_each_def list_ex_iff image_iff eq_commute)

lemma process_message_keys:
  assumes "process_message ids e = Inr (ids', e')" "one_key_each ids" shows "one_key_each ids'"
  using assms
  by (auto simp: process_message_def process_request_identity_def process_authentication_challenge_def process_add_identity_def
      process_remove_identity_def process_remove_all_identities_def rbind_eq_Inr Let_def remove_one_key_each one_key_each_build
      split: if_splits option.splits)

lemma serve_socket_keys:
  assumes "serve_socket io ids e = Inr (ids', e')" "one_key_each ids" shows "one_key_each ids'"
  using assms process_message_keys by (fastforce simp: serve_socket_def Let_def split: if_splits)

lemma after_select_keys:
  "after_select io i ids sockets = Inr (ids', sockets') \<Longrightarrow> one_key_each ids \<Longrightarrow> one_key_each ids'"
proof (induction io i ids sockets rule: after_select.induct)
  case (1 io i ids sockets)
  show ?case
  proof (cases "length sockets \<le> i")
    case True
    with 1 show ?thesis by (simp add: after_select.simps [of io i])
  next
    case False
    show ?thesis
    proof (cases "so_type (sockets ! i)")
      case AUTH_UNUSED
      with 1 False show ?thesis by (simp add: after_select.simps [of io i] Let_def)
    next
      case AUTH_SOCKET
      with 1 False show ?thesis by (simp add: after_select.simps [of io i] Let_def split: option.splits if_splits)
    next
      case AUTH_SOCKET_FD
      with "1.prems" False obtain ids1 e1 where s: "serve_socket (io (so_fd (sockets ! i))) ids (sockets ! i) = Inr (ids1, e1)"
        "after_select io (Suc i) ids1 (sockets[i := e1]) = Inr (ids', sockets')"
        by (auto simp: after_select.simps [of io i] Let_def rbind_eq_Inr)
      with "1.IH"(5) [OF False refl refl AUTH_SOCKET_FD s(1) refl s(2)] serve_socket_keys [OF s(1) "1.prems"(2)] show ?thesis by simp
    qed
  qed
qed

section \<open>An example\<close>

definition demo_identity :: Identity where
  "demo_identity = \<lparr>id_key = demo_private, id_comment = [109, 101]\<rparr>"

definition demo_connection :: "Identity list \<Rightarrow> agent_connection" where
  "demo_connection ids = \<lparr>cn_keys = ids, cn_socket = fresh_socket AUTH_SOCKET_FD 5, cn_alive = True, cn_pieces = (\<lambda>n. 7 * n)\<rparr>"

lemma demo_idle: "al.idle (demo_connection ids)"
  by (simp add: al.idle_def agent_alive_def demo_connection_def fresh_socket_def)

definition demo_ops :: "nat \<Rightarrow> agent_op list" where
  "demo_ops c = [Add demo_identity, List_all, Challenge demo_public c (replicate 16 7), Remove demo_public, List_all]"

lemma bit_length_less: "v < 2 ^ k \<Longrightarrow> 0 < k \<Longrightarrow> bit_length v \<le> k"
proof (induction k arbitrary: v)
  case (Suc k)
  show ?case
  proof (cases "v < 2")
    case False
    then have "v div 2 < 2 ^ k" "0 < k" using Suc.prems by (auto intro: gr0I)
    then show ?thesis using Suc.IH False by (simp add: bit_length_step)
  qed (simp add: bit_length.simps)
qed simp

lemma demo_decrypts: "\<exists>c. bit_length c < 2 ^ 16 \<and> rsa_private_decrypt c demo_private = Inr 65"
proof -
  have "eventually_nonzero (\<lambda>u. (7, u))" by (simp add: eventually_nonzero_def)
  moreover have "(bit_length 65 + 7) div 8 + 3 \<le> key_len 25" by (simp add: bit_length.simps key_len_def)
  ultimately obtain c r' where c: "rsa_public_encrypt (\<lambda>u. (7, u)) () 65 demo_public = Some (Inr (c, r'))" "rsa_private_decrypt c demo_private = Inr 65"
    using encrypt_decrypt [OF demo_good, where rnd = "\<lambda>u. (7, u)" and input = 65 and r = "()"] by auto
  then have "c < 18938929"
    by (auto simp: rsa_public_encrypt_def rsa_public_def Let_def split: if_splits option.splits)
  then have "bit_length c \<le> 25" by (intro bit_length_less) simp_all
  then have "bit_length c < 2 ^ 16" by simp
  then show ?thesis using c(2) by blast
qed

lemma demo_zero: "rsa_private_decrypt 0 demo_private = Inl (Fatal ''Bad result from rsa_private_decrypt'')"
  by (simp add: rsa_private_decrypt_def rsa_private_def key_len_def Let_def mp_linearize_msb_first.simps [of 4] mp_linearize_msb_first.simps [of 0] PUT_32BIT_def)

lemma demo_acceptable:
  assumes "bit_length c < 2 ^ 16" "rsa_private_decrypt c demo_private = Inr 65" shows "acceptable [] (demo_ops c)"
  using assms
  by (simp add: demo_ops_def demo_identity_def small_key_def small_public_def id_public_def bit_length.simps [of "numeral _"] bit_length.simps [of "Suc 0"] holder_def listing_def
      public_fields_def mp_field_def mp_bytes c_string_def remove_at_def)

section \<open>Properties\<close>

text \<open>C4: The agent is a key store for the programs that talk to it: however the bytes of a conversation are cut into pieces
  on the way, every sequence of requests whose messages are small enough gets the answers of a finite map from
  moduli to identities, from adding, listing, using and removing keys, and leaves the agent with the keys of the map.\<close>

theorem agent_conversation:
  assumes "al.idle c" and "one_key_each (cn_keys c)" and "acceptable (cn_keys c) ops"
  shows "\<exists>rs c'. client_run agent_write agent_read ops c = Inr (rs, c') \<and> al.idle c' \<and>
    keystore_run (store (cn_keys c)) ops rs (store (cn_keys c'))"
proof -
  obtain c' where "client_run agent_write agent_read ops c = Inr (results (cn_keys c) ops, c')" "al.idle c'"
    "cn_keys c' = fold (\<lambda>op ids. keys_after ids op) ops (cn_keys c)" using al.client_run_law [OF assms(1,3)] by blast
  then show ?thesis using run_refines [OF assms(2,3)] by auto
qed

theorem agent_conversation_witness:
  "\<exists>ch rs c'. client_run agent_write agent_read (demo_ops ch) (demo_connection []) = Inr (rs, c') \<and>
    keystore_run Map.empty (demo_ops ch) rs (store (cn_keys c'))"
proof -
  obtain ch where ch: "bit_length ch < 2 ^ 16" "rsa_private_decrypt ch demo_private = Inr 65" using demo_decrypts by blast
  have "cn_keys (demo_connection []) = []" by (simp add: demo_connection_def)
  moreover have "store [] = Map.empty" "one_key_each []" by (simp_all add: store_def one_key_each_def)
  ultimately show ?thesis using agent_conversation [OF demo_idle, of "[]" "demo_ops ch"] demo_acceptable [OF ch] by auto
qed

text \<open>C21: Whatever bytes arrive on whatever sockets, the agent never holds two identities with the same modulus: a round of
  \<^verbatim>\<open>after_select\<close> over all its sockets keeps the moduli distinct.\<close>

theorem agent_keys_stay_distinct:
  assumes "after_select io 0 ids sockets = Inr (ids', sockets')" and "one_key_each ids"
  shows "one_key_each ids'"
  using after_select_keys [OF assms] .

theorem agent_keys_stay_distinct_witness:
  "\<exists>ids' sockets'. after_select (\<lambda>fd. data_arrives (frame (message (Remove demo_public)))) 0 [demo_identity] [fresh_socket AUTH_SOCKET_FD 5] =
     Inr (ids', sockets') \<and> one_key_each ids'"
proof -
  let ?e = "fresh_socket AUTH_SOCKET_FD 5"
  have k: "one_key_each [demo_identity]" by (simp add: one_key_each_def)
  have "acceptable_op [demo_identity] (Remove demo_public)"
    by (simp add: small_public_def bit_length.simps public_fields_def mp_field_def mp_bytes)
  then have "\<exists>ids' e'. process_message [demo_identity] (?e\<lparr>so_input := frame (message (Remove demo_public))\<rparr>) = Inr (ids', e')"
    using process_request [of "[demo_identity]" "Remove demo_public"] by fastforce
  then obtain ids' e' where "serve_socket (data_arrives (frame (message (Remove demo_public)))) [demo_identity] ?e = Inr (ids', e')"
    by (auto simp: serve_socket_def data_arrives_def fresh_socket_def frame_def Let_def)
  then have a: "after_select (\<lambda>fd. data_arrives (frame (message (Remove demo_public)))) 0 [demo_identity] [?e] = Inr (ids', [e'])"
    by (simp add: after_select.simps [of _ "Suc 0"] after_select.simps [of _ 0] fresh_socket_def)
  from agent_keys_stay_distinct [OF a k] a show ?thesis by blast
qed

text \<open>C38: Whoever can send the agent a challenge can end it: for a key that the agent holds and a challenge that does not decrypt
  to padded data, the agent stops with a fatal error instead of answering with a failure.\<close>

theorem bad_challenge_ends_agent:
  assumes "holder pub ids = Some i" and "rsa_private_decrypt challenge (id_key i) = Inl err"
    and "small_public pub" and "bit_length challenge < 2 ^ 16" and "length sid = 16"
    and "so_input e = frame (message (Challenge pub challenge sid))" and "length (message (Challenge pub challenge sid)) \<le> 30 * 1024"
  shows "process_message ids e = Inl err"
proof -
  let ?m = "message (Challenge pub challenge sid)"
  have "unat (of_nat (length ?m) :: u32) = length ?m" using assms(7) by (intro unat_of_nat_small) simp
  then have size: "unat (GET_32BIT (so_input e)) = length ?m" "length (so_input e) = 4 + length ?m" "drop 4 (so_input e) = ?m"
    by (simp_all add: assms(6) frame_def getput)
  have "length (PUT_32BIT 1) = 4" by simp
  then have "PUT_32BIT 1 \<noteq> []" by (metis list.size(3) zero_neq_numeral)
  then show ?thesis using size assms(1-5,7)
    by (simp add: process_message_def process_authentication_challenge_def public_fields_def challenge_kind_def
        small_public_def holder_def)
qed

theorem bad_challenge_ends_agent_witness:
  "process_message [demo_identity] ((fresh_socket AUTH_SOCKET_FD 5)\<lparr>so_input := frame (message (Challenge demo_public 0 (replicate 16 7)))\<rparr>)
   = Inl (Fatal ''Bad result from rsa_private_decrypt'')"
proof (rule bad_challenge_ends_agent [where sid = "replicate 16 7" and pub = demo_public and challenge = 0])
  show "holder demo_public [demo_identity] = Some demo_identity" by (simp add: holder_def demo_identity_def)
  show "rsa_private_decrypt 0 (id_key demo_identity) = Inl (Fatal ''Bad result from rsa_private_decrypt'')"
    by (simp add: demo_identity_def demo_zero)
qed (simp_all add: small_public_def bit_length.simps public_fields_def mp_field_def mp_bytes)

end
