(* ===== verification/AuthRhosts.thy ===== *)
theory AuthRhosts
  imports AuthRsa
begin

text \<open>
  \<^verbatim>\<open>auth-rhosts.c\<close> and \<^verbatim>\<open>auth-rh-rsa.c\<close>: authentication by the client's host. \<^verbatim>\<open>char\<close> is signed.
  Files, their owners and modes, the name, address and port of the client's host are arguments; so is
  \<^verbatim>\<open>innetgr\<close>, \<open>None\<close> when the system lacks it. Log and debug messages are left out.
\<close>

section \<open>One line of a file\<close>

definition upcase :: "char \<Rightarrow> char" where
  "upcase c = (if 97 \<le> (of_char c :: nat) \<and> (of_char c :: nat) \<le> 122 then char_of (of_char c - 32 :: nat) else c)"

fun casefold_equal :: "string \<Rightarrow> string \<Rightarrow> bool" where
  "casefold_equal [] b \<longleftrightarrow> b = []"
| "casefold_equal (x # a) [] \<longleftrightarrow> False"
| "casefold_equal (x # a) (y # b) \<longleftrightarrow> upcase x = upcase y \<and> casefold_equal a b"

definition is_space :: "char \<Rightarrow> bool" where
  "is_space c \<longleftrightarrow> of_char c \<in> {9, 10, 11, 12, 13, 32 :: nat}"

definition control_char :: "char \<Rightarrow> bool" where
  "control_char c \<longleftrightarrow> ((of_char c :: nat) < 32 \<or> 128 \<le> (of_char c :: nat)) \<and> \<not> is_space c"

text \<open>The fields that \<^verbatim>\<open>sscanf\<close> reads with \<^verbatim>\<open>%s\<close>.\<close>

function words :: "string \<Rightarrow> string list" where
  "words s =
     (let s = dropWhile is_space s
      in if s = [] then [] else takeWhile (\<lambda>c. \<not> is_space c) s # words (dropWhile (\<lambda>c. \<not> is_space c) s))"
  by pat_completeness auto

termination
proof (relation "measure length", goal_cases)
  case (2 s x)
  obtain c r where x: "x = c # r" using 2(2) by (meson neq_Nil_conv)
  have "\<not> is_space c" using 2 x hd_dropWhile [of is_space s] by (metis list.sel(1))
  then have "length (dropWhile (\<lambda>c. \<not> is_space c) x) < length x"
    using length_dropWhile_le [of "\<lambda>c. \<not> is_space c" r] by (simp add: x less_Suc_eq_le)
  also have "\<dots> \<le> length s" using 2 length_dropWhile_le by auto
  finally show ?case by simp
qed simp

declare words.simps [simp del]

definition sign :: "string \<Rightarrow> bool \<times> string" where
  "sign s = (case s of [] \<Rightarrow> (False, []) | c # r \<Rightarrow> if c = CHR ''-'' then (True, r) else if c = CHR ''+'' then (False, r) else (False, s))"

type_synonym netgroups = "(string \<Rightarrow> string option \<Rightarrow> string option \<Rightarrow> bool) option"

definition host_matches :: "netgroups \<Rightarrow> string \<Rightarrow> string \<Rightarrow> string \<Rightarrow> bool" where
  "host_matches innetgr hostname ipaddr host =
     (case (innetgr, host) of
        (Some f, CHR ''@'' # g) \<Rightarrow> f g (Some hostname) None \<or> f g (Some ipaddr) None
      | _ \<Rightarrow> casefold_equal host hostname \<or> host = ipaddr)"

definition user_matches :: "netgroups \<Rightarrow> string \<Rightarrow> string \<Rightarrow> bool" where
  "user_matches innetgr client_user user =
     (case (innetgr, user) of
        (Some f, CHR ''@'' # g) \<Rightarrow> f g None (Some client_user)
      | _ \<Rightarrow> user = client_user)"

record shosts_options =
  deny_shosts :: "string list"
  allow_shosts :: "string list"

definition perm_denied :: "shosts_options \<Rightarrow> string \<Rightarrow> bool" where
  "perm_denied options host \<longleftrightarrow>
     list_ex (match_pattern host) (deny_shosts options) \<or>
     (allow_shosts options \<noteq> [] \<and> \<not> list_ex (match_pattern host) (allow_shosts options))"

text \<open>What a line says: it is passed over, it ends the reading, or it decides.\<close>

datatype rhosts_line = Pass | Stop | Decide bool

definition rhosts_entry :: "netgroups \<Rightarrow> shosts_options \<Rightarrow> string \<Rightarrow> string \<Rightarrow> string \<Rightarrow> string \<Rightarrow> string \<Rightarrow> rhosts_line" where
  "rhosts_entry innetgr options hostname ipaddr client_user hostbuf userbuf =
     (let (neg_host, host) = sign (take 255 hostbuf); (neg_user, user) = sign (take 255 userbuf)
      in if host = [] \<or> user = [] then Pass
         else if \<not> host_matches innetgr hostname ipaddr host then Pass
         else if \<not> user_matches innetgr client_user user then Pass
         else if perm_denied options host then Pass
         else Decide (\<not> (neg_host \<or> neg_user)))"

definition rhosts_line :: "netgroups \<Rightarrow> shosts_options \<Rightarrow> string \<Rightarrow> string \<Rightarrow> string \<Rightarrow> string \<Rightarrow> string \<Rightarrow> rhosts_line" where
  "rhosts_line innetgr options hostname ipaddr client_user server_user line =
     (let buf = takeWhile (\<lambda>c. c \<noteq> CHR 0x00) line
      in if list_ex control_char buf then Stop
         else let buf = takeWhile (\<lambda>c. c \<noteq> CHR ''#'') buf; cp = dropWhile blank buf
              in if cp = [] \<or> hd cp = NEWLINE then Pass
                 else if take 7 cp = ''NO_PLUS'' then Pass
                 else case words buf of
                        [host] \<Rightarrow> rhosts_entry innetgr options hostname ipaddr client_user host (take 1023 server_user)
                      | [host, user] \<Rightarrow> rhosts_entry innetgr options hostname ipaddr client_user host user
                      | _ \<Rightarrow> Pass)"

fun rhosts_lines :: "(string \<Rightarrow> rhosts_line) \<Rightarrow> string list \<Rightarrow> bool" where
  "rhosts_lines f [] = False"
| "rhosts_lines f (l # ls) = (case f l of Pass \<Rightarrow> rhosts_lines f ls | Stop \<Rightarrow> False | Decide b \<Rightarrow> b)"

definition check_rhosts_file :: "netgroups \<Rightarrow> shosts_options \<Rightarrow> string option \<Rightarrow> string \<Rightarrow> string \<Rightarrow> string \<Rightarrow> string \<Rightarrow> bool" where
  "check_rhosts_file innetgr options file hostname ipaddr client_user server_user =
     (case file of
        None \<Rightarrow> False
      | Some content \<Rightarrow>
          rhosts_lines (rhosts_line innetgr options hostname ipaddr client_user server_user) (file_lines 1023 content))"

section \<open>Authentication\<close>

record file_status =
  st_uid :: nat
  st_mode :: nat

text \<open>
  The files: \<^verbatim>\<open>/etc/hosts.equiv\<close> and \<^verbatim>\<open>SSH_HOSTS_EQUIV\<close> (whether the user can see them, and their
  text for the server), the home directory, and the user's \<^verbatim>\<open>.shosts\<close> and \<^verbatim>\<open>.rhosts\<close> (status and text).
\<close>

record rhosts_host =
  rh_hostname :: string
  rh_ipaddr :: string
  rh_port :: int
  rh_equiv_exists :: bool
  rh_equiv :: "string option"
  rh_shosts_equiv_exists :: bool
  rh_shosts_equiv :: "string option"
  rh_home :: "file_status option"
  rh_user_files :: "(file_status option \<times> string option) list"

record passwd =
  pw_name :: string
  pw_uid :: nat

abbreviation UID_ROOT :: nat where "UID_ROOT \<equiv> 0"

definition unsafe :: "nat \<Rightarrow> file_status \<Rightarrow> nat \<Rightarrow> bool" where
  "unsafe uid st writable \<longleftrightarrow> (st_uid st \<noteq> UID_ROOT \<and> st_uid st \<noteq> uid) \<or> (st_mode st AND writable) \<noteq> 0"

definition user_file_grants :: "netgroups \<Rightarrow> shosts_options \<Rightarrow> rhosts_host \<Rightarrow> passwd \<Rightarrow> string \<Rightarrow> bool \<Rightarrow> bool \<Rightarrow> bool \<Rightarrow>
    file_status option \<times> string option \<Rightarrow> bool" where
  "user_file_grants innetgr options h pw client_user ignore_rhosts ignore_root_rhosts strict_modes f =
     (case f of
        (None, _) \<Rightarrow> False
      | (Some st, file) \<Rightarrow>
          if strict_modes \<and> unsafe (pw_uid pw) st 0x12 then False
          else if (pw_uid pw = UID_ROOT \<and> ignore_root_rhosts) \<or> (pw_uid pw \<noteq> UID_ROOT \<and> ignore_rhosts) then False
          else check_rhosts_file innetgr options file (rh_hostname h) (rh_ipaddr h) client_user (pw_name pw))"

text \<open>The mode bits are octal 022, and \<open>home_mask\<close> is 002 with \<^verbatim>\<open>ALLOW_GROUP_WRITEABILITY\<close> and 022 otherwise.\<close>

definition auth_rhosts :: "netgroups \<Rightarrow> shosts_options \<Rightarrow> nat \<Rightarrow> rhosts_host \<Rightarrow> passwd \<Rightarrow> string \<Rightarrow> bool \<Rightarrow> bool \<Rightarrow> bool \<Rightarrow> bool" where
  "auth_rhosts innetgr options home_mask h pw client_user ignore_rhosts ignore_root_rhosts strict_modes =
     (let check = (\<lambda>file. check_rhosts_file innetgr options file (rh_hostname h) (rh_ipaddr h) client_user (pw_name pw))
      in if \<not> list_ex (\<lambda>f. fst f \<noteq> None) (rh_user_files h) \<and> \<not> rh_equiv_exists h \<and> \<not> rh_shosts_equiv_exists h then False
         else if rh_port h \<ge> 1024 \<or> rh_port h < 512 then False
         else if pw_uid pw \<noteq> UID_ROOT \<and> (check (rh_equiv h) \<or> check (rh_shosts_equiv h)) then True
         else case rh_home h of
                None \<Rightarrow> False
              | Some st \<Rightarrow>
                  if strict_modes \<and> unsafe (pw_uid pw) st home_mask then False
                  else list_ex (user_file_grants innetgr options h pw client_user ignore_rhosts ignore_root_rhosts strict_modes) (rh_user_files h))"

text \<open>\<open>known\<close> are the system's and the user's list of known hosts.\<close>

definition auth_rhosts_rsa :: "netgroups \<Rightarrow> shosts_options \<Rightarrow> nat \<Rightarrow> rhosts_host \<Rightarrow> passwd \<Rightarrow> string \<Rightarrow> bool \<Rightarrow> bool \<Rightarrow> bool \<Rightarrow>
    string option \<times> string option \<Rightarrow> ('r \<Rightarrow> byte \<times> 'r) \<Rightarrow> byte list \<Rightarrow> (nat \<Rightarrow> byte list) \<Rightarrow> u32 \<Rightarrow> nat \<Rightarrow> nat \<Rightarrow> 'r \<Rightarrow> (bool \<times> 'r) res" where
  "auth_rhosts_rsa innetgr options home_mask h pw client_user ignore_rhosts ignore_root_rhosts strict_modes known rnd sid client bits e n state =
     (if \<not> auth_rhosts innetgr options home_mask h pw client_user ignore_rhosts ignore_root_rhosts strict_modes then Inr (False, state)
      else if check_host_in_hostfile (fst known) (rh_hostname h) bits e n \<noteq> HOST_OK \<and>
              check_host_in_hostfile (snd known) (rh_hostname h) bits e n \<noteq> HOST_OK then Inr (False, state)
      else auth_rsa_challenge_dialog rnd sid client state bits e n)"

section \<open>What a file grants\<close>

lemma rhosts_lines_meaning:
  "rhosts_lines f ls \<longleftrightarrow> (\<exists>pre l post. ls = pre @ l # post \<and> list_all (\<lambda>l. f l = Pass) pre \<and> f l = Decide True)"
proof (induction ls)
  case (Cons a ls)
  show ?case
  proof (cases "f a")
    case Pass
    show ?thesis
    proof
      assume "rhosts_lines f (a # ls)"
      with Pass Cons.IH obtain pre l post where "ls = pre @ l # post" "list_all (\<lambda>l. f l = Pass) pre" "f l = Decide True" by auto
      then show "\<exists>pre l post. a # ls = pre @ l # post \<and> list_all (\<lambda>l. f l = Pass) pre \<and> f l = Decide True"
        using Pass by (intro exI [of _ "a # pre"] exI [of _ l] exI [of _ post]) simp
    next
      assume "\<exists>pre l post. a # ls = pre @ l # post \<and> list_all (\<lambda>l. f l = Pass) pre \<and> f l = Decide True"
      then obtain pre l post where p: "a # ls = pre @ l # post" "list_all (\<lambda>l. f l = Pass) pre" "f l = Decide True" by blast
      then obtain pre' where "pre = a # pre'" using Pass by (cases pre) auto
      then show "rhosts_lines f (a # ls)" using Pass Cons.IH p by auto
    qed
  next
    case (Decide b)
    then show ?thesis by (cases b) (auto simp: Cons_eq_append_conv intro: exI [of _ "[]"])
  qed (auto simp: Cons_eq_append_conv)
qed simp

definition entry_text :: "string \<Rightarrow> string" where
  "entry_text line = takeWhile (\<lambda>c. c \<noteq> CHR ''#'') (takeWhile (\<lambda>c. c \<noteq> CHR 0x00) line)"

text \<open>The host and the user that a line names without a minus sign.\<close>

definition names :: "string \<Rightarrow> string \<Rightarrow> string \<Rightarrow> string \<Rightarrow> bool" where
  "names server_user line host user \<longleftrightarrow>
     (\<exists>hostbuf userbuf. (words (entry_text line) = [hostbuf] \<and> userbuf = take 1023 server_user \<or> words (entry_text line) = [hostbuf, userbuf]) \<and>
       sign (take 255 hostbuf) = (False, host) \<and> sign (take 255 userbuf) = (False, user))"

lemma rhosts_entry_grants:
  assumes "rhosts_entry innetgr options hostname ipaddr client_user hostbuf userbuf = Decide True"
  shows "\<exists>host user. sign (take 255 hostbuf) = (False, host) \<and> sign (take 255 userbuf) = (False, user) \<and> host \<noteq> [] \<and> user \<noteq> [] \<and>
    host_matches innetgr hostname ipaddr host \<and> user_matches innetgr client_user user \<and> \<not> perm_denied options host"
  using assms by (auto simp: rhosts_entry_def split: prod.splits if_splits)

lemma rhosts_line_grants:
  assumes "rhosts_line innetgr options hostname ipaddr client_user server_user line = Decide True"
  shows "\<exists>host user. names server_user line host user \<and> host \<noteq> [] \<and> user \<noteq> [] \<and>
    host_matches innetgr hostname ipaddr host \<and> user_matches innetgr client_user user \<and> \<not> perm_denied options host"
proof -
  from assms obtain hostbuf userbuf where
    w: "words (entry_text line) = [hostbuf] \<and> userbuf = take 1023 server_user \<or> words (entry_text line) = [hostbuf, userbuf]"
    and e: "rhosts_entry innetgr options hostname ipaddr client_user hostbuf userbuf = Decide True"
    by (auto simp: rhosts_line_def entry_text_def Let_def split: if_splits list.splits)
  from rhosts_entry_grants [OF e] w show ?thesis unfolding names_def by blast
qed

lemma check_rhosts_file_grants:
  assumes "check_rhosts_file innetgr options file hostname ipaddr client_user server_user"
  shows "\<exists>content line host user. file = Some content \<and> line \<in> set (file_lines 1023 content) \<and> names server_user line host user \<and>
    host \<noteq> [] \<and> user \<noteq> [] \<and> host_matches innetgr hostname ipaddr host \<and> user_matches innetgr client_user user \<and> \<not> perm_denied options host"
proof -
  from assms obtain content where c: "file = Some content"
    "rhosts_lines (rhosts_line innetgr options hostname ipaddr client_user server_user) (file_lines 1023 content)"
    by (auto simp: check_rhosts_file_def split: option.splits)
  then obtain line where l: "line \<in> set (file_lines 1023 content)"
    "rhosts_line innetgr options hostname ipaddr client_user server_user line = Decide True"
    unfolding rhosts_lines_meaning by (metis in_set_conv_decomp)
  from rhosts_line_grants [OF l(2)] l(1) c(1) show ?thesis by blast
qed

text \<open>The files that count for a user.\<close>

definition counts :: "nat \<Rightarrow> rhosts_host \<Rightarrow> passwd \<Rightarrow> bool \<Rightarrow> bool \<Rightarrow> bool \<Rightarrow> string \<Rightarrow> bool" where
  "counts home_mask h pw ignore_rhosts ignore_root_rhosts strict_modes content \<longleftrightarrow>
     pw_uid pw \<noteq> UID_ROOT \<and> (rh_equiv h = Some content \<or> rh_shosts_equiv h = Some content) \<or>
     (\<exists>st home. (Some st, Some content) \<in> set (rh_user_files h) \<and> rh_home h = Some home \<and>
        (strict_modes \<longrightarrow> \<not> unsafe (pw_uid pw) st 0x12 \<and> \<not> unsafe (pw_uid pw) home home_mask) \<and>
        \<not> (if pw_uid pw = UID_ROOT then ignore_root_rhosts else ignore_rhosts))"

lemma auth_rhosts_file:
  assumes "auth_rhosts innetgr options home_mask h pw client_user ignore_rhosts ignore_root_rhosts strict_modes"
  shows "512 \<le> rh_port h \<and> rh_port h < 1024 \<and>
    (\<exists>content. counts home_mask h pw ignore_rhosts ignore_root_rhosts strict_modes content \<and>
      check_rhosts_file innetgr options (Some content) (rh_hostname h) (rh_ipaddr h) client_user (pw_name pw))"
proof -
  let ?check = "\<lambda>file. check_rhosts_file innetgr options file (rh_hostname h) (rh_ipaddr h) client_user (pw_name pw)"
  have some: "?check f \<Longrightarrow> \<exists>content. f = Some content" for f by (auto simp: check_rhosts_file_def split: option.splits)
  have port: "512 \<le> rh_port h \<and> rh_port h < 1024" using assms by (auto simp: auth_rhosts_def Let_def split: if_splits)
  show ?thesis
  proof (cases "pw_uid pw \<noteq> UID_ROOT \<and> (?check (rh_equiv h) \<or> ?check (rh_shosts_equiv h))")
    case True
    then show ?thesis using port some unfolding counts_def by metis
  next
    case False
    with assms obtain home f where home: "rh_home h = Some home" "strict_modes \<longrightarrow> \<not> unsafe (pw_uid pw) home home_mask"
      and f: "f \<in> set (rh_user_files h)" "user_file_grants innetgr options h pw client_user ignore_rhosts ignore_root_rhosts strict_modes f"
      by (auto simp: auth_rhosts_def Let_def list_ex_iff split: if_splits option.splits)
    from f(2) obtain st t where fs: "f = (Some st, t)" "?check t" "strict_modes \<longrightarrow> \<not> unsafe (pw_uid pw) st 0x12"
      "\<not> (if pw_uid pw = UID_ROOT then ignore_root_rhosts else ignore_rhosts)"
      by (auto simp: user_file_grants_def split: prod.splits option.splits if_splits)
    from some [OF fs(2)] obtain content where "t = Some content" by blast
    then show ?thesis using port home f(1) fs unfolding counts_def by blast
  qed
qed

section \<open>A plain line\<close>

definition plain_word :: "string \<Rightarrow> bool" where
  "plain_word w \<longleftrightarrow> w \<noteq> [] \<and> length w \<le> 255 \<and> hd w \<notin> set ''-+@'' \<and>
     list_all (\<lambda>c. \<not> is_space c \<and> \<not> control_char c \<and> c \<noteq> CHR ''#'' \<and> c \<noteq> CHR 0x00) w"

lemma words_step:
  assumes "list_all (\<lambda>c. \<not> is_space c) w" "w \<noteq> []" "is_space c" shows "words (w @ c # r) = w # words r"
proof -
  have "dropWhile is_space (w @ c # r) = w @ c # r" using assms(1,2) by (cases w) auto
  moreover have "takeWhile (\<lambda>c. \<not> is_space c) (w @ c # r) = w" "dropWhile (\<lambda>c. \<not> is_space c) (w @ c # r) = c # r"
    using assms(1,3) by (auto simp: list_all_iff takeWhile_append2 dropWhile_append2)
  moreover have "words (c # r) = words r" using assms(3) by (simp add: words.simps [of "c # r"] words.simps [of r])
  ultimately show ?thesis using assms(2) by (simp add: words.simps [of "w @ c # r"] Let_def)
qed

lemma sign_plain: "plain_word w \<Longrightarrow> sign (take 255 w) = (False, w)"
  by (cases w) (auto simp: plain_word_def sign_def)

definition rhosts_text :: "string \<Rightarrow> string \<Rightarrow> string" where
  "rhosts_text host user = host @ '' '' @ user @ [NEWLINE]"

lemma entry_plain:
  assumes "plain_word host" "plain_word user"
  shows "takeWhile (\<lambda>c. c \<noteq> CHR 0x00) (rhosts_text host user) = rhosts_text host user"
    "takeWhile (\<lambda>c. c \<noteq> CHR ''#'') (rhosts_text host user) = rhosts_text host user"
    "\<not> list_ex control_char (rhosts_text host user)"
    "words (rhosts_text host user) = [host, user]"
    "dropWhile blank (rhosts_text host user) = rhosts_text host user" "hd (rhosts_text host user) = hd host"
    "file_lines 1023 (rhosts_text host user) = [rhosts_text host user]"
proof -
  have sp: "is_space (CHR '' '')" "is_space NEWLINE" by (simp_all add: is_space_def)
  have c: "\<And>c. c \<in> set host \<union> set user \<Longrightarrow> \<not> is_space c \<and> \<not> control_char c \<and> c \<noteq> CHR ''#'' \<and> c \<noteq> CHR 0x00"
    using assms by (auto simp: plain_word_def list_all_iff)
  have ne: "host \<noteq> []" "user \<noteq> []" "length host \<le> 255" "length user \<le> 255" using assms by (simp_all add: plain_word_def)
  show "takeWhile (\<lambda>c. c \<noteq> CHR 0x00) (rhosts_text host user) = rhosts_text host user"
    "takeWhile (\<lambda>c. c \<noteq> CHR ''#'') (rhosts_text host user) = rhosts_text host user"
    using c by (auto simp: takeWhile_eq_all_conv rhosts_text_def)
  show "\<not> list_ex control_char (rhosts_text host user)" using c sp by (auto simp: list_ex_iff rhosts_text_def control_char_def)
  have "words [] = []" by (simp add: words.simps)
  then have "words (user @ NEWLINE # []) = [user]" using words_step [of user NEWLINE "[]"] c ne sp by (auto simp: list_all_iff)
  then show "words (rhosts_text host user) = [host, user]"
    using words_step [of host "CHR '' ''" "user @ [NEWLINE]"] c ne sp by (auto simp: rhosts_text_def list_all_iff)
  have "\<not> blank (hd host)" using c [of "hd host"] ne sp by (auto simp: blank_def is_space_def)
  then show "dropWhile blank (rhosts_text host user) = rhosts_text host user" using ne by (cases host) (auto simp: rhosts_text_def)
  show "hd (rhosts_text host user) = hd host" using ne by (simp add: rhosts_text_def)
  have "NEWLINE \<notin> set (host @ '' '' @ user)" using c sp by auto
  then show "file_lines 1023 (rhosts_text host user) = [rhosts_text host user]"
    using file_lines_line [of "host @ '' '' @ user" 1023] ne by (simp add: rhosts_text_def)
qed

lemma check_plain:
  assumes "plain_word host" "plain_word user" "take 7 (rhosts_text host user) \<noteq> ''NO_PLUS''"
  shows "check_rhosts_file innetgr options (Some (rhosts_text host user)) hostname ipaddr client_user server_user \<longleftrightarrow>
    host_matches innetgr hostname ipaddr host \<and> user_matches innetgr client_user user \<and> \<not> perm_denied options host"
proof -
  have "hd host \<noteq> NEWLINE" using assms(1) by (cases host) (auto simp: plain_word_def is_space_def)
  moreover have "host \<noteq> []" "user \<noteq> []" using assms by (auto simp: plain_word_def)
  moreover have "rhosts_text host user \<noteq> []" by (simp add: rhosts_text_def)
  moreover from this have "\<exists>x \<in> set (rhosts_text host user). \<not> blank x"
    using entry_plain(5) [OF assms(1,2)] dropWhile_eq_Nil_conv [of blank "rhosts_text host user"] by auto
  ultimately show ?thesis
    by (simp add: check_rhosts_file_def rhosts_line_def Let_def entry_plain [OF assms(1,2)] assms(3) rhosts_entry_def sign_plain [OF assms(1)] sign_plain [OF assms(2)])
qed

lemma match_literal:
  "list_all (\<lambda>c. c \<noteq> CHR ''*'' \<and> c \<noteq> CHR ''?'') p \<Longrightarrow> match_pattern s p \<longleftrightarrow> s = p"
  by (induction p arbitrary: s) (auto split: list.split)

section \<open>Properties\<close>

text \<open>C12: Authentication by the client's host is granted only for good reason: the connection comes from a port between 512 and
  1023, and some line of a file that counts for the user (the system's files, but not for root; the user's own files when they
  are not ignored and, in strict mode, they and the home directory belong to the user or root and nobody else can write them) names, without a
  minus sign and not by a bare plus, a host that matches the client's and a user that matches the client's, and the host it
  names is not denied.\<close>

theorem auth_rhosts_grants:
  assumes "auth_rhosts innetgr options home_mask h pw client_user ignore_rhosts ignore_root_rhosts strict_modes"
  shows "512 \<le> rh_port h \<and> rh_port h < 1024 \<and>
    (\<exists>content line host user. counts home_mask h pw ignore_rhosts ignore_root_rhosts strict_modes content \<and>
      line \<in> set (file_lines 1023 content) \<and> names (pw_name pw) line host user \<and> host \<noteq> [] \<and> user \<noteq> [] \<and>
      host_matches innetgr (rh_hostname h) (rh_ipaddr h) host \<and> user_matches innetgr client_user user \<and> \<not> perm_denied options host)"
  using auth_rhosts_file [OF assms] check_rhosts_file_grants by (metis option.inject)

definition demo_host :: "string \<Rightarrow> rhosts_host" where
  "demo_host content = \<lparr>rh_hostname = ''evil.org'', rh_ipaddr = ''10.0.0.1'', rh_port = 1000, rh_equiv_exists = False, rh_equiv = None,
     rh_shosts_equiv_exists = False, rh_shosts_equiv = None, rh_home = Some \<lparr>st_uid = 7, st_mode = 0x1ED\<rparr>,
     rh_user_files = [(None, None), (Some \<lparr>st_uid = 7, st_mode = 0x1A4\<rparr>, Some content)]\<rparr>"

lemma demo_plain:
  "plain_word ''EVIL.org''" "plain_word ''bob''" "take 7 (rhosts_text ''EVIL.org'' ''bob'') \<noteq> ''NO_PLUS''"
  by (simp_all add: plain_word_def is_space_def control_char_def rhosts_text_def)

lemma demo_casefold: "casefold_equal ''EVIL.org'' ''evil.org''"
proof -
  have "upcase (CHR ''E'') = upcase (CHR ''e'')" "upcase (CHR ''V'') = upcase (CHR ''v'')" "upcase (CHR ''I'') = upcase (CHR ''i'')"
    "upcase (CHR ''L'') = upcase (CHR ''l'')" by (simp_all add: upcase_def char_of_def bit_iff_odd)
  then show ?thesis by simp
qed

lemma demo_check:
  "check_rhosts_file None \<lparr>deny_shosts = [], allow_shosts = []\<rparr> (Some (rhosts_text ''EVIL.org'' ''bob'')) ''evil.org'' ''10.0.0.1'' ''bob'' ''bob''"
  unfolding check_plain [OF demo_plain] by (simp add: host_matches_def user_matches_def perm_denied_def demo_casefold del: casefold_equal.simps)

lemma demo_unsafe: "\<not> unsafe 7 \<lparr>st_uid = 7, st_mode = 0x1A4\<rparr> 0x12" "\<not> unsafe 7 \<lparr>st_uid = 7, st_mode = 0x1ED\<rparr> 0x12"
  by (simp_all add: unsafe_def)

lemma demo_auth_rhosts:
  "auth_rhosts None \<lparr>deny_shosts = [], allow_shosts = []\<rparr> 0x12 (demo_host (rhosts_text ''EVIL.org'' ''bob'')) \<lparr>pw_name = ''bob'', pw_uid = 7\<rparr>
     ''bob'' False False True"
proof -
  have "\<not> check_rhosts_file None opt None a b c d" for opt a b c d by (simp add: check_rhosts_file_def)
  then show ?thesis using demo_check demo_unsafe by (simp add: auth_rhosts_def demo_host_def user_file_grants_def)
qed

theorem auth_rhosts_grants_witness:
  "\<exists>line user. line \<in> set (file_lines 1023 (rhosts_text ''EVIL.org'' ''bob'')) \<and> names ''bob'' line ''EVIL.org'' user \<and>
     user_matches None ''bob'' user"
proof -
  let ?t = "rhosts_text ''EVIL.org'' ''bob''"
  from auth_rhosts_grants [OF demo_auth_rhosts] obtain content line host user where
    c: "counts 0x12 (demo_host ?t) \<lparr>pw_name = ''bob'', pw_uid = 7\<rparr> False False True content"
    and l: "line \<in> set (file_lines 1023 content)" "names ''bob'' line host user" "user_matches None ''bob'' user" by auto
  from c have "content = ?t" by (simp add: counts_def demo_host_def)
  with l have m: "line \<in> set (file_lines 1023 ?t)" "line = ?t" by (simp_all only: entry_plain(7) [OF demo_plain(1,2)] list.set singleton_iff)
  have "words (entry_text ?t) = [''EVIL.org'', ''bob'']" by (simp only: entry_text_def entry_plain [OF demo_plain(1,2)])
  with l(2) m have "host = ''EVIL.org''" by (auto simp: names_def sign_def)
  with l m show ?thesis by blast
qed

text \<open>C39: The list of denied hosts does not hold up against spelling: a user's file that writes a denied host's name with other
  capitals is not matched by the pattern that denies the host, but still grants access to that host.\<close>

theorem deny_shosts_is_case_sensitive:
  assumes "plain_word host" and "plain_word user" and "plain_word hostname"
    and "take 7 (rhosts_text host user) \<noteq> ''NO_PLUS''" and "take 7 (rhosts_text hostname user) \<noteq> ''NO_PLUS''"
    and "casefold_equal host hostname" and "host \<noteq> hostname" and "list_all (\<lambda>c. c \<noteq> CHR ''*'' \<and> c \<noteq> CHR ''?'') hostname"
  shows "check_rhosts_file None \<lparr>deny_shosts = [hostname], allow_shosts = []\<rparr> (Some (rhosts_text host user)) hostname ipaddr user server_user \<and>
    \<not> check_rhosts_file None \<lparr>deny_shosts = [hostname], allow_shosts = []\<rparr> (Some (rhosts_text hostname user)) hostname ipaddr user server_user"
proof -
  have at: "hd host \<noteq> CHR ''@''" "hd user \<noteq> CHR ''@''" "host \<noteq> []" "user \<noteq> []" using assms(1,2) by (auto simp: plain_word_def)
  have "host_matches None hostname ipaddr host" "user_matches None user user" "\<And>h. user_matches None h h"
    using assms(6) by (simp_all add: host_matches_def user_matches_def)
  moreover have "\<not> perm_denied \<lparr>deny_shosts = [hostname], allow_shosts = []\<rparr> host"
    using assms(7) by (simp add: perm_denied_def match_literal [OF assms(8)])
  moreover have "perm_denied \<lparr>deny_shosts = [hostname], allow_shosts = []\<rparr> hostname"
    by (simp add: perm_denied_def match_literal [OF assms(8)])
  ultimately show ?thesis by (simp add: check_plain [OF assms(1,2,4)] check_plain [OF assms(3,2,5)])
qed

theorem deny_shosts_is_case_sensitive_witness:
  "check_rhosts_file None \<lparr>deny_shosts = [''evil.org''], allow_shosts = []\<rparr> (Some (rhosts_text ''EVIL.org'' ''bob'')) ''evil.org'' ''10.0.0.1'' ''bob'' ''bob''"
proof -
  have "plain_word ''evil.org''" "take 7 (rhosts_text ''evil.org'' ''bob'') \<noteq> ''NO_PLUS''"
    by (simp_all add: plain_word_def is_space_def control_char_def rhosts_text_def)
  with deny_shosts_is_case_sensitive [OF demo_plain(1,2) _ demo_plain(3) _ demo_casefold] show ?thesis by simp
qed

text \<open>With RSA host authentication, the host must also prove its key: whoever is accepted was granted access by the files, the
  key is in the system's or the user's list of known hosts under the host's name, and the host answered the challenge for that key.\<close>

theorem auth_rhosts_rsa_needs_host_key:
  assumes "auth_rhosts_rsa innetgr options home_mask h pw client_user ignore_rhosts ignore_root_rhosts strict_modes known rnd sid client bits e n state = Inr (True, state')"
  shows "auth_rhosts innetgr options home_mask h pw client_user ignore_rhosts ignore_root_rhosts strict_modes \<and>
    (\<exists>content. content \<in> {fst known, snd known} \<and> content \<noteq> None \<and>
      (bits, e, n) \<in> set (keys_for (rh_hostname h) (file_lines 16383 (the content)))) \<and>
    auth_rsa_challenge_dialog rnd sid client state bits e n = Inr (True, state')"
proof -
  have ok: "check_host_in_hostfile f host bits e n = HOST_OK \<Longrightarrow> f \<noteq> None \<and> (bits, e, n) \<in> set (keys_for host (file_lines 16383 (the f)))" for f host
    by (auto simp: check_host_in_hostfile_def check_lines_keys split: option.splits if_splits)
  show ?thesis using assms ok unfolding auth_rhosts_rsa_def by (fastforce split: if_splits)
qed

theorem auth_rhosts_rsa_needs_host_key_witness:
  "\<exists>state'. auth_rhosts_rsa None \<lparr>deny_shosts = [], allow_shosts = []\<rparr> 0x12 (demo_host (rhosts_text ''EVIL.org'' ''bob'')) \<lparr>pw_name = ''bob'', pw_uid = 7\<rparr>
     ''bob'' False False True (Some (host_entry ''evil.org'' 25 37 18938929), None) list_random (replicate 16 7) (key_holder (replicate 16 7) demo_private)
     25 37 18938929 (replicate 32 0) = Inr (True, state') \<and>
     (25, 37, 18938929) \<in> set (keys_for ''evil.org'' (file_lines 16383 (host_entry ''evil.org'' 25 37 18938929)))"
proof -
  have h: "plain_host ''evil.org''" by (simp add: plain_host_def blank_def lower_def)
  have l: "length (host_entry ''evil.org'' 25 37 18938929) \<le> 16383" by (simp add: host_entry_def decimal.simps)
  obtain state' where d: "auth_rsa_challenge_dialog list_random (replicate 16 7) (key_holder (replicate 16 7) demo_private) (replicate 32 0) 25 37 18938929 = Inr (True, state')"
    using key_holder_dialog [OF demo_good _ _ eventually_nonzero_list demo_challenge, of "replicate 16 7"] by auto
  have "check_host_in_hostfile (Some (host_entry ''evil.org'' 25 37 18938929)) ''evil.org'' 25 37 18938929 = HOST_OK"
    by (simp add: check_host_in_hostfile_def file_lines_entry [OF h l] host_line_entry [OF h])
  then have a: "auth_rhosts_rsa None \<lparr>deny_shosts = [], allow_shosts = []\<rparr> 0x12 (demo_host (rhosts_text ''EVIL.org'' ''bob'')) \<lparr>pw_name = ''bob'', pw_uid = 7\<rparr>
     ''bob'' False False True (Some (host_entry ''evil.org'' 25 37 18938929), None) list_random (replicate 16 7) (key_holder (replicate 16 7) demo_private)
     25 37 18938929 (replicate 32 0) = Inr (True, state')"
    using demo_auth_rhosts d by (simp add: auth_rhosts_rsa_def) (simp add: demo_host_def)
  from auth_rhosts_rsa_needs_host_key [OF a] a show ?thesis by (auto simp: demo_host_def)
qed

end
