(* ===== verification/ServerLoop.thy ===== *)
theory ServerLoop
  imports ChannelSystem
begin

text \<open>
  \<^verbatim>\<open>serverloop.c\<close>: the interactive session on the server, between the packets of the client, the
  descriptors of the program, and the channels. Packets are those of theory \<open>Packet\<close>, seen as messages:
  what is sent is appended to the messages of the channel layer, and what is received is an argument. The results of
  \<^verbatim>\<open>select\<close>, of reads and writes, and the arrival of \<^verbatim>\<open>SIGCHLD\<close> during \<^verbatim>\<open>select\<close> are arguments too.
  Debug messages and the release of the terminal are left out.
\<close>

section \<open>State\<close>

abbreviation (input) "SSH_CMSG_WINDOW_SIZE \<equiv> 11 :: nat"
abbreviation (input) "SSH_CMSG_STDIN_DATA \<equiv> 16 :: nat"
abbreviation (input) "SSH_SMSG_STDOUT_DATA \<equiv> 17 :: nat"
abbreviation (input) "SSH_SMSG_STDERR_DATA \<equiv> 18 :: nat"
abbreviation (input) "SSH_CMSG_EOF \<equiv> 19 :: nat"
abbreviation (input) "SSH_SMSG_EXITSTATUS \<equiv> 20 :: nat"
abbreviation (input) "SSH_CMSG_EXIT_CONFIRMATION \<equiv> 33 :: nat"

datatype wait_status = Exited u32 | Signaled u32 | Other_status

datatype signal = SIGHUP | SIGKILL

text \<open>
  \<open>sv_waiting\<close> and \<open>sv_previous\<close> are local variables of the loop. The last six fields are not variables of
  the program but its history: signals sent to the child, bytes from the connection, all bytes
  read from the program's two descriptors, all input accepted for the program, and all that was written to it.
\<close>

record server_state =
  sv_fdin :: int
  sv_fdout :: int
  sv_fderr :: int
  sv_stdin :: "byte list"
  sv_stdout :: "byte list"
  sv_stderr :: "byte list"
  sv_stdin_eof :: bool
  sv_fdout_eof :: bool
  sv_fderr_eof :: bool
  sv_stdin_bytes :: nat
  sv_stdout_bytes :: nat
  sv_stderr_bytes :: nat
  sv_fdout_bytes :: nat
  sv_child :: "wait_status option"
  sv_just_terminated :: bool
  sv_idle_last :: int
  sv_waiting :: bool
  sv_previous :: nat
  sv_channels :: channel_state
  sv_signals :: "signal list"
  sv_incoming :: "byte list"
  sv_read_out :: "byte list"
  sv_read_err :: "byte list"
  sv_got :: "byte list"
  sv_written :: "byte list"

record server_config =
  sc_connection_in :: int
  sc_connection_out :: int
  sc_no_port_forwarding :: bool
  sc_idle_timeout :: int
  sc_connect :: "byte list \<Rightarrow> u32 \<Rightarrow> int option"

text \<open>
  What one round of the loop meets: the packets that are buffered, what \<^verbatim>\<open>packet_not_very_much_data_to_write\<close>
  and \<^verbatim>\<open>packet_have_data_to_write\<close> answer after the messages sent so far, the return value
  of \<^verbatim>\<open>select\<close> and its masks, the time after it, and the child's status when it ends during \<^verbatim>\<open>select\<close> or
  during the five seconds after \<^verbatim>\<open>SIGHUP\<close>.
\<close>

record loop_env =
  le_packets :: "(nat \<times> byte list) list"
  le_room :: "message list \<Rightarrow> bool"
  le_pending :: "message list \<Rightarrow> bool"
  le_ret :: int
  le_os :: select_env
  le_now :: int
  le_child :: "wait_status option"
  le_dies :: "wait_status option"

definition sv_send :: "nat \<Rightarrow> field list \<Rightarrow> server_state \<Rightarrow> server_state" where
  "sv_send t fs s = s\<lparr>sv_channels := send t fs (sv_channels s)\<rparr>"

definition sv_event :: "io_event \<Rightarrow> server_state \<Rightarrow> server_state" where
  "sv_event e s = s\<lparr>sv_channels := event e (sv_channels s)\<rparr>"

abbreviation sv_sent :: "server_state \<Rightarrow> message list" where
  "sv_sent s \<equiv> c_sent (sv_channels s)"

section \<open>Packets from the client\<close>

definition channel_handler :: "(channel_state \<Rightarrow> byte list \<Rightarrow> (byte list \<times> channel_state) res) \<Rightarrow> byte list \<Rightarrow> server_state \<Rightarrow> server_state res" where
  "channel_handler f q s = rbind (f (sv_channels s) q) (\<lambda>(q, ch). Inr (s\<lparr>sv_channels := ch\<rparr>))"

definition process_packet :: "server_config \<Rightarrow> nat \<times> byte list \<Rightarrow> server_state \<Rightarrow> server_state res" where
  "process_packet cfg p s =
     (case p of (t, q) \<Rightarrow>
        if t = SSH_CMSG_STDIN_DATA then
          (if sv_fdin s = -1 then Inr s
           else rbind (bytes_get_string q) (\<lambda>(data, q). Inr (s\<lparr>sv_stdin := sv_stdin s @ data, sv_got := sv_got s @ data\<rparr>)))
        else if t = SSH_CMSG_EOF then Inr (s\<lparr>sv_stdin_eof := True\<rparr>)
        else if t = SSH_CMSG_WINDOW_SIZE then
          rbind (bytes_get_int q) (\<lambda>(row, q). rbind (bytes_get_int q) (\<lambda>(col, q).
          rbind (bytes_get_int q) (\<lambda>(xpixel, q). rbind (bytes_get_int q) (\<lambda>(ypixel, q). Inr s))))
        else if t = SSH_MSG_PORT_OPEN then
          (if sc_no_port_forwarding cfg
           then rbind (bytes_get_int q) (\<lambda>(remote_channel, q). Inr (sv_send SSH_MSG_CHANNEL_OPEN_FAILURE [F_int remote_channel] s))
           else channel_handler (\<lambda>ch q. rbind (channel_input_port_open (sc_connect cfg) ch q) (\<lambda>(tried, q, ch). Inr (q, ch))) q s)
        else if t = SSH_MSG_CHANNEL_OPEN_CONFIRMATION then channel_handler channel_input_open_confirmation q s
        else if t = SSH_MSG_CHANNEL_OPEN_FAILURE then channel_handler channel_input_open_failure q s
        else if t = SSH_MSG_CHANNEL_DATA then channel_handler channel_input_data q s
        else if t = SSH_MSG_CHANNEL_INPUT_EOF then channel_handler channel_input_close q s
        else if t = SSH_MSG_CHANNEL_OUTPUT_CLOSED then channel_handler channel_input_close_confirmation q s
        else Inl (Disconnect ''Protocol error during session''))"

fun process_buffered_input_packets :: "server_config \<Rightarrow> (nat \<times> byte list) list \<Rightarrow> server_state \<Rightarrow> server_state res" where
  "process_buffered_input_packets cfg [] s = Inr s"
| "process_buffered_input_packets cfg (p # ps) s = rbind (process_packet cfg p s) (process_buffered_input_packets cfg ps)"

section \<open>Data for the client\<close>

definition packet_len :: "channel_state \<Rightarrow> nat \<Rightarrow> nat" where
  "packet_len ch n = (if c_interactive ch then min n 512 else min (min n 32768) (c_max_packet ch div 2))"

text \<open>The loops would send empty packets if \<^verbatim>\<open>packet_max_size\<close> were below 2.\<close>

function make_packets_from_stderr_data :: "(message list \<Rightarrow> bool) \<Rightarrow> server_state \<Rightarrow> server_state res" where
  "make_packets_from_stderr_data can_send s =
     (if sv_stderr s = [] \<or> \<not> can_send (sv_sent s) then Inr s
      else let len = packet_len (sv_channels s) (length (sv_stderr s))
           in if len = 0 then Inl (Diverges ''packet_max_size'')
              else make_packets_from_stderr_data can_send
                     ((sv_send SSH_SMSG_STDERR_DATA [F_string (take len (sv_stderr s))] s)
                        \<lparr>sv_stderr := drop len (sv_stderr s), sv_stderr_bytes := sv_stderr_bytes s + len\<rparr>))"
  by pat_completeness auto
termination
  by (relation "measure (\<lambda>(can_send, s). length (sv_stderr s))") auto

function make_packets_from_stdout_data :: "(message list \<Rightarrow> bool) \<Rightarrow> server_state \<Rightarrow> server_state res" where
  "make_packets_from_stdout_data can_send s =
     (if sv_stdout s = [] \<or> \<not> can_send (sv_sent s) then Inr s
      else let len = packet_len (sv_channels s) (length (sv_stdout s))
           in if len = 0 then Inl (Diverges ''packet_max_size'')
              else make_packets_from_stdout_data can_send
                     ((sv_send SSH_SMSG_STDOUT_DATA [F_string (take len (sv_stdout s))] s)
                        \<lparr>sv_stdout := drop len (sv_stdout s), sv_stdout_bytes := sv_stdout_bytes s + len\<rparr>))"
  by pat_completeness auto
termination
  by (relation "measure (\<lambda>(can_send, s). length (sv_stdout s))") auto

declare make_packets_from_stderr_data.simps [simp del] make_packets_from_stdout_data.simps [simp del]

section \<open>Waiting\<close>

definition read_interest :: "server_config \<Rightarrow> loop_env \<Rightarrow> server_state \<Rightarrow> int list \<Rightarrow> int list" where
  "read_interest cfg env s channel_fds =
     (if length (sv_stdin s) < 4096 \<and> channel_not_very_much_buffered_data (sv_channels s) then [sc_connection_in cfg] else []) @
     (if le_room env (sv_sent s)
      then (if sv_fdout_eof s then [] else [sv_fdout s]) @ (if sv_fderr_eof s then [] else [sv_fderr s]) else []) @ channel_fds"

definition write_interest :: "server_config \<Rightarrow> loop_env \<Rightarrow> server_state \<Rightarrow> int list \<Rightarrow> int list" where
  "write_interest cfg env s channel_fds =
     channel_fds @ (if le_pending env (sv_sent s) then [sc_connection_out cfg] else []) @
     (if sv_fdin s \<noteq> -1 \<and> sv_stdin s \<noteq> [] then [sv_fdin s] else [])"

text \<open>The timeout of \<^verbatim>\<open>select\<close> in seconds and microseconds, \<open>None\<close> to wait for ever.\<close>

definition select_timeout :: "server_config \<Rightarrow> int \<Rightarrow> int \<Rightarrow> server_state \<Rightarrow> (int \<times> int) option" where
  "select_timeout cfg now max_ms s =
     (let max_ms = (if sv_child s \<noteq> None \<and> max_ms = 0 then 100 else max_ms)
      in if sc_idle_timeout cfg \<noteq> 0 \<and> (max_ms = 0 \<or> max_ms div 1000 > sc_idle_timeout cfg) then
           let diff = now - sv_idle_last s
           in Some (if sc_idle_timeout cfg > diff then sc_idle_timeout cfg - diff else 1, 0)
         else if max_ms = 0 then None else Some (max_ms div 1000, 1000 * (max_ms mod 1000)))"

definition shutdown_descriptors :: "server_state \<Rightarrow> server_state" where
  "shutdown_descriptors s =
     (let s = (if sv_fdout s \<noteq> -1 \<and> sv_fdout_eof s then (sv_event (Close (sv_fdout s)) s)\<lparr>sv_fdout := -1\<rparr> else s);
          s = (if sv_fderr s \<noteq> -1 \<and> sv_fderr_eof s then (sv_event (Close (sv_fderr s)) s)\<lparr>sv_fderr := -1\<rparr> else s)
      in if sv_fdin s \<noteq> -1 then (sv_event (Close (sv_fdin s)) s)\<lparr>sv_fdin := -1\<rparr> else s)"

definition check_idle :: "server_config \<Rightarrow> loop_env \<Rightarrow> server_state \<Rightarrow> server_state" where
  "check_idle cfg env s =
     (if le_ret env = 0 then
        (if sc_idle_timeout cfg \<noteq> 0 \<and> sv_child s = None \<and> le_now env - sv_idle_last s > sc_idle_timeout cfg then
           (case le_dies env of
              None \<Rightarrow> s\<lparr>sv_signals := sv_signals s @ [SIGHUP, SIGKILL]\<rparr>
            | Some w \<Rightarrow> s\<lparr>sv_signals := sv_signals s @ [SIGHUP], sv_child := Some w, sv_just_terminated := True\<rparr>)
         else s)
      else s\<lparr>sv_idle_last := le_now env\<rparr>)"

text \<open>\<^verbatim>\<open>select\<close> leaves in its masks only descriptors that were there before, and none after an error.\<close>

definition wait_until_can_do_something :: "server_config \<Rightarrow> loop_env \<Rightarrow> server_state \<Rightarrow> (select_env \<times> server_state) res" where
  "wait_until_can_do_something cfg env s =
     rbind (channel_prepare_select (sv_channels s)) (\<lambda>(readset, writeset, ch).
     let rd = read_interest cfg env s readset; wr = write_interest cfg env (s\<lparr>sv_channels := ch\<rparr>) writeset;
         s = s\<lparr>sv_channels := ch, sv_just_terminated := False\<rparr>;
         s = (case le_child env of None \<Rightarrow> s | Some w \<Rightarrow> s\<lparr>sv_child := Some w, sv_just_terminated := True\<rparr>);
         ok = (\<lambda>fds ready fd. 0 \<le> le_ret env \<and> fd \<in> set fds \<and> ready fd);
         os = (le_os env)\<lparr>os_readable := ok rd (os_readable (le_os env)), os_writable := ok wr (os_writable (le_os env))\<rparr>
     in Inr (os, if le_ret env \<le> 0 \<and> sv_child s \<noteq> None \<and> \<not> sv_just_terminated s then shutdown_descriptors s
                 else check_idle cfg env s))"

section \<open>Input and output\<close>

definition read_connection :: "server_config \<Rightarrow> select_env \<Rightarrow> server_state \<Rightarrow> server_state res" where
  "read_connection cfg os s =
     (if \<not> os_readable os (sc_connection_in cfg) then Inr s
      else case os_read os (sc_connection_in cfg) of
             Data bs \<Rightarrow> if bs = [] then Inl (Fatal ''Connection closed by remote host.'') else Inr (s\<lparr>sv_incoming := sv_incoming s @ bs\<rparr>)
           | Read_again \<Rightarrow> Inr s
           | Read_failed \<Rightarrow> Inl (Fatal ''Read error from remote host''))"

definition read_stdout :: "select_env \<Rightarrow> server_state \<Rightarrow> server_state" where
  "read_stdout os s =
     (if sv_fdout_eof s \<or> \<not> os_readable os (sv_fdout s) then s
      else case os_read os (sv_fdout s) of
             Data bs \<Rightarrow> if bs = [] then s\<lparr>sv_fdout_eof := True\<rparr>
               else s\<lparr>sv_stdout := sv_stdout s @ bs, sv_fdout_bytes := sv_fdout_bytes s + length bs, sv_read_out := sv_read_out s @ bs\<rparr>
           | _ \<Rightarrow> s\<lparr>sv_fdout_eof := True\<rparr>)"

definition read_stderr :: "select_env \<Rightarrow> server_state \<Rightarrow> server_state" where
  "read_stderr os s =
     (if sv_fderr_eof s \<or> \<not> os_readable os (sv_fderr s) then s
      else case os_read os (sv_fderr s) of
             Data bs \<Rightarrow> if bs = [] then s\<lparr>sv_fderr_eof := True\<rparr>
               else s\<lparr>sv_stderr := sv_stderr s @ bs, sv_read_err := sv_read_err s @ bs\<rparr>
           | _ \<Rightarrow> s\<lparr>sv_fderr_eof := True\<rparr>)"

definition process_input :: "server_config \<Rightarrow> select_env \<Rightarrow> server_state \<Rightarrow> server_state res" where
  "process_input cfg os s = rbind (read_connection cfg os s) (\<lambda>s. Inr (read_stderr os (read_stdout os s)))"

text \<open>A write of no bytes is taken as an error.\<close>

definition process_output :: "select_env \<Rightarrow> server_state \<Rightarrow> server_state" where
  "process_output os s =
     (if sv_fdin s \<noteq> -1 \<and> os_writable os (sv_fdin s) then
        (case os_write os (sv_fdin s) of
           Written n \<Rightarrow>
             if n = 0 then (sv_event (if sv_fdin s = sv_fdout s then Shutdown (sv_fdin s) 1 else Close (sv_fdin s)) s)\<lparr>sv_fdin := -1\<rparr>
             else s\<lparr>sv_stdin := drop n (sv_stdin s), sv_stdin_bytes := sv_stdin_bytes s + n, sv_written := sv_written s @ take n (sv_stdin s)\<rparr>
         | Write_again \<Rightarrow> s
         | Write_failed \<Rightarrow> (sv_event (if sv_fdin s = sv_fdout s then Shutdown (sv_fdin s) 1 else Close (sv_fdin s)) s)\<lparr>sv_fdin := -1\<rparr>)
      else s)"

section \<open>The loop\<close>

definition close_stdin :: "server_state \<Rightarrow> server_state" where
  "close_stdin s =
     (if sv_stdin_eof s \<and> sv_fdin s \<noteq> -1 \<and> sv_stdin s = []
      then (sv_event (if sv_fdin s = sv_fdout s then Shutdown (sv_fdin s) 1 else Close (sv_fdin s)) s)\<lparr>sv_fdin := -1\<rparr> else s)"

text \<open>Whether to wait for more output before sending the little there is.\<close>

definition hold_back :: "server_state \<Rightarrow> bool" where
  "hold_back s \<longleftrightarrow> sv_stdout s \<noteq> [] \<and> length (sv_stdout s) < 512 \<and> length (sv_stdout s) \<noteq> sv_previous s"

definition waiting_message :: "channel_state \<Rightarrow> byte list" where
  "waiting_message ch = ascii ''Waiting for forwarded connections to terminate...'' @ [13, 10] @ channel_open_message ch"

definition make_output :: "server_config \<Rightarrow> loop_env \<Rightarrow> server_state \<Rightarrow> server_state res" where
  "make_output cfg env s =
     rbind (make_packets_from_stderr_data (le_room env) (close_stdin s)) (\<lambda>s.
     rbind (if hold_back s then Inr s else make_packets_from_stdout_data (le_room env) s) (\<lambda>s.
     rbind (if le_room env (sv_sent s) then channel_output_poll (le_room env) (sv_channels s) else Inr (sv_channels s)) (\<lambda>ch.
     Inr (s\<lparr>sv_previous := length (sv_stdout s), sv_channels := ch\<rparr>))))"

definition finished :: "loop_env \<Rightarrow> server_state \<Rightarrow> bool" where
  "finished env s \<longleftrightarrow> sv_fdout_eof s \<and> sv_fderr_eof s \<and> \<not> le_pending env (sv_sent s) \<and> sv_stdout s = [] \<and> sv_stderr s = []"

definition show_waiting :: "loop_env \<Rightarrow> server_state \<Rightarrow> server_state" where
  "show_waiting env s =
     (if finished env s \<and> \<not> sv_waiting s \<and> \<not> sv_just_terminated s
      then s\<lparr>sv_waiting := True, sv_stderr := sv_stderr s @ waiting_message (sv_channels s)\<rparr> else s)"

definition transfer :: "server_config \<Rightarrow> loop_env \<Rightarrow> server_state \<Rightarrow> server_state res" where
  "transfer cfg env s =
     rbind (wait_until_can_do_something cfg env s) (\<lambda>(os, s).
     rbind (channel_after_select os (sv_channels s)) (\<lambda>ch.
     rbind (process_input cfg os (s\<lparr>sv_channels := ch\<rparr>)) (\<lambda>s.
     Inr (process_output os s))))"

definition server_round :: "server_config \<Rightarrow> loop_env \<Rightarrow> server_state \<Rightarrow> (bool \<times> server_state) res" where
  "server_round cfg env s =
     rbind (process_buffered_input_packets cfg (le_packets env) s) (\<lambda>s.
     rbind (make_output cfg env s) (\<lambda>s.
     if finished env s \<and> \<not> channel_still_open (sv_channels s) then Inr (True, s)
     else rbind (transfer cfg env (show_waiting env s)) (\<lambda>s. Inr (False, s))))"

fun server_rounds :: "server_config \<Rightarrow> loop_env list \<Rightarrow> server_state \<Rightarrow> (bool \<times> server_state) res" where
  "server_rounds cfg [] s = Inr (False, s)"
| "server_rounds cfg (env # envs) s =
     rbind (server_round cfg env s) (\<lambda>(quit, s). if quit then Inr (True, s) else server_rounds cfg envs s)"

definition server_start :: "int \<Rightarrow> int \<Rightarrow> int \<Rightarrow> int \<Rightarrow> channel_state \<Rightarrow> server_state" where
  "server_start fdin fdout fderr now ch =
     \<lparr>sv_fdin = fdin, sv_fdout = fdout, sv_fderr = fderr, sv_stdin = [], sv_stdout = [], sv_stderr = [], sv_stdin_eof = False,
      sv_fdout_eof = False, sv_fderr_eof = (fderr = -1), sv_stdin_bytes = 0, sv_stdout_bytes = 0, sv_stderr_bytes = 0,
      sv_fdout_bytes = 0, sv_child = None, sv_just_terminated = False, sv_idle_last = now, sv_waiting = False, sv_previous = 0,
      sv_channels = ch, sv_signals = [], sv_incoming = [], sv_read_out = [], sv_read_err = [], sv_got = [], sv_written = []\<rparr>"

section \<open>The end\<close>

definition drain_output :: "server_state \<Rightarrow> server_state" where
  "drain_output s =
     (let s = (if sv_stdout s = [] then s
               else (sv_send SSH_SMSG_STDOUT_DATA [F_string (sv_stdout s)] s)\<lparr>sv_stdout_bytes := sv_stdout_bytes s + length (sv_stdout s)\<rparr>)
      in if sv_stderr s = [] then s
         else (sv_send SSH_SMSG_STDERR_DATA [F_string (sv_stderr s)] s)\<lparr>sv_stderr_bytes := sv_stderr_bytes s + length (sv_stderr s)\<rparr>)"

definition close_descriptors :: "server_state \<Rightarrow> server_state" where
  "close_descriptors s =
     (let s' = (if sv_fdout s \<noteq> -1 then sv_event (Close (sv_fdout s)) s else s);
          s' = (if sv_fdin s \<noteq> -1 \<and> sv_fdin s \<noteq> sv_fdout s then sv_event (Close (sv_fdin s)) s' else s')
      in if sv_fderr s \<noteq> -1 then sv_event (Close (sv_fderr s)) s' else s')"

text \<open>\<open>waited\<close> is the result of \<^verbatim>\<open>wait\<close>, \<open>types\<close> are the packets that come after the exit status.\<close>

definition send_exit_status :: "wait_status option \<Rightarrow> nat list \<Rightarrow> server_state \<Rightarrow> server_state res" where
  "send_exit_status waited types s =
     (case (case sv_child s of None \<Rightarrow> waited | Some w \<Rightarrow> Some w) of
        None \<Rightarrow> Inl (Disconnect ''wait'')
      | Some (Signaled n) \<Rightarrow> Inl (Disconnect ''Command terminated on signal'')
      | Some Other_status \<Rightarrow> Inl (Disconnect ''wait returned status'')
      | Some (Exited n) \<Rightarrow>
          if SSH_CMSG_EXIT_CONFIRMATION \<in> set types then Inr (sv_send SSH_SMSG_EXITSTATUS [F_int n] s)
          else Inl (Diverges ''packet_read''))"

definition server_finish :: "wait_status option \<Rightarrow> nat list \<Rightarrow> server_state \<Rightarrow> server_state res" where
  "server_finish waited types s =
     (let s = close_descriptors ((drain_output s)\<lparr>sv_stdin := [], sv_stdout := [], sv_stderr := []\<rparr>)
      in rbind (channel_stop_listening (sv_channels s)) (\<lambda>ch. send_exit_status waited types (s\<lparr>sv_channels := ch\<rparr>)))"

text \<open>\<open>None\<close> while the rounds have not come to an end.\<close>

definition server_loop :: "server_config \<Rightarrow> int \<Rightarrow> int \<Rightarrow> int \<Rightarrow> int \<Rightarrow> channel_state \<Rightarrow> loop_env list \<Rightarrow> wait_status option \<Rightarrow> nat list \<Rightarrow>
    server_state option res" where
  "server_loop cfg fdin fdout fderr now ch envs waited types =
     rbind (server_rounds cfg envs (server_start fdin fdout fderr now ch)) (\<lambda>(quit, s).
     if quit then rbind (server_finish waited types s) (\<lambda>s. Inr (Some s)) else Inr None)"

end
