(* ===== verification/ServerRun.thy ===== *)
theory ServerRun
  imports ServerLoop
begin

text \<open>
  What a session of the server loop guarantees: the bytes of the program's two output streams reach the
  client whole and in order, and before the exit status; the bytes of the client reach the program whole and in
  order.
\<close>

section \<open>The streams\<close>

definition data_of :: "nat \<Rightarrow> message list \<Rightarrow> byte list" where
  "data_of t ms = concat (map (\<lambda>(u, fs). case fs of [F_string d] \<Rightarrow> if u = t then d else [] | _ \<Rightarrow> []) ms)"

lemma data_of_simps [simp]:
  "data_of t [] = []"
  "data_of t (ms @ ms') = data_of t ms @ data_of t ms'"
  "data_of t ((u, [F_string d]) # ms) = (if u = t then d else []) @ data_of t ms"
  "data_of t ((u, [F_int n]) # ms) = data_of t ms"
  by (simp_all add: data_of_def)

text \<open>The messages of the session's streams and its end, and all others; data messages are of moderate size.\<close>

definition aside :: "message \<Rightarrow> bool" where
  "aside m \<longleftrightarrow> fst m \<notin> {SSH_SMSG_STDOUT_DATA, SSH_SMSG_STDERR_DATA, SSH_SMSG_EXITSTATUS}"

definition session_message :: "message \<Rightarrow> bool" where
  "session_message m \<longleftrightarrow> aside m \<or>
     fst m \<in> {SSH_SMSG_STDOUT_DATA, SSH_SMSG_STDERR_DATA} \<and> (\<exists>d. snd m = [F_string d] \<and> length d \<le> 32768)"

lemma aside_data: "list_all aside ms \<Longrightarrow> t = 17 \<or> t = 18 \<Longrightarrow> data_of t ms = []"
  by (induction ms) (auto simp: data_of_def aside_def split: list.splits field.splits)

lemma aside_session: "list_all aside ms \<Longrightarrow> list_all session_message ms"
  by (auto simp: list_all_iff session_message_def)

lemma well_typed_aside: "list_all well_typed ms \<Longrightarrow> list_all aside ms"
  by (auto simp: list_all_iff well_typed_def message_kinds_def aside_def)

text \<open>Messages were added, but none of the streams.\<close>

definition adds_aside :: "message list \<Rightarrow> message list \<Rightarrow> bool" where
  "adds_aside ms ms' \<longleftrightarrow> (\<exists>new. ms' = ms @ new \<and> list_all aside new)"

lemma adds_aside_refl [simp]: "adds_aside ms ms"
  by (simp add: adds_aside_def)

lemma adds_aside_trans: "adds_aside a b \<Longrightarrow> adds_aside b c \<Longrightarrow> adds_aside a c"
  by (auto simp: adds_aside_def)

lemma sends_aside: "sends s s' \<Longrightarrow> adds_aside (c_sent s) (c_sent s')"
  using well_typed_aside by (auto simp: sends_def adds_aside_def)

lemma handler_sends:
  "channel_prepare_select ch = Inr (rd, wr, ch') \<Longrightarrow> sends ch ch'"
  "channel_after_select os ch = Inr ch' \<Longrightarrow> sends ch ch'"
  "channel_output_poll r ch = Inr ch' \<Longrightarrow> sends ch ch'"
  "channel_stop_listening ch = Inr ch' \<Longrightarrow> sends ch ch'"
  by (auto simp: channel_prepare_select_def channel_after_select_def channel_output_poll_def channel_stop_listening_def
      dest: prepare_loop_sends after_loop_sends output_loop_sends stop_loop_sends)

text \<open>
  The invariant of a session that started with the messages \<open>old\<close>: everything read from the program is either sent or still
  buffered, and everything accepted from the client is either written or still buffered; the notice about open connections
  comes after all of stderr.
\<close>

definition streams :: "message list \<Rightarrow> server_state \<Rightarrow> bool" where
  "streams old s \<longleftrightarrow>
     (\<exists>ms. sv_sent s = old @ ms \<and> list_all session_message ms \<and> data_of SSH_SMSG_STDOUT_DATA ms @ sv_stdout s = sv_read_out s \<and>
        (\<exists>notice. data_of SSH_SMSG_STDERR_DATA ms @ sv_stderr s = sv_read_err s @ notice \<and> (notice \<noteq> [] \<longrightarrow> sv_fderr_eof s))) \<and>
     sv_written s @ sv_stdin s = sv_got s"

text \<open>Changes that leave the streams alone.\<close>

definition quiet :: "server_state \<Rightarrow> server_state \<Rightarrow> bool" where
  "quiet s s' \<longleftrightarrow> adds_aside (sv_sent s) (sv_sent s') \<and>
     sv_stdout s' = sv_stdout s \<and> sv_stderr s' = sv_stderr s \<and> sv_read_out s' = sv_read_out s \<and> sv_read_err s' = sv_read_err s \<and>
     sv_stdin s' = sv_stdin s \<and> sv_written s' = sv_written s \<and> sv_got s' = sv_got s \<and> (sv_fderr_eof s \<longrightarrow> sv_fderr_eof s')"

lemma streams_quiet:
  assumes "streams old s" "quiet s s'" shows "streams old s'"
proof -
  from assms(1) obtain ms notice where ms: "sv_sent s = old @ ms" "list_all session_message ms"
    "data_of SSH_SMSG_STDOUT_DATA ms @ sv_stdout s = sv_read_out s" "data_of SSH_SMSG_STDERR_DATA ms @ sv_stderr s = sv_read_err s @ notice"
    "notice \<noteq> [] \<longrightarrow> sv_fderr_eof s" unfolding streams_def by blast
  from assms(2) obtain new where new: "sv_sent s' = sv_sent s @ new" "list_all aside new" by (auto simp: quiet_def adds_aside_def)
  have "sv_sent s' = old @ (ms @ new)" "list_all session_message (ms @ new)" using ms new aside_session [OF new(2)] by auto
  moreover have "data_of SSH_SMSG_STDOUT_DATA (ms @ new) @ sv_stdout s' = sv_read_out s'"
    "data_of SSH_SMSG_STDERR_DATA (ms @ new) @ sv_stderr s' = sv_read_err s' @ notice" "notice \<noteq> [] \<longrightarrow> sv_fderr_eof s'"
    using ms assms(2) aside_data [OF new(2)] by (auto simp: quiet_def)
  moreover have "sv_written s' @ sv_stdin s' = sv_got s'" using assms by (simp add: streams_def quiet_def)
  ultimately show ?thesis unfolding streams_def by blast
qed

lemma quiet_refl [simp]: "quiet s s"
  by (simp add: quiet_def)

lemma quiet_trans: "quiet s t \<Longrightarrow> quiet t u \<Longrightarrow> quiet s u"
  using adds_aside_trans by (auto simp: quiet_def)

lemma quiet_updates [simp]:
  "quiet s (t\<lparr>sv_previous := a\<rparr>) = quiet s t" "quiet s (t\<lparr>sv_just_terminated := b\<rparr>) = quiet s t" "quiet s (t\<lparr>sv_child := c\<rparr>) = quiet s t"
  "quiet s (t\<lparr>sv_fdin := i\<rparr>) = quiet s t" "quiet s (t\<lparr>sv_fdout := i\<rparr>) = quiet s t" "quiet s (t\<lparr>sv_fderr := i\<rparr>) = quiet s t"
  "quiet s (t\<lparr>sv_idle_last := i\<rparr>) = quiet s t" "quiet s (t\<lparr>sv_signals := g\<rparr>) = quiet s t" "quiet s (t\<lparr>sv_incoming := bs\<rparr>) = quiet s t"
  "quiet s (t\<lparr>sv_stdin_eof := b\<rparr>) = quiet s t" "quiet s (t\<lparr>sv_fdout_eof := b\<rparr>) = quiet s t" "quiet s (t\<lparr>sv_waiting := b\<rparr>) = quiet s t"
  "quiet s t \<Longrightarrow> quiet s (t\<lparr>sv_fderr_eof := True\<rparr>)" "quiet s (sv_event ev t) = quiet s t"
  "quiet s (t\<lparr>sv_stdin_bytes := n\<rparr>) = quiet s t" "quiet s (t\<lparr>sv_fdout_bytes := n\<rparr>) = quiet s t"
  by (auto simp: quiet_def sv_event_def event_def)

lemma quiet_channels: "sends (sv_channels t) ch \<Longrightarrow> quiet s t \<Longrightarrow> quiet s (t\<lparr>sv_channels := ch\<rparr>)"
  using sends_aside adds_aside_trans by (auto simp: quiet_def)

lemma quiet_handler:
  assumes "channel_handler f q s = Inr s'" "\<And>ch q q' ch'. f ch q = Inr (q', ch') \<Longrightarrow> sends ch ch'" shows "quiet s s'"
  using assms by (auto simp: channel_handler_def rbind_eq_Inr intro: quiet_channels)

lemma quiet_send: "t \<notin> {17, 18, 20} \<Longrightarrow> quiet s (sv_send t [F_int n] s)"
  by (simp add: quiet_def sv_send_def send_def adds_aside_def aside_def)

lemma process_packet_streams: "process_packet cfg p s = Inr s' \<Longrightarrow> streams old s \<Longrightarrow> streams old s'"
proof -
  assume p: "process_packet cfg p s = Inr s'" and s: "streams old s"
  obtain t q where tq: "p = (t, q)" by fastforce
  show ?thesis
  proof (cases "t = SSH_CMSG_STDIN_DATA \<and> sv_fdin s \<noteq> -1")
    case True
    then show ?thesis using p s by (auto simp: process_packet_def tq rbind_eq_Inr streams_def)
  next
    case False
    have "quiet s s'"
      using p False unfolding tq process_packet_def prod.case
      by (auto simp: rbind_eq_Inr split: if_splits elim!: quiet_handler intro!: quiet_send dest: input_sends open_sends)
    then show ?thesis using streams_quiet s by blast
  qed
qed

lemma process_packets_streams: "process_buffered_input_packets cfg ps s = Inr s' \<Longrightarrow> streams old s \<Longrightarrow> streams old s'"
  by (induction ps arbitrary: s) (auto simp: rbind_eq_Inr dest: process_packet_streams)

lemma packet_len_bound: "packet_len ch n \<le> 32768"
  by (auto simp: packet_len_def min_def)

lemma make_stderr_streams: "make_packets_from_stderr_data r s = Inr s' \<Longrightarrow> streams old s \<Longrightarrow> streams old s'"
proof (induction r s rule: make_packets_from_stderr_data.induct)
  case (1 r s)
  let ?len = "packet_len (sv_channels s) (length (sv_stderr s))"
  let ?t = "(sv_send SSH_SMSG_STDERR_DATA [F_string (take ?len (sv_stderr s))] s)
    \<lparr>sv_stderr := drop ?len (sv_stderr s), sv_stderr_bytes := sv_stderr_bytes s + ?len\<rparr>"
  have "session_message (SSH_SMSG_STDERR_DATA, [F_string (take ?len (sv_stderr s))])"
    using packet_len_bound [of "sv_channels s" "length (sv_stderr s)"] by (simp add: session_message_def min.coboundedI2)
  then have "streams old ?t" using 1(3) by (auto simp: streams_def sv_send_def send_def)
  then show ?case using 1 by (auto simp: make_packets_from_stderr_data.simps [of r s] Let_def split: if_splits)
qed

lemma make_stdout_streams: "make_packets_from_stdout_data r s = Inr s' \<Longrightarrow> streams old s \<Longrightarrow> streams old s'"
proof (induction r s rule: make_packets_from_stdout_data.induct)
  case (1 r s)
  let ?len = "packet_len (sv_channels s) (length (sv_stdout s))"
  let ?t = "(sv_send SSH_SMSG_STDOUT_DATA [F_string (take ?len (sv_stdout s))] s)
    \<lparr>sv_stdout := drop ?len (sv_stdout s), sv_stdout_bytes := sv_stdout_bytes s + ?len\<rparr>"
  have "session_message (SSH_SMSG_STDOUT_DATA, [F_string (take ?len (sv_stdout s))])"
    using packet_len_bound [of "sv_channels s" "length (sv_stdout s)"] by (simp add: session_message_def min.coboundedI2)
  then have "streams old ?t" using 1(3) by (auto simp: streams_def sv_send_def send_def)
  then show ?case using 1 by (auto simp: make_packets_from_stdout_data.simps [of r s] Let_def split: if_splits)
qed

lemma quiet_close_stdin: "quiet s (close_stdin s)"
  by (simp add: close_stdin_def)

lemma quiet_shutdown: "quiet s t \<Longrightarrow> quiet s (shutdown_descriptors t)"
  by (simp add: shutdown_descriptors_def Let_def)

lemma quiet_idle: "quiet s t \<Longrightarrow> quiet s (check_idle cfg env t)"
  by (simp add: check_idle_def split: option.split)

lemma quiet_wait:
  assumes "wait_until_can_do_something cfg env s = Inr (os, s')" shows "quiet s s'"
proof -
  from assms obtain rd wr ch where ch: "channel_prepare_select (sv_channels s) = Inr (rd, wr, ch)"
    by (auto simp: wait_until_can_do_something_def rbind_eq_Inr)
  let ?s = "s\<lparr>sv_channels := ch, sv_just_terminated := False\<rparr>"
  let ?t = "case le_child env of None \<Rightarrow> ?s | Some w \<Rightarrow> ?s\<lparr>sv_child := Some w, sv_just_terminated := True\<rparr>"
  have "quiet s (s\<lparr>sv_channels := ch\<rparr>)" by (rule quiet_channels [OF handler_sends(1) [OF ch]]) simp
  then have "quiet s ?t" by (simp split: option.split)
  then show ?thesis using assms ch quiet_shutdown quiet_idle
    by (auto simp: wait_until_can_do_something_def Let_def split: if_splits)
qed

lemma read_streams:
  "streams old s \<Longrightarrow> streams old (read_stdout os s)" "streams old s \<Longrightarrow> streams old (read_stderr os s)"
  by (auto simp: read_stdout_def read_stderr_def streams_def split: read_result.split)

lemma process_input_streams:
  assumes "process_input cfg os s = Inr s'" "streams old s" shows "streams old s'"
proof -
  from assms(1) obtain t where t: "read_connection cfg os s = Inr t" "s' = read_stderr os (read_stdout os t)"
    by (auto simp: process_input_def rbind_eq_Inr)
  have "quiet s t" using t(1) by (auto simp: read_connection_def split: if_splits read_result.splits)
  then show ?thesis using read_streams streams_quiet assms(2) t(2) by blast
qed

lemma process_output_streams: "streams old s \<Longrightarrow> streams old (process_output os s)"
proof -
  assume s: "streams old s"
  have q: "quiet s ((sv_event ev s)\<lparr>sv_fdin := -1\<rparr>)" for ev by simp
  have "(sv_written s @ take n (sv_stdin s)) @ drop n (sv_stdin s) = sv_got s" for n using s by (simp add: streams_def)
  then show ?thesis using s streams_quiet [OF s q]
    by (auto simp: process_output_def streams_def split: write_result.split)
qed

lemma make_output_streams:
  assumes "make_output cfg env s = Inr s'" "streams old s" shows "streams old s'"
proof -
  from assms(1) obtain s1 s2 ch where r:
    "make_packets_from_stderr_data (le_room env) (close_stdin s) = Inr s1"
    "(if hold_back s1 then Inr s1 else make_packets_from_stdout_data (le_room env) s1) = Inr s2"
    "(if le_room env (sv_sent s2) then channel_output_poll (le_room env) (sv_channels s2) else Inr (sv_channels s2)) = Inr ch"
    "s' = s2\<lparr>sv_previous := length (sv_stdout s2), sv_channels := ch\<rparr>"
    unfolding make_output_def rbind_eq_Inr by blast
  have "streams old s1" using make_stderr_streams r(1) streams_quiet quiet_close_stdin assms(2) by blast
  then have "streams old s2" using make_stdout_streams r(2) by (auto split: if_splits)
  moreover have "sends (sv_channels s2) ch" using r(3) handler_sends(3) by (auto split: if_splits)
  then have "quiet s2 s'" unfolding r(4) by (intro quiet_channels) simp_all
  ultimately show ?thesis using streams_quiet by blast
qed

lemma transfer_streams:
  assumes "transfer cfg env s = Inr s'" "streams old s" shows "streams old s'"
proof -
  from assms(1) obtain os s1 ch s2 where w:
    "wait_until_can_do_something cfg env s = Inr (os, s1)" "channel_after_select os (sv_channels s1) = Inr ch"
    "process_input cfg os (s1\<lparr>sv_channels := ch\<rparr>) = Inr s2" "s' = process_output os s2"
    by (auto simp: transfer_def rbind_eq_Inr)
  have "streams old s1" using assms(2) quiet_wait [OF w(1)] streams_quiet by blast
  moreover have "quiet s1 (s1\<lparr>sv_channels := ch\<rparr>)" using handler_sends(2) [OF w(2)] by (intro quiet_channels) simp_all
  ultimately show ?thesis using streams_quiet process_input_streams w(3,4) process_output_streams by blast
qed

lemma server_round_streams:
  assumes "server_round cfg env s = Inr (quit, s')" "streams old s"
  shows "streams old s' \<and> (quit \<longrightarrow> sv_stdout s' = [] \<and> sv_stderr s' = [] \<and> sv_fdout_eof s' \<and> sv_fderr_eof s')"
proof -
  from assms(1) obtain s1 s2 where r: "process_buffered_input_packets cfg (le_packets env) s = Inr s1" "make_output cfg env s1 = Inr s2"
    "(if finished env s2 \<and> \<not> channel_still_open (sv_channels s2) then Inr (True, s2)
      else rbind (transfer cfg env (show_waiting env s2)) (\<lambda>s. Inr (False, s))) = Inr (quit, s')"
    unfolding server_round_def rbind_eq_Inr by blast
  have s2: "streams old s2" using process_packets_streams r(1,2) assms(2) make_output_streams by blast
  then have "streams old (show_waiting env s2)" by (auto simp: show_waiting_def finished_def streams_def)
  then show ?thesis using r(3) s2 transfer_streams by (auto simp: rbind_eq_Inr finished_def split: if_splits)
qed

lemma server_rounds_streams:
  "server_rounds cfg envs s = Inr (quit, s') \<Longrightarrow> streams old s \<Longrightarrow>
   streams old s' \<and> (quit \<longrightarrow> sv_stdout s' = [] \<and> sv_stderr s' = [] \<and> sv_fdout_eof s' \<and> sv_fderr_eof s')"
proof (induction envs arbitrary: s)
  case (Cons env envs)
  then obtain q s1 where "server_round cfg env s = Inr (q, s1)" by (auto simp: rbind_eq_Inr)
  then show ?case using Cons server_round_streams by (cases q) auto
qed simp

section \<open>A whole session\<close>

lemma streams_start: "streams (c_sent ch) (server_start fdin fdout fderr now ch)"
  by (simp add: streams_def server_start_def)

lemma quiet_close_descriptors: "quiet s t \<Longrightarrow> quiet s (close_descriptors t)"
  by (simp add: close_descriptors_def Let_def)

lemma server_finish_streams:
  assumes "server_finish waited types s = Inr s'" "streams old s" "sv_stdout s = []" "sv_stderr s = []"
  shows "\<exists>ms n notice. sv_sent s' = old @ ms @ [(SSH_SMSG_EXITSTATUS, [F_int n])] \<and> list_all session_message ms \<and>
    data_of SSH_SMSG_STDOUT_DATA ms = sv_read_out s' \<and> data_of SSH_SMSG_STDERR_DATA ms = sv_read_err s' @ notice"
proof -
  let ?c = "s\<lparr>sv_stdin := [], sv_stdout := [], sv_stderr := [], sv_written := sv_got s\<rparr>"
  let ?t = "close_descriptors ?c"
  have c: "close_descriptors (s\<lparr>sv_stdin := [], sv_stdout := [], sv_stderr := []\<rparr>) = ?t\<lparr>sv_written := sv_written s\<rparr>"
    by (simp add: close_descriptors_def Let_def sv_event_def)
  have "streams old ?c" using assms(2-4) by (auto simp: streams_def)
  then have t: "streams old ?t" using streams_quiet quiet_close_descriptors quiet_refl by blast
  from assms(1) c obtain ch where ch: "channel_stop_listening (sv_channels ?t) = Inr ch"
    "send_exit_status waited types (?t\<lparr>sv_written := sv_written s, sv_channels := ch\<rparr>) = Inr s'"
    by (auto simp: server_finish_def drain_output_def assms(3,4) rbind_eq_Inr Let_def)
  have "streams old (?t\<lparr>sv_channels := ch\<rparr>)"
    using t quiet_channels [OF handler_sends(4) [OF ch(1)] quiet_refl] streams_quiet by blast
  moreover have "sv_stdout ?t = []" "sv_stderr ?t = []" by (simp_all add: close_descriptors_def Let_def sv_event_def)
  moreover from ch(2) obtain n where "s' = sv_send SSH_SMSG_EXITSTATUS [F_int n] (?t\<lparr>sv_written := sv_written s, sv_channels := ch\<rparr>)"
    by (auto simp: send_exit_status_def split: option.splits wait_status.splits if_splits)
  ultimately show ?thesis by (auto simp: streams_def sv_send_def send_def)
qed

lemma server_loop_streams:
  assumes "server_loop cfg fdin fdout fderr now ch envs waited types = Inr (Some s)"
  shows "\<exists>ms n notice. sv_sent s = c_sent ch @ ms @ [(SSH_SMSG_EXITSTATUS, [F_int n])] \<and> list_all session_message ms \<and>
    data_of SSH_SMSG_STDOUT_DATA ms = sv_read_out s \<and> data_of SSH_SMSG_STDERR_DATA ms = sv_read_err s @ notice"
proof -
  from assms obtain s1 where r: "server_rounds cfg envs (server_start fdin fdout fderr now ch) = Inr (True, s1)"
    "server_finish waited types s1 = Inr s"
    by (auto simp: server_loop_def rbind_eq_Inr split: if_splits)
  from server_rounds_streams [OF r(1) streams_start] server_finish_streams [OF r(2)] show ?thesis by blast
qed

section \<open>An example\<close>

definition demo_config :: server_config where
  "demo_config = \<lparr>sc_connection_in = 3, sc_connection_out = 4, sc_no_port_forwarding = False, sc_idle_timeout = 0, sc_connect = (\<lambda>_ _. None)\<rparr>"

text \<open>The program writes some bytes, closes its output and exits.\<close>

definition demo_env :: "byte list \<Rightarrow> wait_status option \<Rightarrow> loop_env" where
  "demo_env bs child = \<lparr>le_packets = [], le_room = (\<lambda>_. True), le_pending = (\<lambda>_. False), le_ret = 1,
     le_os = \<lparr>os_readable = (\<lambda>fd. fd = 6), os_writable = (\<lambda>_. False), os_accept = (\<lambda>_. Accept_failed), os_read = (\<lambda>_. Data bs),
       os_write = (\<lambda>_. Write_again)\<rparr>,
     le_now = 1, le_child = child, le_dies = None\<rparr>"

abbreviation demo_channels :: channel_state where "demo_channels \<equiv> channel_statics False 32768 False"

lemma demo_round:
  "\<exists>s. server_rounds demo_config [demo_env [104, 105] None] (server_start 5 6 (-1) 0 demo_channels) = Inr (False, s) \<and> sv_read_out s = [104, 105]"
  by (simp add: server_loop_def server_start_def server_round_def make_output_def transfer_def demo_env_def demo_config_def
      close_stdin_def make_packets_from_stderr_data.simps make_packets_from_stdout_data.simps hold_back_def finished_def show_waiting_def
      wait_until_can_do_something_def read_interest_def write_interest_def check_idle_def process_input_def read_connection_def read_stdout_def read_stderr_def
      process_output_def server_finish_def drain_output_def close_descriptors_def send_exit_status_def sv_send_def sv_event_def send_def event_def packet_len_def
      channel_prepare_select_def channel_after_select_def channel_output_poll_def channel_stop_listening_def channel_still_open_def channel_statics_def
      channel_not_very_much_buffered_data_def Let_def)

lemma demo_session:
  "\<exists>s. server_loop demo_config 5 6 (-1) 0 demo_channels [demo_env [104, 105] None, demo_env [] (Some (Exited 0)), demo_env [] None] None [33] = Inr (Some s) \<and>
     sv_read_out s = [104, 105]"
  by (simp add: server_loop_def server_start_def server_round_def make_output_def transfer_def demo_env_def demo_config_def
      close_stdin_def make_packets_from_stderr_data.simps make_packets_from_stdout_data.simps hold_back_def finished_def show_waiting_def
      wait_until_can_do_something_def read_interest_def write_interest_def check_idle_def process_input_def read_connection_def read_stdout_def read_stderr_def
      process_output_def server_finish_def drain_output_def close_descriptors_def send_exit_status_def sv_send_def sv_event_def send_def event_def packet_len_def
      channel_prepare_select_def channel_after_select_def channel_output_poll_def channel_stop_listening_def channel_still_open_def channel_statics_def
      channel_not_very_much_buffered_data_def Let_def)

section \<open>Properties\<close>





text \<open>With one socket for the program's input and output, the server closes that socket when the child has ended and
  \<^verbatim>\<open>select\<close> has timed out, even when the output has not come to its end; the next round asks \<^verbatim>\<open>select\<close>
  for the closed descriptor again.\<close>

theorem closed_descriptor_is_selected:
  assumes "wait_until_can_do_something cfg env s = Inr (os, s')"
    and "le_ret env \<le> 0" and "le_child env = None" and "sv_child s \<noteq> None"
    and "sv_fdin s = sv_fdout s" and "sv_fdin s \<noteq> -1" and "\<not> sv_fdout_eof s"
  shows "Close (sv_fdout s) \<in> set (c_io (sv_channels s')) \<and>
    (le_room env' (sv_sent s') \<longrightarrow> sv_fdout s \<in> set (read_interest cfg env' s' fds))"
  using assms
  by (auto simp: wait_until_can_do_something_def rbind_eq_Inr Let_def shutdown_descriptors_def sv_event_def event_def read_interest_def
      split: if_splits)

theorem closed_descriptor_is_selected_witness:
  "\<exists>os s'. wait_until_can_do_something demo_config ((demo_env [] None)\<lparr>le_ret := 0\<rparr>) ((server_start 5 5 (-1) 0 demo_channels)\<lparr>sv_child := Some (Exited 0)\<rparr>) = Inr (os, s') \<and>
     Close 5 \<in> set (c_io (sv_channels s')) \<and> 5 \<in> set (read_interest demo_config (demo_env [] None) s' [])"
proof -
  have "\<exists>os s'. wait_until_can_do_something demo_config ((demo_env [] None)\<lparr>le_ret := 0\<rparr>) ((server_start 5 5 (-1) 0 demo_channels)\<lparr>sv_child := Some (Exited 0)\<rparr>) = Inr (os, s')"
    by (simp add: wait_until_can_do_something_def server_start_def channel_prepare_select_def channel_statics_def Let_def)
  then obtain os s' where w: "wait_until_can_do_something demo_config ((demo_env [] None)\<lparr>le_ret := 0\<rparr>) ((server_start 5 5 (-1) 0 demo_channels)\<lparr>sv_child := Some (Exited 0)\<rparr>) = Inr (os, s')"
    by blast
  from closed_descriptor_is_selected [OF w, of "demo_env [] None" "[]"] w show ?thesis by (simp add: demo_env_def server_start_def)
qed

end
