(* ===== verification/ClientLoop.thy ===== *)
theory ClientLoop
  imports ServerLoop
begin

text \<open>
  \<^verbatim>\<open>clientloop.c\<close>: the interactive session on the client, between the user's terminal, the packets of the
  server, and the channels. As in theory \<open>ServerLoop\<close>, what is sent is appended to the messages of the channel layer, and
  received packets and the results of system calls are arguments. Debug messages, signal handlers
  and statistics are left out; of the terminal modes there is the flag that says whether it is in raw mode.
\<close>

section \<open>State\<close>

text \<open>
  The last fields are not variables of the program but its history: bytes from the connection, bytes read from standard input, those
  accepted for the server, the escape commands that were obeyed, what came in for standard output and standard error, and
  what was written there.
\<close>

record client_state =
  cl_stdin :: "byte list"
  cl_stdout :: "byte list"
  cl_stderr :: "byte list"
  cl_stdin_eof :: bool
  cl_escape_pending :: bool
  cl_last_was_cr :: bool
  cl_winch :: bool
  cl_quit :: bool
  cl_raw :: bool
  cl_exit_status :: int
  cl_stdin_bytes :: nat
  cl_stdout_bytes :: nat
  cl_stderr_bytes :: nat
  cl_channels :: channel_state
  cl_incoming :: "byte list"
  cl_typed :: "byte list"
  cl_accepted :: "byte list"
  cl_escapes :: "byte list"
  cl_received :: "byte list"
  cl_notices :: "byte list"
  cl_printed :: "byte list"
  cl_printed_err :: "byte list"

record client_config =
  cc_connection_in :: int
  cc_connection_out :: int
  cc_stdin :: int
  cc_stdout :: int
  cc_stderr :: int
  cc_escape_char :: int
  cc_have_pty :: bool
  cc_quiet :: bool
  cc_stdin_null :: bool
  cc_host :: "byte list"
  cc_display :: "byte list option"
  cc_connect_x :: "x11_target \<Rightarrow> int option"
  cc_connect :: "byte list \<Rightarrow> u32 \<Rightarrow> int option"
  cc_agent :: "int option"

datatype select_result = Selected | Interrupted | Select_failed

text \<open>
  What one round of the loop meets: the packets that are buffered, what \<^verbatim>\<open>packet_not_very_much_data_to_write\<close> and
  \<^verbatim>\<open>packet_have_data_to_write\<close> answer after the messages sent so far, whether the window has changed and
  its size when that can be found out, the outcome of \<^verbatim>\<open>select\<close> and its masks, the text of
  \<^verbatim>\<open>strerror\<close>, and, for a suspension, how many bytes the writes before it take and whether the window changes during it.
\<close>

record client_env =
  ce_packets :: "(nat \<times> byte list) list"
  ce_room :: "message list \<Rightarrow> bool"
  ce_pending :: "message list \<Rightarrow> bool"
  ce_winch :: bool
  ce_size :: "(u32 \<times> u32 \<times> u32 \<times> u32) option"
  ce_select :: select_result
  ce_os :: select_env
  ce_error :: "byte list"
  ce_flush_out :: nat
  ce_flush_err :: nat
  ce_resized :: bool

definition cl_send :: "nat \<Rightarrow> field list \<Rightarrow> client_state \<Rightarrow> client_state" where
  "cl_send t fs s = s\<lparr>cl_channels := send t fs (cl_channels s)\<rparr>"

abbreviation cl_sent :: "client_state \<Rightarrow> message list" where
  "cl_sent s \<equiv> c_sent (cl_channels s)"

text \<open>Appending to the standard error buffer, with and without counting the bytes.\<close>

definition show_text :: "byte list \<Rightarrow> client_state \<Rightarrow> client_state" where
  "show_text t s = s\<lparr>cl_stderr := cl_stderr s @ t, cl_notices := cl_notices s @ t\<rparr>"

definition notice :: "byte list \<Rightarrow> client_state \<Rightarrow> client_state" where
  "notice t s = (show_text t s)\<lparr>cl_stderr_bytes := cl_stderr_bytes s + length t\<rparr>"

text \<open>\<^verbatim>\<open>snprintf\<close> into a buffer of a given size, and \<^verbatim>\<open>strlen\<close> of the result.\<close>

definition printed :: "nat \<Rightarrow> byte list \<Rightarrow> byte list" where
  "printed n t = c_str (take (n - 1) t)"

abbreviation CRLF :: "byte list" where "CRLF \<equiv> [13, 10]"

definition accept_input :: "byte list \<Rightarrow> client_state \<Rightarrow> client_state" where
  "accept_input bs s = s\<lparr>cl_stdin := cl_stdin s @ bs, cl_stdin_bytes := cl_stdin_bytes s + length bs, cl_accepted := cl_accepted s @ bs\<rparr>"

section \<open>The beginning of input\<close>

definition client_check_initial_eof_on_stdin :: "client_config \<Rightarrow> read_result \<Rightarrow> client_state \<Rightarrow> client_state" where
  "client_check_initial_eof_on_stdin cfg first s =
     (if cc_stdin_null cfg then cl_send SSH_CMSG_EOF [] (s\<lparr>cl_stdin_eof := True\<rparr>)
      else case first of
             Data [] \<Rightarrow> cl_send SSH_CMSG_EOF [] (s\<lparr>cl_stdin_eof := True\<rparr>)
           | Data (c # _) \<Rightarrow>
               let s = s\<lparr>cl_typed := cl_typed s @ [c]\<rparr>
               in if uint c = cc_escape_char cfg then s\<lparr>cl_escape_pending := True\<rparr> else accept_input [c] s
           | _ \<Rightarrow> s)"

section \<open>Packets from the server\<close>

definition client_handler :: "(channel_state \<Rightarrow> byte list \<Rightarrow> (byte list \<times> channel_state) res) \<Rightarrow> byte list \<Rightarrow> client_state \<Rightarrow> client_state res" where
  "client_handler f q s = rbind (f (cl_channels s) q) (\<lambda>(q, ch). Inr (s\<lparr>cl_channels := ch\<rparr>))"

definition client_process_packet :: "client_config \<Rightarrow> nat \<times> byte list \<Rightarrow> client_state \<Rightarrow> client_state res" where
  "client_process_packet cfg p s =
     (case p of (t, q) \<Rightarrow>
        if t = SSH_SMSG_STDOUT_DATA then
          rbind (bytes_get_string q) (\<lambda>(data, q). Inr (s\<lparr>cl_stdout := cl_stdout s @ data,
            cl_stdout_bytes := cl_stdout_bytes s + length data, cl_received := cl_received s @ data\<rparr>))
        else if t = SSH_SMSG_STDERR_DATA then
          rbind (bytes_get_string q) (\<lambda>(data, q). Inr ((show_text data s)\<lparr>cl_stdout_bytes := cl_stdout_bytes s + length data\<rparr>))
        else if t = SSH_SMSG_EXITSTATUS then
          rbind (bytes_get_int q) (\<lambda>(v, q).
          Inr (cl_send SSH_CMSG_EXIT_CONFIRMATION [] (s\<lparr>cl_exit_status := sint v, cl_quit := True\<rparr>)))
        else if t = SSH_SMSG_X11_OPEN then
          client_handler (\<lambda>ch q. rbind (x11_input_open (cc_display cfg) (cc_connect_x cfg) ch q) (\<lambda>(targets, q, ch). Inr (q, ch))) q s
        else if t = SSH_MSG_PORT_OPEN then
          client_handler (\<lambda>ch q. rbind (channel_input_port_open (cc_connect cfg) ch q) (\<lambda>(tried, q, ch). Inr (q, ch))) q s
        else if t = SSH_SMSG_AGENT_OPEN then client_handler (auth_input_open_request (cc_agent cfg)) q s
        else if t = SSH_MSG_CHANNEL_OPEN_CONFIRMATION then client_handler channel_input_open_confirmation q s
        else if t = SSH_MSG_CHANNEL_OPEN_FAILURE then client_handler channel_input_open_failure q s
        else if t = SSH_MSG_CHANNEL_DATA then client_handler channel_input_data q s
        else if t = SSH_MSG_CHANNEL_INPUT_EOF then client_handler channel_input_close q s
        else if t = SSH_MSG_CHANNEL_OUTPUT_CLOSED then client_handler channel_input_close_confirmation q s
        else Inl (Disconnect ''Protocol error during session''))"

fun client_process_buffered_input_packets :: "client_config \<Rightarrow> (nat \<times> byte list) list \<Rightarrow> client_state \<Rightarrow> client_state res" where
  "client_process_buffered_input_packets cfg [] s = Inr s"
| "client_process_buffered_input_packets cfg (p # ps) s =
     (if cl_quit s then Inr s else rbind (client_process_packet cfg p s) (client_process_buffered_input_packets cfg ps))"

section \<open>Data for the server\<close>

definition stdin_packet_len :: "nat \<Rightarrow> nat" where
  "stdin_packet_len n = min n 32768"

definition client_stdin_packet :: "client_state \<Rightarrow> client_state" where
  "client_stdin_packet s =
     (let len = stdin_packet_len (length (cl_stdin s));
          t = (cl_send SSH_CMSG_STDIN_DATA [F_string (take len (cl_stdin s))] s)\<lparr>cl_stdin := drop len (cl_stdin s)\<rparr>
      in if cl_stdin_eof t \<and> cl_stdin t = [] then cl_send SSH_CMSG_EOF [] t else t)"

function client_make_packets_from_stdin_data :: "(message list \<Rightarrow> bool) \<Rightarrow> client_state \<Rightarrow> client_state" where
  "client_make_packets_from_stdin_data can_send s =
     (if cl_stdin s = [] \<or> \<not> can_send (cl_sent s) then s
      else client_make_packets_from_stdin_data can_send (client_stdin_packet s))"
  by pat_completeness auto
termination
  by (relation "measure (\<lambda>(can_send, s). length (cl_stdin s))") (auto simp: client_stdin_packet_def stdin_packet_len_def cl_send_def Let_def)

declare client_make_packets_from_stdin_data.simps [simp del]

definition client_check_window_change :: "client_env \<Rightarrow> client_state \<Rightarrow> client_state" where
  "client_check_window_change env s =
     (if cl_winch s \<or> ce_winch env then
        (case ce_size env of
           None \<Rightarrow> s\<lparr>cl_winch := False\<rparr>
         | Some (row, col, xpixel, ypixel) \<Rightarrow>
             cl_send SSH_CMSG_WINDOW_SIZE [F_int row, F_int col, F_int xpixel, F_int ypixel] (s\<lparr>cl_winch := False\<rparr>))
      else s)"

section \<open>Waiting\<close>

definition client_read_interest :: "client_config \<Rightarrow> client_env \<Rightarrow> client_state \<Rightarrow> int list \<Rightarrow> int list" where
  "client_read_interest cfg env s channel_fds =
     (if length (cl_stdout s) < 64 * 1024 \<and> length (cl_stderr s) < 64 * 1024 \<and> channel_not_very_much_buffered_data (cl_channels s)
      then [cc_connection_in cfg] else []) @
     (if \<not> cl_stdin_eof s \<and> ce_room env (cl_sent s) then [cc_stdin cfg] else []) @ channel_fds"

definition client_write_interest :: "client_config \<Rightarrow> client_env \<Rightarrow> client_state \<Rightarrow> int list \<Rightarrow> int list" where
  "client_write_interest cfg env s channel_fds =
     channel_fds @ (if ce_pending env (cl_sent s) then [cc_connection_out cfg] else []) @
     (if cl_stdout s \<noteq> [] then [cc_stdout cfg] else []) @ (if cl_stderr s \<noteq> [] then [cc_stderr cfg] else [])"

definition client_wait_until_can_do_something :: "client_config \<Rightarrow> client_env \<Rightarrow> client_state \<Rightarrow> (select_env \<times> client_state) res" where
  "client_wait_until_can_do_something cfg env s =
     rbind (channel_prepare_select (cl_channels s)) (\<lambda>(readset, writeset, ch).
     let rd = client_read_interest cfg env s readset;
         s = s\<lparr>cl_channels := ch\<rparr>;
         wr = client_write_interest cfg env s writeset;
         ok = (\<lambda>fds ready fd. ce_select env = Selected \<and> fd \<in> set fds \<and> ready fd);
         os = (ce_os env)\<lparr>os_readable := ok rd (os_readable (ce_os env)), os_writable := ok wr (os_writable (ce_os env))\<rparr>
     in Inr (os, if ce_select env = Select_failed
                 then (notice (printed 100 (ascii ''select: '' @ take 100 (ce_error env) @ CRLF)) s)\<lparr>cl_quit := True\<rparr> else s))"

section \<open>Escapes\<close>

text \<open>What is typed after a suspension goes to empty buffers: what was not yet sent or shown is gone.\<close>

definition client_suspend_self :: "client_env \<Rightarrow> client_state \<Rightarrow> client_state" where
  "client_suspend_self env s =
     s\<lparr>cl_printed := cl_printed s @ take (ce_flush_out env) (cl_stdout s),
       cl_printed_err := cl_printed_err s @ take (ce_flush_err env) (cl_stderr s),
       cl_stdin := [], cl_stdout := [], cl_stderr := [], cl_winch := cl_winch s \<or> ce_resized env, cl_raw := True\<rparr>"

definition escape_note :: "client_config \<Rightarrow> byte list \<Rightarrow> byte list" where
  "escape_note cfg t = of_int (cc_escape_char cfg) # t"

definition escape_help :: "byte list" where
  "escape_help =
     ascii ''?'' @ CRLF @ ascii ''Supported escape sequences:'' @ CRLF @
     ascii ''~.  - terminate connection'' @ CRLF @
     ascii ''~^Z - suspend ssh'' @ CRLF @
     ascii ''~#  - list forwarded connections'' @ CRLF @
     ascii ''~&  - background ssh (when waiting for connections to terminate)'' @ CRLF @
     ascii ''~?  - this message'' @ CRLF @
     ascii ''~~  - send the escape character by typing it twice'' @ CRLF @
     ascii ''(Note that escapes are only recognized immediately after newline.)'' @ CRLF"

text \<open>
  The characters are processed in the buffer they were read into, and the same buffer is used to build what is appended to
  the other buffers. \<open>overwrite t buf\<close> is the buffer (as far as it was read) after \<open>t\<close> was stored at its beginning;
  \<^verbatim>\<open>snprintf\<close> also stores a zero.
\<close>

definition overwrite :: "byte list \<Rightarrow> byte list \<Rightarrow> byte list" where
  "overwrite t buf = take (length buf) t @ drop (length t) buf"

text \<open>The program goes on as the child process of \<^verbatim>\<open>fork\<close>, or as it is when that fails; the parent exits.\<close>

definition client_background :: "client_state \<Rightarrow> client_state res" where
  "client_background s =
     (let s = (if cl_stdin_eof s then s
               else let t = (cl_send SSH_CMSG_STDIN_DATA [F_string [4]] s)\<lparr>cl_stdin_eof := True\<rparr>
                    in if cl_stdin t = [] then cl_send SSH_CMSG_EOF [] t else t)
      in rbind (channel_stop_listening (cl_channels s)) (\<lambda>ch. Inr (s\<lparr>cl_raw := False, cl_channels := ch\<rparr>)))"

text \<open>One character; the first result says whether to return at once.\<close>

definition client_normal_char :: "byte \<Rightarrow> byte list \<Rightarrow> client_state \<Rightarrow> bool \<times> byte list \<times> client_state" where
  "client_normal_char ch buf s = (False, overwrite [ch] buf, accept_input [ch] (s\<lparr>cl_last_was_cr := (ch = 13 \<or> ch = 10)\<rparr>))"

definition client_escape :: "client_config \<Rightarrow> client_env \<Rightarrow> byte \<Rightarrow> byte list \<Rightarrow> client_state \<Rightarrow> (bool \<times> byte list \<times> client_state) res" where
  "client_escape cfg env ch buf s =
     (let obey = (\<lambda>s. s\<lparr>cl_escapes := cl_escapes s @ [ch]\<rparr>);
          note = escape_note cfg;
          stored = (\<lambda>t. overwrite (note t @ [0]) buf);
          dot = ascii ''.'' @ CRLF; z = ascii ''^Z'' @ CRLF; hash = ascii ''#'' @ CRLF
      in if ch = 46 then Inr (True, stored dot, (notice (c_str (note dot)) (obey s))\<lparr>cl_quit := True\<rparr>)
         else if ch = 26 then Inr (False, stored z, client_suspend_self env (notice (c_str (note z)) (obey s)))
         else if ch = 38 then rbind (client_background (obey s)) (\<lambda>s. Inr (False, buf, s))
         else if ch = 63 then Inr (False, stored escape_help, show_text (c_str (note escape_help)) (obey s))
         else if ch = 35 then Inr (False, stored hash,
           show_text (channel_open_message (cl_channels s)) (show_text (c_str (note hash)) (obey s)))
         else if uint ch \<noteq> cc_escape_char cfg then
           Inr (False, overwrite [of_int (cc_escape_char cfg), ch] buf, accept_input [of_int (cc_escape_char cfg), ch] s)
         else Inr (client_normal_char ch buf s))"

definition client_process_char :: "client_config \<Rightarrow> client_env \<Rightarrow> byte \<Rightarrow> byte list \<Rightarrow> client_state \<Rightarrow> (bool \<times> byte list \<times> client_state) res" where
  "client_process_char cfg env ch buf s =
     (if cl_escape_pending s then client_escape cfg env ch buf (s\<lparr>cl_escape_pending := False\<rparr>)
      else if cl_last_was_cr s \<and> uint ch = cc_escape_char cfg then Inr (False, buf, s\<lparr>cl_escape_pending := True\<rparr>)
      else Inr (client_normal_char ch buf s))"

fun client_process_chars :: "client_config \<Rightarrow> client_env \<Rightarrow> nat \<Rightarrow> nat \<Rightarrow> byte list \<Rightarrow> client_state \<Rightarrow> client_state res" where
  "client_process_chars cfg env i 0 buf s = Inr s"
| "client_process_chars cfg env i (Suc n) buf s =
     rbind (client_process_char cfg env (buf ! i) buf s) (\<lambda>(return, buf, s).
     if return then Inr s else client_process_chars cfg env (Suc i) n buf s)"

section \<open>Input and output\<close>

text \<open>The first result says whether the function has returned.\<close>

definition client_read_connection :: "client_config \<Rightarrow> client_env \<Rightarrow> select_env \<Rightarrow> client_state \<Rightarrow> bool \<times> client_state" where
  "client_read_connection cfg env os s =
     (if \<not> os_readable os (cc_connection_in cfg) then (False, s)
      else case os_read os (cc_connection_in cfg) of
             Data bs \<Rightarrow>
               if bs = [] then (True, (notice (printed 8192 (ascii ''Connection to '' @ take 300 (cc_host cfg) @ ascii '' closed by remote host.'' @ CRLF)) s)\<lparr>cl_quit := True\<rparr>)
               else (False, s\<lparr>cl_incoming := cl_incoming s @ bs\<rparr>)
           | Read_again \<Rightarrow> (False, s)
           | Read_failed \<Rightarrow>
               (True, (notice (printed 8192 (ascii ''Read from remote host '' @ take 300 (cc_host cfg) @ ascii '': '' @ take 100 (ce_error env) @ CRLF)) s)\<lparr>cl_quit := True\<rparr>))"

definition client_end_of_input :: "client_state \<Rightarrow> client_state" where
  "client_end_of_input s =
     (let s = s\<lparr>cl_stdin_eof := True\<rparr> in if cl_stdin s = [] then cl_send SSH_CMSG_EOF [] s else s)"

definition client_read_stdin :: "client_config \<Rightarrow> client_env \<Rightarrow> select_env \<Rightarrow> client_state \<Rightarrow> client_state res" where
  "client_read_stdin cfg env os s =
     (if \<not> os_readable os (cc_stdin cfg) then Inr s
      else case os_read os (cc_stdin cfg) of
             Data bs \<Rightarrow>
               if bs = [] then Inr (client_end_of_input s)
               else let s = s\<lparr>cl_typed := cl_typed s @ bs\<rparr>
                    in if cc_escape_char cfg = -1 then Inr (accept_input bs s)
                       else client_process_chars cfg env 0 (length bs) bs s
           | _ \<Rightarrow> Inr (client_end_of_input (notice (printed 8192 (ascii ''read: '' @ take 100 (ce_error env) @ CRLF)) s)))"

definition client_process_input :: "client_config \<Rightarrow> client_env \<Rightarrow> select_env \<Rightarrow> client_state \<Rightarrow> client_state res" where
  "client_process_input cfg env os s =
     (case client_read_connection cfg env os s of (returned, s) \<Rightarrow> if returned then Inr s else client_read_stdin cfg env os s)"

text \<open>A write of no bytes is taken as an error (the code looks at an \<^verbatim>\<open>errno\<close> that it did not set).\<close>

definition client_write_stdout :: "client_config \<Rightarrow> client_env \<Rightarrow> select_env \<Rightarrow> client_state \<Rightarrow> bool \<times> client_state" where
  "client_write_stdout cfg env os s =
     (if \<not> os_writable os (cc_stdout cfg) then (False, s)
      else let failed = (notice (printed 100 (ascii ''write stdout: '' @ take 50 (ce_error env) @ CRLF)) s)\<lparr>cl_quit := True\<rparr>
           in case os_write os (cc_stdout cfg) of
             Written n \<Rightarrow>
               if n = 0 then (True, failed)
               else (False, s\<lparr>cl_stdout := drop n (cl_stdout s), cl_printed := cl_printed s @ take n (cl_stdout s)\<rparr>)
           | Write_again \<Rightarrow> (False, s)
           | Write_failed \<Rightarrow> (True, failed))"

definition client_write_stderr :: "client_config \<Rightarrow> select_env \<Rightarrow> client_state \<Rightarrow> client_state" where
  "client_write_stderr cfg os s =
     (if \<not> os_writable os (cc_stderr cfg) then s
      else case os_write os (cc_stderr cfg) of
             Written n \<Rightarrow>
               if n = 0 then s\<lparr>cl_quit := True\<rparr>
               else s\<lparr>cl_stderr := drop n (cl_stderr s), cl_printed_err := cl_printed_err s @ take n (cl_stderr s)\<rparr>
           | Write_again \<Rightarrow> s
           | Write_failed \<Rightarrow> s\<lparr>cl_quit := True\<rparr>)"

definition client_process_output :: "client_config \<Rightarrow> client_env \<Rightarrow> select_env \<Rightarrow> client_state \<Rightarrow> client_state" where
  "client_process_output cfg env os s =
     (case client_write_stdout cfg env os s of (returned, s) \<Rightarrow> if returned then s else client_write_stderr cfg os s)"

section \<open>The loop\<close>

definition client_packets :: "client_config \<Rightarrow> client_env \<Rightarrow> client_state \<Rightarrow> client_state res" where
  "client_packets cfg env s =
     rbind (client_process_buffered_input_packets cfg (ce_packets env) s) (\<lambda>s.
     let s = client_make_packets_from_stdin_data (ce_room env) s
     in rbind (if ce_room env (cl_sent s) then channel_output_poll (ce_room env) (cl_channels s) else Inr (cl_channels s)) (\<lambda>ch.
     Inr (client_check_window_change env (s\<lparr>cl_channels := ch\<rparr>))))"

definition client_transfer :: "client_config \<Rightarrow> client_env \<Rightarrow> client_state \<Rightarrow> client_state res" where
  "client_transfer cfg env s =
     rbind (client_wait_until_can_do_something cfg env s) (\<lambda>(os, s).
     if cl_quit s then Inr s
     else rbind (channel_after_select os (cl_channels s)) (\<lambda>ch.
          rbind (client_process_input cfg env os (s\<lparr>cl_channels := ch\<rparr>)) (\<lambda>s.
          Inr (client_process_output cfg env os s))))"

definition client_round :: "client_config \<Rightarrow> client_env \<Rightarrow> client_state \<Rightarrow> client_state res" where
  "client_round cfg env s = rbind (client_packets cfg env s) (\<lambda>s. if cl_quit s then Inr s else client_transfer cfg env s)"

fun client_rounds :: "client_config \<Rightarrow> client_env list \<Rightarrow> client_state \<Rightarrow> client_state res" where
  "client_rounds cfg [] s = Inr s"
| "client_rounds cfg (env # envs) s = (if cl_quit s then Inr s else rbind (client_round cfg env s) (client_rounds cfg envs))"

definition client_start :: "client_config \<Rightarrow> read_result \<Rightarrow> channel_state \<Rightarrow> client_state" where
  "client_start cfg first ch = client_check_initial_eof_on_stdin cfg first
     \<lparr>cl_stdin = [], cl_stdout = [], cl_stderr = [], cl_stdin_eof = False, cl_escape_pending = False, cl_last_was_cr = True,
      cl_winch = False, cl_quit = False, cl_raw = cc_have_pty cfg, cl_exit_status = -1, cl_stdin_bytes = 0, cl_stdout_bytes = 0,
      cl_stderr_bytes = 0, cl_channels = ch, cl_incoming = [], cl_typed = [], cl_accepted = [], cl_escapes = [], cl_received = [],
      cl_notices = [], cl_printed = [], cl_printed_err = []\<rparr>"

section \<open>The end\<close>

text \<open>The loops that write what is left, given the results of the writes: what they have written.\<close>

fun flush_buffer :: "write_result list \<Rightarrow> byte list \<Rightarrow> byte list res" where
  "flush_buffer ws [] = Inr []"
| "flush_buffer [] (b # bs) = Inl (Diverges ''write'')"
| "flush_buffer (Written n # ws) (b # bs) =
     (if n = 0 then Inr [] else rbind (flush_buffer ws (drop n (b # bs))) (\<lambda>out. Inr (take n (b # bs) @ out)))"
| "flush_buffer (_ # ws) (b # bs) = Inr []"

definition client_finish :: "client_config \<Rightarrow> write_result list \<Rightarrow> write_result list \<Rightarrow> client_state \<Rightarrow> client_state res" where
  "client_finish cfg ws_out ws_err s =
     rbind (channel_stop_listening (cl_channels s)) (\<lambda>ch.
     let s = s\<lparr>cl_channels := ch\<rparr>;
         s = (if cc_have_pty cfg \<and> \<not> cc_quiet cfg
              then notice (printed 100 (ascii ''Connection to '' @ take 64 (cc_host cfg) @ ascii '' closed.'' @ CRLF)) s else s)
     in rbind (flush_buffer ws_out (cl_stdout s)) (\<lambda>out.
        rbind (flush_buffer ws_err (cl_stderr s)) (\<lambda>err.
        Inr (s\<lparr>cl_printed := cl_printed s @ out, cl_printed_err := cl_printed_err s @ err,
          cl_stdin := [], cl_stdout := [], cl_stderr := [], cl_raw := cl_raw s \<and> \<not> cc_have_pty cfg\<rparr>))))"

text \<open>\<open>None\<close> while the rounds have not come to an end; \<open>cl_exit_status\<close> is the result of the function.\<close>

definition client_loop :: "client_config \<Rightarrow> read_result \<Rightarrow> channel_state \<Rightarrow> client_env list \<Rightarrow> write_result list \<Rightarrow> write_result list \<Rightarrow>
    client_state option res" where
  "client_loop cfg first ch envs ws_out ws_err =
     rbind (client_rounds cfg envs (client_start cfg first ch)) (\<lambda>s.
     if cl_quit s then rbind (client_finish cfg ws_out ws_err s) (\<lambda>s. Inr (Some s)) else Inr None)"

end
