(* ===== verification/ClientRun.thy ===== *)
theory ClientRun
  imports ClientLoop ServerRun
begin

text \<open>
  What a session of the client loop guarantees, alone and together with the server loop: output reaches the
  user whole and in order, input reaches the server whole, in order and before the end of file, and any text can be
  typed.
\<close>

section \<open>Output\<close>

definition shown_ok :: "client_state \<Rightarrow> bool" where
  "shown_ok s \<longleftrightarrow> cl_printed s @ cl_stdout s = cl_received s \<and> cl_printed_err s @ cl_stderr s = cl_notices s"

text \<open>A suspension empties the buffers.\<close>

definition all_shown :: "client_state \<Rightarrow> bool" where
  "all_shown s \<longleftrightarrow> 26 \<in> set (cl_escapes s) \<or> shown_ok s"

lemma shown_texts [simp]:
  "shown_ok (show_text t s) = shown_ok s" "shown_ok (notice t s) = shown_ok s" "shown_ok (accept_input bs s) = shown_ok s"
  "shown_ok (cl_send ty fs s) = shown_ok s"
  by (auto simp: shown_ok_def show_text_def notice_def accept_input_def cl_send_def)

lemma shown_updates [simp]:
  "shown_ok (s\<lparr>cl_stdin := bs\<rparr>) = shown_ok s" "shown_ok (s\<lparr>cl_stdin_eof := b\<rparr>) = shown_ok s"
  "shown_ok (s\<lparr>cl_escape_pending := b\<rparr>) = shown_ok s" "shown_ok (s\<lparr>cl_last_was_cr := b\<rparr>) = shown_ok s"
  "shown_ok (s\<lparr>cl_winch := b\<rparr>) = shown_ok s" "shown_ok (s\<lparr>cl_quit := b\<rparr>) = shown_ok s" "shown_ok (s\<lparr>cl_raw := b\<rparr>) = shown_ok s"
  "shown_ok (s\<lparr>cl_exit_status := i\<rparr>) = shown_ok s" "shown_ok (s\<lparr>cl_stdout_bytes := n\<rparr>) = shown_ok s"
  "shown_ok (s\<lparr>cl_channels := ch\<rparr>) = shown_ok s" "shown_ok (s\<lparr>cl_incoming := bs\<rparr>) = shown_ok s" "shown_ok (s\<lparr>cl_typed := bs\<rparr>) = shown_ok s"
  "shown_ok (s\<lparr>cl_escapes := bs\<rparr>) = shown_ok s"
  by (simp_all add: shown_ok_def)

lemma escapes_same [simp]:
  "cl_escapes (show_text t s) = cl_escapes s" "cl_escapes (notice t s) = cl_escapes s" "cl_escapes (accept_input bs s) = cl_escapes s"
  "cl_escapes (cl_send ty fs s) = cl_escapes s" "cl_escapes (client_suspend_self env s) = cl_escapes s"
  by (simp_all add: show_text_def notice_def accept_input_def cl_send_def client_suspend_self_def)

lemma process_packet_shown:
  assumes "client_process_packet cfg p s = Inr s'" "all_shown s" shows "all_shown s'"
  using assms
  by (auto simp: client_process_packet_def client_handler_def rbind_eq_Inr all_shown_def shown_ok_def show_text_def cl_send_def split: prod.splits if_splits)

lemma process_packets_shown:
  "client_process_buffered_input_packets cfg ps s = Inr s' \<Longrightarrow> all_shown s \<Longrightarrow> all_shown s'"
  by (induction ps arbitrary: s) (auto simp: rbind_eq_Inr dest: process_packet_shown split: if_splits)

lemma make_packets_induct:
  assumes "P s" and "\<And>t. P t \<Longrightarrow> cl_stdin t \<noteq> [] \<Longrightarrow> P (client_stdin_packet t)"
  shows "P (client_make_packets_from_stdin_data r s)"
  using assms(1)
proof (induction r s rule: client_make_packets_from_stdin_data.induct)
  case (1 r s)
  then show ?case using assms(2) by (subst client_make_packets_from_stdin_data.simps) simp
qed

lemma stdin_packet_shown [simp]: "all_shown (client_stdin_packet s) = all_shown s"
  by (simp add: client_stdin_packet_def Let_def all_shown_def)

lemma make_packets_shown: "all_shown s \<Longrightarrow> all_shown (client_make_packets_from_stdin_data r s)"
  by (rule make_packets_induct [of all_shown]) (auto simp: stdin_packet_shown)

lemma window_shown [simp]: "all_shown (client_check_window_change env s) = all_shown s"
  by (simp add: client_check_window_change_def all_shown_def split: option.split prod.split)

lemma background_shown: "client_background s = Inr s' \<Longrightarrow> all_shown s \<Longrightarrow> all_shown s'"
  by (auto simp: client_background_def rbind_eq_Inr Let_def all_shown_def split: if_splits)

lemma escape_shown: "client_escape cfg env ch buf s = Inr (r, buf', s') \<Longrightarrow> all_shown s \<Longrightarrow> all_shown s'"
  by (auto simp: client_escape_def client_normal_char_def Let_def rbind_eq_Inr all_shown_def dest: background_shown split: if_splits)

lemma char_shown: "client_process_char cfg env ch buf s = Inr (r, buf', s') \<Longrightarrow> all_shown s \<Longrightarrow> all_shown s'"
  using escape_shown [of cfg env ch buf "s\<lparr>cl_escape_pending := False\<rparr>"]
  by (auto simp: client_process_char_def client_normal_char_def all_shown_def split: if_splits)

lemma chars_shown: "client_process_chars cfg env i n buf s = Inr s' \<Longrightarrow> all_shown s \<Longrightarrow> all_shown s'"
proof (induction n arbitrary: i buf s)
  case (Suc n)
  then show ?case using char_shown by (fastforce simp: rbind_eq_Inr split: if_splits)
qed simp

lemma end_of_input_shown [simp]: "all_shown (client_end_of_input s) = all_shown s"
  by (simp add: client_end_of_input_def Let_def all_shown_def)

lemma read_stdin_shown:
  assumes "client_read_stdin cfg env os s = Inr s'" "all_shown s" shows "all_shown s'"
proof -
  have "all_shown (accept_input bs (s\<lparr>cl_typed := ty\<rparr>))" "all_shown (s\<lparr>cl_typed := ty\<rparr>)" "all_shown (notice t s)" for bs ty t
    using assms(2) by (simp_all add: all_shown_def)
  then show ?thesis using assms chars_shown
    by (auto simp: client_read_stdin_def Let_def split: if_splits read_result.splits)
qed

lemma read_connection_shown: "client_read_connection cfg env os s = (r, s') \<Longrightarrow> all_shown s \<Longrightarrow> all_shown s'"
  by (auto simp: client_read_connection_def all_shown_def split: if_splits read_result.splits)

lemma write_shown:
  "client_write_stdout cfg env os s = (r, s') \<Longrightarrow> all_shown s \<Longrightarrow> all_shown s'" "all_shown s \<Longrightarrow> all_shown (client_write_stderr cfg os s)"
  by (auto simp: client_write_stdout_def client_write_stderr_def Let_def all_shown_def shown_ok_def notice_def show_text_def
      split: if_splits write_result.splits)

lemma process_io_shown:
  "client_process_input cfg env os s = Inr s' \<Longrightarrow> all_shown s \<Longrightarrow> all_shown s'" "all_shown s \<Longrightarrow> all_shown (client_process_output cfg env os s)"
  by (auto simp: client_process_input_def client_process_output_def intro: write_shown(2)
      dest: read_connection_shown read_stdin_shown write_shown(1) split: prod.splits if_splits)

lemma packets_shown: "client_packets cfg env s = Inr s' \<Longrightarrow> all_shown s \<Longrightarrow> all_shown s'"
proof -
  assume p: "client_packets cfg env s = Inr s'" and s: "all_shown s"
  have c: "all_shown (t\<lparr>cl_channels := ch\<rparr>) = all_shown t" for t ch by (simp add: all_shown_def)
  show ?thesis using p s process_packets_shown make_packets_shown by (auto simp: client_packets_def rbind_eq_Inr Let_def c)
qed

lemma transfer_shown: "client_transfer cfg env s = Inr s' \<Longrightarrow> all_shown s \<Longrightarrow> all_shown s'"
proof -
  assume p: "client_transfer cfg env s = Inr s'" and s: "all_shown s"
  have c: "all_shown (t\<lparr>cl_channels := ch\<rparr>) = all_shown t" "all_shown (notice x t) = all_shown t" "all_shown (t\<lparr>cl_quit := b\<rparr>) = all_shown t" for t ch x b
    by (simp_all add: all_shown_def)
  have w: "all_shown t" if "client_wait_until_can_do_something cfg env s = Inr (os, t)" for os t
    using that s by (auto simp: client_wait_until_can_do_something_def rbind_eq_Inr Let_def c)
  from p obtain os t where t: "client_wait_until_can_do_something cfg env s = Inr (os, t)"
    "(if cl_quit t then Inr t else rbind (channel_after_select os (cl_channels t)) (\<lambda>ch.
          rbind (client_process_input cfg env os (t\<lparr>cl_channels := ch\<rparr>)) (\<lambda>s. Inr (client_process_output cfg env os s)))) = Inr s'"
    by (auto simp: client_transfer_def rbind_eq_Inr)
  then show ?thesis using w [OF t(1)] process_io_shown c(1) by (auto simp: rbind_eq_Inr split: if_splits)
qed

lemma rounds_shown: "client_rounds cfg envs s = Inr s' \<Longrightarrow> all_shown s \<Longrightarrow> all_shown s'"
proof (induction envs arbitrary: s)
  case (Cons env envs)
  have "all_shown t" if "client_round cfg env s = Inr t" for t
    using that Cons.prems(2) packets_shown transfer_shown by (auto simp: client_round_def rbind_eq_Inr split: if_splits)
  then show ?case using Cons by (auto simp: rbind_eq_Inr split: if_splits)
qed simp

lemma start_shown [simp]: "all_shown (client_start cfg first ch)"
  by (auto simp: client_start_def client_check_initial_eof_on_stdin_def all_shown_def shown_ok_def Let_def accept_input_def cl_send_def
      split: read_result.split list.split)

section \<open>Input\<close>

definition stdin_side :: "message \<Rightarrow> bool" where
  "stdin_side m \<longleftrightarrow> fst m \<in> {SSH_CMSG_STDIN_DATA, SSH_CMSG_EOF}"

text \<open>
  What was accepted is sent in pieces or still buffered, and the end of file is sent once, when input has ended and
  everything is sent. \<open>old\<close> are the messages from before the session.
\<close>

definition input_ok :: "message list \<Rightarrow> client_state \<Rightarrow> bool" where
  "input_ok old s \<longleftrightarrow>
     (\<exists>ms pieces. cl_sent s = old @ ms \<and> concat pieces @ cl_stdin s = cl_accepted s \<and>
        filter stdin_side ms = map (\<lambda>d. (SSH_CMSG_STDIN_DATA, [F_string d])) pieces @
          (if cl_stdin_eof s \<and> cl_stdin s = [] then [(SSH_CMSG_EOF, [])] else []))"

text \<open>Suspending the program loses input, and going to the background ends it early.\<close>

definition undisturbed :: "client_state \<Rightarrow> bool" where
  "undisturbed s \<longleftrightarrow> 26 \<notin> set (cl_escapes s) \<and> 38 \<notin> set (cl_escapes s)"

definition all_sent :: "message list \<Rightarrow> client_state \<Rightarrow> bool" where
  "all_sent old s \<longleftrightarrow> (undisturbed s \<longrightarrow> input_ok old s)"

text \<open>Changes that leave the input alone.\<close>

definition input_same :: "client_state \<Rightarrow> client_state \<Rightarrow> bool" where
  "input_same s s' \<longleftrightarrow> (\<exists>new. cl_sent s' = cl_sent s @ new \<and> filter stdin_side new = []) \<and>
     cl_stdin s' = cl_stdin s \<and> cl_stdin_eof s' = cl_stdin_eof s \<and> cl_accepted s' = cl_accepted s \<and> (undisturbed s' \<longrightarrow> undisturbed s)"

lemma input_same_refl [simp]: "input_same s s"
  by (simp add: input_same_def)

lemma input_same_trans: "input_same s t \<Longrightarrow> input_same t u \<Longrightarrow> input_same s u"
  by (auto simp: input_same_def)

lemma input_same_ok:
  assumes "input_same s s'" "all_sent old s" shows "all_sent old s'"
  unfolding all_sent_def
proof
  assume "undisturbed s'"
  with assms have "input_ok old s" by (simp add: all_sent_def input_same_def)
  then obtain ms pieces where m: "cl_sent s = old @ ms" "concat pieces @ cl_stdin s = cl_accepted s"
    "filter stdin_side ms = map (\<lambda>d. (SSH_CMSG_STDIN_DATA, [F_string d])) pieces @
      (if cl_stdin_eof s \<and> cl_stdin s = [] then [(SSH_CMSG_EOF, [])] else [])"
    unfolding input_ok_def by blast
  from assms(1) obtain new where "cl_sent s' = cl_sent s @ new" "filter stdin_side new = []" by (auto simp: input_same_def)
  with m assms(1) show "input_ok old s'"
    unfolding input_ok_def input_same_def by (intro exI [of _ "ms @ new"] exI [of _ pieces]) simp
qed

lemma input_same_updates [simp]:
  "input_same s (t\<lparr>cl_stdout := bs\<rparr>) = input_same s t" "input_same s (t\<lparr>cl_stderr := bs\<rparr>) = input_same s t"
  "input_same s (t\<lparr>cl_escape_pending := b\<rparr>) = input_same s t" "input_same s (t\<lparr>cl_last_was_cr := b\<rparr>) = input_same s t"
  "input_same s (t\<lparr>cl_winch := b\<rparr>) = input_same s t" "input_same s (t\<lparr>cl_quit := b\<rparr>) = input_same s t"
  "input_same s (t\<lparr>cl_exit_status := i\<rparr>) = input_same s t" "input_same s (t\<lparr>cl_stdout_bytes := n\<rparr>) = input_same s t"
  "input_same s (t\<lparr>cl_incoming := bs\<rparr>) = input_same s t" "input_same s (t\<lparr>cl_typed := bs\<rparr>) = input_same s t"
  "input_same s (t\<lparr>cl_received := bs\<rparr>) = input_same s t" "input_same s (t\<lparr>cl_printed := bs\<rparr>) = input_same s t"
  "input_same s (t\<lparr>cl_printed_err := bs\<rparr>) = input_same s t" "input_same s (show_text x t) = input_same s t"
  "input_same s (notice x t) = input_same s t"
  by (auto simp: input_same_def undisturbed_def show_text_def notice_def)

lemma input_same_send: "ty \<notin> {16, 19} \<Longrightarrow> input_same s (cl_send ty fs s)"
  by (simp add: input_same_def cl_send_def send_def stdin_side_def undisturbed_def)

lemma input_same_escape: "input_same s t \<Longrightarrow> input_same s (t\<lparr>cl_escapes := cl_escapes t @ x\<rparr>)"
  by (auto simp: input_same_def undisturbed_def)

lemma sends_stdin_side:
  assumes "sends ch ch'" shows "\<exists>new. c_sent ch' = c_sent ch @ new \<and> filter stdin_side new = []"
proof -
  have "filter stdin_side ms = []" if "list_all well_typed ms" for ms
    using that by (auto simp: filter_empty_conv list_all_iff well_typed_def message_kinds_def stdin_side_def)
  with assms show ?thesis by (auto simp: sends_def)
qed

lemma input_same_channels: "sends (cl_channels s) ch \<Longrightarrow> input_same s (s\<lparr>cl_channels := ch\<rparr>)"
  using sends_stdin_side [of "cl_channels s" ch] by (simp add: input_same_def undisturbed_def)

lemma stdin_packet_sent:
  assumes "all_sent old s" "cl_stdin s \<noteq> []" shows "all_sent old (client_stdin_packet s)"
  unfolding all_sent_def
proof
  let ?n = "stdin_packet_len (length (cl_stdin s))" and ?t = "client_stdin_packet s"
  have e: "cl_escapes ?t = cl_escapes s" by (simp add: client_stdin_packet_def Let_def)
  assume "undisturbed ?t"
  then have "input_ok old s" using assms(1) e by (simp add: all_sent_def undisturbed_def)
  then obtain ms pieces where m: "cl_sent s = old @ ms" "concat pieces @ cl_stdin s = cl_accepted s"
    "filter stdin_side ms = map (\<lambda>d. (SSH_CMSG_STDIN_DATA, [F_string d])) pieces"
    using assms(2) unfolding input_ok_def by auto
  let ?ms = "ms @ (SSH_CMSG_STDIN_DATA, [F_string (take ?n (cl_stdin s))]) #
    (if cl_stdin_eof s \<and> drop ?n (cl_stdin s) = [] then [(SSH_CMSG_EOF, [])] else [])"
  have "cl_sent ?t = old @ ?ms" "cl_stdin ?t = drop ?n (cl_stdin s)" "cl_stdin_eof ?t = cl_stdin_eof s" "cl_accepted ?t = cl_accepted s"
    using m(1) by (auto simp: client_stdin_packet_def Let_def cl_send_def send_def simp del: drop_eq_Nil)
  with m(2,3) show "input_ok old ?t"
    unfolding input_ok_def
    by (intro exI [of _ ?ms] exI [of _ "pieces @ [take ?n (cl_stdin s)]"]) (simp add: stdin_side_def del: drop_eq_Nil)
qed

text \<open>While characters are processed, input has not ended.\<close>

definition taking :: "message list \<Rightarrow> client_state \<Rightarrow> bool" where
  "taking old s \<longleftrightarrow> (undisturbed s \<longrightarrow> input_ok old s \<and> \<not> cl_stdin_eof s)"

lemma taking_sent: "taking old s \<Longrightarrow> all_sent old s"
  by (simp add: taking_def all_sent_def)

lemma taking_same: "input_same s s' \<Longrightarrow> taking old s \<Longrightarrow> taking old s'"
  using input_same_ok [of s s' old] by (auto simp: taking_def all_sent_def input_same_def)

lemma taking_updates [simp]:
  "taking old (t\<lparr>cl_escape_pending := b\<rparr>) = taking old t" "taking old (t\<lparr>cl_last_was_cr := b\<rparr>) = taking old t"
  "taking old (t\<lparr>cl_quit := b\<rparr>) = taking old t" "taking old (t\<lparr>cl_typed := bs\<rparr>) = taking old t"
  "taking old (show_text x t) = taking old t" "taking old (notice x t) = taking old t"
  by (simp_all add: taking_def input_ok_def undisturbed_def show_text_def notice_def)

lemma taking_escape: "taking old s \<Longrightarrow> taking old (s\<lparr>cl_escapes := cl_escapes s @ x\<rparr>)"
  by (rule taking_same [OF input_same_escape [OF input_same_refl]])

lemma taking_accept: "taking old s \<Longrightarrow> taking old (accept_input bs s)"
  unfolding taking_def
proof
  assume a: "undisturbed s \<longrightarrow> input_ok old s \<and> \<not> cl_stdin_eof s" "undisturbed (accept_input bs s)"
  then have i: "input_ok old s" "\<not> cl_stdin_eof s" by (auto simp: undisturbed_def)
  from i(1) obtain ms pieces where "cl_sent s = old @ ms" "concat pieces @ cl_stdin s = cl_accepted s"
    "filter stdin_side ms = map (\<lambda>d. (SSH_CMSG_STDIN_DATA, [F_string d])) pieces"
    unfolding input_ok_def using i(2) by auto
  then show "input_ok old (accept_input bs s) \<and> \<not> cl_stdin_eof (accept_input bs s)"
    unfolding input_ok_def using i(2) by (auto simp: accept_input_def intro!: exI [of _ ms] exI [of _ pieces])
qed

lemma taking_end: "taking old s \<Longrightarrow> all_sent old (client_end_of_input s)"
  unfolding all_sent_def
proof
  let ?t = "client_end_of_input s"
  assume a: "taking old s" "undisturbed ?t"
  then have i: "input_ok old s" "\<not> cl_stdin_eof s" by (auto simp: undisturbed_def taking_def client_end_of_input_def Let_def split: if_splits)
  from i obtain ms pieces where m: "cl_sent s = old @ ms" "concat pieces @ cl_stdin s = cl_accepted s"
    "filter stdin_side ms = map (\<lambda>d. (SSH_CMSG_STDIN_DATA, [F_string d])) pieces"
    unfolding input_ok_def by auto
  have "cl_sent ?t = old @ ms @ (if cl_stdin s = [] then [(SSH_CMSG_EOF, [])] else [])"
    "cl_stdin ?t = cl_stdin s" "cl_stdin_eof ?t" "cl_accepted ?t = cl_accepted s"
    using m(1) by (auto simp: client_end_of_input_def Let_def cl_send_def send_def)
  with m show "input_ok old ?t"
    unfolding input_ok_def
    by (intro exI [of _ "ms @ (if cl_stdin s = [] then [(SSH_CMSG_EOF, [])] else [])"] exI [of _ pieces]) (simp add: stdin_side_def)
qed

lemma escape_taking:
  assumes "client_escape cfg env ch buf s = Inr (r, buf', s')" "taking old s" shows "taking old s'"
proof (cases "ch = 26 \<or> ch = 38")
  case True
  have "cl_escapes u = cl_escapes t" if "client_background t = Inr u" for t u
    using that by (auto simp: client_background_def Let_def rbind_eq_Inr split: if_splits)
  with True assms(1) have "ch \<in> set (cl_escapes s')"
    by (auto simp: client_escape_def Let_def rbind_eq_Inr split: if_splits)
  with True show ?thesis by (auto simp: taking_def undisturbed_def)
next
  case False
  with assms show ?thesis
    by (auto simp: client_escape_def client_normal_char_def Let_def taking_accept taking_escape split: if_splits)
qed

lemma char_taking:
  assumes "client_process_char cfg env ch buf s = Inr (r, buf', s')" "taking old s" shows "taking old s'"
  using assms escape_taking [of cfg env ch buf "s\<lparr>cl_escape_pending := False\<rparr>"]
  by (auto simp: client_process_char_def client_normal_char_def taking_accept split: if_splits)

lemma chars_taking: "client_process_chars cfg env i n buf s = Inr s' \<Longrightarrow> taking old s \<Longrightarrow> taking old s'"
proof (induction n arbitrary: i buf s)
  case (Suc n)
  then show ?case using char_taking by (fastforce simp: rbind_eq_Inr split: if_splits)
qed simp

lemma handler_input_same:
  assumes "client_handler f q s = Inr s'" "\<And>ch q q' ch'. f ch q = Inr (q', ch') \<Longrightarrow> sends ch ch'" shows "input_same s s'"
  using assms by (auto simp: client_handler_def rbind_eq_Inr intro: input_same_channels)

text \<open>All packets but three are for the channels.\<close>

lemma other_packet:
  assumes "client_process_packet cfg p s = Inr s'" "p = (t, q)" "t \<notin> {SSH_SMSG_STDOUT_DATA, SSH_SMSG_STDERR_DATA, SSH_SMSG_EXITSTATUS}"
  obtains f where "client_handler f q s = Inr s'" "\<And>ch q q' ch'. f ch q = Inr (q', ch') \<Longrightarrow> sends ch ch'"
proof -
  let ?x = "\<lambda>ch q. rbind (x11_input_open (cc_display cfg) (cc_connect_x cfg) ch q) (\<lambda>(targets, q, ch). Inr (q, ch))"
  let ?p = "\<lambda>ch q. rbind (channel_input_port_open (cc_connect cfg) ch q) (\<lambda>(tried, q, ch). Inr (q, ch))"
  let ?fs = "{?x, ?p, auth_input_open_request (cc_agent cfg), channel_input_open_confirmation, channel_input_open_failure,
    channel_input_data, channel_input_close, channel_input_close_confirmation}"
  have "\<exists>f\<in>?fs. client_handler f q s = Inr s'"
    using assms(1,3) unfolding client_process_packet_def assms(2) prod.case by (simp only: insert_iff split: if_splits) blast+
  then obtain f where f: "f \<in> ?fs" "client_handler f q s = Inr s'" by blast
  have "sends ch ch'" if "f ch q = Inr (q', ch')" for ch q q' ch'
    using f(1) that by (auto simp: rbind_eq_Inr dest: input_sends open_sends)
  with f(2) show ?thesis by (rule that)
qed

lemma process_packet_input_same:
  assumes "client_process_packet cfg p s = Inr s'" shows "input_same s s'"
proof -
  obtain t q where tq: "p = (t, q)" by fastforce
  show ?thesis
  proof (cases "t \<in> {SSH_SMSG_STDOUT_DATA, SSH_SMSG_STDERR_DATA, SSH_SMSG_EXITSTATUS}")
    case True
    have "input_same s (cl_send SSH_CMSG_EXIT_CONFIRMATION [] (s\<lparr>cl_exit_status := i, cl_quit := b\<rparr>))" for i b
      by (rule input_same_trans [OF _ input_same_send]) simp_all
    with True assms show ?thesis by (auto simp: tq client_process_packet_def rbind_eq_Inr)
  next
    case False
    show ?thesis by (rule other_packet [OF assms tq False]) (rule handler_input_same)
  qed
qed

lemma process_packets_input_same: "client_process_buffered_input_packets cfg ps s = Inr s' \<Longrightarrow> input_same s s'"
proof (induction ps arbitrary: s)
  case (Cons p ps)
  show ?case
  proof (cases "cl_quit s")
    case False
    with Cons.prems obtain t where t: "client_process_packet cfg p s = Inr t" "client_process_buffered_input_packets cfg ps t = Inr s'"
      by (auto simp: rbind_eq_Inr)
    show ?thesis by (rule input_same_trans [OF process_packet_input_same [OF t(1)] Cons.IH [OF t(2)]])
  qed (use Cons.prems in simp)
qed simp

lemma window_input_same: "input_same s (client_check_window_change env s)"
proof -
  have "input_same s (cl_send SSH_CMSG_WINDOW_SIZE fs (s\<lparr>cl_winch := b\<rparr>))" for fs b
    by (rule input_same_trans [OF _ input_same_send]) simp_all
  then show ?thesis by (simp add: client_check_window_change_def split: option.split prod.split)
qed

lemma packets_sent:
  assumes "client_packets cfg env s = Inr s'" "all_sent old s" shows "all_sent old s'"
proof -
  from assms(1) obtain t ch where t: "client_process_buffered_input_packets cfg (ce_packets env) s = Inr t"
    "(if ce_room env (cl_sent (client_make_packets_from_stdin_data (ce_room env) t))
      then channel_output_poll (ce_room env) (cl_channels (client_make_packets_from_stdin_data (ce_room env) t))
      else Inr (cl_channels (client_make_packets_from_stdin_data (ce_room env) t))) = Inr ch"
    "s' = client_check_window_change env (client_make_packets_from_stdin_data (ce_room env) t\<lparr>cl_channels := ch\<rparr>)"
    by (auto simp: client_packets_def rbind_eq_Inr Let_def)
  let ?u = "client_make_packets_from_stdin_data (ce_room env) t"
  have "all_sent old t" using assms(2) input_same_ok process_packets_input_same [OF t(1)] by blast
  then have "all_sent old ?u" by (rule make_packets_induct) (rule stdin_packet_sent)
  moreover have "sends (cl_channels ?u) ch" using t(2) handler_sends(3) by (auto split: if_splits)
  ultimately show ?thesis unfolding t(3) using input_same_ok input_same_channels window_input_same by blast
qed

text \<open>Which descriptors the channels want to read, and a run in which standard input is not among them.\<close>

definition channel_reads :: "client_state \<Rightarrow> int list" where
  "channel_reads s = (case channel_prepare_select (cl_channels s) of Inl e \<Rightarrow> [] | Inr (rd, wr, ch) \<Rightarrow> rd)"

fun stdin_apart :: "client_config \<Rightarrow> client_env list \<Rightarrow> client_state \<Rightarrow> bool" where
  "stdin_apart cfg [] s = True"
| "stdin_apart cfg (env # envs) s =
     (case client_packets cfg env s of
        Inl e \<Rightarrow> True
      | Inr t \<Rightarrow> cc_stdin cfg \<notin> set (channel_reads t) \<and> (case client_round cfg env s of Inl e \<Rightarrow> True | Inr s \<Rightarrow> stdin_apart cfg envs s))"

lemma wait_input:
  assumes "client_wait_until_can_do_something cfg env s = Inr (os, t)"
  shows "input_same s t"
    "os_readable os (cc_stdin cfg) \<Longrightarrow> cc_stdin cfg \<notin> set (channel_reads s) \<Longrightarrow> cc_stdin cfg \<noteq> cc_connection_in cfg \<Longrightarrow> \<not> cl_stdin_eof s"
proof -
  from assms obtain rd wr ch where ch: "channel_prepare_select (cl_channels s) = Inr (rd, wr, ch)"
    by (auto simp: client_wait_until_can_do_something_def rbind_eq_Inr)
  have "input_same s (s\<lparr>cl_channels := ch\<rparr>)" by (rule input_same_channels [OF handler_sends(1) [OF ch]])
  then show "input_same s t" using assms ch by (auto simp: client_wait_until_can_do_something_def Let_def split: if_splits)
  show "os_readable os (cc_stdin cfg) \<Longrightarrow> cc_stdin cfg \<notin> set (channel_reads s) \<Longrightarrow> cc_stdin cfg \<noteq> cc_connection_in cfg \<Longrightarrow> \<not> cl_stdin_eof s"
    using assms ch by (auto simp: client_wait_until_can_do_something_def Let_def channel_reads_def client_read_interest_def)
qed

lemma read_stdin_sent:
  assumes "client_read_stdin cfg env os s = Inr s'" "taking old s" shows "all_sent old s'"
proof -
  have t: "taking old (s\<lparr>cl_typed := ty\<rparr>)" "taking old (notice x s)" for ty x using assms(2) by simp_all
  show ?thesis
    using assms(1) taking_end [OF assms(2)] taking_end [OF t(2)] taking_sent [OF taking_accept [OF t(1)]]
      taking_sent [OF assms(2)] taking_sent [OF chars_taking [OF _ t(1)]]
    by (auto simp: client_read_stdin_def Let_def split: read_result.splits if_splits)
qed

lemma transfer_sent:
  assumes "client_transfer cfg env s = Inr s'" "all_sent old s" "cc_stdin cfg \<notin> set (channel_reads s)" "cc_stdin cfg \<noteq> cc_connection_in cfg"
  shows "all_sent old s'"
proof -
  from assms(1) obtain os t where t: "client_wait_until_can_do_something cfg env s = Inr (os, t)"
    "(if cl_quit t then Inr t else rbind (channel_after_select os (cl_channels t)) (\<lambda>ch.
       rbind (client_process_input cfg env os (t\<lparr>cl_channels := ch\<rparr>)) (\<lambda>s. Inr (client_process_output cfg env os s)))) = Inr s'"
    by (auto simp: client_transfer_def rbind_eq_Inr)
  have st: "all_sent old t" using wait_input(1) [OF t(1)] assms(2) input_same_ok by blast
  show ?thesis
  proof (cases "cl_quit t")
    case False
    with t(2) obtain ch u where ch: "channel_after_select os (cl_channels t) = Inr ch"
      "client_process_input cfg env os (t\<lparr>cl_channels := ch\<rparr>) = Inr u" "s' = client_process_output cfg env os u"
      by (auto simp: rbind_eq_Inr)
    have tc: "input_same t (t\<lparr>cl_channels := ch\<rparr>)" by (rule input_same_channels [OF handler_sends(2) [OF ch(1)]])
    obtain r v where v: "client_read_connection cfg env os (t\<lparr>cl_channels := ch\<rparr>) = (r, v)" by fastforce
    then have tv: "input_same t v"
      using tc by (auto simp: client_read_connection_def split: if_splits read_result.splits)
    have "all_sent old u"
    proof (cases "r \<or> \<not> os_readable os (cc_stdin cfg)")
      case True
      then have "u = v" using ch(2) v by (auto simp: client_process_input_def client_read_stdin_def split: if_splits)
      then show ?thesis using st tv input_same_ok by blast
    next
      case False
      then have "\<not> cl_stdin_eof s" using wait_input(2) [OF t(1)] assms(3,4) by blast
      then have "\<not> cl_stdin_eof v" using wait_input(1) [OF t(1)] tv by (simp add: input_same_def)
      then have "taking old v" using st tv input_same_ok [of t v old] by (simp add: taking_def all_sent_def)
      then show ?thesis using False ch(2) v read_stdin_sent by (simp add: client_process_input_def)
    qed
    moreover have "input_same u s'" unfolding ch(3)
      by (auto simp: client_process_output_def client_write_stdout_def client_write_stderr_def Let_def split: prod.split if_splits write_result.split)
    ultimately show ?thesis using input_same_ok by blast
  qed (use t(2) st in simp)
qed

lemma rounds_sent:
  "client_rounds cfg envs s = Inr s' \<Longrightarrow> all_sent old s \<Longrightarrow> stdin_apart cfg envs s \<Longrightarrow> cc_stdin cfg \<noteq> cc_connection_in cfg \<Longrightarrow>
   all_sent old s'"
proof (induction envs arbitrary: s)
  case (Cons env envs)
  show ?case
  proof (cases "cl_quit s")
    case False
    with Cons.prems(1) obtain t where t: "client_round cfg env s = Inr t" "client_rounds cfg envs t = Inr s'"
      by (auto simp: rbind_eq_Inr)
    then obtain u where u: "client_packets cfg env s = Inr u" "(if cl_quit u then Inr u else client_transfer cfg env u) = Inr t"
      by (auto simp: client_round_def rbind_eq_Inr)
    have "all_sent old u" "cc_stdin cfg \<notin> set (channel_reads u)" "stdin_apart cfg envs t"
      using packets_sent [OF u(1)] Cons.prems(2,3) u(1) t(1) by auto
    then show ?thesis using Cons.IH [OF t(2)] Cons.prems(4) u(2) transfer_sent by (auto split: if_splits)
  qed (use Cons.prems in simp)
qed simp

lemma initial_sent:
  assumes "taking old s" "cl_stdin s = []" shows "all_sent old (client_check_initial_eof_on_stdin cfg first s)"
proof -
  have e: "all_sent old (cl_send SSH_CMSG_EOF [] (s\<lparr>cl_stdin_eof := True\<rparr>))"
    using taking_end [OF assms(1)] assms(2) by (simp add: client_end_of_input_def Let_def)
  have t: "taking old (s\<lparr>cl_typed := ty\<rparr>)" for ty using assms(1) by simp
  have "all_sent old (s\<lparr>cl_typed := ty, cl_escape_pending := b\<rparr>)" for ty b using assms(1) by (intro taking_sent) simp
  then show ?thesis using e taking_sent [OF taking_accept [OF t]] taking_sent [OF assms(1)]
    by (simp add: client_check_initial_eof_on_stdin_def Let_def split: read_result.split list.split)
qed

lemma start_sent: "all_sent (c_sent ch) (client_start cfg first ch)"
  unfolding client_start_def by (rule initial_sent) (simp_all add: taking_def input_ok_def)

end
