(* ===== verification/Sessions.thy ===== *)
theory Sessions
  imports ClientRun ChannelSafety
begin

text \<open>
  The two loops joined: the packets that the server's session sends are the packets that the client's session receives. What the
  program wrote on the server is what the user sees.
\<close>

section \<open>What the client takes from the packets\<close>

text \<open>A message as the packet layer delivers it (theory \<open>Peers\<close>): its type and the bytes of its fields.\<close>

definition packet_of :: "message \<Rightarrow> nat \<times> byte list" where
  "packet_of m = (fst m, concat (map field_bytes (snd m)))"

definition confirmations :: "client_state \<Rightarrow> message list" where
  "confirmations s = filter (\<lambda>m. fst m = SSH_CMSG_EXIT_CONFIRMATION) (cl_sent s)"

text \<open>Changes that have nothing to do with standard output and the exit status.\<close>

definition unaffected :: "client_state \<Rightarrow> client_state \<Rightarrow> bool" where
  "unaffected s s' \<longleftrightarrow> cl_received s' = cl_received s \<and> cl_exit_status s' = cl_exit_status s \<and> (cl_quit s \<longrightarrow> cl_quit s') \<and>
     confirmations s' = confirmations s"

lemma unaffected_refl [simp]: "unaffected s s"
  by (simp add: unaffected_def)

lemma unaffected_trans: "unaffected s t \<Longrightarrow> unaffected t u \<Longrightarrow> unaffected s u"
  by (simp add: unaffected_def)

lemma unaffected_updates [simp]:
  "unaffected s (t\<lparr>cl_stdin := bs\<rparr>) = unaffected s t" "unaffected s (t\<lparr>cl_stdout := bs\<rparr>) = unaffected s t" "unaffected s (t\<lparr>cl_stderr := bs\<rparr>) = unaffected s t"
  "unaffected s (t\<lparr>cl_stdin_eof := b\<rparr>) = unaffected s t" "unaffected s (t\<lparr>cl_escape_pending := b\<rparr>) = unaffected s t"
  "unaffected s (t\<lparr>cl_last_was_cr := b\<rparr>) = unaffected s t" "unaffected s (t\<lparr>cl_winch := b\<rparr>) = unaffected s t" "unaffected s (t\<lparr>cl_raw := b\<rparr>) = unaffected s t"
  "unaffected s (t\<lparr>cl_stdout_bytes := n\<rparr>) = unaffected s t" "unaffected s (t\<lparr>cl_incoming := bs\<rparr>) = unaffected s t" "unaffected s (t\<lparr>cl_typed := bs\<rparr>) = unaffected s t"
  "unaffected s (t\<lparr>cl_escapes := bs\<rparr>) = unaffected s t" "unaffected s (t\<lparr>cl_printed := bs\<rparr>) = unaffected s t" "unaffected s (t\<lparr>cl_printed_err := bs\<rparr>) = unaffected s t"
  "unaffected s (show_text x t) = unaffected s t" "unaffected s (notice x t) = unaffected s t" "unaffected s (accept_input bs t) = unaffected s t"
  "unaffected s (client_suspend_self env t) = unaffected s t"
  by (simp_all add: unaffected_def confirmations_def show_text_def notice_def accept_input_def client_suspend_self_def)

lemma unaffected_quit: "unaffected s t \<Longrightarrow> unaffected s (t\<lparr>cl_quit := True\<rparr>)"
  by (simp add: unaffected_def confirmations_def)

lemma unaffected_send [simp]: "ty \<noteq> 33 \<Longrightarrow> unaffected s (cl_send ty fs t) = unaffected s t"
  by (simp add: unaffected_def confirmations_def cl_send_def send_def)

lemma unaffected_channels: "sends (cl_channels t) ch \<Longrightarrow> unaffected s (t\<lparr>cl_channels := ch\<rparr>) = unaffected s t"
proof -
  assume a: "sends (cl_channels t) ch"
  have "filter (\<lambda>m. fst m = 33) ms = []" if "list_all well_typed ms" for ms
    using that by (auto simp: filter_empty_conv list_all_iff well_typed_def message_kinds_def)
  with a show ?thesis by (auto simp: unaffected_def confirmations_def sends_def)
qed

lemma make_packets_unaffected: "unaffected s (client_make_packets_from_stdin_data r s)"
  by (rule make_packets_induct [of "unaffected s"]) (simp_all add: client_stdin_packet_def Let_def)

lemma window_unaffected [simp]: "unaffected s (client_check_window_change env t) = unaffected s t"
  by (simp add: client_check_window_change_def split: option.split prod.split)

lemma background_unaffected: "client_background s = Inr s' \<Longrightarrow> unaffected s s'"
  by (auto simp: client_background_def Let_def rbind_eq_Inr unaffected_channels dest: handler_sends(4) split: if_splits)

lemma escape_unaffected:
  assumes "client_escape cfg env ch buf s = Inr (r, buf', s')" shows "unaffected s s'"
proof -
  have "unaffected s s'" if "client_background (s\<lparr>cl_escapes := x\<rparr>) = Inr s'" for x
    by (rule unaffected_trans [OF _ background_unaffected [OF that]]) simp
  with assms show ?thesis
    by (auto simp: client_escape_def client_normal_char_def Let_def rbind_eq_Inr unaffected_quit split: if_splits)
qed

lemma char_unaffected:
  assumes "client_process_char cfg env ch buf s = Inr (r, buf', s')" shows "unaffected s s'"
proof -
  have "unaffected s s'" if "client_escape cfg env ch buf (s\<lparr>cl_escape_pending := b\<rparr>) = Inr (r, buf', s')" for b
    by (rule unaffected_trans [OF _ escape_unaffected [OF that]]) simp
  with assms show ?thesis by (auto simp: client_process_char_def client_normal_char_def split: if_splits)
qed

lemma chars_unaffected: "client_process_chars cfg env i n buf s = Inr s' \<Longrightarrow> unaffected s s'"
proof (induction n arbitrary: i buf s)
  case (Suc n)
  then obtain r buf' t where t: "client_process_char cfg env (buf ! i) buf s = Inr (r, buf', t)"
    "(if r then Inr t else client_process_chars cfg env (Suc i) n buf' t) = Inr s'"
    by (auto simp: rbind_eq_Inr)
  then show ?case using char_unaffected [OF t(1)] Suc.IH unaffected_trans by (cases r) auto
qed simp

lemma end_of_input_unaffected [simp]: "unaffected s (client_end_of_input t) = unaffected s t"
  by (simp add: client_end_of_input_def Let_def)

lemma read_stdin_unaffected:
  assumes "client_read_stdin cfg env os s = Inr s'" shows "unaffected s s'"
proof -
  have "unaffected s s'" if "client_process_chars cfg env 0 n bs (s\<lparr>cl_typed := x\<rparr>) = Inr s'" for n bs x
    by (rule unaffected_trans [OF _ chars_unaffected [OF that]]) simp
  with assms show ?thesis by (auto simp: client_read_stdin_def Let_def split: read_result.splits if_splits)
qed

lemma process_io_unaffected:
  assumes "client_process_input cfg env os s = Inr t" shows "unaffected s (client_process_output cfg env os t)"
proof -
  obtain r u where u: "client_read_connection cfg env os s = (r, u)" by fastforce
  have "unaffected s u" using u by (auto simp: client_read_connection_def unaffected_quit split: if_splits read_result.splits)
  moreover have "unaffected u t" using assms u read_stdin_unaffected by (auto simp: client_process_input_def split: if_splits)
  ultimately have "unaffected s t" by (rule unaffected_trans)
  then show ?thesis
    by (auto simp: client_process_output_def client_write_stdout_def client_write_stderr_def Let_def unaffected_quit
        split: prod.split if_splits write_result.split)
qed

lemma transfer_unaffected:
  assumes "client_transfer cfg env s = Inr s'" shows "unaffected s s'"
proof -
  from assms obtain os t where t: "client_wait_until_can_do_something cfg env s = Inr (os, t)"
    "(if cl_quit t then Inr t else rbind (channel_after_select os (cl_channels t)) (\<lambda>ch.
       rbind (client_process_input cfg env os (t\<lparr>cl_channels := ch\<rparr>)) (\<lambda>s. Inr (client_process_output cfg env os s)))) = Inr s'"
    by (auto simp: client_transfer_def rbind_eq_Inr)
  have w: "unaffected s t"
    using t(1) by (auto simp: client_wait_until_can_do_something_def Let_def rbind_eq_Inr unaffected_quit unaffected_channels
        dest: handler_sends(1) split: if_splits)
  show ?thesis
  proof (cases "cl_quit t")
    case False
    with t(2) obtain ch u where ch: "channel_after_select os (cl_channels t) = Inr ch"
      "client_process_input cfg env os (t\<lparr>cl_channels := ch\<rparr>) = Inr u" "s' = client_process_output cfg env os u"
      by (auto simp: rbind_eq_Inr)
    have "unaffected t (t\<lparr>cl_channels := ch\<rparr>)" by (simp add: unaffected_channels [OF handler_sends(2) [OF ch(1)]])
    then show ?thesis unfolding ch(3) using w process_io_unaffected [OF ch(2)] unaffected_trans by blast
  qed (use t(2) w in simp)
qed

section \<open>The packets of a session\<close>

text \<open>The messages \<open>ms\<close> were taken between two states of the client.\<close>

definition took :: "message list \<Rightarrow> client_state \<Rightarrow> client_state \<Rightarrow> bool" where
  "took ms s s' \<longleftrightarrow> cl_received s' = cl_received s @ data_of SSH_SMSG_STDOUT_DATA ms \<and> (cl_quit s \<longrightarrow> cl_quit s') \<and>
     (list_all session_message ms \<and> confirmations s' = confirmations s \<or>
      (\<exists>ms' n. ms = ms' @ [(SSH_SMSG_EXITSTATUS, [F_int n])] \<and> cl_exit_status s' = sint n \<and> cl_quit s'))"

definition exit_message :: "message \<Rightarrow> bool" where
  "exit_message m \<longleftrightarrow> (\<exists>n. m = (SSH_SMSG_EXITSTATUS, [F_int n]))"

lemma unaffected_took: "unaffected s s' \<Longrightarrow> took [] s s'"
  by (simp add: unaffected_def took_def)

lemma took_unaffected: "took ms s t \<Longrightarrow> unaffected t u \<Longrightarrow> took ms s u"
  by (auto simp: took_def unaffected_def)

lemma took_append:
  assumes "took ms s t" "\<not> cl_quit t" "took ns t u" shows "took (ms @ ns) s u"
proof -
  have f: "list_all session_message ms" "confirmations t = confirmations s" "\<not> cl_quit s" using assms(1,2) by (auto simp: took_def)
  have "cl_received u = cl_received s @ data_of SSH_SMSG_STDOUT_DATA (ms @ ns)" using assms(1,3) by (simp add: took_def)
  with f assms(3) show ?thesis unfolding took_def by auto
qed

lemma packet_took:
  assumes "client_process_packet cfg (packet_of m) s = Inr s'" "session_message m \<or> exit_message m" shows "took [m] s s'"
proof -
  obtain t fs where m: "m = (t, fs)" by fastforce
  let ?q = "concat (map field_bytes fs)"
  consider (out) d where "t = SSH_SMSG_STDOUT_DATA" "fs = [F_string d]" "length d \<le> 32768"
    | (err) d where "t = SSH_SMSG_STDERR_DATA" "fs = [F_string d]" "length d \<le> 32768"
    | (exit) n where "t = SSH_SMSG_EXITSTATUS" "fs = [F_int n]" | (other) "aside m"
    using assms(2) by (auto simp: m session_message_def exit_message_def)
  then show ?thesis
  proof cases
    case out
    have "bytes_get_string ?q = Inr (d, [])" using out bytes_get_string_field [of d "[]"] by simp
    with out assms show ?thesis
      by (auto simp: m packet_of_def client_process_packet_def took_def confirmations_def session_message_def)
  next
    case err
    have "bytes_get_string ?q = Inr (d, [])" using err bytes_get_string_field [of d "[]"] by simp
    with err assms show ?thesis
      by (auto simp: m packet_of_def client_process_packet_def took_def confirmations_def session_message_def show_text_def)
  next
    case exit
    have "bytes_get_int ?q = Inr (n, [])" using exit bytes_get_int_field [of n "[]"] by simp
    with exit assms(1) show ?thesis
      by (auto simp: m packet_of_def client_process_packet_def took_def cl_send_def)
  next
    case other
    have t: "t \<notin> {SSH_SMSG_STDOUT_DATA, SSH_SMSG_STDERR_DATA, SSH_SMSG_EXITSTATUS}" using other by (simp add: m aside_def)
    have "unaffected s s'"
    proof (rule other_packet [OF assms(1) _ t])
      show "packet_of m = (t, ?q)" by (simp add: m packet_of_def)
      fix f assume f: "client_handler f ?q s = Inr s'" "\<And>ch q q' ch'. f ch q = Inr (q', ch') \<Longrightarrow> sends ch ch'"
      then show "unaffected s s'" by (auto simp: client_handler_def rbind_eq_Inr unaffected_channels)
    qed
    moreover have "list_all session_message [m]" "data_of SSH_SMSG_STDOUT_DATA [m] = []"
      using other aside_data [of "[m]"] by (simp_all add: session_message_def)
    ultimately show ?thesis by (auto simp: took_def unaffected_def)
  qed
qed

lemma process_packets_took:
  "client_process_buffered_input_packets cfg (map packet_of ms) s = Inr s' \<Longrightarrow> list_all (\<lambda>m. session_message m \<or> exit_message m) ms \<Longrightarrow>
   \<exists>ms1 ms2. ms = ms1 @ ms2 \<and> took ms1 s s' \<and> (ms2 \<noteq> [] \<longrightarrow> cl_quit s')"
proof (induction ms arbitrary: s)
  case Nil
  then show ?case by (auto intro: unaffected_took)
next
  case (Cons m ms)
  show ?case
  proof (cases "cl_quit s")
    case True
    then show ?thesis using Cons.prems(1) by (intro exI [of _ "[]"] exI [of _ "m # ms"]) (simp add: unaffected_took)
  next
    case False
    with Cons.prems(1) obtain t where t: "client_process_packet cfg (packet_of m) s = Inr t"
      "client_process_buffered_input_packets cfg (map packet_of ms) t = Inr s'" by (auto simp: rbind_eq_Inr)
    have m: "took [m] s t" using packet_took [OF t(1)] Cons.prems(2) by simp
    show ?thesis
    proof (cases "cl_quit t")
      case True
      then have "s' = t" using t(2) by (cases ms) simp_all
      with True m show ?thesis by (intro exI [of _ "[m]"] exI [of _ ms]) simp
    next
      case q: False
      from Cons.IH [OF t(2)] Cons.prems(2) obtain ms1 ms2 where
        "ms = ms1 @ ms2" "took ms1 t s'" "ms2 \<noteq> [] \<longrightarrow> cl_quit s'" by auto
      then show ?thesis using took_append [OF m q] by (intro exI [of _ "m # ms1"] exI [of _ ms2]) simp
    qed
  qed
qed

lemma round_took:
  assumes "client_round cfg env s = Inr s'" "ce_packets env = map packet_of ms" "list_all (\<lambda>m. session_message m \<or> exit_message m) ms"
  shows "\<exists>ms1 ms2. ms = ms1 @ ms2 \<and> took ms1 s s' \<and> (ms2 \<noteq> [] \<longrightarrow> cl_quit s')"
proof -
  from assms(1) obtain u where u: "client_packets cfg env s = Inr u" "(if cl_quit u then Inr u else client_transfer cfg env u) = Inr s'"
    by (auto simp: client_round_def rbind_eq_Inr)
  from u(1) obtain t ch where t: "client_process_buffered_input_packets cfg (ce_packets env) s = Inr t"
    "(if ce_room env (cl_sent (client_make_packets_from_stdin_data (ce_room env) t))
      then channel_output_poll (ce_room env) (cl_channels (client_make_packets_from_stdin_data (ce_room env) t))
      else Inr (cl_channels (client_make_packets_from_stdin_data (ce_room env) t))) = Inr ch"
    "u = client_check_window_change env (client_make_packets_from_stdin_data (ce_room env) t\<lparr>cl_channels := ch\<rparr>)"
    by (auto simp: client_packets_def rbind_eq_Inr Let_def)
  let ?v = "client_make_packets_from_stdin_data (ce_room env) t"
  have "sends (cl_channels ?v) ch" using t(2) handler_sends(3) by (auto split: if_splits)
  then have "unaffected t u" unfolding t(3) by (simp add: unaffected_channels make_packets_unaffected)
  moreover have "unaffected u s'" using u(2) transfer_unaffected by (auto split: if_splits)
  ultimately have "unaffected t s'" by (rule unaffected_trans)
  moreover from process_packets_took [OF t(1) [unfolded assms(2)] assms(3)] obtain ms1 ms2 where
    "ms = ms1 @ ms2" "took ms1 s t" "ms2 \<noteq> [] \<longrightarrow> cl_quit t" by blast
  ultimately show ?thesis using took_unaffected by (intro exI [of _ ms1] exI [of _ ms2]) (auto simp: unaffected_def)
qed

lemma rounds_took:
  "client_rounds cfg envs s = Inr s' \<Longrightarrow> concat (map ce_packets envs) = map packet_of ms \<Longrightarrow>
   list_all (\<lambda>m. session_message m \<or> exit_message m) ms \<Longrightarrow> \<exists>ms1 ms2. ms = ms1 @ ms2 \<and> took ms1 s s'"
proof (induction envs arbitrary: s ms)
  case Nil
  then show ?case by (auto intro: unaffected_took)
next
  case (Cons env envs)
  from Cons.prems(2) obtain m1 m2 where m: "ms = m1 @ m2" "ce_packets env = map packet_of m1" "concat (map ce_packets envs) = map packet_of m2"
    by (auto simp: append_eq_map_conv)
  show ?case
  proof (cases "cl_quit s")
    case True
    then show ?thesis using Cons.prems(1) by (intro exI [of _ "[]"] exI [of _ ms]) (simp add: unaffected_took)
  next
    case False
    with Cons.prems(1) obtain t where t: "client_round cfg env s = Inr t" "client_rounds cfg envs t = Inr s'" by (auto simp: rbind_eq_Inr)
    from round_took [OF t(1) m(2)] Cons.prems(3) m(1) obtain a b where a: "m1 = a @ b" "took a s t" "b \<noteq> [] \<longrightarrow> cl_quit t" by auto
    show ?thesis
    proof (cases "cl_quit t")
      case True
      then have "s' = t" using t(2) by (cases envs) simp_all
      then show ?thesis using a m(1) by (intro exI [of _ a] exI [of _ "b @ m2"]) simp
    next
      case q: False
      from Cons.IH [OF t(2) m(3)] Cons.prems(3) m(1) obtain c d where "m2 = c @ d" "took c t s'" by auto
      then show ?thesis using a q m(1) took_append [OF a(2) q] by (intro exI [of _ "a @ c"] exI [of _ d]) simp
    qed
  qed
qed

lemma flush_complete: "flush_buffer ws bs = Inr out \<Longrightarrow> list_all (\<lambda>w. \<exists>n>0. w = Written n) ws \<Longrightarrow> out = bs"
  by (induction ws bs arbitrary: out rule: flush_buffer.induct) (auto simp: rbind_eq_Inr split: if_splits)

lemma finish_unaffected:
  assumes "client_finish cfg ws_out ws_err s = Inr s'" "all_shown s" "26 \<notin> set (cl_escapes s')" "list_all (\<lambda>w. \<exists>n>0. w = Written n) ws_out"
  shows "unaffected s s' \<and> cl_printed s' = cl_received s'"
proof -
  from assms(1) obtain ch where ch: "channel_stop_listening (cl_channels s) = Inr ch" by (auto simp: client_finish_def rbind_eq_Inr)
  have "unaffected s (s\<lparr>cl_channels := ch\<rparr>)" by (simp add: unaffected_channels [OF handler_sends(4) [OF ch]])
  then have "unaffected s s'" using assms(1) ch by (auto simp: client_finish_def rbind_eq_Inr Let_def split: if_splits)
  moreover have "cl_escapes s' = cl_escapes s" "cl_printed s' = cl_printed s @ cl_stdout s"
    using assms(1) ch flush_complete assms(4)
    by (auto simp: client_finish_def rbind_eq_Inr Let_def notice_def show_text_def split: if_splits)
  ultimately show ?thesis using assms(2,3) by (simp add: all_shown_def shown_ok_def unaffected_def)
qed

lemma confirmations_start:
  assumes "list_all well_typed (c_sent ch)" shows "confirmations (client_start cfg first ch) = []"
proof -
  have "filter (\<lambda>m. fst m = 33) (c_sent ch) = []"
    using assms by (auto simp: filter_empty_conv list_all_iff well_typed_def message_kinds_def)
  then show ?thesis
    by (auto simp: client_start_def client_check_initial_eof_on_stdin_def confirmations_def Let_def cl_send_def send_def accept_input_def
        split: read_result.split list.split)
qed

lemma start_received: "cl_received (client_start cfg first ch) = []"
  by (auto simp: client_start_def client_check_initial_eof_on_stdin_def Let_def cl_send_def accept_input_def split: read_result.split list.split)

lemma session_message_no_exit: "session_message m \<Longrightarrow> \<not> exit_message m"
  by (auto simp: session_message_def aside_def exit_message_def)

text \<open>A session of the client that received the packets of a whole server session and confirmed its end.\<close>

lemma client_loop_prints:
  assumes "client_loop cfg first ch cenvs ws_out ws_err = Inr (Some c)"
    and "list_all well_typed (c_sent ch)" and "concat (map ce_packets cenvs) = map packet_of (ms @ [(SSH_SMSG_EXITSTATUS, [F_int n])])"
    and "list_all session_message ms" and "SSH_CMSG_EXIT_CONFIRMATION \<in> fst ` set (cl_sent c)"
    and "26 \<notin> set (cl_escapes c)" and "list_all (\<lambda>w. \<exists>n>0. w = Written n) ws_out"
  shows "cl_printed c = data_of SSH_SMSG_STDOUT_DATA ms \<and> cl_exit_status c = sint n"
proof -
  let ?s = "client_start cfg first ch"
  let ?ms = "ms @ [(SSH_SMSG_EXITSTATUS, [F_int n])]"
  from assms(1) obtain s where s: "client_rounds cfg cenvs ?s = Inr s" "client_finish cfg ws_out ws_err s = Inr c"
    by (auto simp: client_loop_def rbind_eq_Inr split: if_splits)
  have "list_all (\<lambda>m. session_message m \<or> exit_message m) ?ms" using assms(4) by (auto simp: list_all_iff exit_message_def)
  from rounds_took [OF s(1) assms(3) this] obtain ms1 ms2 where m: "?ms = ms1 @ ms2" "took ms1 ?s s" by blast
  have f: "unaffected s c" "cl_printed c = cl_received c"
    using finish_unaffected [OF s(2) rounds_shown [OF s(1) start_shown] assms(6,7)] by simp_all
  have "confirmations c \<noteq> []" using assms(5) by (force simp: confirmations_def filter_empty_conv)
  then have "confirmations s \<noteq> confirmations ?s" using f(1) confirmations_start [OF assms(2), of cfg first] by (simp add: unaffected_def)
  then obtain ms' k where k: "ms1 = ms' @ [(SSH_SMSG_EXITSTATUS, [F_int k])]" "cl_exit_status s = sint k"
    using m(2) by (auto simp: took_def)
  have "ms2 = []"
  proof (rule ccontr)
    assume "ms2 \<noteq> []"
    then have "ms = ms1 @ butlast ms2" using m(1) by (metis append_butlast_last_id butlast_append butlast_snoc)
    then have "session_message (SSH_SMSG_EXITSTATUS, [F_int k])" using assms(4) k(1) by simp
    then show False using session_message_no_exit by (auto simp: exit_message_def)
  qed
  with m(1) k(1) have "ms' = ms" "k = n" by simp_all
  then show ?thesis using m(2) k f start_received by (simp add: took_def unaffected_def)
qed

lemma server_loop_confirmed:
  assumes "server_loop cfg fdin fdout fderr now ch envs waited types = Inr (Some s)" shows "SSH_CMSG_EXIT_CONFIRMATION \<in> set types"
proof -
  from assms obtain t where t: "send_exit_status waited types t = Inr s"
    by (auto simp: server_loop_def server_finish_def rbind_eq_Inr Let_def split: if_splits)
  have "SSH_CMSG_EXIT_CONFIRMATION \<in> set types" if "(case w of None \<Rightarrow> Inl (Disconnect ''wait'')
      | Some (Signaled n) \<Rightarrow> Inl (Disconnect ''Command terminated on signal'')
      | Some Other_status \<Rightarrow> Inl (Disconnect ''wait returned status'')
      | Some (Exited n) \<Rightarrow>
          if SSH_CMSG_EXIT_CONFIRMATION \<in> set types then Inr (sv_send SSH_SMSG_EXITSTATUS [F_int n] t)
          else Inl (Diverges ''packet_read'')) = Inr s" for w
    using that by (simp split: option.splits wait_status.splits if_splits)
  then show ?thesis using t unfolding send_exit_status_def by blast
qed

lemma reachable_well_typed: "channels_reachable ch \<Longrightarrow> list_all well_typed (c_sent ch)"
proof -
  assume "channels_reachable ch"
  then have "sent_ok ch"
  proof (induction rule: channels_reachable.induct)
    case (start max_packet interactive)
    show ?case by (simp add: sent_ok_def channel_statics_def)
  next
    case (step s t)
    then show ?case using channel_step_sent_ok by blast
  qed
  then show ?thesis by (simp add: sent_ok_def)
qed

section \<open>Typing\<close>

text \<open>Text that is typed in several reads, and text in which the escape character is doubled at the beginning of each line.\<close>

fun type_in :: "client_config \<Rightarrow> client_env \<Rightarrow> byte list list \<Rightarrow> client_state \<Rightarrow> client_state res" where
  "type_in cfg env [] s = Inr s"
| "type_in cfg env (bs # bss) s = rbind (client_process_chars cfg env 0 (length bs) bs s) (type_in cfg env bss)"

fun protect :: "byte \<Rightarrow> bool \<Rightarrow> byte list \<Rightarrow> byte list" where
  "protect esc cr [] = []"
| "protect esc cr (c # cs) = (if cr \<and> c = esc then [c, c] else [c]) @ protect esc (c = 13 \<or> c = 10) cs"

text \<open>How such text is read: whether the escape character is pending, whether a line begins, and what arrives.\<close>

fun unprotect :: "byte \<Rightarrow> bool \<Rightarrow> bool \<Rightarrow> byte list \<Rightarrow> (bool \<times> bool \<times> byte list) option" where
  "unprotect esc pending cr [] = Some (pending, cr, [])"
| "unprotect esc pending cr (c # cs) =
     (if pending \<and> c \<noteq> esc then None
      else if \<not> pending \<and> cr \<and> c = esc then unprotect esc True cr cs
      else map_option (\<lambda>(p, r, out). (p, r, c # out)) (unprotect esc False (c = 13 \<or> c = 10) cs))"

lemma unprotect_protect: "\<exists>cr'. unprotect esc False cr (protect esc cr t) = Some (False, cr', t)"
proof (induction t arbitrary: cr)
  case (Cons c t)
  from Cons.IH [of "c = 13 \<or> c = 10"] obtain cr' where
    "unprotect esc False (c = 13 \<or> c = 10) (protect esc (c = 13 \<or> c = 10) t) = Some (False, cr', t)" by blast
  then show ?case by auto
qed simp

lemma unprotect_append:
  "unprotect esc p cr (a @ b) = (case unprotect esc p cr a of None \<Rightarrow> None
     | Some (p', cr', out) \<Rightarrow> map_option (\<lambda>(q, r, out'). (q, r, out @ out')) (unprotect esc p' cr' b))"
proof (induction a arbitrary: p cr)
  case Nil
  show ?case by (cases "unprotect esc p cr b") auto
next
  case (Cons c a)
  then show ?case by (auto split: option.splits simp: option.map_comp comp_def case_prod_unfold)
qed

definition typed_result :: "bool \<Rightarrow> bool \<Rightarrow> byte list \<Rightarrow> client_state \<Rightarrow> client_state" where
  "typed_result p cr out s = s\<lparr>cl_escape_pending := p, cl_last_was_cr := cr, cl_stdin := cl_stdin s @ out,
     cl_stdin_bytes := cl_stdin_bytes s + length out, cl_accepted := cl_accepted s @ out\<rparr>"

lemma drop_overwrite: "drop (Suc i) (overwrite [c] buf) = drop (Suc i) buf"
  by (cases buf) (simp_all add: overwrite_def)

lemma length_overwrite [simp]: "length (overwrite t buf) = length buf"
  by (simp add: overwrite_def)

lemma process_chars_unprotect:
  assumes "cc_escape_char cfg = uint esc" "esc \<notin> {46, 26, 38, 63, 35}"
  shows "i + n = length buf \<Longrightarrow> unprotect esc (cl_escape_pending s) (cl_last_was_cr s) (drop i buf) = Some (p, cr, out) \<Longrightarrow>
    client_process_chars cfg env i n buf s = Inr (typed_result p cr out s)"
proof (induction n arbitrary: i buf s out)
  case 0
  then show ?case by (auto simp: typed_result_def)
next
  case (Suc n)
  then obtain c where c: "drop i buf = c # drop (Suc i) buf" "buf ! i = c" by (metis Cons_nth_drop_Suc add_Suc_right less_add_Suc1)
  have u: "uint c = cc_escape_char cfg \<longleftrightarrow> c = esc" using assms(1) by (simp add: word_uint_eq_iff)
  let ?s = "accept_input [c] (s\<lparr>cl_escape_pending := False, cl_last_was_cr := (c = 13 \<or> c = 10)\<rparr>)"
  show ?case
  proof (cases "\<not> cl_escape_pending s \<and> cl_last_was_cr s \<and> c = esc")
    case True
    then have "client_process_char cfg env c buf s = Inr (False, buf, s\<lparr>cl_escape_pending := True\<rparr>)"
      using u by (simp add: client_process_char_def)
    moreover have "client_process_chars cfg env (Suc i) n buf (s\<lparr>cl_escape_pending := True\<rparr>) = Inr (typed_result p cr out (s\<lparr>cl_escape_pending := True\<rparr>))"
      using Suc.prems True c by (intro Suc.IH) simp_all
    ultimately show ?thesis using c by (simp add: typed_result_def)
  next
    case False
    then have o: "\<not> (cl_escape_pending s \<and> c \<noteq> esc)" "\<exists>out'. out = c # out' \<and> unprotect esc False (c = 13 \<or> c = 10) (drop (Suc i) buf) = Some (p, cr, out')"
      using Suc.prems(2) c(1) by (auto split: if_splits)
    then obtain out' where out': "out = c # out'" "unprotect esc False (c = 13 \<or> c = 10) (drop (Suc i) buf) = Some (p, cr, out')" by blast
    have "client_process_char cfg env c buf s = Inr (False, overwrite [c] buf, ?s)"
      using False o(1) u assms(2) by (auto simp: client_process_char_def client_escape_def client_normal_char_def Let_def accept_input_def)
    moreover have "client_process_chars cfg env (Suc i) n (overwrite [c] buf) ?s = Inr (typed_result p cr out' ?s)"
      using Suc.prems(1) out'(2) by (intro Suc.IH) (simp_all add: drop_overwrite accept_input_def)
    ultimately show ?thesis using c out'(1) by (simp add: typed_result_def accept_input_def)
  qed
qed

lemma type_in_unprotect:
  assumes "cc_escape_char cfg = uint esc" "esc \<notin> {46, 26, 38, 63, 35}"
  shows "unprotect esc (cl_escape_pending s) (cl_last_was_cr s) (concat bss) = Some (p, cr, out) \<Longrightarrow>
    type_in cfg env bss s = Inr (typed_result p cr out s)"
proof (induction bss arbitrary: s out)
  case Nil
  then show ?case by (auto simp: typed_result_def)
next
  case (Cons bs bss)
  then obtain p' cr' a b where a: "unprotect esc (cl_escape_pending s) (cl_last_was_cr s) bs = Some (p', cr', a)"
    "unprotect esc p' cr' (concat bss) = Some (p, cr, b)" "out = a @ b"
    by (auto simp: unprotect_append split: option.splits)
  let ?t = "typed_result p' cr' a s"
  have "client_process_chars cfg env 0 (length bs) bs s = Inr ?t" using a(1) by (intro process_chars_unprotect [OF assms]) simp_all
  moreover have "type_in cfg env bss ?t = Inr (typed_result p cr b ?t)" using a(2) by (intro Cons.IH) (simp add: typed_result_def)
  ultimately show ?case using a(3) by (simp add: typed_result_def)
qed

section \<open>Examples\<close>

definition demo_client :: client_config where
  "demo_client = \<lparr>cc_connection_in = 3, cc_connection_out = 4, cc_stdin = 0, cc_stdout = 1, cc_stderr = 2, cc_escape_char = 126, cc_have_pty = False,
     cc_quiet = True, cc_stdin_null = False, cc_host = [], cc_display = None, cc_connect_x = (\<lambda>_. None), cc_connect = (\<lambda>_ _. None), cc_agent = None\<rparr>"

text \<open>A round in which some packets are there and some input can be read.\<close>

definition demo_client_env :: "(nat \<times> byte list) list \<Rightarrow> byte list \<Rightarrow> client_env" where
  "demo_client_env ps bs = \<lparr>ce_packets = ps, ce_room = (\<lambda>_. True), ce_pending = (\<lambda>_. False), ce_winch = False, ce_size = None, ce_select = Selected,
     ce_os = \<lparr>os_readable = (\<lambda>fd. fd = 0), os_writable = (\<lambda>_. False), os_accept = (\<lambda>_. Accept_failed), os_read = (\<lambda>_. Data bs), os_write = (\<lambda>_. Write_again)\<rparr>,
     ce_error = [], ce_flush_out = 0, ce_flush_err = 0, ce_resized = False\<rparr>"

lemma make_packets_none: "cl_stdin s = [] \<Longrightarrow> client_make_packets_from_stdin_data r s = s"
  by (subst client_make_packets_from_stdin_data.simps) simp

lemma make_packets_some:
  "cl_stdin s \<noteq> [] \<Longrightarrow> r (cl_sent s) \<Longrightarrow> client_make_packets_from_stdin_data r s = client_make_packets_from_stdin_data r (client_stdin_packet s)"
  by (subst client_make_packets_from_stdin_data.simps) simp

lemmas client_eval = client_loop_def client_start_def client_check_initial_eof_on_stdin_def client_round_def client_packets_def client_transfer_def
  client_process_packet_def make_packets_none make_packets_some client_stdin_packet_def stdin_packet_len_def client_check_window_change_def
  client_wait_until_can_do_something_def client_read_interest_def client_write_interest_def client_process_input_def client_read_connection_def
  client_read_stdin_def client_end_of_input_def client_process_char_def client_normal_char_def client_process_output_def client_write_stdout_def
  client_write_stderr_def client_finish_def overwrite_def accept_input_def cl_send_def send_def show_text_def Let_def
  channel_prepare_select_def channel_after_select_def channel_output_poll_def channel_stop_listening_def channel_statics_def
  channel_not_very_much_buffered_data_def demo_client_def demo_client_env_def

text \<open>The user types two characters and then the end of input.\<close>

abbreviation demo_typing :: "client_env list" where
  "demo_typing \<equiv> [demo_client_env [] [97, 98], demo_client_env [] []]"

lemma demo_client_rounds:
  "\<exists>s. client_rounds demo_client demo_typing (client_start demo_client Read_again demo_channels) = Inr s \<and>
     cl_escapes s = [] \<and> cl_accepted s = [97, 98] \<and> cl_stdin s = [] \<and> cl_stdin_eof s"
  by (simp add: client_eval)

lemma demo_apart: "stdin_apart demo_client demo_typing (client_start demo_client Read_again demo_channels)"
  by (simp add: client_eval channel_reads_def)

text \<open>The client's side of the server's example session.\<close>

abbreviation demo_server_envs :: "loop_env list" where
  "demo_server_envs \<equiv> [demo_env [104, 105] None, demo_env [] (Some (Exited 0)), demo_env [] None]"

abbreviation demo_sent :: "message list" where
  "demo_sent \<equiv> [(SSH_SMSG_STDOUT_DATA, [F_string [104, 105]]), (SSH_SMSG_EXITSTATUS, [F_int 0])]"

lemma demo_server_sent:
  "\<exists>s. server_loop demo_config 5 6 (-1) 0 demo_channels demo_server_envs None [33] = Inr (Some s) \<and> sv_read_out s = [104, 105] \<and> sv_sent s = demo_sent"
  by (simp add: server_loop_def server_start_def server_round_def make_output_def transfer_def demo_env_def demo_config_def
      close_stdin_def make_packets_from_stderr_data.simps make_packets_from_stdout_data.simps hold_back_def finished_def show_waiting_def
      wait_until_can_do_something_def read_interest_def write_interest_def check_idle_def process_input_def read_connection_def read_stdout_def read_stderr_def
      process_output_def server_finish_def drain_output_def close_descriptors_def send_exit_status_def sv_send_def sv_event_def send_def event_def packet_len_def
      channel_prepare_select_def channel_after_select_def channel_output_poll_def channel_stop_listening_def channel_still_open_def channel_statics_def
      channel_not_very_much_buffered_data_def Let_def)

lemma demo_client_session:
  "\<exists>c. client_loop demo_client Read_again demo_channels [demo_client_env (map packet_of demo_sent) []] [Written 2] [] = Inr (Some c) \<and>
     cl_escapes c = [] \<and> SSH_CMSG_EXIT_CONFIRMATION \<in> fst ` set (cl_sent c)"
proof -
  have "bytes_get_string (concat (map field_bytes [F_string [104, 105]])) = Inr ([104, 105], [])"
    "bytes_get_int (concat (map field_bytes [F_int 0])) = Inr (0, [])"
    using bytes_get_string_field [of "[104, 105]" "[]"] bytes_get_int_field [of 0 "[]"] by simp_all
  then show ?thesis by (simp add: client_eval packet_of_def)
qed

section \<open>Properties\<close>



text \<open>C13: At every moment of a client's session nothing is lost, doubled or out of order: what was written to the user's two output
  streams and what is buffered for them is what came in for them; and the input accepted from the user is what was sent in
  data packets and what is buffered, with one end of file packet, sent after all data as soon as input has ended
  and nothing is buffered (as long as the user has not suspended the client or put it into the background).\<close>

theorem client_session_streams:
  assumes "client_rounds cfg envs (client_start cfg first ch) = Inr s"
    and "26 \<notin> set (cl_escapes s)" and "38 \<notin> set (cl_escapes s)"
    and "stdin_apart cfg envs (client_start cfg first ch)" and "cc_stdin cfg \<noteq> cc_connection_in cfg"
  shows "cl_printed s @ cl_stdout s = cl_received s \<and> cl_printed_err s @ cl_stderr s = cl_notices s \<and>
    (\<exists>ms pieces. cl_sent s = c_sent ch @ ms \<and> concat pieces @ cl_stdin s = cl_accepted s \<and>
       filter stdin_side ms = map (\<lambda>d. (SSH_CMSG_STDIN_DATA, [F_string d])) pieces @
         (if cl_stdin_eof s \<and> cl_stdin s = [] then [(SSH_CMSG_EOF, [])] else []))"
proof -
  have "all_shown s" using rounds_shown [OF assms(1)] by simp
  moreover have "all_sent (c_sent ch) s" by (rule rounds_sent [OF assms(1) start_sent assms(4,5)])
  ultimately show ?thesis using assms(2,3) by (simp add: all_shown_def shown_ok_def all_sent_def undisturbed_def input_ok_def)
qed

theorem client_session_streams_witness:
  "\<exists>s pieces. client_rounds demo_client demo_typing (client_start demo_client Read_again demo_channels) = Inr s \<and> concat pieces = [97, 98] \<and>
     filter stdin_side (cl_sent s) = map (\<lambda>d. (SSH_CMSG_STDIN_DATA, [F_string d])) pieces @ [(SSH_CMSG_EOF, [])]"
proof -
  from demo_client_rounds obtain s where s: "client_rounds demo_client demo_typing (client_start demo_client Read_again demo_channels) = Inr s"
    "cl_escapes s = []" "cl_accepted s = [97, 98]" "cl_stdin s = []" "cl_stdin_eof s" by blast
  have "26 \<notin> set (cl_escapes s)" "38 \<notin> set (cl_escapes s)" "cc_stdin demo_client \<noteq> cc_connection_in demo_client"
    using s(2) by (simp_all add: demo_client_def)
  note client_session_streams [OF s(1) this(1,2) demo_apart this(3)]
  moreover have "c_sent demo_channels = []" by (simp add: channel_statics_def)
  ultimately show ?thesis using s by auto
qed

text \<open>C15: Every text can be typed: when the escape character is typed twice at the beginning of a line and once elsewhere, exactly the
  text is accepted for the server and no command is obeyed, however the characters are distributed over the reads. (The
  escape character must not be one of the five command characters.)\<close>

theorem protected_text_arrives:
  assumes "concat bss = protect esc True text_typed" and "cc_escape_char cfg = uint esc" and "esc \<notin> {46, 26, 38, 63, 35}"
    and "\<not> cl_escape_pending s" and "cl_last_was_cr s"
  shows "\<exists>s'. type_in cfg env bss s = Inr s' \<and> cl_accepted s' = cl_accepted s @ text_typed \<and> cl_stdin s' = cl_stdin s @ text_typed \<and>
    cl_escapes s' = cl_escapes s \<and> \<not> cl_escape_pending s' \<and> cl_quit s' = cl_quit s"
proof -
  obtain cr' where "unprotect esc False True (concat bss) = Some (False, cr', text_typed)"
    using unprotect_protect [of esc True text_typed] assms(1) by auto
  then have "type_in cfg env bss s = Inr (typed_result False cr' text_typed s)"
    using assms(4,5) by (intro type_in_unprotect [OF assms(2,3)]) simp
  then show ?thesis by (simp add: typed_result_def)
qed

theorem protected_text_arrives_witness:
  "\<exists>s'. type_in demo_client (demo_client_env [] []) [[126], [126, 97, 10, 126], [126, 126]] (client_start demo_client Read_again demo_channels) = Inr s' \<and>
     cl_accepted s' = [126, 97, 10, 126, 126]"
proof -
  have "concat [[126], [126, 97, 10, 126], [126, 126]] = protect 126 True [126, 97, 10, 126, 126]" by simp
  from protected_text_arrives [OF this, of demo_client "client_start demo_client Read_again demo_channels" "demo_client_env [] []"] show ?thesis
    by (auto simp: client_start_def client_check_initial_eof_on_stdin_def demo_client_def)
qed

text \<open>C40: A typed character can be replaced by another: when the escape character was the last of one read and the next read brings an
  ordinary character and another one, the two characters that are put back are built in the buffer that is still being read, so that the
  second character is lost and the first one sent twice.\<close>

theorem escape_overwrites_next_character:
  assumes "cl_escape_pending s" and "c \<notin> {46, 26, 38, 63, 35}" and "uint c \<noteq> cc_escape_char cfg"
  shows "\<exists>s'. client_process_chars cfg env 0 2 [c, d] s = Inr s' \<and>
    cl_accepted s' = cl_accepted s @ [of_int (cc_escape_char cfg), c, c]"
  using assms
  by (simp add: numeral_2_eq_2 client_process_char_def client_escape_def client_normal_char_def overwrite_def accept_input_def Let_def)

theorem escape_overwrites_next_character_witness:
  "\<exists>s'. client_process_chars demo_client (demo_client_env [] []) 0 2 [97, 98]
       ((client_start demo_client Read_again demo_channels)\<lparr>cl_escape_pending := True\<rparr>) = Inr s' \<and> cl_accepted s' = [126, 97, 97]"
  using escape_overwrites_next_character [of "(client_start demo_client Read_again demo_channels)\<lparr>cl_escape_pending := True\<rparr>" 97 demo_client
      "demo_client_env [] []" 98]
  by (simp add: demo_client_def client_start_def client_check_initial_eof_on_stdin_def)

text \<open>Escapes are obeyed in the middle of a line, although the program tells the user that they are recognised only after a
  newline: after the escape character and an ordinary character at the beginning of a line, the escape character is special
  again, and with a dot it ends the session.\<close>

theorem escape_within_a_line:
  assumes "cl_last_was_cr s" and "\<not> cl_escape_pending s" and "cc_escape_char cfg = uint esc" and "c \<notin> {46, 26, 38, 63, 35, esc}"
  shows "\<exists>s'. type_in cfg env [[esc], [c], [esc], [46]] s = Inr s' \<and> cl_quit s' \<and> cl_accepted s' = cl_accepted s @ [esc, c]"
proof -
  have "uint c \<noteq> uint esc" using assms(4) by (simp add: word_uint_eq_iff)
  with assms show ?thesis
    by (simp add: client_process_char_def client_escape_def client_normal_char_def accept_input_def Let_def notice_def show_text_def)
qed

theorem escape_within_a_line_witness:
  "\<exists>s'. type_in demo_client (demo_client_env [] []) [[126], [97], [126], [46]] (client_start demo_client Read_again demo_channels) = Inr s' \<and>
     cl_quit s' \<and> cl_accepted s' = [126, 97]"
  using escape_within_a_line [of "client_start demo_client Read_again demo_channels" demo_client 126 97 "demo_client_env [] []"]
  by (simp add: demo_client_def client_start_def client_check_initial_eof_on_stdin_def)

end
