(* ===== verification/Spec2Isabelle.thy ===== *)
theory Spec2Isabelle
  imports MpAux Match PacketLife ChannelPipe Randoms TtyModes AuthFile AuthRsa AgentTalk
    AuthRhosts ServerRun Sessions
begin

text \<open>
  A verification library for the SSH 1.2 implementation in \<^verbatim>\<open>src/\<close> (protocol version 1: client, server, agent).

  \<^bold>\<open>The program and its parts.\<close> A client and a server exchange typed packets over one connection. A packet is built
  in a buffer (\<^verbatim>\<open>buffer.c\<close>, \<^verbatim>\<open>bufaux.c\<close>), compressed (\<^verbatim>\<open>compress.c\<close> around zlib), checksummed
  (\<^verbatim>\<open>crc32.c\<close>), encrypted (\<^verbatim>\<open>cipher.c\<close> over \<^verbatim>\<open>des.c\<close>, \<^verbatim>\<open>idea.c\<close>, \<^verbatim>\<open>blowfish.c\<close>,
  \<^verbatim>\<open>arcfour.c\<close>) and written (\<^verbatim>\<open>packet.c\<close>); the receiver also runs the detector of
  \<^verbatim>\<open>deattack.c\<close>. Over the packets run the channels of forwarded connections (\<^verbatim>\<open>newchannels.c\<close>) and the session
  itself (\<^verbatim>\<open>serverloop.c\<close>, \<^verbatim>\<open>clientloop.c\<close>). Users and hosts are authenticated by keys and by
  files (\<^verbatim>\<open>auth-rsa.c\<close>, \<^verbatim>\<open>auth-rhosts.c\<close>, \<^verbatim>\<open>auth-rh-rsa.c\<close>, \<^verbatim>\<open>hostfile.c\<close>, \<^verbatim>\<open>authfile.c\<close>); keys are
  made and used by \<^verbatim>\<open>rsa.c\<close> and \<^verbatim>\<open>rsaglue.c\<close> with randomness from \<^verbatim>\<open>randoms.c\<close>, and kept by the
  agent (\<^verbatim>\<open>ssh-agent.c\<close>, spoken to by \<^verbatim>\<open>authfd.c\<close>).

  \<^bold>\<open>Conventions.\<close> \<open>Prelude\<close> holds the result type \<open>res\<close>, a failure or a value, with its
  \<open>rbind\<close>: \<open>Fatal\<close>, \<open>Disconnect\<close> and \<open>Assertion\<close> are the program's own ends, \<open>Undefined\<close> is what C leaves
  undefined, \<open>Diverges\<close> a call that never returns. Machine integers are words of their width where the code's arithmetic
  can wrap; multiple-precision integers are naturals. A structure of the code is a record with the code's field names behind a
  short prefix, and an operation takes the state and returns it changed. What the operating system, the random source,
  zlib and the other side answer are arguments. Some records also have history fields (what was sent, read
  or written); their theories say which.

  \<^bold>\<open>Theories and code.\<close>
  \<^item> \<open>GetPut\<close>, \<open>Buffer\<close>, \<open>Bufaux\<close>: byte order macros, buffers with their 32 bit sizes, typed fields. The locale
    \<open>fifo\<close> of \<open>Buffer\<close> states what users of a buffer rely on; it is interpreted by the
    buffer of the code (\<open>bf\<close>) and by plain byte lists (\<open>bq\<close>), which is why later theories may use lists. A run of buffer
    operations refines an unbounded queue.
  \<^item> \<open>Crc32\<close>, \<open>Md5\<close>, \<open>MpAux\<close>, \<open>Deattack\<close>, \<open>Match\<close>: equivalence of the optimised routines with reference
    definitions (polynomial division, RFC 1321, all pairs of blocks, wildcard matching).
  \<^item> \<open>CipherModes\<close> (locales \<open>block_cipher\<close> and \<open>duplex\<close>), \<open>Des\<close>, \<open>Idea\<close>, \<open>Blowfish\<close>, \<open>Arcfour\<close>,
    \<open>Cipher\<close>: DES, triple DES, Blowfish, arcfour and the cipher layer over all of them are interpretations of \<open>duplex\<close>, a
    sender and a receiver whose states agree; the conversation lemma is proved once in the locale.
  \<^item> \<open>Compress\<close>, \<open>Packet\<close>, \<open>PacketRound\<close>, \<open>Peers\<close>, \<open>PacketLife\<close>: the packet layer, its round trip through all
    layers, whole conversations under any cutting of the byte stream, and its ends (draining, disconnect, errors).
  \<^item> \<open>Channels\<close>, \<open>Forwarding\<close>: the channel array and its operations, X11 and agent forwarding. \<open>ChannelInv\<close>,
    \<open>ChannelRun\<close>, \<open>ChannelSystem\<close>: the invariant, its preservation, the step relation of the layer, its reachable states and
    what they send. \<open>ChannelSafety\<close>: checks against the other side. \<open>ChannelDemo\<close>: concrete states for witnesses.
    \<open>ChannelPipe\<close>: two layers joined, a forwarded connection refines a byte stream.
  \<^item> \<open>ServerLoop\<close>, \<open>ServerRun\<close>, \<open>ClientLoop\<close>, \<open>ClientRun\<close>, \<open>Sessions\<close>: the two session loops, invariants on their
    streams, escapes, and both joined from the program's output to the user's terminal.
  \<^item> \<open>ModArith\<close>, \<open>SmallPrimes\<close>, \<open>Rsa\<close>, \<open>RsaGlue\<close>, \<open>Randoms\<close>: prime search, key generation, key operations,
    padding, the random pool.
  \<^item> \<open>HostFile\<close>, \<open>AuthFile\<close>, \<open>AuthRsa\<close>, \<open>AuthRhosts\<close>: known hosts, key files, authentication by key and by host.
  \<^item> \<open>Agent\<close>, \<open>AgentClient\<close>, \<open>AgentTalk\<close>: the agent, its clients, and both joined through the locale \<open>agent_link\<close>,
    interpreted on the two models; the agent refines a finite map from moduli to identities.
  \<^item> \<open>TtyModes\<close>: terminal modes on the wire.

  \<^bold>\<open>What the lemmas show.\<close> For each component: that well-formed states stay well-formed, what each operation does on every branch
  including its errors, and the contract its users rely on. The properties of the manifest stand at the ends of
  their theories after a block with their number. Several of them state faults of the code as theorems (a call that does not return, an
  aborted assertion, options kept after a refused key, typed characters lost); they are about the code as it is.

  \<^bold>\<open>Loops and bounds.\<close> Loops are structural, have a termination proof, or are partial functions whose value is \<open>None\<close> when they do
  not return (the growth of a buffer, the loops around zlib, the search for primes and random bytes, the hash probe, the restart
  in \<^verbatim>\<open>packet_read_poll\<close>); theorems about those say when they return. There is no fuel: where the code's loop is
  driven by the outside (reads, writes and \<^verbatim>\<open>select\<close>, the rounds of a session, packets that arrive), the list of what the
  outside answers bounds the run, and a run whose list is too short is reported as not finished (\<open>None\<close> or \<open>Diverges\<close>), never as a
  result. Numeric bounds (256 kilobytes for a string or packet, 8192 bytes for a channel's read buffer, 16 bits for the length of a
  number) are those of the code.

  \<^bold>\<open>Not modelled.\<close> The programs around these parts (\<^verbatim>\<open>ssh.c\<close>, \<^verbatim>\<open>sshd.c\<close>, \<^verbatim>\<open>sshconnect.c\<close> but for
  \<^verbatim>\<open>respond_to_rsa_challenge\<close>, \<^verbatim>\<open>scp.c\<close>, \<^verbatim>\<open>ssh-keygen.c\<close>, \<^verbatim>\<open>ssh-add.c\<close> but for its listing loop): command lines, process
  control, sockets. Configuration files (\<^verbatim>\<open>readconf.c\<close>, \<^verbatim>\<open>servconf.c\<close>), Kerberos and passwords: tables
  and system libraries. System glue: logging, terminals, privileges of file access. zlib and the primality test of gmp are
  parameters with their documented behaviour as hypotheses; the rest of gmp is arithmetic on naturals. Debug and log messages, the clearing of
  memory and the code for platforms not chosen (RSAREF, sgtty, ASM) are left out.
\<close>

end
